(* ===== verification/Prelude.thy ===== *)
theory Prelude
  imports "HOL-Library.Word" "HOL-Library.Monad_Syntax"
begin

unbundle bit_operations_syntax

text \<open>
  What every component shares: the machine types of the C code, the outcome of an
  operation that can abort, the memory primitives (\<open>memcpy\<close>, \<open>memset\<close>) with their bounds
  checks, C strings, decimal rendering, and the collections of facts that the component
  proofs hand to the simplifier.

  An operation of type \<open>'a option\<close> returns \<open>None\<close> where the C program does not go on:
  a failed \<open>assert\<close>, a read or write outside a buffer, a null dereference. A C function
  that itself returns an error code or NULL has that as an ordinary value, so an operation
  that can do both has type \<open>'a option option\<close>.
\<close>

section \<open>Machine types and automation\<close>

type_synonym u8 = "8 word"
type_synonym u16 = "16 word"
type_synonym u32 = "32 word"
type_synonym u64 = "64 word"
type_synonym bytes = "8 word list"

named_theorems crash_simps \<open>rewriting of the crash monad\<close>
named_theorems inv_intros \<open>operations that keep a component's invariant\<close>
named_theorems inv_dests \<open>what a component's invariant gives\<close>

definition assert_c :: "bool \<Rightarrow> unit option" where
  "assert_c b = (if b then Some () else None)"

lemma assert_c_Some [simp]: "assert_c b = Some u \<longleftrightarrow> b"
  by (simp add: assert_c_def)

lemma assert_c_None [simp]: "assert_c b = None \<longleftrightarrow> \<not> b"
  by (simp add: assert_c_def)

lemma bind_assert_c [simp]: "Option.bind (assert_c b) f = (if b then f () else None)"
  by (simp add: assert_c_def)

lemmas [crash_simps] = Option.bind_eq_Some_conv Option.bind_eq_None_conv

lemma bind_Some_cong:
  assumes "m = Some x" and "f x = y"
  shows "Option.bind m f = y"
  using assms by simp

lemma bind_SomeE:
  assumes "Option.bind m f = Some y"
  obtains x where "m = Some x" and "f x = Some y"
  using assms by (cases m) auto

section \<open>Arithmetic of \<open>int\<close>\<close>

text \<open>Undefined when the result is out of the range of a 32 bit \<open>int\<close>.\<close>

definition int_fits :: "int \<Rightarrow> bool" where
  "int_fits x \<longleftrightarrow> - (2 ^ 31) \<le> x \<and> x < 2 ^ 31"

definition int_mult :: "int \<Rightarrow> int \<Rightarrow> int option" where
  "int_mult x y = do { assert_c (int_fits (x * y)); Some (x * y) }"

definition int_plus :: "int \<Rightarrow> int \<Rightarrow> int option" where
  "int_plus x y = do { assert_c (int_fits (x + y)); Some (x + y) }"

section \<open>Buffers\<close>

text \<open>
  \<open>put_at\<close> is \<open>memcpy(buf + off, src, |src|)\<close> into a buffer and \<open>get_at\<close> the read of
  \<open>n\<close> bytes at an offset; both are undefined (\<open>None\<close>) outside the buffer.
\<close>

definition put_at :: "'a list \<Rightarrow> nat \<Rightarrow> 'a list \<Rightarrow> 'a list option" where
  "put_at buf off src =
     (if off + length src \<le> length buf
      then Some (take off buf @ src @ drop (off + length src) buf) else None)"

definition get_at :: "'a list \<Rightarrow> nat \<Rightarrow> nat \<Rightarrow> 'a list option" where
  "get_at buf off n = (if off + n \<le> length buf then Some (take n (drop off buf)) else None)"

lemma put_at_length: "put_at buf off src = Some b \<Longrightarrow> length b = length buf"
  by (auto simp: put_at_def split: if_splits)

lemma put_at_empty [simp]: "off \<le> length buf \<Longrightarrow> put_at buf off [] = Some buf"
  by (simp add: put_at_def)

lemma put_at_prefix:
  assumes "put_at buf off src = Some b" and "take off buf = pre" and "off \<le> length buf"
  shows "take (off + length src) b = pre @ src"
  using assms by (auto simp: put_at_def split: if_splits)

text \<open>Filling a fresh buffer from the left.\<close>

lemma put_at_fill:
  assumes "off = length pre" and "length src \<le> n"
  shows "put_at (pre @ replicate n x) off src = Some (pre @ src @ replicate (n - length src) x)"
  using assms by (simp add: put_at_def)

lemma get_at_all: "get_at buf 0 (length buf) = Some buf"
  by (simp add: get_at_def)

lemma get_at_length: "get_at buf off n = Some b \<Longrightarrow> length b = n"
  by (auto simp: get_at_def split: if_splits)

lemma and_byte_mask: "(b::u8) AND 0xff = b"
proof -
  have "(0xff::u8) = - 1" by simp
  then show ?thesis by (simp only: bit.conj_one_right)
qed

text \<open>The masks of base-128 digits.\<close>

lemma bits_7F:
  "bit (0x7F :: u8) n \<longleftrightarrow> n < 7" "bit (0x7F :: u64) n \<longleftrightarrow> n < 7" "bit (0x80 :: u64) n \<longleftrightarrow> n = 7"
  "bit (0x80 :: u8) n \<longleftrightarrow> n = 7" "bit (0x7F :: int) n \<longleftrightarrow> n < 7" "bit (0x80 :: int) n \<longleftrightarrow> n = 7"
proof -
  have "(0x7F :: int) = mask 7" "(0x80 :: int) = push_bit 7 1" by (simp_all add: mask_eq_exp_minus_1)
  then show "bit (0x7F :: int) n \<longleftrightarrow> n < 7" "bit (0x80 :: int) n \<longleftrightarrow> n = 7"
    by (simp_all only: bit_mask_iff bit_push_bit_iff) (auto simp: bit_1_iff)
  have "(0x7F :: u8) = mask 7" "(0x7F :: u64) = mask 7" by (simp_all add: mask_eq_decr_exp)
  then show "bit (0x7F :: u8) n \<longleftrightarrow> n < 7" "bit (0x7F :: u64) n \<longleftrightarrow> n < 7"
    by (simp_all only: bit_mask_iff) (auto simp: possible_bit_def)
  have "(0x80 :: u8) = push_bit 7 1" "(0x80 :: u64) = push_bit 7 1" by simp_all
  then show "bit (0x80 :: u64) n \<longleftrightarrow> n = 7" "bit (0x80 :: u8) n \<longleftrightarrow> n = 7"
    by (simp_all only: bit_push_bit_iff) (auto simp: possible_bit_def bit_1_iff)
qed

section \<open>C strings\<close>

text \<open>
  A C string is its characters without the terminator, as a \<open>string\<close>. The bytes that
  travel on the wire are \<open>8 word\<close>s: \<open>to_bytes\<close> is what \<open>memcpy\<close> of a string writes and
  \<open>to_string\<close> reads bytes back as characters.
\<close>

definition byte_of :: "char \<Rightarrow> u8" where
  "byte_of c = of_char c"

definition chr_of :: "u8 \<Rightarrow> char" where
  "chr_of b = char_of (unat b)"

definition to_bytes :: "string \<Rightarrow> bytes" where
  "to_bytes s = map byte_of s"

definition to_string :: "bytes \<Rightarrow> string" where
  "to_string bs = map chr_of bs"

lemma byte_of_nat: "byte_of c = of_nat (of_char c :: nat)"
  by (cases c) (simp add: byte_of_def)

lemma chr_of_byte_of [simp]: "chr_of (byte_of c) = c"
proof -
  have "(of_char c :: nat) < 256"
    using nat_of_char_less_256 .
  then have "unat (of_nat (of_char c) :: u8) = of_char c"
    by (simp add: unat_of_nat)
  then show ?thesis
    by (simp add: chr_of_def byte_of_nat)
qed

lemma byte_of_chr_of [simp]: "byte_of (chr_of b) = b"
proof -
  have "unat b < 256"
    using unsigned_less [of b] by simp
  then show ?thesis
    by (simp add: chr_of_def byte_of_nat)
qed

lemma to_string_to_bytes [simp]: "to_string (to_bytes s) = s"
  by (simp add: to_string_def to_bytes_def comp_def)

lemma to_bytes_to_string [simp]: "to_bytes (to_string bs) = bs"
  by (simp add: to_string_def to_bytes_def comp_def)

lemma length_to_bytes [simp]: "length (to_bytes s) = length s"
  by (simp add: to_bytes_def)

lemma length_to_string [simp]: "length (to_string bs) = length bs"
  by (simp add: to_string_def)

lemma to_bytes_append [simp]: "to_bytes (s @ t) = to_bytes s @ to_bytes t"
  by (simp add: to_bytes_def)

lemma to_bytes_Nil [simp]: "to_bytes [] = []"
  by (simp add: to_bytes_def)

end
