(* ===== verification/Pkg.thy ===== *)
theory Pkg
  imports Prelude
begin

text \<open>
  The package layer, \<open>src/tr/uv/pr_pkg.c\<close> and \<open>pr_pkg.h\<close>: a package is one type byte, three
  bytes of big-endian body length and the body. \<open>pc_pkg_parser_feed\<close> collects packages from
  the chunks that the socket delivers and hands each complete one to a handler;
  \<open>pc_pkg_encode\<close> builds the package that is written out.

  Buffers are byte lists, a null \<open>pkg_buf\<close> is \<open>None\<close>. Every \<open>memcpy\<close> is bounds checked
  (\<open>put_at\<close>, \<open>get_at\<close>), so a result \<open>Some\<close> says that no byte outside a buffer was touched.
  \<open>size_t\<close> values are \<open>nat\<close>: under \<open>pkg_parser_ok\<close> no subtraction of the parser goes below
  zero and no sum passes \<open>2^24 + 4\<close>, so nothing wraps. The handler is an argument: it gets
  the parser (which the transport's handler may reset) and a state of its own.
\<close>

section \<open>Constants and the parser\<close>

definition PC_PKG_HANDSHAKE :: u8 where [simp]: "PC_PKG_HANDSHAKE = 1"
definition PC_PKG_HANDSHAKE_ACK :: u8 where [simp]: "PC_PKG_HANDSHAKE_ACK = 2"
definition PC_PKG_HEARBEAT :: u8 where [simp]: "PC_PKG_HEARBEAT = 3"
definition PC_PKG_DATA :: u8 where [simp]: "PC_PKG_DATA = 4"
definition PC_PKG_KICK :: u8 where [simp]: "PC_PKG_KICK = 5"

definition PC_PKG_BODY_LEN_BYTES :: nat where [simp]: "PC_PKG_BODY_LEN_BYTES = 3"
definition PC_PKG_HEAD_BYTES :: nat where [simp]: "PC_PKG_HEAD_BYTES = 4"
definition PC_PKG_MAX_BODY_BYTES :: nat where [simp]: "PC_PKG_MAX_BODY_BYTES = 2 ^ 24"

datatype pc_pkg_parser_state = PC_PKG_HEAD | PC_PKG_BODY

record pc_pkg_parser =
  head_buf :: bytes
  head_offset :: nat
  head_size :: nat
  pkg_buf :: "bytes option"
  pkg_offset :: nat
  pkg_size :: nat
  pkg_state :: pc_pkg_parser_state

type_synonym 's pc_on_pkg_handler =
  "u8 \<Rightarrow> bytes option \<Rightarrow> nat \<Rightarrow> pc_pkg_parser \<Rightarrow> 's \<Rightarrow> (pc_pkg_parser \<times> 's) option"

text \<open>\<open>pc_pkg_parser_init\<close> leaves \<open>head_buf\<close> and \<open>pkg_buf\<close> as the zeroed transport has them.\<close>

definition pc_pkg_parser_init :: "pc_pkg_parser \<Rightarrow> pc_pkg_parser" where
  "pc_pkg_parser_init p = p\<lparr>head_size := PC_PKG_HEAD_BYTES, head_offset := 0, pkg_offset := 0,
     pkg_size := 0, pkg_state := PC_PKG_HEAD\<rparr>"

definition pc_pkg_parser_reset :: "pc_pkg_parser \<Rightarrow> pc_pkg_parser" where
  "pc_pkg_parser_reset p = p\<lparr>head_offset := 0, pkg_buf := None, pkg_offset := 0,
     pkg_size := 0, pkg_state := PC_PKG_HEAD\<rparr>"

definition zeroed_parser :: pc_pkg_parser where
  "zeroed_parser = \<lparr>head_buf = replicate 4 0, head_offset = 0, head_size = 0, pkg_buf = None,
     pkg_offset = 0, pkg_size = 0, pkg_state = PC_PKG_HEAD\<rparr>"

section \<open>Parsing\<close>

text \<open>The length loop: shift by eight and add, over the bytes after the type.\<close>

definition pkg_body_len :: "bytes \<Rightarrow> nat" where
  "pkg_body_len hb = fold (\<lambda>i n. n * 256 + unat (hb ! i)) [1..<PC_PKG_HEAD_BYTES] 0"

definition pc__parse_pkg_head ::
    "pc_pkg_parser \<Rightarrow> bytes \<Rightarrow> nat \<Rightarrow> (pc_pkg_parser \<times> nat) option" where
  "pc__parse_pkg_head p data offset =
    (let need_len = head_size p - head_offset p;
         data_len = length data - offset;
         len = min need_len data_len
     in do {
       src \<leftarrow> get_at data offset len;
       hb \<leftarrow> put_at (head_buf p) (head_offset p) src;
       let p1 = p\<lparr>head_buf := hb, head_offset := head_offset p + len\<rparr>;
       let pkg_len = pkg_body_len hb;
       Some (if head_offset p1 = head_size p1
             then p1\<lparr>pkg_buf := (if pkg_len > 0 then Some (replicate pkg_len 0) else pkg_buf p1),
                     pkg_offset := 0, pkg_size := pkg_len, pkg_state := PC_PKG_BODY\<rparr>
             else p1, offset + len)
     })"

text \<open>\<open>memcpy\<close> into \<open>pkg_buf\<close>: a null buffer takes no byte.\<close>

definition put_pkg_buf :: "bytes option \<Rightarrow> nat \<Rightarrow> bytes \<Rightarrow> bytes option option" where
  "put_pkg_buf buf off src =
     (case buf of None \<Rightarrow> if src = [] then Some None else None
      | Some b \<Rightarrow> map_option Some (put_at b off src))"

definition pc__parse_pkg_body ::
    "'s pc_on_pkg_handler \<Rightarrow> pc_pkg_parser \<Rightarrow> 's \<Rightarrow> bytes \<Rightarrow> nat \<Rightarrow> (pc_pkg_parser \<times> 's \<times> nat) option"
  where
  "pc__parse_pkg_body h p s data offset =
    (let need_len = pkg_size p - pkg_offset p;
         data_len = length data - offset;
         len = min need_len data_len
     in do {
       src \<leftarrow> get_at data offset len;
       buf \<leftarrow> put_pkg_buf (pkg_buf p) (pkg_offset p) src;
       let p1 = p\<lparr>pkg_buf := buf, pkg_offset := pkg_offset p + len\<rparr>;
       if pkg_offset p1 = pkg_size p1
       then do {
         (p2, s2) \<leftarrow> h (head_buf p1 ! 0) (pkg_buf p1) (pkg_size p1) p1 s;
         Some (pc_pkg_parser_reset p2, s2, offset + len)
       }
       else Some (p1, s, offset + len)
     })"

partial_function (option) pkg_feed_loop ::
    "'s pc_on_pkg_handler \<Rightarrow> pc_pkg_parser \<Rightarrow> 's \<Rightarrow> bytes \<Rightarrow> nat \<Rightarrow> (pc_pkg_parser \<times> 's) option"
  where
  "pkg_feed_loop h p s data offset =
    (if offset < length data then do {
       (p1, o1) \<leftarrow> (if pkg_state p = PC_PKG_HEAD then pc__parse_pkg_head p data offset
                     else Some (p, offset));
       (p2, s2, o2) \<leftarrow> (if pkg_state p1 = PC_PKG_BODY then pc__parse_pkg_body h p1 s data o1
                         else Some (p1, s, o1));
       pkg_feed_loop h p2 s2 data o2
     } else Some (p, s))"

declare pkg_feed_loop.simps [code]

definition pc_pkg_parser_feed ::
    "'s pc_on_pkg_handler \<Rightarrow> pc_pkg_parser \<Rightarrow> 's \<Rightarrow> bytes \<Rightarrow> (pc_pkg_parser \<times> 's) option" where
  "pc_pkg_parser_feed h p s data = pkg_feed_loop h p s data 0"

section \<open>Encoding\<close>

text \<open>\<open>None\<close> is the failure value \<open>{base = NULL, len = -1}\<close> of an oversized body.\<close>

definition pkg_put_len :: "bytes \<Rightarrow> nat \<Rightarrow> bytes" where
  "pkg_put_len buf n = fst (fold (\<lambda>i (b, m). (b[(PC_PKG_HEAD_BYTES - 1) - i := of_nat m], m div 256))
                          [0..<PC_PKG_BODY_LEN_BYTES] (buf, n))"

definition pc_pkg_encode :: "u8 \<Rightarrow> bytes \<Rightarrow> bytes option" where
  "pc_pkg_encode ty data =
    (let len = length data in
     if len > PC_PKG_MAX_BODY_BYTES - 1 then None
     else let sz = PC_PKG_HEAD_BYTES + len;
              base = (replicate sz 0)[0 := ty AND 0xff]
          in if len \<noteq> 0 then put_at (pkg_put_len base len) PC_PKG_HEAD_BYTES data
             else Some base)"

text \<open>For evaluation: the limit compared as an integer.\<close>

lemma pc_pkg_encode_code [code]:
  "pc_pkg_encode ty data =
    (let len = length data in
     if int len > 16777215 then None
     else let sz = PC_PKG_HEAD_BYTES + len;
              base = (replicate sz 0)[0 := ty AND 0xff]
          in if len \<noteq> 0 then put_at (pkg_put_len base len) PC_PKG_HEAD_BYTES data
             else Some base)"
  by (simp add: pc_pkg_encode_def Let_def)

section \<open>Specification: packages of a byte stream\<close>

definition be24 :: "bytes \<Rightarrow> nat" where
  "be24 hb = (unat (hb ! 1) * 256 + unat (hb ! 2)) * 256 + unat (hb ! 3)"

text \<open>
  The packages that are complete in a stream, and the bytes after the last of them.
\<close>

function split_pkgs :: "bytes \<Rightarrow> (u8 \<times> bytes) list \<times> bytes" where
  "split_pkgs bs =
     (if length bs < 4 \<or> length bs < 4 + be24 bs then ([], bs)
      else case split_pkgs (drop (4 + be24 bs) bs) of
             (ps, r) \<Rightarrow> ((bs ! 0, take (be24 bs) (drop 4 bs)) # ps, r))"
  by pat_completeness auto
termination
  by (relation "measure length") auto

declare split_pkgs.simps [simp del]

text \<open>The packages handed to a state transformer one after the other.\<close>

fun deliver :: "(u8 \<Rightarrow> bytes \<Rightarrow> 's \<Rightarrow> 's option) \<Rightarrow> (u8 \<times> bytes) list \<Rightarrow> 's \<Rightarrow> 's option" where
  "deliver f [] s = Some s"
| "deliver f ((ty, b) # ps) s = Option.bind (f ty b s) (deliver f ps)"

text \<open>The parser invariant, and the bytes of the unfinished package that it holds.\<close>

definition pkg_parser_ok :: "pc_pkg_parser \<Rightarrow> bool" where
  "pkg_parser_ok p \<longleftrightarrow> length (head_buf p) = 4 \<and> head_size p = 4 \<and>
     (case pkg_state p of
        PC_PKG_HEAD \<Rightarrow> head_offset p < 4 \<and> pkg_buf p = None \<and> pkg_offset p = 0 \<and> pkg_size p = 0
      | PC_PKG_BODY \<Rightarrow> head_offset p = 4 \<and> pkg_size p = be24 (head_buf p) \<and>
          pkg_offset p < pkg_size p \<and>
          (\<exists>b. pkg_buf p = Some b \<and> length b = pkg_size p))"

definition pkg_pending :: "pc_pkg_parser \<Rightarrow> bytes" where
  "pkg_pending p = take (head_offset p) (head_buf p) @
     (case pkg_buf p of None \<Rightarrow> [] | Some b \<Rightarrow> take (pkg_offset p) b)"

lemma pkg_body_len_be24: "pkg_body_len hb = be24 hb"
proof -
  have "[1..<PC_PKG_HEAD_BYTES] = [1, 2, 3]"
    by (simp add: upt_conv_Cons)
  then show ?thesis
    by (simp add: pkg_body_len_def be24_def)
qed

lemma be24_less: "be24 hb < 2 ^ 24"
proof -
  have "unat (hb ! i) < 256" for i
    using unsigned_less [of "hb ! i"] by simp
  from this [of 1] this [of 2] this [of 3] show ?thesis
    by (simp add: be24_def)
qed

lemma be24_take: "4 \<le> n \<Longrightarrow> 4 \<le> length bs \<Longrightarrow> be24 (take n bs) = be24 bs"
  by (simp add: be24_def)

lemma be24_append: "length hb = 4 \<Longrightarrow> be24 (hb @ bs) = be24 hb"
  by (simp add: be24_def nth_append)

lemma split_pkgs_short: "length bs < 4 \<Longrightarrow> split_pkgs bs = ([], bs)"
  by (subst split_pkgs.simps) simp

lemma split_pkgs_part: "length hb = 4 \<Longrightarrow> length b < be24 hb \<Longrightarrow> split_pkgs (hb @ b) = ([], hb @ b)"
  by (subst split_pkgs.simps) (simp add: be24_append)

lemma split_pkgs_full:
  "length hb = 4 \<Longrightarrow> length b = be24 hb \<Longrightarrow>
   split_pkgs (hb @ b @ rest) = (case split_pkgs rest of (ps, r) \<Rightarrow> ((hb ! 0, b) # ps, r))"
  by (subst split_pkgs.simps) (simp add: be24_append nth_append)

lemma split_pkgs_full_sel:
  assumes "length hb = 4" "length b = be24 hb"
  shows "fst (split_pkgs (hb @ b @ rest)) = (hb ! 0, b) # fst (split_pkgs rest)"
    and "snd (split_pkgs (hb @ b @ rest)) = snd (split_pkgs rest)"
  using split_pkgs_full [OF assms] by (simp_all split: prod.splits)

lemma pending_incomplete: "pkg_parser_ok p \<Longrightarrow> split_pkgs (pkg_pending p) = ([], pkg_pending p)"
  by (auto simp: pkg_parser_ok_def pkg_pending_def split_pkgs_short split_pkgs_part
      split: pc_pkg_parser_state.splits)

lemma idle_parser_ok: "pkg_parser_ok (pc_pkg_parser_init zeroed_parser)"
  by (simp add: pkg_parser_ok_def pc_pkg_parser_init_def zeroed_parser_def)

lemma idle_parser_pending: "pkg_pending (pc_pkg_parser_init zeroed_parser) = []"
  by (simp add: pkg_pending_def pc_pkg_parser_init_def zeroed_parser_def)

lemma reset_ok:
  "length (head_buf p) = 4 \<Longrightarrow> head_size p = 4 \<Longrightarrow> pkg_parser_ok (pc_pkg_parser_reset p)"
  by (simp add: pkg_parser_ok_def pc_pkg_parser_reset_def)

lemma reset_pending: "pkg_pending (pc_pkg_parser_reset p) = []"
  by (simp add: pkg_pending_def pc_pkg_parser_reset_def)

lemma reset_fields [simp]:
  "head_buf (pc_pkg_parser_reset p) = head_buf p" "head_size (pc_pkg_parser_reset p) = head_size p"
  "pkg_state (pc_pkg_parser_reset p) = PC_PKG_HEAD" "pkg_buf (pc_pkg_parser_reset p) = None"
  "pc_pkg_parser_reset (pc_pkg_parser_reset p) = pc_pkg_parser_reset p"
  by (simp_all add: pc_pkg_parser_reset_def)

lemma pkg_parser_ok_reset: "pkg_parser_ok p \<Longrightarrow> pkg_parser_ok (pc_pkg_parser_reset p)"
  by (rule reset_ok) (simp_all add: pkg_parser_ok_def)

section \<open>The handler contract and the refinement\<close>

text \<open>
  What the parser needs of a handler: on a complete package it keeps its own invariant \<open>I\<close>, and
  whatever it does to the parser it keeps the header buffer's size (the parser is reset right
  after). What a handler sees of the parser is determined by the package (\<open>complete_pkg\<close>), so it
  acts on its own state as a function of the package (\<open>handled\<close>).
\<close>

definition be24_bytes :: "nat \<Rightarrow> bytes" where
  "be24_bytes n = [of_nat (n div 65536), of_nat (n div 256), of_nat n]"

lemma be24_encoded: "n < 2 ^ 24 \<Longrightarrow> be24 (ty # be24_bytes n) = n"
proof -
  assume n: "n < 2 ^ 24"
  have "n div 65536 = n div 256 div 256"
    by (simp add: div_mult2_eq [symmetric])
  then have "n = (n div 65536 * 256 + n div 256 mod 256) * 256 + n mod 256"
    by (simp only: div_mult_mod_eq)
  moreover have "n div 65536 < 256"
    using n by (simp add: less_mult_imp_div_less)
  ultimately show ?thesis
    by (simp add: be24_def be24_bytes_def unat_of_nat nth_Cons')
qed

lemma head_bytes:
  assumes "length hb = 4" and "be24 hb = n"
  shows "hb = hb ! 0 # be24_bytes n"
proof -
  obtain t x y z where hb: "hb = [t, x, y, z]"
    using assms(1) by (auto simp: numeral_eq_Suc length_Suc_conv)
  have small: "unat (w :: u8) < 256" for w
    using unsigned_less [of w] by simp
  have n: "n = (unat x * 256 + unat y) * 256 + unat z"
    using assms(2) by (simp add: hb be24_def)
  then have "n div 256 = unat x * 256 + unat y"
    using small [of z] by simp
  moreover from this have "n div 65536 = unat x"
    using small [of y] div_mult2_eq [of n 256 256] by simp
  moreover have "w = of_nat m" if "m mod 256 = unat w" for w :: u8 and m
    using that by (simp add: word_unat_eq_iff unat_of_nat)
  moreover have "n mod 256 = unat z" "(unat x * 256 + unat y) mod 256 = unat y" "unat x mod 256 = unat x"
    using small by (simp_all only: n mod_mult_self3 mod_less)
  ultimately have "n div 65536 = unat x" "n div 256 = unat x * 256 + unat y"
    "z = of_nat n" "y = of_nat (unat x * 256 + unat y)" "x = of_nat (unat x)" by blast+
  then show ?thesis
    by (simp only: hb be24_bytes_def nth_Cons_0)
qed

definition complete_pkg :: "u8 \<Rightarrow> bytes \<Rightarrow> pc_pkg_parser" where
  "complete_pkg ty b = \<lparr>head_buf = ty # be24_bytes (length b), head_offset = 4, head_size = 4,
     pkg_buf = (if b = [] then None else Some b), pkg_offset = length b, pkg_size = length b,
     pkg_state = PC_PKG_BODY\<rparr>"

definition handled :: "'s pc_on_pkg_handler \<Rightarrow> u8 \<Rightarrow> bytes \<Rightarrow> 's \<Rightarrow> 's option" where
  "handled h ty b s = map_option snd (h ty (pkg_buf (complete_pkg ty b)) (length b) (complete_pkg ty b) s)"

definition buf_bytes :: "bytes option \<Rightarrow> bytes" where
  "buf_bytes buf = (case buf of None \<Rightarrow> [] | Some b \<Rightarrow> b)"

lemma buf_bytes_simps [simp]: "buf_bytes None = []" "buf_bytes (Some b) = b"
  by (simp_all add: buf_bytes_def)

text \<open>The state between the two halves of an iteration: the head is complete.\<close>

definition body_ready :: "pc_pkg_parser \<Rightarrow> bytes \<Rightarrow> bool" where
  "body_ready p got \<longleftrightarrow> length (head_buf p) = 4 \<and> head_size p = 4 \<and> head_offset p = 4 \<and>
     pkg_state p = PC_PKG_BODY \<and> pkg_size p = be24 (head_buf p) \<and>
     pkg_offset p = length got \<and> length got \<le> pkg_size p \<and>
     (pkg_buf p = None \<and> pkg_size p = 0 \<or>
      0 < pkg_size p \<and> (\<exists>z. pkg_buf p = Some (got @ z) \<and> length (got @ z) = pkg_size p))"

lemma body_ready_of_ok:
  assumes "pkg_parser_ok p" "pkg_state p = PC_PKG_BODY"
  shows "\<exists>got. body_ready p got \<and> length got < pkg_size p \<and> pkg_pending p = head_buf p @ got"
proof -
  from assms obtain b where "pkg_buf p = Some b" "length b = pkg_size p" "pkg_offset p < pkg_size p"
    by (auto simp: pkg_parser_ok_def)
  with assms show ?thesis
    by (intro exI [of _ "take (pkg_offset p) b"])
      (auto simp: body_ready_def pkg_parser_ok_def pkg_pending_def
        intro!: exI [of _ "drop (pkg_offset p) b"])
qed

lemma head_partial:
  assumes "pkg_parser_ok p" "pkg_state p = PC_PKG_HEAD" "offset \<le> length data"
    and "length (drop offset data) < 4 - head_offset p"
  shows "\<exists>p'. pc__parse_pkg_head p data offset = Some (p', length data) \<and>
     pkg_parser_ok p' \<and> pkg_state p' = PC_PKG_HEAD \<and> pkg_pending p' = pkg_pending p @ drop offset data"
proof -
  let ?hb = "take (head_offset p) (head_buf p) @ drop offset data @
             drop (head_offset p + length (drop offset data)) (head_buf p)"
  have "pc__parse_pkg_head p data offset =
     Some (p\<lparr>head_buf := ?hb, head_offset := head_offset p + length (drop offset data)\<rparr>, length data)"
    using assms by (auto simp: pc__parse_pkg_head_def pkg_parser_ok_def get_at_def put_at_def Let_def min_def)
  then show ?thesis
    using assms by (auto simp: pkg_parser_ok_def pkg_pending_def)
qed

lemma head_complete:
  assumes "pkg_parser_ok p" "pkg_state p = PC_PKG_HEAD" "offset \<le> length data"
    and "need = 4 - head_offset p" "need \<le> length (drop offset data)"
  shows "\<exists>p'. pc__parse_pkg_head p data offset = Some (p', offset + need) \<and>
     body_ready p' [] \<and> head_buf p' = pkg_pending p @ take need (drop offset data)"
proof -
  let ?hb = "take (head_offset p) (head_buf p) @ take need (drop offset data)"
  have "pc__parse_pkg_head p data offset =
     Some (p\<lparr>head_buf := ?hb, head_offset := 4,
             pkg_buf := (if be24 ?hb > 0 then Some (replicate (be24 ?hb) 0) else None),
             pkg_offset := 0, pkg_size := be24 ?hb, pkg_state := PC_PKG_BODY\<rparr>, offset + need)"
    using assms
    by (auto simp: pc__parse_pkg_head_def pkg_parser_ok_def get_at_def put_at_def Let_def min_def
        pkg_body_len_be24)
  then show ?thesis
    using assms by (auto simp: pkg_parser_ok_def pkg_pending_def body_ready_def)
qed

locale pkg_sink =
  fixes h :: "'s pc_on_pkg_handler"
    and I :: "'s \<Rightarrow> bool"
  assumes sink_keeps: "I s \<Longrightarrow>
      h ty (pkg_buf (complete_pkg ty b)) (length b) (complete_pkg ty b) s = Some (p', s') \<Longrightarrow>
      I s' \<and> length (head_buf p') = 4 \<and> head_size p' = 4"
begin

lemma body_partial:
  assumes "body_ready p got" and "offset \<le> length data"
    and "length (drop offset data) < pkg_size p - length got"
  shows "\<exists>p'. pc__parse_pkg_body h p s data offset = Some (p', s, length data) \<and>
     pkg_parser_ok p' \<and> pkg_pending p' = head_buf p @ got @ drop offset data"
proof -
  from assms obtain z where z: "pkg_buf p = Some (got @ z)" "length (got @ z) = pkg_size p"
    by (auto simp: body_ready_def)
  let ?rest = "drop offset data"
  have put: "put_pkg_buf (pkg_buf p) (pkg_offset p) ?rest = Some (Some (got @ ?rest @ drop (length ?rest) z))"
    using assms z by (simp add: body_ready_def put_pkg_buf_def put_at_def)
  have "pc__parse_pkg_body h p s data offset =
     Some (p\<lparr>pkg_buf := Some (got @ ?rest @ drop (length ?rest) z),
             pkg_offset := length got + length ?rest\<rparr>, s, length data)"
    using assms put by (auto simp: body_ready_def pc__parse_pkg_body_def get_at_def Let_def min_def)
  then show ?thesis
    using assms z by (auto simp: body_ready_def pkg_parser_ok_def pkg_pending_def)
qed

lemma body_complete:
  assumes "I s" and "body_ready p got" and "offset \<le> length data"
    and "pkg_size p - length got \<le> length (drop offset data)"
    and "need = pkg_size p - length got"
  shows "case handled h (head_buf p ! 0) (got @ take need (drop offset data)) s of
      None \<Rightarrow> pc__parse_pkg_body h p s data offset = None
    | Some s' \<Rightarrow> \<exists>p'. pc__parse_pkg_body h p s data offset = Some (p', s', offset + need) \<and>
        I s' \<and> pkg_parser_ok p' \<and> pkg_pending p' = []"
proof -
  let ?new = "take need (drop offset data)"
  let ?b = "got @ ?new" and ?ty = "head_buf p ! 0"
  let ?p1 = "p\<lparr>pkg_buf := pkg_buf (complete_pkg ?ty ?b), pkg_offset := pkg_size p\<rparr>"
  have len: "length ?b = pkg_size p" "length ?new = need"
    using assms by (simp_all add: body_ready_def)
  have put: "put_pkg_buf (pkg_buf p) (pkg_offset p) ?new = Some (pkg_buf (complete_pkg ?ty ?b))"
  proof (cases "pkg_buf p")
    case None
    then have "pkg_size p = 0" using assms(2) by (auto simp: body_ready_def)
    then have "got = []" "?new = []" using len by auto
    with None show ?thesis by (simp add: put_pkg_buf_def complete_pkg_def)
  next
    case (Some z)
    then have "?b \<noteq> []" using assms(2) len by (auto simp: body_ready_def)
    then show ?thesis
      using Some assms len by (auto simp: body_ready_def put_pkg_buf_def put_at_def complete_pkg_def)
  qed
  have "head_buf p = ?ty # be24_bytes (length ?b)"
    by (rule head_bytes) (use assms(2) len in \<open>simp_all add: body_ready_def\<close>)
  then have p1: "?p1 = complete_pkg ?ty ?b"
    using assms(2) len(1) by (cases p) (simp add: complete_pkg_def body_ready_def)
  have body: "pc__parse_pkg_body h p s data offset =
     (case h ?ty (pkg_buf (complete_pkg ?ty ?b)) (length ?b) (complete_pkg ?ty ?b) s of None \<Rightarrow> None
      | Some (p2, s2) \<Rightarrow> Some (pc_pkg_parser_reset p2, s2, offset + need))"
    using assms(2-) put p1 len
    by (auto simp: pc__parse_pkg_body_def body_ready_def get_at_def Let_def min_def
        split: option.splits)
  show ?thesis
  proof (cases "h ?ty (pkg_buf (complete_pkg ?ty ?b)) (length ?b) (complete_pkg ?ty ?b) s")
    case (Some r)
    then obtain p2 s2 where r: "h ?ty (pkg_buf (complete_pkg ?ty ?b)) (length ?b) (complete_pkg ?ty ?b) s = Some (p2, s2)"
      by (cases r) simp
    have "handled h ?ty ?b s = Some s2" unfolding handled_def r by simp
    moreover have "pc__parse_pkg_body h p s data offset = Some (pc_pkg_parser_reset p2, s2, offset + need)"
      unfolding body r by simp
    ultimately show ?thesis
      using sink_keeps [OF assms(1) r] by (simp add: reset_ok reset_pending)
  qed (use body in \<open>simp add: handled_def\<close>)
qed

text \<open>
  The loop delivers exactly the packages that complete in what was pending and what is new,
  and keeps the rest pending.
\<close>

definition feed_spec :: "bytes \<Rightarrow> 's \<Rightarrow> (pc_pkg_parser \<times> 's) option \<Rightarrow> bool" where
  "feed_spec bs s r \<longleftrightarrow> (case deliver (handled h) (fst (split_pkgs bs)) s of
      None \<Rightarrow> r = None
    | Some s' \<Rightarrow> \<exists>p'. r = Some (p', s') \<and> I s' \<and> pkg_parser_ok p' \<and> pkg_pending p' = snd (split_pkgs bs))"

lemma feed_spec_cons:
  assumes "length hb = 4" "length b = be24 hb"
    and "\<And>s'. handled h (hb ! 0) b s = Some s' \<Longrightarrow> feed_spec rest s' r"
    and "handled h (hb ! 0) b s = None \<Longrightarrow> r = None"
  shows "feed_spec (hb @ b @ rest) s r"
proof (cases "handled h (hb ! 0) b s")
  case None
  then show ?thesis
    using assms(4) by (simp add: feed_spec_def split_pkgs_full_sel [OF assms(1,2)])
next
  case (Some s')
  then show ?thesis
    using assms(3) [OF Some]
    by (auto simp: feed_spec_def split_pkgs_full_sel [OF assms(1,2)] split: option.splits)
qed

lemma feed_after_body:
  assumes s: "I s" and ready: "body_ready p1 got" and o1: "o1 \<le> length data"
    and loop: "\<And>p2 s2 o2. I s2 \<Longrightarrow> pkg_parser_ok p2 \<Longrightarrow> pkg_pending p2 = [] \<Longrightarrow>
       o2 = o1 + (pkg_size p1 - length got) \<Longrightarrow> o2 \<le> length data \<Longrightarrow>
       feed_spec (drop o2 data) s2 (pkg_feed_loop h p2 s2 data o2)"
  shows "feed_spec (head_buf p1 @ got @ drop o1 data) s
     (do { (p2, s2, o2) \<leftarrow> pc__parse_pkg_body h p1 s data o1; pkg_feed_loop h p2 s2 data o2 })"
proof (cases "length (drop o1 data) < pkg_size p1 - length got")
  case True
  obtain p' where p': "pc__parse_pkg_body h p1 s data o1 = Some (p', s, length data)"
    "pkg_parser_ok p'" "pkg_pending p' = head_buf p1 @ got @ drop o1 data"
    using body_partial [OF ready o1 True] by blast
  have "split_pkgs (head_buf p1 @ got @ drop o1 data) = ([], head_buf p1 @ got @ drop o1 data)"
    using True ready by (intro split_pkgs_part) (auto simp: body_ready_def)
  with p' s show ?thesis
    by (simp add: feed_spec_def pkg_feed_loop.simps)
next
  case False
  define need where "need = pkg_size p1 - length got"
  have le: "need \<le> length (drop o1 data)"
    using False by (simp add: need_def)
  have split: "drop o1 data = take need (drop o1 data) @ drop (o1 + need) data"
    by (metis append_take_drop_id drop_drop add.commute)
  have hb: "length (head_buf p1) = 4"
    and bl: "length (got @ take need (drop o1 data)) = be24 (head_buf p1)"
    using ready le by (auto simp: body_ready_def need_def)
  have res: "case handled h (head_buf p1 ! 0) (got @ take need (drop o1 data)) s of
      None \<Rightarrow> pc__parse_pkg_body h p1 s data o1 = None
    | Some s' \<Rightarrow> \<exists>p'. pc__parse_pkg_body h p1 s data o1 = Some (p', s', o1 + need) \<and>
        I s' \<and> pkg_parser_ok p' \<and> pkg_pending p' = []"
    using body_complete [OF s ready o1 _ need_def] le by (simp add: need_def)
  have "feed_spec (head_buf p1 @ (got @ take need (drop o1 data)) @ drop (o1 + need) data) s
     (do { (p2, s2, o2) \<leftarrow> pc__parse_pkg_body h p1 s data o1; pkg_feed_loop h p2 s2 data o2 })"
    using res le loop o1 by (intro feed_spec_cons [OF hb bl]) (auto simp: need_def)
  then show ?thesis
    using split by simp
qed

lemma feed_loop_spec:
  assumes "pkg_parser_ok p" "offset \<le> length data" "I s"
  shows "feed_spec (pkg_pending p @ drop offset data) s (pkg_feed_loop h p s data offset)"
  using assms
proof (induction "length data - offset" arbitrary: p s offset rule: less_induct)
  case less
  show ?case
  proof (cases "offset = length data")
    case True
    with less.prems show ?thesis
      by (auto simp: feed_spec_def pkg_feed_loop.simps pending_incomplete)
  next
    case False
    with less.prems have lt: "offset < length data"
      by simp
    have loop: "feed_spec (drop o2 data) s2 (pkg_feed_loop h p2 s2 data o2)"
      if "I s2" "pkg_parser_ok p2" "pkg_pending p2 = []" "offset < o2" "o2 \<le> length data" for p2 s2 o2
    proof -
      have "length data - o2 < length data - offset" using that lt by simp
      from less.hyps [OF this that(2,5,1)] that(3) show ?thesis by simp
    qed
    show ?thesis
    proof (cases "pkg_state p")
      case PC_PKG_BODY
      then obtain got where ready: "body_ready p got" and got: "length got < pkg_size p"
        and pend: "pkg_pending p = head_buf p @ got"
        using less.prems(1) body_ready_of_ok by blast
      have "feed_spec (head_buf p @ got @ drop offset data) s
          (do { (p2, s2, o2) \<leftarrow> pc__parse_pkg_body h p s data offset; pkg_feed_loop h p2 s2 data o2 })"
        by (rule feed_after_body [OF less.prems(3) ready less.prems(2)], rule loop) (use got in simp_all)
      then show ?thesis
        using lt PC_PKG_BODY by (simp add: pend pkg_feed_loop.simps [of h p s data offset])
    next
      case PC_PKG_HEAD
      define need where "need = 4 - head_offset p"
      have pos: "0 < need"
        using less.prems(1) PC_PKG_HEAD by (simp add: need_def pkg_parser_ok_def)
      show ?thesis
      proof (cases "need \<le> length (drop offset data)")
        case True
        obtain p1 where p1: "pc__parse_pkg_head p data offset = Some (p1, offset + need)"
          "body_ready p1 []" "head_buf p1 = pkg_pending p @ take need (drop offset data)"
          using head_complete [OF less.prems(1) PC_PKG_HEAD less.prems(2) need_def True] by blast
        have le: "offset + need \<le> length data"
          using True lt by simp
        have rest: "head_buf p1 @ [] @ drop (offset + need) data = pkg_pending p @ drop offset data"
          using p1(3) by (metis append_assoc append_Nil append_take_drop_id drop_drop add.commute)
        have body: "pkg_state p1 = PC_PKG_BODY"
          using p1(2) by (simp add: body_ready_def)
        have "feed_spec (head_buf p1 @ [] @ drop (offset + need) data) s
            (do { (p2, s2, o2) \<leftarrow> pc__parse_pkg_body h p1 s data (offset + need);
                  pkg_feed_loop h p2 s2 data o2 })"
          by (rule feed_after_body [OF less.prems(3) p1(2) le], rule loop) (use pos in simp_all)
        then have "feed_spec (pkg_pending p @ drop offset data) s
            (do { (p2, s2, o2) \<leftarrow> pc__parse_pkg_body h p1 s data (offset + need);
                  pkg_feed_loop h p2 s2 data o2 })"
          unfolding rest .
        then show ?thesis
          using lt PC_PKG_HEAD p1(1) body by (simp add: pkg_feed_loop.simps [of h p s data offset])
      next
        case False
        obtain p1 where p1: "pc__parse_pkg_head p data offset = Some (p1, length data)"
          "pkg_parser_ok p1" "pkg_state p1 = PC_PKG_HEAD" "pkg_pending p1 = pkg_pending p @ drop offset data"
          using head_partial [OF less.prems(1) PC_PKG_HEAD less.prems(2)] False
          by (auto simp: need_def)
        then show ?thesis
          using lt less.prems(3) PC_PKG_HEAD pending_incomplete [OF p1(2)]
          by (simp add: feed_spec_def pkg_feed_loop.simps)
      qed
    qed
  qed
qed

end

section \<open>Streams, chunks and the encoder\<close>

text \<open>The handler that records what it is given.\<close>

definition record_pkg :: "(u8 \<times> bytes) list pc_on_pkg_handler" where
  "record_pkg ty buf n p s = Some (p, s @ [(ty, buf_bytes buf)])"

interpretation recording: pkg_sink record_pkg "\<lambda>_. True"
  by unfold_locales (auto simp: record_pkg_def complete_pkg_def be24_bytes_def)

lemma deliver_record: "deliver (handled record_pkg) ps s = Some (s @ ps)"
  by (induction ps arbitrary: s) (auto simp: handled_def record_pkg_def complete_pkg_def)

text \<open>The chunks that successive reads deliver, fed one after the other.\<close>

fun feed_chunks :: "'s pc_on_pkg_handler \<Rightarrow> pc_pkg_parser \<Rightarrow> 's \<Rightarrow> bytes list \<Rightarrow> (pc_pkg_parser \<times> 's) option"
  where
  "feed_chunks h p s [] = Some (p, s)"
| "feed_chunks h p s (c # cs) =
     Option.bind (pc_pkg_parser_feed h p s c) (\<lambda>(p1, s1). feed_chunks h p1 s1 cs)"

lemma split_pkgs_append:
  "split_pkgs (xs @ ys) =
    (fst (split_pkgs xs) @ fst (split_pkgs (snd (split_pkgs xs) @ ys)),
     snd (split_pkgs (snd (split_pkgs xs) @ ys)))"
proof (induction xs rule: split_pkgs.induct)
  case (1 bs)
  show ?case
  proof (cases "length bs < 4 \<or> length bs < 4 + be24 bs")
    case True
    then show ?thesis by (simp add: split_pkgs.simps [of bs])
  next
    case False
    let ?hb = "take 4 bs" and ?b = "take (be24 bs) (drop 4 bs)" and ?r = "drop (4 + be24 bs) bs"
    have bs: "bs = ?hb @ ?b @ ?r"
      by (metis append_take_drop_id drop_drop add.commute)
    have hb: "length ?hb = 4" "length ?b = be24 ?hb"
      using False by (auto simp: be24_take)
    note full = split_pkgs_full_sel [OF hb]
    have "split_pkgs (?hb @ ?b @ ?r @ ys) =
      ((?hb ! 0, ?b) # fst (split_pkgs (?r @ ys)), snd (split_pkgs (?r @ ys)))"
      by (simp add: full prod_eq_iff)
    moreover have "fst (split_pkgs bs) = (?hb ! 0, ?b) # fst (split_pkgs ?r)"
      "snd (split_pkgs bs) = snd (split_pkgs ?r)"
      using full [of ?r] bs by simp_all
    moreover have "split_pkgs (bs @ ys) = split_pkgs (?hb @ ?b @ ?r @ ys)"
      using bs by (metis append_assoc)
    ultimately show ?thesis
      using "1.IH" [OF False] by (simp only: fst_conv snd_conv append_Cons)
  qed
qed

lemma feed_record:
  assumes "pkg_parser_ok p"
  shows "\<exists>p'. pc_pkg_parser_feed record_pkg p s data =
      Some (p', s @ fst (split_pkgs (pkg_pending p @ data))) \<and>
    pkg_parser_ok p' \<and> pkg_pending p' = snd (split_pkgs (pkg_pending p @ data))"
  using recording.feed_loop_spec [OF assms, of 0 data s]
  by (simp add: recording.feed_spec_def deliver_record pc_pkg_parser_feed_def)

lemma feed_chunks_record:
  assumes "pkg_parser_ok p"
  shows "\<exists>p'. feed_chunks record_pkg p s cs =
      Some (p', s @ fst (split_pkgs (pkg_pending p @ concat cs))) \<and>
    pkg_parser_ok p' \<and> pkg_pending p' = snd (split_pkgs (pkg_pending p @ concat cs))"
  using assms
proof (induction cs arbitrary: p s)
  case Nil
  then show ?case by (auto simp: pending_incomplete)
next
  case (Cons c cs)
  obtain p1 where p1: "pc_pkg_parser_feed record_pkg p s c =
      Some (p1, s @ fst (split_pkgs (pkg_pending p @ c)))"
    "pkg_parser_ok p1" "pkg_pending p1 = snd (split_pkgs (pkg_pending p @ c))"
    using feed_record [OF Cons.prems] by blast
  show ?case
    using Cons.IH [OF p1(2), of "s @ fst (split_pkgs (pkg_pending p @ c))"] p1
      split_pkgs_append [of "pkg_pending p @ c" "concat cs"] by auto
qed

lemma pkg_put_len_bytes:
  "pkg_put_len (t # x # y # z # r) n = t # be24_bytes n @ r"
proof -
  have upt: "[0..<PC_PKG_BODY_LEN_BYTES] = [0, 1, 2]"
    by (simp add: upt_conv_Cons)
  have "n div 65536 = n div 256 div 256"
    by (simp add: div_mult2_eq [symmetric])
  then show ?thesis
    unfolding pkg_put_len_def upt
    by (simp add: be24_bytes_def list_update.simps(2) numeral_3_eq_3 numeral_2_eq_2)
qed

lemma pc_pkg_encode_bytes:
  "pc_pkg_encode ty b =
     (if length b < 2 ^ 24 then Some (ty # be24_bytes (length b) @ b) else None)"
proof (cases "length b < 2 ^ 24")
  case True
  define base where "base = (replicate (4 + length b) 0)[0 := ty AND 255]"
  have zeros: "replicate 4 (0::u8) = [0, 0, 0, 0]"
    by (simp add: numeral_eq_Suc)
  have base: "base = ty # 0 # 0 # 0 # replicate (length b) 0"
    by (simp add: base_def and_byte_mask replicate_add zeros)
  have "put_at (pkg_put_len base (length b)) PC_PKG_HEAD_BYTES b = Some (ty # be24_bytes (length b) @ b)"
    unfolding base pkg_put_len_bytes by (simp add: put_at_def be24_bytes_def)
  moreover have "(replicate 4 0)[0 := ty AND 255] = ty # be24_bytes 0"
    by (simp add: zeros and_byte_mask be24_bytes_def)
  ultimately show ?thesis
    using True by (auto simp: pc_pkg_encode_def Let_def simp flip: base_def)
next
  case False
  then show ?thesis by (simp add: pc_pkg_encode_def)
qed

lemma split_pkgs_encoded:
  assumes "pc_pkg_encode ty b = Some bs"
  shows "split_pkgs (bs @ rest) = ((ty, b) # fst (split_pkgs rest), snd (split_pkgs rest))"
proof -
  from assms have b: "length b < 2 ^ 24" and bs: "bs = ty # be24_bytes (length b) @ b"
    by (auto simp: pc_pkg_encode_bytes split: if_splits)
  have hb: "length (ty # be24_bytes (length b)) = 4" "length b = be24 (ty # be24_bytes (length b))"
    using be24_encoded [OF b] by (simp_all add: be24_bytes_def)
  show ?thesis
    using split_pkgs_full_sel [OF hb, of rest] by (simp add: bs prod_eq_iff)
qed

section \<open>Properties\<close>

text \<open>
  C10. Feeding a byte stream to the parser in any division into chunks delivers to the handler,
  in order, exactly the packages that are complete in the stream (with what was pending
  before), keeps the incomplete rest pending, never touches memory outside its buffers, and
  terminates.
\<close>

theorem feed_chunks_refines_split:
  assumes "pkg_parser_ok p"
  shows "\<exists>p'. feed_chunks record_pkg p s chunks =
      Some (p', s @ fst (split_pkgs (pkg_pending p @ concat chunks))) \<and>
    pkg_parser_ok p' \<and> pkg_pending p' = snd (split_pkgs (pkg_pending p @ concat chunks))"
  using feed_chunks_record [OF assms] .

theorem feed_chunks_refines_split_witness:
  "\<exists>p'. feed_chunks record_pkg (pc_pkg_parser_init zeroed_parser) [] [[4, 0], [0, 1, 65, 3]] =
      Some (p', [(4, [65])]) \<and> pkg_pending p' = [3]"
proof -
  have "split_pkgs [4, 0, 0, 1, 65, 3] = ([(4, [65])], [3])"
    by (simp add: split_pkgs.simps be24_def)
  then show ?thesis
    using feed_chunks_refines_split [OF idle_parser_ok, of "[]" "[[4, 0], [0, 1, 65, 3]]"]
    by (auto simp: idle_parser_pending)
qed

lemma split_pkgs_all_encoded:
  "map (\<lambda>(ty, b). pc_pkg_encode ty b) pkgs = map Some encs \<Longrightarrow> split_pkgs (concat encs) = (pkgs, [])"
proof (induction pkgs arbitrary: encs)
  case Nil
  then show ?case by (simp add: split_pkgs_short)
next
  case (Cons q qs)
  then show ?case by (cases encs) (auto simp: split_pkgs_encoded split: prod.splits)
qed

text \<open>
  C25. Round trip: packages written by the encoder and cut into arbitrary chunks by the network
  come out of the parser as they went in, and leave the parser idle.
\<close>

theorem pkg_stream_roundtrip:
  assumes "map (\<lambda>(ty, b). pc_pkg_encode ty b) pkgs = map Some encs"
    and "concat chunks = concat encs" and "pkg_parser_ok p" and "pkg_pending p = []"
  shows "\<exists>p'. feed_chunks record_pkg p [] chunks = Some (p', pkgs) \<and>
    pkg_parser_ok p' \<and> pkg_pending p' = []"
  using feed_chunks_record [OF assms(3), of "[]" chunks] assms split_pkgs_all_encoded [OF assms(1)]
  by simp

theorem pkg_stream_roundtrip_witness:
  "\<exists>p'. feed_chunks record_pkg (pc_pkg_parser_init zeroed_parser) [] [[4, 0, 0], [1, 65], [3, 0, 0, 0]] =
      Some (p', [(4, [65]), (3, [])]) \<and> pkg_pending p' = []"
  using pkg_stream_roundtrip [of "[(4, [65]), (3, [])]" "[[4, 0, 0, 1, 65], [3, 0, 0, 0]]"
      "[[4, 0, 0], [1, 65], [3, 0, 0, 0]]" "pc_pkg_parser_init zeroed_parser"]
    idle_parser_ok idle_parser_pending
  by (auto simp: pc_pkg_encode_bytes be24_bytes_def)

end
