(* ===== verification/Queue.thy ===== *)
theory Queue
  imports Prelude
begin

text \<open>
  The intrusive circular list of \<open>src/queue.h\<close>. A queue is two pointer fields inside the
  structures it links, so the macros are assignments to a store of next and previous
  pointers. \<open>is_queue\<close> relates the store to the list of nodes that a queue head links; the
  macros are proved to act on it as the list operations do, and to leave every other queue of
  the store alone. The other components model their queues by these lists.
\<close>

section \<open>The store and the macros\<close>

record 'a qheap =
  q_next :: "'a \<Rightarrow> 'a"
  q_prev :: "'a \<Rightarrow> 'a"

definition set_next :: "'a \<Rightarrow> 'a \<Rightarrow> 'a qheap \<Rightarrow> 'a qheap" where
  "set_next p v h = h\<lparr>q_next := (q_next h)(p := v)\<rparr>"

definition set_prev :: "'a \<Rightarrow> 'a \<Rightarrow> 'a qheap \<Rightarrow> 'a qheap" where
  "set_prev p v h = h\<lparr>q_prev := (q_prev h)(p := v)\<rparr>"

definition QUEUE_EMPTY :: "'a qheap \<Rightarrow> 'a \<Rightarrow> bool" where
  "QUEUE_EMPTY h q \<longleftrightarrow> q = q_next h q"

definition QUEUE_HEAD :: "'a qheap \<Rightarrow> 'a \<Rightarrow> 'a" where
  "QUEUE_HEAD h q = q_next h q"

definition QUEUE_INIT :: "'a \<Rightarrow> 'a qheap \<Rightarrow> 'a qheap" where
  "QUEUE_INIT q h = (let h1 = set_next q q h in set_prev q q h1)"

definition QUEUE_ADD :: "'a \<Rightarrow> 'a \<Rightarrow> 'a qheap \<Rightarrow> 'a qheap" where
  "QUEUE_ADD hq n h =
    (let h1 = set_next (q_prev h hq) (q_next h n) h;
         h2 = set_prev (q_next h1 n) (q_prev h1 hq) h1;
         h3 = set_prev hq (q_prev h2 n) h2
     in set_next (q_prev h3 hq) hq h3)"

definition QUEUE_INSERT_HEAD :: "'a \<Rightarrow> 'a \<Rightarrow> 'a qheap \<Rightarrow> 'a qheap" where
  "QUEUE_INSERT_HEAD hq q h =
    (let h1 = set_next q (q_next h hq) h;
         h2 = set_prev q hq h1;
         h3 = set_prev (q_next h2 q) q h2
     in set_next hq q h3)"

definition QUEUE_INSERT_TAIL :: "'a \<Rightarrow> 'a \<Rightarrow> 'a qheap \<Rightarrow> 'a qheap" where
  "QUEUE_INSERT_TAIL hq q h =
    (let h1 = set_next q hq h;
         h2 = set_prev q (q_prev h1 hq) h1;
         h3 = set_next (q_prev h2 q) q h2
     in set_prev hq q h3)"

definition QUEUE_REMOVE :: "'a \<Rightarrow> 'a qheap \<Rightarrow> 'a qheap" where
  "QUEUE_REMOVE q h =
    (let h1 = set_next (q_prev h q) (q_next h q) h
     in set_prev (q_next h1 q) (q_prev h1 q) h1)"

text \<open>
  The nodes that \<open>QUEUE_FOREACH\<close> visits when its body leaves the links alone; the loop does
  not end on a store whose links never come back to the head.
\<close>

partial_function (option) foreach_from :: "'a qheap \<Rightarrow> 'a \<Rightarrow> 'a \<Rightarrow> 'a list option" where
  "foreach_from h q hq =
    (if q = hq then Some []
     else Option.bind (foreach_from h (q_next h q) hq) (\<lambda>qs. Some (q # qs)))"

definition QUEUE_FOREACH :: "'a qheap \<Rightarrow> 'a \<Rightarrow> 'a list option" where
  "QUEUE_FOREACH h hq = foreach_from h (q_next h hq) hq"

section \<open>Queues as lists\<close>

fun chain :: "'a qheap \<Rightarrow> 'a \<Rightarrow> 'a list \<Rightarrow> 'a \<Rightarrow> bool" where
  "chain h a [] b \<longleftrightarrow> q_next h a = b \<and> q_prev h b = a"
| "chain h a (x # xs) b \<longleftrightarrow> q_next h a = x \<and> q_prev h x = a \<and> chain h x xs b"

definition is_queue :: "'a qheap \<Rightarrow> 'a \<Rightarrow> 'a list \<Rightarrow> bool" where
  "is_queue h hq xs \<longleftrightarrow> distinct (hq # xs) \<and> chain h hq xs hq"

lemma set_next_simps [simp]:
  "q_next (set_next p v h) = (q_next h)(p := v)" "q_prev (set_next p v h) = q_prev h"
  by (simp_all add: set_next_def)

lemma set_prev_simps [simp]:
  "q_prev (set_prev p v h) = (q_prev h)(p := v)" "q_next (set_prev p v h) = q_next h"
  by (simp_all add: set_prev_def)

lemma chain_append: "chain h a (xs @ y # ys) b \<longleftrightarrow> chain h a xs y \<and> chain h y ys b"
  by (induction xs arbitrary: a) auto

lemma chain_set_next [simp]: "p \<notin> set (a # xs) \<Longrightarrow> chain (set_next p v h) a xs b = chain h a xs b"
  by (induction xs arbitrary: a) auto

lemma chain_set_prev [simp]: "p \<notin> set (xs @ [b]) \<Longrightarrow> chain (set_prev p v h) a xs b = chain h a xs b"
  by (induction xs arbitrary: a) auto

lemma chain_ends:
  assumes "chain h a xs b"
  shows "q_next h a = hd (xs @ [b])" and "q_prev h b = last (a # xs)"
  using assms by (induction xs arbitrary: a) auto

lemma chain_cong:
  assumes "\<And>p. p \<in> set (a # xs) \<Longrightarrow> q_next h' p = q_next h p"
    and "\<And>p. p \<in> set (xs @ [b]) \<Longrightarrow> q_prev h' p = q_prev h p"
  shows "chain h' a xs b = chain h a xs b"
  using assms by (induction xs arbitrary: a) auto

lemma is_queue_cong:
  assumes "\<And>p. p \<in> set (hq # xs) \<Longrightarrow> q_next h' p = q_next h p \<and> q_prev h' p = q_prev h p"
  shows "is_queue h' hq xs = is_queue h hq xs"
  unfolding is_queue_def using assms by (subst chain_cong [of hq xs h' h hq]) auto

lemma foreach_from_chain:
  "chain h a xs hq \<Longrightarrow> hq \<notin> set xs \<Longrightarrow> foreach_from h (q_next h a) hq = Some xs"
proof (induction xs arbitrary: a)
  case Nil
  then show ?case by (simp add: foreach_from.simps)
next
  case (Cons x xs)
  from Cons.IH [of x] Cons.prems show ?case by (auto simp: foreach_from.simps [of h x hq])
qed

text \<open>
  The loop \<open>while (!EMPTY(a)) { q = HEAD(a); REMOVE(q); INIT(q); INSERT_TAIL(b, q); }\<close> that the
  transports use to move every item of one queue to the end of another, over any
  implementation of the operations, with fuel for its iterations.
\<close>

fun move_loop :: "('h \<Rightarrow> 'q \<Rightarrow> bool) \<Rightarrow> ('h \<Rightarrow> 'q \<Rightarrow> 'q) \<Rightarrow> ('q \<Rightarrow> 'h \<Rightarrow> 'h) \<Rightarrow> ('q \<Rightarrow> 'q \<Rightarrow> 'h \<Rightarrow> 'h) \<Rightarrow>
    ('q \<Rightarrow> 'h \<Rightarrow> 'h) \<Rightarrow> nat \<Rightarrow> 'q \<Rightarrow> 'q \<Rightarrow> 'h \<Rightarrow> 'h option" where
  "move_loop emp hea ini ins rem 0 a b h = None"
| "move_loop emp hea ini ins rem (Suc n) a b h =
     (if emp h a then Some h
      else let q = hea h a; h1 = rem q h; h2 = ini q h1; h3 = ins b q h2
           in move_loop emp hea ini ins rem n a b h3)"

definition queue_move :: "nat \<Rightarrow> 'a \<Rightarrow> 'a \<Rightarrow> 'a qheap \<Rightarrow> 'a qheap option" where
  "queue_move = move_loop QUEUE_EMPTY QUEUE_HEAD QUEUE_INIT QUEUE_INSERT_TAIL QUEUE_REMOVE"

section \<open>The interface\<close>

text \<open>
  What the rest of the program relies on: each operation acts on the list of one queue and
  keeps the other queues. \<open>qs h q xs\<close> reads: in the store \<open>h\<close> the head \<open>q\<close> links the
  nodes \<open>xs\<close>. A node on its own (after \<open>QUEUE_INIT\<close>) is an empty queue.
\<close>

locale intrusive_queue =
  fixes qs :: "'h \<Rightarrow> 'q \<Rightarrow> 'q list \<Rightarrow> bool"
    and q_empty :: "'h \<Rightarrow> 'q \<Rightarrow> bool"
    and q_head :: "'h \<Rightarrow> 'q \<Rightarrow> 'q"
    and q_init :: "'q \<Rightarrow> 'h \<Rightarrow> 'h"
    and q_insert_tail :: "'q \<Rightarrow> 'q \<Rightarrow> 'h \<Rightarrow> 'h"
    and q_remove :: "'q \<Rightarrow> 'h \<Rightarrow> 'h"
  assumes empty_law: "qs h q xs \<Longrightarrow> q_empty h q \<longleftrightarrow> xs = []"
    and head_law: "qs h q (x # xs) \<Longrightarrow> q_head h q = x"
    and init_law: "qs (q_init q h) q []"
    and init_frame: "qs h q' xs \<Longrightarrow> q \<notin> set (q' # xs) \<Longrightarrow> qs (q_init q h) q' xs"
    and tail_law: "qs h q xs \<Longrightarrow> x \<notin> set (q # xs) \<Longrightarrow> qs (q_insert_tail q x h) q (xs @ [x])"
    and tail_frame: "qs h q xs \<Longrightarrow> qs h q' ys \<Longrightarrow> set (q # x # xs) \<inter> set (q' # ys) = {} \<Longrightarrow>
      qs (q_insert_tail q x h) q' ys"
    and remove_law: "qs h q (xs @ x # ys) \<Longrightarrow> qs (q_remove x h) q (xs @ ys)"
    and remove_frame: "qs h q xs \<Longrightarrow> qs h q' ys \<Longrightarrow> x \<in> set xs \<Longrightarrow>
      set (q # xs) \<inter> set (q' # ys) = {} \<Longrightarrow> qs (q_remove x h) q' ys"
    and qs_distinct: "qs h q xs \<Longrightarrow> distinct (q # xs)"
begin

lemma unlink_head_law:
  assumes "qs h a (x # xs)"
  shows "qs (q_init x (q_remove x h)) a xs" and "qs (q_init x (q_remove x h)) x []"
proof -
  have "qs (q_remove x h) a xs"
    using remove_law [of h a "[]" x xs] assms by simp
  then show "qs (q_init x (q_remove x h)) a xs" "qs (q_init x (q_remove x h)) x []"
    using assms qs_distinct [OF assms]
    by (auto intro: init_law init_frame)
qed

lemma unlink_head_frame:
  assumes "qs h a (x # xs)" "qs h b ys" "set (a # x # xs) \<inter> set (b # ys) = {}"
  shows "qs (q_init x (q_remove x h)) b ys"
proof -
  have "qs (q_remove x h) b ys"
    using remove_frame [OF assms(1,2) _ assms(3), of x] by simp
  then show ?thesis
    using assms(3) by (auto intro: init_frame)
qed

lemma move_all:
  assumes "qs h a xs" "qs h b ys" "set (a # xs) \<inter> set (b # ys) = {}" "length xs < n"
  shows "\<exists>h'. move_loop q_empty q_head q_init q_insert_tail q_remove n a b h = Some h' \<and> qs h' a [] \<and> qs h' b (ys @ xs)"
  using assms
proof (induction xs arbitrary: n h ys)
  case Nil
  then show ?case by (cases n) (auto simp: empty_law)
next
  case (Cons x xs)
  then obtain m where n: "n = Suc m" by (cases n) auto
  let ?h1 = "q_init x (q_remove x h)" and ?h2 = "q_insert_tail b x (q_init x (q_remove x h))"
  have a1: "qs ?h1 a xs" and b1: "qs ?h1 b ys"
    using unlink_head_law [OF Cons.prems(1)] unlink_head_frame [OF Cons.prems(1,2,3)] by auto
  have "x \<notin> set (b # ys)" "x \<notin> set (a # xs)"
    using Cons.prems(3) qs_distinct [OF Cons.prems(1)] by auto
  then have "qs ?h2 b (ys @ [x])"
    by (intro tail_law b1) auto
  moreover have "qs ?h2 a xs"
    using Cons.prems(3) \<open>x \<notin> set (a # xs)\<close> by (intro tail_frame [OF b1 a1]) auto
  moreover have "set (a # xs) \<inter> set (b # ys @ [x]) = {}"
    using Cons.prems(3) qs_distinct [OF Cons.prems(1)] by auto
  ultimately obtain h' where "move_loop q_empty q_head q_init q_insert_tail q_remove m a b ?h2 = Some h'" "qs h' a []" "qs h' b (ys @ [x] @ xs)"
    using Cons.IH [of ?h2 "ys @ [x]" m] Cons.prems(4) n by auto
  then show ?case
    using Cons.prems(1) by (simp add: n empty_law head_law Let_def)
qed

end

section \<open>The macros implement the interface\<close>

lemma queue_init: "is_queue (QUEUE_INIT q h) q []"
  by (simp add: is_queue_def QUEUE_INIT_def)

lemma queue_init_frame: "is_queue h q' xs \<Longrightarrow> q \<notin> set (q' # xs) \<Longrightarrow> is_queue (QUEUE_INIT q h) q' xs"
  by (subst is_queue_cong [where h = h]) (auto simp: QUEUE_INIT_def)

lemma queue_empty: "is_queue h q xs \<Longrightarrow> QUEUE_EMPTY h q \<longleftrightarrow> xs = []"
  by (cases xs) (auto simp: is_queue_def QUEUE_EMPTY_def)

lemma queue_head: "is_queue h q (x # xs) \<Longrightarrow> QUEUE_HEAD h q = x"
  by (simp add: is_queue_def QUEUE_HEAD_def)

lemma queue_insert_tail:
  assumes q: "is_queue h q xs" and x: "x \<notin> set (q # xs)"
  shows "is_queue (QUEUE_INSERT_TAIL q x h) q (xs @ [x])"
proof (cases xs rule: rev_cases)
  case Nil
  with q x show ?thesis
    by (auto simp: is_queue_def QUEUE_INSERT_TAIL_def Let_def)
next
  case (snoc ys y)
  have "chain h q ys y" "q_next h y = q" "q_prev h q = y"
    using q snoc by (auto simp: is_queue_def chain_append)
  then show ?thesis
    using q x snoc by (auto simp: is_queue_def QUEUE_INSERT_TAIL_def Let_def chain_append)
qed

lemma queue_insert_head:
  assumes q: "is_queue h q xs" and x: "x \<notin> set (q # xs)"
  shows "is_queue (QUEUE_INSERT_HEAD q x h) q (x # xs)"
  using q x by (cases xs) (auto simp: is_queue_def QUEUE_INSERT_HEAD_def Let_def)

lemma queue_tail_frame:
  assumes "is_queue h q xs" "is_queue h q' ys" "set (q # x # xs) \<inter> set (q' # ys) = {}"
  shows "is_queue (QUEUE_INSERT_TAIL q x h) q' ys"
proof -
  have "q_prev h q \<in> set (q # xs)"
    using assms(1) chain_ends(2) [of h q xs q] by (simp add: is_queue_def)
  with assms show ?thesis
    by (subst is_queue_cong [where h = h]) (auto simp: QUEUE_INSERT_TAIL_def Let_def)
qed

lemma queue_remove:
  assumes q: "is_queue h q (xs @ x # ys)"
  shows "is_queue (QUEUE_REMOVE x h) q (xs @ ys)"
proof -
  have c1: "chain h q xs x" and c2: "chain h x ys q"
    and d: "distinct (q # xs @ x # ys)"
    using q by (auto simp: is_queue_def chain_append)
  let ?p = "q_prev h x" and ?n = "q_next h x"
  have p: "?p = last (q # xs)" and n: "?n = List.hd (ys @ [q])"
    using chain_ends [OF c1] chain_ends [OF c2] by simp_all
  have pn: "?p \<noteq> x" "?n \<noteq> x"
    using p n d last_in_set [of "q # xs"] hd_in_set [of "ys @ [q]"] by (auto split: if_splits)
  have "chain (QUEUE_REMOVE x h) q (xs @ ys) q"
  proof (cases xs rule: rev_cases)
    case Nil
    then show ?thesis using p n c1 c2 d pn
      by (cases ys) (auto simp: QUEUE_REMOVE_def Let_def)
  next
    case (snoc zs z)
    then have "chain h q zs z" "?p = z"
      using c1 by (auto simp: chain_append)
    then show ?thesis using snoc n c2 d pn
      by (cases ys) (auto simp: QUEUE_REMOVE_def Let_def chain_append)
  qed
  then show ?thesis using d by (simp add: is_queue_def)
qed

lemma queue_remove_frame:
  assumes "is_queue h q xs" "is_queue h q' ys" "x \<in> set xs" "set (q # xs) \<inter> set (q' # ys) = {}"
  shows "is_queue (QUEUE_REMOVE x h) q' ys"
proof -
  obtain us vs where xs: "xs = us @ x # vs"
    using assms(3) by (auto simp: in_set_conv_decomp)
  have "chain h q us x" "chain h x vs q"
    using assms(1) xs by (auto simp: is_queue_def chain_append)
  then have "q_prev h x \<in> set (q # us)" "q_next h x \<in> set (vs @ [q])"
    using chain_ends last_in_set [of "q # us"] hd_in_set [of "vs @ [q]"]
    by (auto simp: chain_ends simp del: last.simps split: if_splits)
  with assms xs show ?thesis
    by (subst is_queue_cong [where h = h]) (auto simp: QUEUE_REMOVE_def Let_def)
qed

lemma queue_distinct: "is_queue h q xs \<Longrightarrow> distinct (q # xs)"
  by (simp add: is_queue_def)

interpretation queue_h: intrusive_queue is_queue QUEUE_EMPTY QUEUE_HEAD QUEUE_INIT
  QUEUE_INSERT_TAIL QUEUE_REMOVE
  by unfold_locales (fact queue_empty queue_head queue_init queue_init_frame queue_insert_tail
      queue_tail_frame queue_remove queue_remove_frame queue_distinct)+

text \<open>\<open>QUEUE_ADD(a, b)\<close> followed by \<open>QUEUE_INIT(b)\<close>: the second queue ends up empty.\<close>

lemma queue_add:
  assumes a: "is_queue h a xs" and b: "is_queue h b ys" and dis: "set (a # xs) \<inter> set (b # ys) = {}"
    and ne: "ys \<noteq> []"
  shows "is_queue (QUEUE_ADD a b h) a (xs @ ys)"
proof -
  obtain y ys' z where y: "ys = y # ys'" and z: "q_prev h b = z" "z = last ys"
    using b ne chain_ends(2) [of h b ys b] by (cases ys) (auto simp: is_queue_def)
  have ca: "chain h a xs a" and cb: "q_next h b = y" "q_prev h y = b" "chain h y ys' b"
    using a b y by (auto simp: is_queue_def)
  let ?h1 = "set_next (q_prev h a) y h" and ?k = "QUEUE_ADD a b h"
  have pa: "q_prev h a = last (a # xs)"
    using chain_ends(2) [OF ca] .
  then have pa_in: "q_prev h a \<in> set (a # xs)"
    using last_in_set [of "a # xs"] by simp
  have z_in: "z \<in> set ys"
    using z ne by simp
  have sep: "z \<notin> set (a # xs)" "y \<notin> set (a # xs)" "q_prev h a \<notin> set (b # ys)"
    using dis z_in pa_in y by auto
  have k: "?k = set_next z a (set_prev a z (set_prev y (q_prev h a) ?h1))"
    using cb z pa_in dis y queue_distinct [OF b] by (auto simp: QUEUE_ADD_def Let_def)
  have left: "chain ?k a xs y"
  proof (cases xs rule: rev_cases)
    case Nil
    then show ?thesis using ca dis z_in y by (auto simp: k)
  next
    case (snoc us u)
    then have "chain h a us u" "q_prev h a = u" "q_next h u = a"
      using ca by (auto simp: chain_append)
    then show ?thesis
      using a sep snoc by (auto simp: k chain_append is_queue_def)
  qed
  have "chain ?k y ys' a"
  proof (cases ys' rule: rev_cases)
    case Nil
    then show ?thesis using z y dis by (auto simp: k)
  next
    case (snoc us u)
    then have "chain h y us u" "z = u"
      using cb z y by (auto simp: chain_append)
    then show ?thesis
      using b dis sep y snoc z by (auto simp: k chain_append is_queue_def)
  qed
  then show ?thesis
    using left a b dis y by (auto simp: is_queue_def chain_append)
qed

section \<open>Properties\<close>

text \<open>
  C26. Moving every item of one queue to the end of another, head by head, terminates, leaves the
  first queue empty and appends its items in order: the loop by which the transports hand
  pending items on.
\<close>

theorem queue_move_all:
  assumes "is_queue h a xs" and "is_queue h b ys" and "set (a # xs) \<inter> set (b # ys) = {}"
  shows "\<exists>h'. queue_move (Suc (length xs)) a b h = Some h' \<and>
    is_queue h' a [] \<and> is_queue h' b (ys @ xs) \<and> QUEUE_FOREACH h' b = Some (ys @ xs)"
  using queue_h.move_all [OF assms, of "Suc (length xs)"]
  by (auto simp: queue_move_def QUEUE_FOREACH_def is_queue_def intro!: foreach_from_chain)

theorem queue_move_all_witness:
  "\<exists>h. is_queue h (0::nat) [2] \<and> is_queue h 1 [] \<and>
    (\<exists>h'. queue_move 2 0 1 h = Some h' \<and> is_queue h' 0 [] \<and> is_queue h' 1 [2])"
proof -
  let ?h = "\<lparr>q_next = (\<lambda>p. p)(0 := 2, 2 := 0), q_prev = (\<lambda>p. p)(0 := 2, 2 := 0)\<rparr> :: nat qheap"
  have q: "is_queue ?h 0 [2]" "is_queue ?h 1 []"
    by (auto simp: is_queue_def)
  show ?thesis
    using queue_move_all [OF q] q by (auto simp: numeral_2_eq_2)
qed

end
