(* ===== verification/Flags.thy ===== *)
theory Flags
  imports Prelude
begin

text \<open>
  The type words of \<open>src/pc_pomelo_i.h\<close> and \<open>src/tr/uv/tr_uv_tcp_i.h\<close>: an \<open>unsigned int\<close> holds
  the allocation kind (bit 0), the busy flag of a pre-allocated slot (bit 1) and the kind of
  the item (bits 4 to 7). The macros test and set these fields; setting one field leaves the
  others as they were.
\<close>

named_theorems flag_simps \<open>tests of type words after the macros that set them\<close>

section \<open>Allocation kind and slot state\<close>

definition PC_PRE_ALLOC :: u32 where "PC_PRE_ALLOC = 0x1"
definition PC_DYN_ALLOC :: u32 where "PC_DYN_ALLOC = 0x0"
definition PC_ALLOC_MASK :: u32 where "PC_ALLOC_MASK = 0x1"

definition PC_IS_PRE_ALLOC :: "u32 \<Rightarrow> bool" where
  "PC_IS_PRE_ALLOC t \<longleftrightarrow> t AND PC_ALLOC_MASK = PC_PRE_ALLOC"

definition PC_IS_DYN_ALLOC :: "u32 \<Rightarrow> bool" where
  "PC_IS_DYN_ALLOC t \<longleftrightarrow> t AND PC_ALLOC_MASK = PC_DYN_ALLOC"

definition PC_PRE_ALLOC_ST_IDLE :: u32 where "PC_PRE_ALLOC_ST_IDLE = 0x0"
definition PC_PRE_ALLOC_ST_BUSY :: u32 where "PC_PRE_ALLOC_ST_BUSY = 0x2"
definition PC_PRE_ALLOC_ST_MASK :: u32 where "PC_PRE_ALLOC_ST_MASK = 0x2"

definition PC_PRE_ALLOC_IS_IDLE :: "u32 \<Rightarrow> bool" where
  "PC_PRE_ALLOC_IS_IDLE t \<longleftrightarrow> t AND PC_PRE_ALLOC_ST_MASK = PC_PRE_ALLOC_ST_IDLE"

definition PC_PRE_ALLOC_IS_BUSY :: "u32 \<Rightarrow> bool" where
  "PC_PRE_ALLOC_IS_BUSY t \<longleftrightarrow> t AND PC_PRE_ALLOC_ST_MASK = PC_PRE_ALLOC_ST_BUSY"

definition PC_PRE_ALLOC_SET_IDLE :: "u32 \<Rightarrow> u32" where
  "PC_PRE_ALLOC_SET_IDLE t = (t AND NOT PC_PRE_ALLOC_ST_MASK) OR PC_PRE_ALLOC_ST_IDLE"

definition PC_PRE_ALLOC_SET_BUSY :: "u32 \<Rightarrow> u32" where
  "PC_PRE_ALLOC_SET_BUSY t = (t AND NOT PC_PRE_ALLOC_ST_MASK) OR PC_PRE_ALLOC_ST_BUSY"

section \<open>Kinds of requests, events and write items\<close>

definition PC_REQ_TYPE_NOTIFY :: u32 where "PC_REQ_TYPE_NOTIFY = 0x10"
definition PC_REQ_TYPE_REQUEST :: u32 where "PC_REQ_TYPE_REQUEST = 0x20"

definition PC_EV_TYPE_NOTIFY_SENT :: u32 where "PC_EV_TYPE_NOTIFY_SENT = 0x10"
definition PC_EV_TYPE_RESP :: u32 where "PC_EV_TYPE_RESP = 0x20"
definition PC_EV_TYPE_NET_EVENT :: u32 where "PC_EV_TYPE_NET_EVENT = 0x40"
definition PC_EV_TYPE_MASK :: u32 where "PC_EV_TYPE_MASK = 0xf0"

definition PC_EV_IS_NOTIFY_SENT :: "u32 \<Rightarrow> bool" where
  "PC_EV_IS_NOTIFY_SENT t \<longleftrightarrow> t AND PC_EV_TYPE_MASK = PC_EV_TYPE_NOTIFY_SENT"

definition PC_EV_IS_RESP :: "u32 \<Rightarrow> bool" where
  "PC_EV_IS_RESP t \<longleftrightarrow> t AND PC_EV_TYPE_MASK = PC_EV_TYPE_RESP"

definition PC_EV_IS_NET_EVENT :: "u32 \<Rightarrow> bool" where
  "PC_EV_IS_NET_EVENT t \<longleftrightarrow> t AND PC_EV_TYPE_MASK = PC_EV_TYPE_NET_EVENT"

definition PC_EV_SET_NOTIFY_SENT :: "u32 \<Rightarrow> u32" where
  "PC_EV_SET_NOTIFY_SENT t = (t AND NOT PC_EV_TYPE_MASK) OR PC_EV_TYPE_NOTIFY_SENT"

definition PC_EV_SET_RESP :: "u32 \<Rightarrow> u32" where
  "PC_EV_SET_RESP t = (t AND NOT PC_EV_TYPE_MASK) OR PC_EV_TYPE_RESP"

definition PC_EV_SET_NET_EVENT :: "u32 \<Rightarrow> u32" where
  "PC_EV_SET_NET_EVENT t = (t AND NOT PC_EV_TYPE_MASK) OR PC_EV_TYPE_NET_EVENT"

definition TR_UV_WI_TYPE_NONE :: u32 where "TR_UV_WI_TYPE_NONE = 0x10"
definition TR_UV_WI_TYPE_NOTIFY :: u32 where "TR_UV_WI_TYPE_NOTIFY = 0x20"
definition TR_UV_WI_TYPE_RESP :: u32 where "TR_UV_WI_TYPE_RESP = 0x40"
definition TR_UV_WI_TYPE_INTERNAL :: u32 where "TR_UV_WI_TYPE_INTERNAL = 0x80"
definition TR_UV_WI_TYPE_MASK :: u32 where "TR_UV_WI_TYPE_MASK = 0xf0"

definition TR_UV_WI_IS_NOTIFY :: "u32 \<Rightarrow> bool" where
  "TR_UV_WI_IS_NOTIFY t \<longleftrightarrow> t AND TR_UV_WI_TYPE_MASK = TR_UV_WI_TYPE_NOTIFY"

definition TR_UV_WI_IS_RESP :: "u32 \<Rightarrow> bool" where
  "TR_UV_WI_IS_RESP t \<longleftrightarrow> t AND TR_UV_WI_TYPE_MASK = TR_UV_WI_TYPE_RESP"

definition TR_UV_WI_IS_INTERNAL :: "u32 \<Rightarrow> bool" where
  "TR_UV_WI_IS_INTERNAL t \<longleftrightarrow> t AND TR_UV_WI_TYPE_MASK = TR_UV_WI_TYPE_INTERNAL"

definition TR_UV_WI_SET_NOTIFY :: "u32 \<Rightarrow> u32" where
  "TR_UV_WI_SET_NOTIFY t = (t AND NOT TR_UV_WI_TYPE_MASK) OR TR_UV_WI_TYPE_NOTIFY"

definition TR_UV_WI_SET_RESP :: "u32 \<Rightarrow> u32" where
  "TR_UV_WI_SET_RESP t = (t AND NOT TR_UV_WI_TYPE_MASK) OR TR_UV_WI_TYPE_RESP"

definition TR_UV_WI_SET_INTERNAL :: "u32 \<Rightarrow> u32" where
  "TR_UV_WI_SET_INTERNAL t = (t AND NOT TR_UV_WI_TYPE_MASK) OR TR_UV_WI_TYPE_INTERNAL"

lemmas flag_defs = PC_PRE_ALLOC_def PC_DYN_ALLOC_def PC_ALLOC_MASK_def PC_IS_PRE_ALLOC_def
  PC_IS_DYN_ALLOC_def PC_PRE_ALLOC_ST_IDLE_def PC_PRE_ALLOC_ST_BUSY_def PC_PRE_ALLOC_ST_MASK_def
  PC_PRE_ALLOC_IS_IDLE_def PC_PRE_ALLOC_IS_BUSY_def PC_PRE_ALLOC_SET_IDLE_def
  PC_PRE_ALLOC_SET_BUSY_def PC_REQ_TYPE_NOTIFY_def PC_REQ_TYPE_REQUEST_def
  PC_EV_TYPE_NOTIFY_SENT_def PC_EV_TYPE_RESP_def PC_EV_TYPE_NET_EVENT_def PC_EV_TYPE_MASK_def
  PC_EV_IS_NOTIFY_SENT_def PC_EV_IS_RESP_def PC_EV_IS_NET_EVENT_def PC_EV_SET_NOTIFY_SENT_def
  PC_EV_SET_RESP_def PC_EV_SET_NET_EVENT_def TR_UV_WI_TYPE_NONE_def TR_UV_WI_TYPE_NOTIFY_def
  TR_UV_WI_TYPE_RESP_def TR_UV_WI_TYPE_INTERNAL_def TR_UV_WI_TYPE_MASK_def TR_UV_WI_IS_NOTIFY_def
  TR_UV_WI_IS_RESP_def TR_UV_WI_IS_INTERNAL_def TR_UV_WI_SET_NOTIFY_def TR_UV_WI_SET_RESP_def
  TR_UV_WI_SET_INTERNAL_def

section \<open>Laws\<close>

text \<open>Every macro that sets a field is \<open>set_field\<close> at its mask and value.\<close>

definition set_field :: "u32 \<Rightarrow> u32 \<Rightarrow> u32 \<Rightarrow> u32" where
  "set_field m k t = (t AND NOT m) OR k"

lemma field_set [simp]:
  assumes "k AND m = k"
  shows "set_field m k t AND m = k"
proof (rule bit_word_eqI)
  fix i
  have "bit (k AND m) i = bit k i" using assms by simp
  then show "bit (set_field m k t AND m) i = bit k i" if "i < LENGTH(32)"
    by (auto simp: set_field_def bit_simps)
qed

lemma field_set_other [simp]:
  assumes "m AND n = 0" "k AND n = 0"
  shows "set_field m k t AND n = t AND n"
proof (rule bit_word_eqI)
  fix i
  assume "i < LENGTH(32)"
  moreover have "bit (k AND n) i = bit 0 i" "bit (m AND n) i = bit 0 i"
    using assms by simp_all
  ultimately show "bit (set_field m k t AND n) i = bit (t AND n) i"
    by (auto simp: set_field_def bit_simps)
qed

lemma macros_set_field:
  "PC_PRE_ALLOC_SET_IDLE t = set_field 0x2 0x0 t" "PC_PRE_ALLOC_SET_BUSY t = set_field 0x2 0x2 t"
  "PC_EV_SET_NOTIFY_SENT t = set_field 0xf0 0x10 t" "PC_EV_SET_RESP t = set_field 0xf0 0x20 t"
  "PC_EV_SET_NET_EVENT t = set_field 0xf0 0x40 t" "TR_UV_WI_SET_NOTIFY t = set_field 0xf0 0x20 t"
  "TR_UV_WI_SET_RESP t = set_field 0xf0 0x40 t" "TR_UV_WI_SET_INTERNAL t = set_field 0xf0 0x80 t"
  by (simp_all add: set_field_def flag_defs)

lemmas flag_tests = PC_IS_PRE_ALLOC_def PC_IS_DYN_ALLOC_def PC_PRE_ALLOC_IS_IDLE_def
  PC_PRE_ALLOC_IS_BUSY_def PC_EV_IS_NOTIFY_SENT_def PC_EV_IS_RESP_def PC_EV_IS_NET_EVENT_def
  TR_UV_WI_IS_NOTIFY_def TR_UV_WI_IS_RESP_def TR_UV_WI_IS_INTERNAL_def PC_ALLOC_MASK_def
  PC_PRE_ALLOC_def PC_DYN_ALLOC_def PC_PRE_ALLOC_ST_MASK_def PC_PRE_ALLOC_ST_IDLE_def
  PC_PRE_ALLOC_ST_BUSY_def PC_EV_TYPE_MASK_def PC_EV_TYPE_NOTIFY_SENT_def PC_EV_TYPE_RESP_def
  PC_EV_TYPE_NET_EVENT_def TR_UV_WI_TYPE_MASK_def TR_UV_WI_TYPE_NOTIFY_def TR_UV_WI_TYPE_RESP_def
  TR_UV_WI_TYPE_INTERNAL_def

lemma alloc_flags [flag_simps]:
  "PC_IS_PRE_ALLOC (PC_PRE_ALLOC_SET_BUSY t) = PC_IS_PRE_ALLOC t"
  "PC_IS_PRE_ALLOC (PC_PRE_ALLOC_SET_IDLE t) = PC_IS_PRE_ALLOC t"
  "PC_IS_PRE_ALLOC (PC_EV_SET_NOTIFY_SENT t) = PC_IS_PRE_ALLOC t"
  "PC_IS_PRE_ALLOC (PC_EV_SET_RESP t) = PC_IS_PRE_ALLOC t"
  "PC_IS_PRE_ALLOC (PC_EV_SET_NET_EVENT t) = PC_IS_PRE_ALLOC t"
  "PC_IS_PRE_ALLOC (TR_UV_WI_SET_NOTIFY t) = PC_IS_PRE_ALLOC t"
  "PC_IS_PRE_ALLOC (TR_UV_WI_SET_RESP t) = PC_IS_PRE_ALLOC t"
  "PC_IS_PRE_ALLOC (TR_UV_WI_SET_INTERNAL t) = PC_IS_PRE_ALLOC t"
  by (simp_all add: macros_set_field flag_tests)

lemma slot_flags [flag_simps]:
  "PC_PRE_ALLOC_IS_BUSY (PC_PRE_ALLOC_SET_BUSY t)" "PC_PRE_ALLOC_IS_IDLE (PC_PRE_ALLOC_SET_IDLE t)"
  "\<not> PC_PRE_ALLOC_IS_IDLE (PC_PRE_ALLOC_SET_BUSY t)"
  "PC_PRE_ALLOC_IS_IDLE (PC_EV_SET_NOTIFY_SENT t) = PC_PRE_ALLOC_IS_IDLE t"
  "PC_PRE_ALLOC_IS_IDLE (PC_EV_SET_RESP t) = PC_PRE_ALLOC_IS_IDLE t"
  "PC_PRE_ALLOC_IS_IDLE (PC_EV_SET_NET_EVENT t) = PC_PRE_ALLOC_IS_IDLE t"
  "PC_PRE_ALLOC_IS_BUSY (PC_EV_SET_NOTIFY_SENT t) = PC_PRE_ALLOC_IS_BUSY t"
  "PC_PRE_ALLOC_IS_BUSY (PC_EV_SET_RESP t) = PC_PRE_ALLOC_IS_BUSY t"
  "PC_PRE_ALLOC_IS_BUSY (PC_EV_SET_NET_EVENT t) = PC_PRE_ALLOC_IS_BUSY t"
  "PC_PRE_ALLOC_IS_IDLE (TR_UV_WI_SET_NOTIFY t) = PC_PRE_ALLOC_IS_IDLE t"
  "PC_PRE_ALLOC_IS_IDLE (TR_UV_WI_SET_RESP t) = PC_PRE_ALLOC_IS_IDLE t"
  "PC_PRE_ALLOC_IS_IDLE (TR_UV_WI_SET_INTERNAL t) = PC_PRE_ALLOC_IS_IDLE t"
  by (simp_all add: macros_set_field flag_tests)

lemma event_flags [flag_simps]:
  "PC_EV_IS_RESP (PC_EV_SET_RESP t)" "\<not> PC_EV_IS_RESP (PC_EV_SET_NOTIFY_SENT t)"
  "\<not> PC_EV_IS_RESP (PC_EV_SET_NET_EVENT t)" "PC_EV_IS_NOTIFY_SENT (PC_EV_SET_NOTIFY_SENT t)"
  "\<not> PC_EV_IS_NOTIFY_SENT (PC_EV_SET_NET_EVENT t)" "\<not> PC_EV_IS_NOTIFY_SENT (PC_EV_SET_RESP t)"
  "PC_EV_IS_NET_EVENT (PC_EV_SET_NET_EVENT t)"
  by (simp_all add: macros_set_field flag_tests)

lemma wi_flags [flag_simps]:
  "TR_UV_WI_IS_RESP (TR_UV_WI_SET_RESP t)" "\<not> TR_UV_WI_IS_RESP (TR_UV_WI_SET_NOTIFY t)"
  "\<not> TR_UV_WI_IS_RESP (TR_UV_WI_SET_INTERNAL t)" "TR_UV_WI_IS_NOTIFY (TR_UV_WI_SET_NOTIFY t)"
  "\<not> TR_UV_WI_IS_NOTIFY (TR_UV_WI_SET_RESP t)" "\<not> TR_UV_WI_IS_NOTIFY (TR_UV_WI_SET_INTERNAL t)"
  "TR_UV_WI_IS_INTERNAL (TR_UV_WI_SET_INTERNAL t)" "\<not> TR_UV_WI_IS_INTERNAL (TR_UV_WI_SET_RESP t)"
  "\<not> TR_UV_WI_IS_INTERNAL (TR_UV_WI_SET_NOTIFY t)"
  by (simp_all add: macros_set_field flag_tests)

lemma wi_kind_kept [flag_simps]:
  "TR_UV_WI_IS_RESP (PC_PRE_ALLOC_SET_BUSY t) = TR_UV_WI_IS_RESP t"
  "TR_UV_WI_IS_NOTIFY (PC_PRE_ALLOC_SET_BUSY t) = TR_UV_WI_IS_NOTIFY t"
  by (simp_all add: macros_set_field flag_tests)

lemma pre_or_dyn: "PC_IS_DYN_ALLOC t \<longleftrightarrow> \<not> PC_IS_PRE_ALLOC t"
proof -
  have "t AND 1 = of_bool (odd t)"
    by (rule and_one_eq [THEN trans]) (simp add: odd_iff_mod_2_eq_one)
  then show ?thesis
    by (simp add: flag_tests)
qed

lemma busy_or_idle: "PC_PRE_ALLOC_IS_BUSY t \<longleftrightarrow> \<not> PC_PRE_ALLOC_IS_IDLE t"
proof -
  have "t AND 2 = (if bit t 1 then 2 else 0)"
    by (rule bit_word_eqI) (auto simp: bit_simps)
  then show ?thesis
    by (simp add: flag_tests)
qed

end
