(* ===== verification/Lib.thy ===== *)
theory Lib
  imports Prelude
begin

text \<open>
  The constants of \<open>include/pomelo.h\<close> and \<open>include/pomelo_trans.h\<close>, the name tables and the
  library state of \<open>src/pc_lib.c\<close>, and the plugin table of \<open>src/pc_trans_repo.c\<close>.
\<close>

section \<open>Return codes, states, events\<close>

definition PC_RC_OK :: int where [simp]: "PC_RC_OK = 0"
definition PC_RC_ERROR :: int where [simp]: "PC_RC_ERROR = -1"
definition PC_RC_TIMEOUT :: int where [simp]: "PC_RC_TIMEOUT = -2"
definition PC_RC_INVALID_JSON :: int where [simp]: "PC_RC_INVALID_JSON = -3"
definition PC_RC_INVALID_ARG :: int where [simp]: "PC_RC_INVALID_ARG = -4"
definition PC_RC_NO_TRANS :: int where [simp]: "PC_RC_NO_TRANS = -5"
definition PC_RC_INVALID_THREAD :: int where [simp]: "PC_RC_INVALID_THREAD = -6"
definition PC_RC_INVALID_STATE :: int where [simp]: "PC_RC_INVALID_STATE = -9"
definition PC_RC_RESET :: int where [simp]: "PC_RC_RESET = -11"
definition PC_RC_MIN :: int where [simp]: "PC_RC_MIN = -12"

datatype pc_state = PC_ST_NOT_INITED | PC_ST_INITED | PC_ST_CONNECTING | PC_ST_CONNECTED
  | PC_ST_DISCONNECTING | PC_ST_UNKNOWN

definition PC_EV_USER_DEFINED_PUSH :: int where [simp]: "PC_EV_USER_DEFINED_PUSH = 0"
definition PC_EV_CONNECTED :: int where [simp]: "PC_EV_CONNECTED = 1"
definition PC_EV_CONNECT_ERROR :: int where [simp]: "PC_EV_CONNECT_ERROR = 2"
definition PC_EV_CONNECT_FAILED :: int where [simp]: "PC_EV_CONNECT_FAILED = 3"
definition PC_EV_DISCONNECT :: int where [simp]: "PC_EV_DISCONNECT = 4"
definition PC_EV_KICKED_BY_SERVER :: int where [simp]: "PC_EV_KICKED_BY_SERVER = 5"
definition PC_EV_UNEXPECTED_DISCONNECT :: int where [simp]: "PC_EV_UNEXPECTED_DISCONNECT = 6"
definition PC_EV_PROTO_ERROR :: int where [simp]: "PC_EV_PROTO_ERROR = 7"
definition PC_EV_COUNT :: int where [simp]: "PC_EV_COUNT = 8"
definition PC_EV_INVALID_HANDLER_ID :: int where [simp]: "PC_EV_INVALID_HANDLER_ID = -1"

definition PC_WITHOUT_TIMEOUT :: int where [simp]: "PC_WITHOUT_TIMEOUT = -1"
definition PC_ALWAYS_RETRY :: int where [simp]: "PC_ALWAYS_RETRY = -1"
definition PC_TIMEOUT_CHECK_INTERVAL :: int where [simp]: "PC_TIMEOUT_CHECK_INTERVAL = 2"
definition PC_HEARTBEAT_TIMEOUT_FACTOR :: int where [simp]: "PC_HEARTBEAT_TIMEOUT_FACTOR = 2"
definition PC_PRE_ALLOC_REQUEST_SLOT_COUNT :: nat where [simp]: "PC_PRE_ALLOC_REQUEST_SLOT_COUNT = 4"
definition PC_PRE_ALLOC_NOTIFY_SLOT_COUNT :: nat where [simp]: "PC_PRE_ALLOC_NOTIFY_SLOT_COUNT = 4"
definition PC_TRANSPORT_PLUGIN_SLOT_COUNT :: int where [simp]: "PC_TRANSPORT_PLUGIN_SLOT_COUNT = 8"
definition PC_TR_NAME_UV_TCP :: int where [simp]: "PC_TR_NAME_UV_TCP = 0"
definition PC_TR_NAME_UV_TLS :: int where [simp]: "PC_TR_NAME_UV_TLS = 1"
definition PC_TR_NAME_DUMMY :: int where [simp]: "PC_TR_NAME_DUMMY = 7"

definition PC_NOTIFY_PUSH_REQ_ID :: u32 where [simp]: "PC_NOTIFY_PUSH_REQ_ID = 0"
definition PC_INVALID_REQ_ID :: u32 where [simp]: "PC_INVALID_REQ_ID = - 1"

section \<open>Name tables\<close>

text \<open>
  The tables are indexed after an \<open>assert\<close> of the range, so a value outside it aborts. The
  client logs every code it handles through \<open>pc_client_rc_str\<close>.
\<close>

definition state_str :: "string list" where
  "state_str = [''PC_ST_NOT_INITED'', ''PC_ST_INITED'', ''PC_ST_CONNECTING'', ''PC_ST_CONNECTED'',
     ''PC_ST_DISCONNECTING'', ''PC_ST_UNKNOWN'']"

definition pc_client_state_str :: "int \<Rightarrow> string option" where
  "pc_client_state_str state = do { assert_c (state < 6 \<and> state \<ge> 0); Some (state_str ! nat state) }"

definition ev_str :: "string list" where
  "ev_str = [''PC_EV_USER_DEFINED_PUSH'', ''PC_EV_CONNECTED'', ''PC_EV_CONNECT_ERROR'',
     ''PC_EV_CONNECT_FAILED'', ''PC_EV_DISCONNECT'', ''PC_EV_KICKED_BY_SERVER'',
     ''PC_EV_UNEXPECTED_DISCONNECT'', ''PC_EV_PROTO_ERROR'']"

definition pc_client_ev_str :: "int \<Rightarrow> string option" where
  "pc_client_ev_str ev_type =
     do { assert_c (ev_type \<ge> 0 \<and> ev_type < PC_EV_COUNT); Some (ev_str ! nat ev_type) }"

definition rc_str :: "string list" where
  "rc_str = [''PC_RC_OK'', ''PC_RC_ERROR'', ''PC_RC_TIMEOUT'', ''PC_RC_INVALID_JSON'',
     ''PC_RC_INVALID_ARG'', ''PC_RC_NO_TRANS'', ''PC_RC_INVALID_THREAD'', ''PC_RC_TRANS_ERROR'',
     ''PC_RC_INVALID_ROUTE'', ''PC_RC_INVALID_STATE'', ''PC_RC_NOT_FOUND'', ''PC_RC_RESET'']"

definition pc_client_rc_str :: "int \<Rightarrow> string option" where
  "pc_client_rc_str rc = do { assert_c (rc \<le> 0 \<and> rc > PC_RC_MIN); Some (rc_str ! nat (- rc)) }"

definition rc_ok :: "int \<Rightarrow> bool" where
  "rc_ok rc \<longleftrightarrow> rc \<le> 0 \<and> rc > PC_RC_MIN"

lemma bind_rc_str [simp]:
  "Option.bind (pc_client_rc_str rc) (\<lambda>_. f) = (if rc_ok rc then f else None)"
  by (simp add: pc_client_rc_str_def rc_ok_def)

lemma bind_ev_str [simp]:
  "Option.bind (pc_client_ev_str e) (\<lambda>_. f) = (if 0 \<le> e \<and> e < 8 then f else None)"
  by (simp add: pc_client_ev_str_def)

section \<open>The plugin table\<close>

text \<open>
  A plugin as the table sees it: its name and which function pointers it has. Registering and
  deregistering call the optional hooks; the calls are recorded in order in \<open>hook_calls\<close>.
\<close>

record plugin =
  has_create :: bool
  has_release :: bool
  on_register :: "nat option"
  on_deregister :: "nat option"
  transport_name :: int

record plugin_repo =
  repo :: "plugin option list"
  hook_calls :: "nat list"

definition call_hook :: "nat option \<Rightarrow> plugin_repo \<Rightarrow> plugin_repo" where
  "call_hook h R = (case h of None \<Rightarrow> R | Some f \<Rightarrow> R\<lparr>hook_calls := hook_calls R @ [f]\<rparr>)"

definition pc_transport_plugin_deregister :: "int \<Rightarrow> plugin_repo \<Rightarrow> int \<times> plugin_repo" where
  "pc_transport_plugin_deregister trans_name R =
    (if trans_name \<ge> PC_TRANSPORT_PLUGIN_SLOT_COUNT \<or> trans_name < 0 then (PC_RC_INVALID_ARG, R)
     else let tp = repo R ! nat trans_name;
              R1 = (case tp of None \<Rightarrow> R | Some t \<Rightarrow> call_hook (on_deregister t) R)
          in (PC_RC_OK, R1\<lparr>repo := (repo R1)[nat trans_name := None]\<rparr>))"

definition pc_transport_plugin_register :: "plugin option \<Rightarrow> plugin_repo \<Rightarrow> int \<times> plugin_repo" where
  "pc_transport_plugin_register plugin R =
    (case plugin of
       None \<Rightarrow> (PC_RC_INVALID_ARG, R)
     | Some p \<Rightarrow>
         if transport_name p \<ge> PC_TRANSPORT_PLUGIN_SLOT_COUNT \<or> transport_name p < 0
            \<or> \<not> has_create p \<or> \<not> has_release p then (PC_RC_INVALID_ARG, R)
         else let n = transport_name p;
                  R1 = (if repo R ! nat n \<noteq> None then snd (pc_transport_plugin_deregister n R) else R);
                  R2 = R1\<lparr>repo := (repo R1)[nat n := Some p]\<rparr>
              in (PC_RC_OK, call_hook (on_register p) R2))"

definition pc__get_transport_plugin :: "int \<Rightarrow> plugin_repo \<Rightarrow> plugin option" where
  "pc__get_transport_plugin trans_name R =
    (if trans_name \<ge> PC_TRANSPORT_PLUGIN_SLOT_COUNT \<or> trans_name < 0 then None
     else repo R ! nat trans_name)"

section \<open>Library state\<close>

text \<open>
  \<open>pc_lib_init\<close> and \<open>pc_lib_cleanup\<close> with every transport compiled in. A function pointer is
  the user's (\<open>Some\<close>) or the default; \<open>srand\<close> is not modelled. The builtin plugins are the
  instances of \<open>tr_dummy.c\<close>, \<open>tr_uv_tcp.c\<close> and \<open>tr_uv_tls.c\<close>.
\<close>

definition dummy_plugin :: plugin where
  "dummy_plugin = \<lparr>has_create = True, has_release = True, on_register = None, on_deregister = None,
     transport_name = PC_TR_NAME_DUMMY\<rparr>"

definition uv_tcp_plugin :: plugin where
  "uv_tcp_plugin = \<lparr>has_create = True, has_release = True, on_register = Some 1, on_deregister = Some 2,
     transport_name = PC_TR_NAME_UV_TCP\<rparr>"

definition uv_tls_plugin :: plugin where
  "uv_tls_plugin = \<lparr>has_create = True, has_release = True, on_register = Some 3, on_deregister = Some 4,
     transport_name = PC_TR_NAME_UV_TLS\<rparr>"

text \<open>A pointer to a string of the heap that may have been freed since.\<close>

datatype heap_string = Live string | Freed

record pc_lib =
  lib_log :: "nat option"
  lib_malloc :: "nat option"
  lib_free :: "nat option"
  platform_type :: "heap_string option"
  lib_repo :: plugin_repo

definition pc_lib_init ::
    "nat option \<Rightarrow> nat option \<Rightarrow> nat option \<Rightarrow> string option \<Rightarrow> pc_lib \<Rightarrow> pc_lib" where
  "pc_lib_init pc_log pc_alloc pc_free platform L =
    (let reg = (\<lambda>p R. snd (pc_transport_plugin_register (Some p) R))
     in L\<lparr>lib_log := pc_log, lib_malloc := pc_alloc, lib_free := pc_free,
          platform_type := Some (Live (case platform of Some s \<Rightarrow> s | None \<Rightarrow> ''desktop'')),
          lib_repo := reg uv_tls_plugin (reg uv_tcp_plugin (reg dummy_plugin (lib_repo L)))\<rparr>)"

text \<open>
  \<open>pc_lib_free(pc_lib_platform_type)\<close> leaves the pointer as it is, so a second cleanup frees the
  string again, which is undefined; freeing NULL does nothing.
\<close>

definition free_string :: "heap_string option \<Rightarrow> heap_string option option" where
  "free_string p = (case p of None \<Rightarrow> Some None | Some (Live s) \<Rightarrow> Some (Some Freed) | Some Freed \<Rightarrow> None)"

definition pc_lib_cleanup :: "pc_lib \<Rightarrow> pc_lib option" where
  "pc_lib_cleanup L =
    (let dereg = (\<lambda>n R. snd (pc_transport_plugin_deregister n R));
         L1 = L\<lparr>lib_repo := dereg PC_TR_NAME_UV_TLS (dereg PC_TR_NAME_UV_TCP
            (dereg PC_TR_NAME_DUMMY (lib_repo L)))\<rparr>
     in do { p \<leftarrow> free_string (platform_type L1); Some (L1\<lparr>platform_type := p\<rparr>) })"

definition pc_lib_strdup :: "string option \<Rightarrow> string option" where
  "pc_lib_strdup str = (case str of None \<Rightarrow> None | Some s \<Rightarrow> Some s)"

lemma strdup_id [simp]: "pc_lib_strdup s = s"
  by (simp add: pc_lib_strdup_def split: option.splits)

section \<open>Properties\<close>

definition repo_ok :: "plugin_repo \<Rightarrow> bool" where
  "repo_ok R \<longleftrightarrow> length (repo R) = 8"

lemma deregister_effect:
  assumes "repo_ok R" and "0 \<le> n" and "n < 8"
  shows "pc_transport_plugin_deregister n R =
    (PC_RC_OK, R\<lparr>repo := (repo R)[nat n := None], hook_calls := hook_calls R @
       (case Option.bind (repo R ! nat n) on_deregister of None \<Rightarrow> [] | Some f \<Rightarrow> [f])\<rparr>)"
  using assms
  by (auto simp: pc_transport_plugin_deregister_def call_hook_def repo_ok_def split: option.splits)

lemma register_effect:
  assumes "repo_ok R" and "0 \<le> transport_name p" and "transport_name p < 8"
    and "has_create p" and "has_release p"
  shows "pc_transport_plugin_register (Some p) R =
    (PC_RC_OK, R\<lparr>repo := (repo R)[nat (transport_name p) := Some p], hook_calls := hook_calls R @
       (case Option.bind (repo R ! nat (transport_name p)) on_deregister of None \<Rightarrow> [] | Some f \<Rightarrow> [f]) @
       (case on_register p of None \<Rightarrow> [] | Some f \<Rightarrow> [f])\<rparr>)"
  using assms
  by (cases "repo R ! nat (transport_name p)"; cases "on_register p")
    (simp_all add: pc_transport_plugin_register_def deregister_effect call_hook_def Let_def)

text \<open>
  C39. Registering a complete plugin succeeds, replaces the one that held its slot, and leaves
  every other slot alone. The replaced plugin's deregister hook runs first, then the register
  hook of the new one. An incomplete plugin or one with a name out of range changes nothing.
\<close>

theorem plugin_register_replaces:
  assumes "repo_ok R"
  shows "case pc_transport_plugin_register (Some p) R of (rc, R') \<Rightarrow>
    repo_ok R' \<and>
    (if 0 \<le> transport_name p \<and> transport_name p < 8 \<and> has_create p \<and> has_release p
     then rc = PC_RC_OK \<and>
       (\<forall>n. pc__get_transport_plugin n R' =
          (if n = transport_name p then Some p else pc__get_transport_plugin n R)) \<and>
       hook_calls R' = hook_calls R @
         (case Option.bind (pc__get_transport_plugin (transport_name p) R) on_deregister of
            None \<Rightarrow> [] | Some f \<Rightarrow> [f]) @
         (case on_register p of None \<Rightarrow> [] | Some f \<Rightarrow> [f])
     else rc = PC_RC_INVALID_ARG \<and> R' = R)"
proof (cases "0 \<le> transport_name p \<and> transport_name p < 8 \<and> has_create p \<and> has_release p")
  case True
  then have eff: "pc_transport_plugin_register (Some p) R =
    (PC_RC_OK, R\<lparr>repo := (repo R)[nat (transport_name p) := Some p], hook_calls := hook_calls R @
       (case Option.bind (repo R ! nat (transport_name p)) on_deregister of None \<Rightarrow> [] | Some f \<Rightarrow> [f]) @
       (case on_register p of None \<Rightarrow> [] | Some f \<Rightarrow> [f])\<rparr>)"
    using register_effect [OF assms] by blast
  have get: "pc__get_transport_plugin n (R\<lparr>repo := (repo R)[nat (transport_name p) := Some p], hook_calls := h\<rparr>) =
      (if n = transport_name p then Some p else pc__get_transport_plugin n R)" for n h
    using True assms by (auto simp: pc__get_transport_plugin_def repo_ok_def nth_list_update eq_nat_nat_iff)
  have old: "repo R ! nat (transport_name p) = pc__get_transport_plugin (transport_name p) R"
    using True by (simp add: pc__get_transport_plugin_def)
  show ?thesis
    using True assms by (simp add: eff get old repo_ok_def)
next
  case False
  then show ?thesis
    using assms by (auto simp: pc_transport_plugin_register_def)
qed

theorem plugin_register_replaces_witness:
  "\<exists>R. repo_ok R \<and> pc__get_transport_plugin 0 R = Some uv_tcp_plugin \<and>
     (case pc_transport_plugin_register (Some (uv_tcp_plugin\<lparr>on_register := Some 9\<rparr>)) R of
       (rc, R') \<Rightarrow> rc = PC_RC_OK \<and> hook_calls R' = [2, 9])"
proof -
  let ?R = "\<lparr>repo = [Some uv_tcp_plugin, None, None, None, None, None, None, None], hook_calls = []\<rparr>"
  have "repo_ok ?R" "pc__get_transport_plugin 0 ?R = Some uv_tcp_plugin"
    by (simp_all add: repo_ok_def pc__get_transport_plugin_def)
  then show ?thesis
    using plugin_register_replaces [of ?R "uv_tcp_plugin\<lparr>on_register := Some 9\<rparr>"]
    by (intro exI [of _ ?R]) (auto simp: uv_tcp_plugin_def split: prod.splits)
qed

text \<open>
  C40. Initialising the library makes exactly the dummy, TCP and TLS transports available, and
  cleaning it up removes them again; the deregister hooks of TCP and TLS run after their register
  hooks. A second cleanup frees the platform string again, which is undefined.
\<close>

theorem lib_init_cleanup:
  assumes "repo (lib_repo L) = replicate 8 None" and "hook_calls (lib_repo L) = []"
  shows "\<exists>L2. let L1 = pc_lib_init lg al fr pf L in
    (\<forall>n. pc__get_transport_plugin n (lib_repo L1) =
       (if n = PC_TR_NAME_DUMMY then Some dummy_plugin else if n = PC_TR_NAME_UV_TCP then Some uv_tcp_plugin
        else if n = PC_TR_NAME_UV_TLS then Some uv_tls_plugin else None)) \<and>
    pc_lib_cleanup L1 = Some L2 \<and>
    (\<forall>n. pc__get_transport_plugin n (lib_repo L2) = None) \<and>
    hook_calls (lib_repo L2) = [1, 3, 2, 4] \<and> pc_lib_cleanup L2 = None"
proof -
  define R0 where "R0 = lib_repo L"
  have ok: "repo_ok R0"
    using assms by (simp add: R0_def repo_ok_def)
  define R1 where "R1 = snd (pc_transport_plugin_register (Some dummy_plugin) R0)"
  have R1: "R1 = R0\<lparr>repo := (replicate 8 None)[7 := Some dummy_plugin]\<rparr>"
    using ok assms by (simp add: R1_def R0_def register_effect dummy_plugin_def)
  define R2 where "R2 = snd (pc_transport_plugin_register (Some uv_tcp_plugin) R1)"
  have R2: "R2 = R0\<lparr>repo := (replicate 8 None)[7 := Some dummy_plugin, 0 := Some uv_tcp_plugin],
      hook_calls := [1]\<rparr>"
    using ok assms by (simp add: R2_def R1 R0_def register_effect uv_tcp_plugin_def repo_ok_def)
  define R3 where "R3 = snd (pc_transport_plugin_register (Some uv_tls_plugin) R2)"
  have R3: "R3 = R0\<lparr>repo := (replicate 8 None)[7 := Some dummy_plugin, 0 := Some uv_tcp_plugin,
      1 := Some uv_tls_plugin], hook_calls := [1, 3]\<rparr>"
    using ok assms by (simp add: R3_def R2 R0_def register_effect uv_tls_plugin_def repo_ok_def)
  have init: "lib_repo (pc_lib_init lg al fr pf L) = R3"
    by (simp add: pc_lib_init_def R3_def R2_def R1_def R0_def Let_def)
  have "replicate 8 (None :: plugin option) = [None, None, None, None, None, None, None, None]"
    by (simp add: numeral_eq_Suc)
  then have clean: "pc_lib_cleanup (pc_lib_init lg al fr pf L) = Some ((pc_lib_init lg al fr pf L)
      \<lparr>lib_repo := R0\<lparr>repo := (replicate 8 None)[7 := None, 0 := None, 1 := None], hook_calls := [1, 3, 2, 4]\<rparr>,
        platform_type := Some Freed\<rparr>)"
    by (simp add: pc_lib_cleanup_def init Let_def R3 deregister_effect repo_ok_def free_string_def
        dummy_plugin_def uv_tcp_plugin_def uv_tls_plugin_def) (simp add: pc_lib_init_def free_string_def Let_def)
  have slot: "nat n < 8" if "0 \<le> n" "n < 8" for n :: int
    using that by auto
  have twice: "pc_lib_cleanup (L'\<lparr>platform_type := Some Freed\<rparr>) = None" for L'
    by (simp add: pc_lib_cleanup_def free_string_def Let_def)
  show ?thesis
    by (rule exI, simp only: Let_def clean, intro conjI)
      (auto simp: init R3 pc__get_transport_plugin_def nth_list_update slot twice)
qed

theorem lib_init_cleanup_witness:
  "\<exists>L. pc_lib_cleanup (pc_lib_init None None None (Some ''ios'')
        \<lparr>lib_log = None, lib_malloc = None, lib_free = None, platform_type = None,
         lib_repo = \<lparr>repo = replicate 8 None, hook_calls = []\<rparr>\<rparr>) = Some L \<and>
   hook_calls (lib_repo L) = [1, 3, 2, 4] \<and> pc_lib_cleanup L = None"
  using lib_init_cleanup [of "\<lparr>lib_log = None, lib_malloc = None, lib_free = None, platform_type = None,
       lib_repo = \<lparr>repo = replicate 8 None, hook_calls = []\<rparr>\<rparr>" None None None "Some ''ios''"]
  by (auto simp: Let_def)

end
