(* ===== verification/Pool.thy ===== *)
theory Pool
  imports Flags
begin

text \<open>
  The allocation scheme that requests, notifies, pending events and write items share: a fixed
  array of pre-allocated slots, searched for an idle one, and the heap when all are busy. An
  item is named by a reference, its slot or its heap cell. The operations are parameterised by
  the item's type word; \<open>slot_pool\<close> states what a client of the scheme relies on, and the
  theories of the items interpret it.
\<close>

section \<open>References and operations\<close>

datatype ref = Pre nat | Dyn nat

record 'a pool =
  slots :: "'a list"
  heap :: "nat \<Rightarrow> 'a option"
  fresh :: nat

fun pool_get :: "'a pool \<Rightarrow> ref \<Rightarrow> 'a option" where
  "pool_get p (Pre i) = (if i < length (slots p) then Some (slots p ! i) else None)"
| "pool_get p (Dyn n) = heap p n"

text \<open>Writing to and freeing a cell; both are undefined on a cell that is not allocated.\<close>

fun pool_put :: "ref \<Rightarrow> 'a \<Rightarrow> 'a pool \<Rightarrow> 'a pool option" where
  "pool_put (Pre i) v p = (if i < length (slots p) then Some (p\<lparr>slots := (slots p)[i := v]\<rparr>) else None)"
| "pool_put (Dyn n) v p = (if heap p n \<noteq> None then Some (p\<lparr>heap := (heap p)(n \<mapsto> v)\<rparr>) else None)"

fun pool_free :: "ref \<Rightarrow> 'a pool \<Rightarrow> 'a pool option" where
  "pool_free (Pre i) p = None"
| "pool_free (Dyn n) p = (if heap p n \<noteq> None then Some (p\<lparr>heap := (heap p)(n := None)\<rparr>) else None)"

definition pool_upd :: "ref \<Rightarrow> ('a \<Rightarrow> 'a) \<Rightarrow> 'a pool \<Rightarrow> 'a pool option" where
  "pool_upd r f p = do { x \<leftarrow> pool_get p r; pool_put r (f x) p }"

text \<open>\<open>for (i = 0; i < COUNT; ++i) if (PC_PRE_ALLOC_IS_IDLE(slots[i].type))\<close>\<close>

fun first_idle :: "('a \<Rightarrow> u32) \<Rightarrow> 'a list \<Rightarrow> nat option" where
  "first_idle ty [] = None"
| "first_idle ty (x # xs) =
     (if PC_PRE_ALLOC_IS_IDLE (ty x) then Some 0 else map_option Suc (first_idle ty xs))"

text \<open>
  The first idle slot, set busy, or else a cell of the heap that holds \<open>dyn\<close> (zeroed
  memory with its type word set).
\<close>

definition pool_alloc :: "('a \<Rightarrow> u32) \<Rightarrow> ((u32 \<Rightarrow> u32) \<Rightarrow> 'a \<Rightarrow> 'a) \<Rightarrow> 'a \<Rightarrow> 'a pool \<Rightarrow> ref \<times> 'a pool" where
  "pool_alloc ty upd dyn p =
     (case first_idle ty (slots p) of
        Some i \<Rightarrow> (Pre i, p\<lparr>slots := (slots p)[i := upd PC_PRE_ALLOC_SET_BUSY (slots p ! i)]\<rparr>)
      | None \<Rightarrow> (Dyn (fresh p), p\<lparr>heap := (heap p)(fresh p \<mapsto> dyn), fresh := Suc (fresh p)\<rparr>))"

text \<open>\<open>if (PC_IS_PRE_ALLOC(type)) PC_PRE_ALLOC_SET_IDLE(type); else pc_lib_free(...)\<close>\<close>

definition pool_release :: "('a \<Rightarrow> u32) \<Rightarrow> ((u32 \<Rightarrow> u32) \<Rightarrow> 'a \<Rightarrow> 'a) \<Rightarrow> ref \<Rightarrow> 'a pool \<Rightarrow> 'a pool option" where
  "pool_release ty upd r p =
     do { x \<leftarrow> pool_get p r;
          if PC_IS_PRE_ALLOC (ty x) then pool_put r (upd PC_PRE_ALLOC_SET_IDLE x) p else pool_free r p }"

section \<open>The contract\<close>

text \<open>
  \<open>in_use\<close>: the item belongs to someone. \<open>pool_ok\<close>: the type words agree with where the
  items live, and the allocator hands out cells that are not in use.
\<close>

definition in_use :: "('a \<Rightarrow> u32) \<Rightarrow> 'a pool \<Rightarrow> ref \<Rightarrow> bool" where
  "in_use ty p r \<longleftrightarrow> (case r of
      Pre i \<Rightarrow> i < length (slots p) \<and> \<not> PC_PRE_ALLOC_IS_IDLE (ty (slots p ! i))
    | Dyn n \<Rightarrow> heap p n \<noteq> None)"

definition pool_ok :: "('a \<Rightarrow> u32) \<Rightarrow> 'a pool \<Rightarrow> bool" where
  "pool_ok ty p \<longleftrightarrow>
     (\<forall>i < length (slots p). PC_IS_PRE_ALLOC (ty (slots p ! i))) \<and>
     (\<forall>n x. heap p n = Some x \<longrightarrow> \<not> PC_IS_PRE_ALLOC (ty x)) \<and>
     (\<forall>n \<ge> fresh p. heap p n = None)"

definition pool_inv :: "('a \<Rightarrow> u32) \<Rightarrow> 'a pool \<Rightarrow> ref list \<Rightarrow> ref set \<Rightarrow> bool" where
  "pool_inv ty p q F \<longleftrightarrow> pool_ok ty p \<and> distinct q \<and> set q \<inter> F = {} \<and>
     (\<forall>r. in_use ty p r \<longleftrightarrow> r \<in> set q \<union> F)"

lemma inv_dequeue:
  "pool_inv ty p q F \<Longrightarrow> r \<in> set q \<Longrightarrow> pool_inv ty p (remove1 r q) (insert r F) \<and> r \<notin> F"
  by (auto simp: pool_inv_def)

lemma first_idle_Some:
  "first_idle ty xs = Some i \<Longrightarrow> i < length xs \<and> PC_PRE_ALLOC_IS_IDLE (ty (xs ! i))"
  by (induction xs arbitrary: i) (auto split: if_splits)

lemma first_idle_None: "first_idle ty xs = None \<longleftrightarrow> (\<forall>x \<in> set xs. \<not> PC_PRE_ALLOC_IS_IDLE (ty x))"
  by (induction xs) auto

lemma pool_get_put: "pool_put r v p = Some p' \<Longrightarrow> pool_get p' s = (if s = r then Some v else pool_get p s)"
  by (cases r; cases s) (auto split: if_splits)

lemma pool_get_free: "pool_free r p = Some p' \<Longrightarrow> pool_get p' s = (if s = r then None else pool_get p s)"
  by (cases r; cases s) (auto split: if_splits)

lemma pool_put_Some: "pool_get p r = Some x \<Longrightarrow> \<exists>p'. pool_put r v p = Some p'"
  by (cases r) (auto split: if_splits)

lemma in_use_get: "in_use ty p r \<Longrightarrow> \<exists>x. pool_get p r = Some x"
  by (cases r) (auto simp: in_use_def)

lemma inv_get:
  "pool_inv ty p q F \<Longrightarrow> r \<in> set q \<union> F \<Longrightarrow> \<exists>x. pool_get p r = Some x"
  by (auto simp: pool_inv_def intro: in_use_get)

lemma in_use_iff:
  "pool_ok ty p \<Longrightarrow> in_use ty p r \<longleftrightarrow>
    (\<exists>x. pool_get p r = Some x \<and> (PC_IS_PRE_ALLOC (ty x) \<longrightarrow> \<not> PC_PRE_ALLOC_IS_IDLE (ty x)))"
  by (cases r) (auto simp: in_use_def pool_ok_def split: if_splits)

lemma pool_upd_Some:
  "pool_upd r f p = Some p' \<longleftrightarrow> (\<exists>x. pool_get p r = Some x \<and> pool_put r (f x) p = Some p')"
  by (simp add: pool_upd_def Option.bind_eq_Some_conv)

locale slot_pool =
  fixes ty :: "'a \<Rightarrow> u32"
    and upd :: "(u32 \<Rightarrow> u32) \<Rightarrow> 'a \<Rightarrow> 'a"
    and dyn :: 'a
  assumes ty_upd [simp]: "ty (upd f x) = f (ty x)"
    and dyn_dyn [simp]: "\<not> PC_IS_PRE_ALLOC (ty dyn)"
begin

lemma alloc_ok:
  assumes "pool_ok ty p" and "pool_alloc ty upd dyn p = (r, p')"
  shows "pool_ok ty p'"
  using assms
  by (auto simp: pool_ok_def pool_alloc_def flag_simps nth_list_update
      split: option.splits if_splits dest!: first_idle_Some)

lemma alloc_fresh:
  assumes "pool_ok ty p" and "pool_alloc ty upd dyn p = (r, p')"
  shows "\<not> in_use ty p r" and "in_use ty p' r"
  using assms
  by (auto simp: in_use_def pool_ok_def pool_alloc_def flag_simps
      split: option.splits dest!: first_idle_Some)

lemma alloc_other:
  assumes "pool_alloc ty upd dyn p = (r, p')" and "s \<noteq> r"
  shows "pool_get p' s = pool_get p s" and "in_use ty p' s = in_use ty p s"
  using assms
  by (cases s; auto simp: in_use_def pool_alloc_def split: option.splits)+

lemma alloc_get:
  assumes "pool_alloc ty upd dyn p = (r, p')"
  shows "pool_get p' r = Some (case r of Pre i \<Rightarrow> upd PC_PRE_ALLOC_SET_BUSY (slots p ! i) | Dyn n \<Rightarrow> dyn)"
  using assms by (auto simp: pool_alloc_def split: option.splits dest!: first_idle_Some)

lemma put_ok:
  assumes "pool_ok ty p" and "pool_put r v p = Some p'" and "pool_get p r = Some x"
    and "PC_IS_PRE_ALLOC (ty v) = PC_IS_PRE_ALLOC (ty x)"
  shows "pool_ok ty p'"
  using assms
  by (cases r) (auto simp: pool_ok_def nth_list_update split: if_splits)

lemma put_in_use:
  assumes "pool_put r v p = Some p'" and "pool_get p r = Some x"
    and "PC_PRE_ALLOC_IS_IDLE (ty v) = PC_PRE_ALLOC_IS_IDLE (ty x)"
  shows "in_use ty p' s = in_use ty p s"
  using assms
  by (cases r; cases s) (auto simp: in_use_def nth_list_update split: if_splits)

lemma release_Some:
  assumes "pool_ok ty p" and "in_use ty p r"
  obtains p' where "pool_release ty upd r p = Some p'"
  using assms
  by (cases r) (auto simp: pool_release_def in_use_def pool_ok_def)

lemma release_ok:
  assumes "pool_ok ty p" and "pool_release ty upd r p = Some p'"
  shows "pool_ok ty p'"
  using assms
  by (cases r) (auto simp: pool_release_def pool_ok_def flag_simps nth_list_update
      split: if_splits bind_splits)

lemma release_in_use:
  assumes "pool_ok ty p" and "pool_release ty upd r p = Some p'"
  shows "in_use ty p' s \<longleftrightarrow> in_use ty p s \<and> s \<noteq> r"
  using assms
  by (cases r; cases s) (auto simp: pool_release_def in_use_def pool_ok_def flag_simps nth_list_update
      split: if_splits bind_splits)

lemma release_get_other:
  assumes "pool_release ty upd r p = Some p'" and "s \<noteq> r"
  shows "pool_get p' s = pool_get p s"
  using assms
  by (auto simp: pool_release_def pool_get_put pool_get_free split: if_splits bind_splits)

text \<open>
  The invariant of a pool with its queue: the items in use are those in the queue and those
  \<open>F\<close> that an operation has taken out and not yet released, none twice.
\<close>

lemma inv_enqueue:
  assumes "pool_inv ty p q F" and "pool_alloc ty upd dyn p = (r, p')"
  shows "pool_inv ty p' (q @ [r]) F"
proof -
  have ok: "pool_ok ty p"
    using assms(1) by (simp add: pool_inv_def)
  have new: "\<not> in_use ty p r" "in_use ty p' r"
    using alloc_fresh [OF ok assms(2)] by auto
  have others: "in_use ty p' s = in_use ty p s" if "s \<noteq> r" for s
    using alloc_other(2) [OF assms(2) that] .
  have "in_use ty p' s \<longleftrightarrow> s \<in> set (q @ [r]) \<union> F" for s
    using assms(1) new others by (cases "s = r") (auto simp: pool_inv_def)
  then show ?thesis
    using assms(1) new(1) alloc_ok [OF ok assms(2)] by (auto simp: pool_inv_def)
qed

lemma inv_put:
  assumes "pool_inv ty p q F" and "pool_put r v p = Some p'" and "pool_get p r = Some x"
    and "PC_IS_PRE_ALLOC (ty v) = PC_IS_PRE_ALLOC (ty x)"
    and "PC_PRE_ALLOC_IS_IDLE (ty v) = PC_PRE_ALLOC_IS_IDLE (ty x)"
  shows "pool_inv ty p' q F"
  using assms put_ok [OF _ assms(2,3)] put_in_use [OF assms(2,3)]
  by (auto simp: pool_inv_def)

lemma inv_release:
  assumes "pool_inv ty p q (insert r F)" and "r \<notin> F" and "pool_release ty upd r p = Some p'"
  shows "pool_inv ty p' q F"
  using assms release_ok [OF _ assms(3)] release_in_use [OF _ assms(3)]
  by (auto simp: pool_inv_def)

lemma inv_release_Some:
  assumes "pool_inv ty p q F" and "r \<in> set q \<union> F"
  obtains p' where "pool_release ty upd r p = Some p'"
  using assms release_Some [of p r] by (auto simp: pool_inv_def)

end

end
