(* ===== verification/Client.thy ===== *)
theory Client
  imports Pool Lib "HOL-Library.Multiset"
begin

text \<open>
  The client object of \<open>src/pc_pomelo_i.h\<close>: its requests, notifies, pending events, event
  handlers and mutexes, over an arbitrary transport state \<open>'t\<close>, and the invariant that every
  operation of \<open>pc_trans.c\<close> and \<open>pc_pomelo.c\<close> keeps.

  The three item arrays are pools; the queues that link their items are lists of references,
  as \<open>Queue\<close> shows the intrusive queues to be. Opaque pointers (\<open>ex_data\<close>, callbacks) are
  numbers, \<open>None\<close> where NULL is possible. The calling client is never NULL here: the first
  check of the entry points, which logs and returns, has no counterpart. \<open>history\<close> is a
  history variable: it records what was accepted and which callbacks ran, and no operation
  reads it.
\<close>

section \<open>Requests, notifies, events, handlers\<close>

record pc_common_req =
  rq_client :: nat
  rq_type :: u32
  route :: "string option"
  msg :: "string option"
  rq_seq_num :: u32
  timeout :: int
  rq_ex_data :: nat

record pc_request =
  req_base :: pc_common_req
  req_id :: u32
  req_cb :: "nat option"

record pc_notify =
  ntf_base :: pc_common_req
  ntf_cb :: "nat option"

text \<open>The union of an event, by the member last written.\<close>

datatype ev_data =
    Ev_notify u32 int
  | Ev_req u32 int "string option"
  | Ev_net int "string option" "string option"

record pc_event =
  ev_type_word :: u32
  ev_data :: ev_data

record pc_ev_handler =
  h_ex_data :: nat
  h_destructor :: "nat option"
  handler_id :: int
  h_cb :: "nat option"

definition PC_PRE_ALLOC_EVENT_SLOT_COUNT :: nat where
  "PC_PRE_ALLOC_EVENT_SLOT_COUNT = PC_PRE_ALLOC_NOTIFY_SLOT_COUNT + PC_PRE_ALLOC_REQUEST_SLOT_COUNT + 2"

text \<open>Zeroed memory.\<close>

definition zero_common :: pc_common_req where
  "zero_common = \<lparr>rq_client = 0, rq_type = 0, route = None, msg = None, rq_seq_num = 0, timeout = 0,
     rq_ex_data = 0\<rparr>"

definition zero_request :: pc_request where
  "zero_request = \<lparr>req_base = zero_common, req_id = 0, req_cb = None\<rparr>"

definition zero_notify :: pc_notify where
  "zero_notify = \<lparr>ntf_base = zero_common, ntf_cb = None\<rparr>"

definition zero_event :: pc_event where
  "zero_event = \<lparr>ev_type_word = 0, ev_data = Ev_notify 0 0\<rparr>"

definition rq_ty :: "pc_request \<Rightarrow> u32" where "rq_ty r = rq_type (req_base r)"
definition nt_ty :: "pc_notify \<Rightarrow> u32" where "nt_ty n = rq_type (ntf_base n)"

definition rq_upd :: "(u32 \<Rightarrow> u32) \<Rightarrow> pc_request \<Rightarrow> pc_request" where
  "rq_upd f r = r\<lparr>req_base := (req_base r)\<lparr>rq_type := f (rq_type (req_base r))\<rparr>\<rparr>"

definition nt_upd :: "(u32 \<Rightarrow> u32) \<Rightarrow> pc_notify \<Rightarrow> pc_notify" where
  "nt_upd f n = n\<lparr>ntf_base := (ntf_base n)\<lparr>rq_type := f (rq_type (ntf_base n))\<rparr>\<rparr>"

definition ev_upd :: "(u32 \<Rightarrow> u32) \<Rightarrow> pc_event \<Rightarrow> pc_event" where
  "ev_upd f e = e\<lparr>ev_type_word := f (ev_type_word e)\<rparr>"

text \<open>What \<open>pc_lib_malloc\<close>, \<open>memset\<close> and the assignment of the type word leave in a new cell.\<close>

definition dyn_request :: pc_request where
  "dyn_request = rq_upd (\<lambda>_. PC_DYN_ALLOC OR PC_REQ_TYPE_REQUEST) zero_request"

definition dyn_notify :: pc_notify where
  "dyn_notify = nt_upd (\<lambda>_. PC_REQ_TYPE_NOTIFY OR PC_DYN_ALLOC) zero_notify"

definition dyn_event :: pc_event where
  "dyn_event = zero_event\<lparr>ev_type_word := PC_DYN_ALLOC\<rparr>"

interpretation rq_pool: slot_pool rq_ty rq_upd dyn_request
  by unfold_locales (simp_all add: rq_ty_def rq_upd_def dyn_request_def zero_request_def zero_common_def
      flag_defs)

interpretation nt_pool: slot_pool nt_ty nt_upd dyn_notify
  by unfold_locales (simp_all add: nt_ty_def nt_upd_def dyn_notify_def zero_notify_def zero_common_def
      flag_defs)

interpretation ev_pool: slot_pool ev_type_word ev_upd dyn_event
  by unfold_locales (simp_all add: ev_upd_def dyn_event_def flag_defs)

section \<open>The client\<close>

record pc_client_config =
  conn_timeout :: int
  enable_reconn :: bool
  reconn_max_retry :: int
  reconn_delay :: int
  reconn_delay_max :: int
  reconn_exp_backoff :: bool
  enable_polling :: bool
  local_storage_cb :: "nat option"
  ls_ex_data :: nat
  config_transport_name :: int

definition PC_CLIENT_CONFIG_DEFAULT :: pc_client_config where
  "PC_CLIENT_CONFIG_DEFAULT = \<lparr>conn_timeout = 30, enable_reconn = True, reconn_max_retry = PC_ALWAYS_RETRY,
     reconn_delay = 2, reconn_delay_max = 30, reconn_exp_backoff = True, enable_polling = False,
     local_storage_cb = None, ls_ex_data = 0, config_transport_name = PC_TR_NAME_UV_TCP\<rparr>"

datatype mutex = M_state | M_handler | M_notify | M_req | M_event

datatype call =
    Req_accepted pc_request
  | Req_answered pc_request int "string option"
  | Req_withdrawn pc_request
  | Ntf_accepted pc_notify
  | Ntf_answered pc_notify int
  | Ntf_withdrawn pc_notify
  | Ev_handled int int "string option" "string option"
  | Destroyed int

text \<open>
  \<open>ev_handlers\<close> lists the cells of \<open>handlers\<close>, the heap of registered handlers;
  \<open>next_handler_id\<close> is the static counter of \<open>pc_client_add_ev_handler\<close>. \<open>locks\<close> counts how
  often the running thread holds each (recursive) mutex.
\<close>

record 't pc_client =
  self :: nat
  magic_num :: int
  state :: pc_state
  config :: pc_client_config
  c_ex_data :: nat
  tran :: "'t option"
  ev_handlers :: "nat list"
  handlers :: "nat \<Rightarrow> pc_ev_handler option"
  handler_fresh :: nat
  next_handler_id :: int
  seq_num :: u32
  notifies :: "pc_notify pool"
  notify_queue :: "ref list"
  req_id_seq :: u32
  requests :: "pc_request pool"
  req_queue :: "ref list"
  pending_events :: "pc_event pool"
  pending_ev_queue :: "ref list"
  is_in_poll :: bool
  locks :: "mutex \<Rightarrow> nat"
  history :: "call list"

definition note_call :: "call \<Rightarrow> 't pc_client \<Rightarrow> 't pc_client" where
  "note_call e c = c\<lparr>history := history c @ [e]\<rparr>"

text \<open>Recursive mutexes; unlocking one that is not held fails its \<open>assert\<close>.\<close>

definition pc_mutex_lock :: "mutex \<Rightarrow> 't pc_client \<Rightarrow> 't pc_client" where
  "pc_mutex_lock m c = c\<lparr>locks := (locks c)(m := Suc (locks c m))\<rparr>"

definition pc_mutex_unlock :: "mutex \<Rightarrow> 't pc_client \<Rightarrow> 't pc_client option" where
  "pc_mutex_unlock m c =
     (if locks c m > 0 then Some (c\<lparr>locks := (locks c)(m := locks c m - 1)\<rparr>) else None)"

text \<open>The user's code: the callbacks by their function pointers, as transformers of the client.\<close>

record 't user =
  u_req :: "nat \<Rightarrow> pc_request \<Rightarrow> int \<Rightarrow> string option \<Rightarrow> 't pc_client \<Rightarrow> 't pc_client option"
  u_ntf :: "nat \<Rightarrow> pc_notify \<Rightarrow> int \<Rightarrow> 't pc_client \<Rightarrow> 't pc_client option"
  u_ev :: "nat \<Rightarrow> int \<Rightarrow> nat \<Rightarrow> string option \<Rightarrow> string option \<Rightarrow> 't pc_client \<Rightarrow> 't pc_client option"
  u_destroy :: "nat \<Rightarrow> nat \<Rightarrow> 't pc_client \<Rightarrow> 't pc_client option"

text \<open>Reading and updating an item of each pool through its pointer.\<close>

definition put_request :: "ref \<Rightarrow> (pc_request \<Rightarrow> pc_request) \<Rightarrow> 't pc_client \<Rightarrow> 't pc_client option" where
  "put_request r f c = do { p \<leftarrow> pool_upd r f (requests c); Some (c\<lparr>requests := p\<rparr>) }"

definition put_notify :: "ref \<Rightarrow> (pc_notify \<Rightarrow> pc_notify) \<Rightarrow> 't pc_client \<Rightarrow> 't pc_client option" where
  "put_notify r f c = do { p \<leftarrow> pool_upd r f (notifies c); Some (c\<lparr>notifies := p\<rparr>) }"

definition put_event :: "ref \<Rightarrow> (pc_event \<Rightarrow> pc_event) \<Rightarrow> 't pc_client \<Rightarrow> 't pc_client option" where
  "put_event r f c = do { p \<leftarrow> pool_upd r f (pending_events c); Some (c\<lparr>pending_events := p\<rparr>) }"

text \<open>\<open>QUEUE_FOREACH\<close> with a \<open>break\<close> at the first item that matches.\<close>

fun queue_find :: "(ref \<Rightarrow> 'a option) \<Rightarrow> ('a \<Rightarrow> bool) \<Rightarrow> ref list \<Rightarrow> ref option option" where
  "queue_find get P [] = Some None"
| "queue_find get P (r # rs) = do { x \<leftarrow> get r; if P x then Some (Some r) else queue_find get P rs }"

section \<open>The invariant\<close>

text \<open>The requests that were accepted, and those answered by a callback or handed back to the caller.\<close>

definition accepted_reqs :: "call list \<Rightarrow> pc_request list" where
  "accepted_reqs = List.map_filter (\<lambda>e. case e of Req_accepted r \<Rightarrow> Some r | _ \<Rightarrow> None)"

definition settled_reqs :: "call list \<Rightarrow> pc_request list" where
  "settled_reqs = List.map_filter
     (\<lambda>e. case e of Req_answered r _ _ \<Rightarrow> Some r | Req_withdrawn r \<Rightarrow> Some r | _ \<Rightarrow> None)"

definition accepted_ntfs :: "call list \<Rightarrow> pc_notify list" where
  "accepted_ntfs = List.map_filter (\<lambda>e. case e of Ntf_accepted r \<Rightarrow> Some r | _ \<Rightarrow> None)"

definition settled_ntfs :: "call list \<Rightarrow> pc_notify list" where
  "settled_ntfs = List.map_filter
     (\<lambda>e. case e of Ntf_answered r _ \<Rightarrow> Some r | Ntf_withdrawn r \<Rightarrow> Some r | _ \<Rightarrow> None)"

lemmas history_defs = accepted_reqs_def settled_reqs_def accepted_ntfs_def settled_ntfs_def

text \<open>
  A pool of requests with its queue: every item that was accepted is settled or in the queue
  (\<open>F\<close>: items taken out, settled but not yet released), no slot leaks, and idle slots hold no
  strings, which the entry points assert.
\<close>

definition queued :: "'a pool \<Rightarrow> ref list \<Rightarrow> 'a list" where
  "queued p q = map (\<lambda>r. the (pool_get p r)) q"

definition queue_inv ::
    "('a \<Rightarrow> u32) \<Rightarrow> ('a \<Rightarrow> pc_common_req) \<Rightarrow> 'a pool \<Rightarrow> ref list \<Rightarrow> ref set \<Rightarrow> 'a list \<Rightarrow> 'a list \<Rightarrow> bool" where
  "queue_inv ty base p q F acc settled \<longleftrightarrow>
     pool_inv ty p q F \<and>
     (\<forall>i < length (slots p). PC_PRE_ALLOC_IS_IDLE (ty (slots p ! i)) \<longrightarrow>
        route (base (slots p ! i)) = None \<and> msg (base (slots p ! i)) = None) \<and>
     mset acc = mset settled + mset (queued p q)"

lemma queued_cong: "(\<And>r. r \<in> set q \<Longrightarrow> pool_get p' r = pool_get p r) \<Longrightarrow> queued p' q = queued p q"
  by (simp add: queued_def)

lemma queued_append [simp]: "queued p (q @ [r]) = queued p q @ [the (pool_get p r)]"
  by (simp add: queued_def)

lemma mset_queued_remove:
  assumes "r \<in> set q"
  shows "mset (queued p q) = add_mset (the (pool_get p r)) (mset (queued p (remove1 r q)))"
  using assms by (induction q) (auto simp: queued_def)

locale request_pool = slot_pool ty upd dyn
  for ty :: "'a \<Rightarrow> u32" and upd :: "(u32 \<Rightarrow> u32) \<Rightarrow> 'a \<Rightarrow> 'a" and dyn :: 'a +
  fixes base :: "'a \<Rightarrow> pc_common_req"
  assumes base_upd [simp]: "route (base (upd f x)) = route (base x)" "msg (base (upd f x)) = msg (base x)"
begin

lemma enqueue:
  assumes "queue_inv ty base p q F acc settled" and "pool_alloc ty upd dyn p = (r, p1)"
    and "pool_upd r f p1 = Some p2" and "\<And>x. ty (f x) = ty x"
  shows "queue_inv ty base p2 (q @ [r]) F (acc @ [the (pool_get p2 r)]) settled"
proof -
  have inv: "pool_inv ty p q F" and bal: "mset acc = mset settled + mset (queued p q)"
    using assms(1) by (auto simp: queue_inv_def)
  obtain x where x: "pool_get p1 r = Some x" and put: "pool_put r (f x) p1 = Some p2"
    using assms(3) by (auto simp: pool_upd_Some)
  have inv1: "pool_inv ty p1 (q @ [r]) F"
    by (rule inv_enqueue [OF inv assms(2)])
  have "r \<notin> set q"
    using inv1 by (auto simp: pool_inv_def)
  then have same: "queued p2 q = queued p q"
    using alloc_other(1) [OF assms(2)] by (intro queued_cong) (auto simp: pool_get_put [OF put])
  have idle: "PC_PRE_ALLOC_IS_IDLE (ty (slots p2 ! i)) \<Longrightarrow> i < length (slots p2) \<Longrightarrow>
      slots p2 ! i = slots p ! i \<and> i < length (slots p) \<and> PC_PRE_ALLOC_IS_IDLE (ty (slots p ! i))" for i
    using assms(2,4) put x
    by (cases r) (auto simp: pool_alloc_def flag_simps nth_list_update split: option.splits if_splits)
  have "\<forall>i < length (slots p2). PC_PRE_ALLOC_IS_IDLE (ty (slots p2 ! i)) \<longrightarrow>
      route (base (slots p2 ! i)) = None \<and> msg (base (slots p2 ! i)) = None"
    using assms(1) idle unfolding queue_inv_def by metis
  then show ?thesis
    using inv_put [OF inv1 put x] assms(4) bal by (simp add: queue_inv_def same)
qed

lemma take_out:
  assumes "queue_inv ty base p q F acc settled" and "r \<in> set q" and "pool_get p r = Some x"
  shows "queue_inv ty base p (remove1 r q) (insert r F) acc (settled @ [x]) \<and> r \<notin> F"
  using assms inv_dequeue [of ty p q F r] mset_queued_remove [OF assms(2), of p]
  by (auto simp: queue_inv_def)

lemma clear:
  assumes "queue_inv ty base p q F acc settled" and "r \<in> F" and "pool_upd r f p = Some p'"
    and "\<And>x. ty (f x) = ty x" and "\<And>x. route (base (f x)) = None \<and> msg (base (f x)) = None"
  shows "queue_inv ty base p' q F acc settled"
proof -
  have inv: "pool_inv ty p q F"
    using assms(1) by (auto simp: queue_inv_def)
  then have "r \<notin> set q"
    using assms(2) by (auto simp: pool_inv_def)
  obtain x where x: "pool_get p r = Some x" and put: "pool_put r (f x) p = Some p'"
    using assms(3) by (auto simp: pool_upd_Some)
  have same: "queued p' q = queued p q"
    using \<open>r \<notin> set q\<close> by (intro queued_cong) (auto simp: pool_get_put [OF put])
  have idle: "slots p' ! i = slots p ! i \<and> i < length (slots p) \<or>
      route (base (slots p' ! i)) = None \<and> msg (base (slots p' ! i)) = None"
    if "i < length (slots p')" for i
    using put that assms(5) by (cases r) (auto simp: nth_list_update split: if_splits)
  show ?thesis
    using inv_put [OF inv put x] assms(1,4) idle unfolding queue_inv_def same by metis
qed

lemma give_back:
  assumes "queue_inv ty base p q (insert r F) acc settled" and "r \<notin> F"
    and "pool_release ty upd r p = Some p'" and "pool_get p r = Some x"
    and "route (base x) = None" and "msg (base x) = None"
  shows "queue_inv ty base p' q F acc settled"
proof -
  have inv: "pool_inv ty p q (insert r F)"
    using assms(1) by (auto simp: queue_inv_def)
  then have "r \<notin> set q"
    by (auto simp: pool_inv_def)
  then have same: "queued p' q = queued p q"
    using release_get_other [OF assms(3)] by (intro queued_cong) metis
  have idle: "slots p' ! i = slots p ! i \<and> i < length (slots p) \<or>
      route (base (slots p' ! i)) = None \<and> msg (base (slots p' ! i)) = None"
    if "i < length (slots p')" for i
    using assms(3-6) that
    by (cases r) (auto simp: pool_release_def nth_list_update split: if_splits bind_splits)
  show ?thesis
    using inv_release [OF inv assms(2,3)] assms(1) idle unfolding queue_inv_def same by metis
qed

end

interpretation rq: request_pool rq_ty rq_upd dyn_request req_base
  by unfold_locales (simp_all add: rq_upd_def)

interpretation nt: request_pool nt_ty nt_upd dyn_notify ntf_base
  by unfold_locales (simp_all add: nt_upd_def)

text \<open>The argument checks that open both ways of delivering a network event.\<close>

definition net_event_ok :: "int \<Rightarrow> string option \<Rightarrow> string option \<Rightarrow> bool" where
  "net_event_ok ev_type arg1 arg2 \<longleftrightarrow>
     \<not> (ev_type \<ge> PC_EV_COUNT \<or> ev_type < 0) \<and>
     \<not> (ev_type = PC_EV_USER_DEFINED_PUSH \<and> (arg1 = None \<or> arg2 = None)) \<and>
     \<not> ((ev_type = PC_EV_CONNECT_ERROR \<or> ev_type = PC_EV_UNEXPECTED_DISCONNECT
         \<or> ev_type = PC_EV_PROTO_ERROR \<or> ev_type = PC_EV_CONNECT_FAILED) \<and> arg1 = None)"

definition event_ok :: "pc_event \<Rightarrow> bool" where
  "event_ok e \<longleftrightarrow> (case ev_data e of
      Ev_notify _ rc \<Rightarrow> PC_EV_IS_NOTIFY_SENT (ev_type_word e) \<and> \<not> PC_EV_IS_RESP (ev_type_word e) \<and> rc_ok rc
    | Ev_req _ rc _ \<Rightarrow> PC_EV_IS_RESP (ev_type_word e) \<and> rc_ok rc
    | Ev_net t a1 a2 \<Rightarrow> PC_EV_IS_NET_EVENT (ev_type_word e) \<and> \<not> PC_EV_IS_RESP (ev_type_word e) \<and>
        \<not> PC_EV_IS_NOTIFY_SENT (ev_type_word e) \<and> net_event_ok t a1 a2)"

definition events_inv :: "ref set \<Rightarrow> 't pc_client \<Rightarrow> bool" where
  "events_inv H c \<longleftrightarrow> enable_polling (config c) \<longrightarrow>
     pool_inv ev_type_word (pending_events c) (pending_ev_queue c) H \<and>
     (\<forall>e \<in> set (queued (pending_events c) (pending_ev_queue c)). event_ok e)"

definition handlers_inv :: "'t pc_client \<Rightarrow> bool" where
  "handlers_inv c \<longleftrightarrow> distinct (ev_handlers c) \<and>
     (\<forall>n \<in> set (ev_handlers c). \<exists>h. handlers c n = Some h \<and> h_cb h \<noteq> None) \<and>
     (\<forall>n \<ge> handler_fresh c. handlers c n = None)"

text \<open>
  \<open>F\<close>, \<open>G\<close> and \<open>H\<close> are the requests, notifies and events that running operations have taken
  out of their queues. Request ids are never the two reserved values,
  and every item has a callback.
\<close>

definition client_inv :: "ref set \<Rightarrow> ref set \<Rightarrow> ref set \<Rightarrow> 't pc_client \<Rightarrow> bool" where
  "client_inv F G H c \<longleftrightarrow>
     queue_inv rq_ty req_base (requests c) (req_queue c) F
       (accepted_reqs (history c)) (settled_reqs (history c)) \<and>
     queue_inv nt_ty ntf_base (notifies c) (notify_queue c) G
       (accepted_ntfs (history c)) (settled_ntfs (history c)) \<and>
     events_inv H c \<and> handlers_inv c \<and>
     (\<forall>r \<in> set (accepted_reqs (history c)).
        req_id r \<noteq> PC_NOTIFY_PUSH_REQ_ID \<and> req_id r \<noteq> PC_INVALID_REQ_ID \<and> req_cb r \<noteq> None) \<and>
     (\<forall>n \<in> set (accepted_ntfs (history c)). ntf_cb n \<noteq> None)"

text \<open>What no operation between initialisation and cleanup changes, how history grows, and that
  only new handlers join the list.\<close>

definition frame :: "'t pc_client \<Rightarrow> 't pc_client \<Rightarrow> bool" where
  "frame c c' \<longleftrightarrow> locks c' = locks c \<and> config c' = config c \<and> magic_num c' = magic_num c \<and>
     self c' = self c \<and> (tran c \<noteq> None \<longrightarrow> tran c' \<noteq> None) \<and> (\<exists>es. history c' = history c @ es) \<and>
     handler_fresh c \<le> handler_fresh c' \<and>
     set (ev_handlers c') \<subseteq> set (ev_handlers c) \<union> {handler_fresh c ..< handler_fresh c'}"

lemma frame_refl [simp]: "frame c c"
  by (simp add: frame_def)

lemma frame_trans [trans]: "frame a b \<Longrightarrow> frame b c \<Longrightarrow> frame a c"
  by (fastforce simp: frame_def)

lemma frame_note: "frame (note_call e c) c' \<Longrightarrow> frame c c'"
  by (auto simp: frame_def note_call_def)

lemma frame_fields [simp]:
  "frame (c\<lparr>req_queue := q\<rparr>) d = frame c d" "frame (c\<lparr>notify_queue := q\<rparr>) d = frame c d"
  "frame (c\<lparr>pending_ev_queue := q\<rparr>) d = frame c d" "frame c (d\<lparr>pending_ev_queue := q\<rparr>) = frame c d"
  "frame (c\<lparr>state := st\<rparr>) d = frame c d" "frame c (d\<lparr>state := st\<rparr>) = frame c d"
  "frame (c\<lparr>is_in_poll := b\<rparr>) d = frame c d" "frame c (d\<lparr>is_in_poll := b\<rparr>) = frame c d"
  "frame c (d\<lparr>req_queue := q\<rparr>) = frame c d" "frame c (d\<lparr>notify_queue := q\<rparr>) = frame c d"
  "frame c (d\<lparr>requests := p\<rparr>) = frame c d" "frame c (d\<lparr>notifies := n\<rparr>) = frame c d"
  "frame c (d\<lparr>pending_events := e\<rparr>) = frame c d"
  "frame c (d\<lparr>seq_num := w\<rparr>) = frame c d" "frame c (d\<lparr>req_id_seq := w\<rparr>) = frame c d"
  by (simp_all add: frame_def)

lemma frame_note_right: "frame c d \<Longrightarrow> frame c (note_call e d)"
  by (auto simp: frame_def note_call_def)

lemma frame_unlock:
  "frame (pc_mutex_lock m c) d \<Longrightarrow> frame c (d\<lparr>locks := (locks d)(m := locks d m - 1)\<rparr>)"
  by (auto simp: frame_def pc_mutex_lock_def)

definition keeps :: "('t pc_client \<Rightarrow> 't pc_client option) \<Rightarrow> bool" where
  "keeps f \<longleftrightarrow> (\<forall>F G H c c'. client_inv F G H c \<longrightarrow> f c = Some c' \<longrightarrow> client_inv F G H c' \<and> frame c c')"

text \<open>The same for an operation that also returns a value.\<close>

definition keeps_rc :: "('t pc_client \<Rightarrow> ('b \<times> 't pc_client) option) \<Rightarrow> bool" where
  "keeps_rc f \<longleftrightarrow>
     (\<forall>F G H c x c'. client_inv F G H c \<longrightarrow> f c = Some (x, c') \<longrightarrow> client_inv F G H c' \<and> frame c c')"

lemma keepsI [intro?]:
  "(\<And>F G H c c'. client_inv F G H c \<Longrightarrow> f c = Some c' \<Longrightarrow> client_inv F G H c' \<and> frame c c') \<Longrightarrow> keeps f"
  by (auto simp: keeps_def)

lemma keepsD: "keeps f \<Longrightarrow> client_inv F G H c \<Longrightarrow> f c = Some c' \<Longrightarrow> client_inv F G H c' \<and> frame c c'"
  by (auto simp: keeps_def)

lemma keeps_rcI [intro?]:
  "(\<And>F G H c x c'. client_inv F G H c \<Longrightarrow> f c = Some (x, c') \<Longrightarrow> client_inv F G H c' \<and> frame c c') \<Longrightarrow>
     keeps_rc f"
  by (auto simp: keeps_rc_def)

lemma keeps_rcD:
  "keeps_rc f \<Longrightarrow> client_inv F G H c \<Longrightarrow> f c = Some (x, c') \<Longrightarrow> client_inv F G H c' \<and> frame c c'"
  by (auto simp: keeps_rc_def)

lemma keeps_Some [simp]: "keeps Some"
  by (simp add: keeps_def)

lemma keeps_bind:
  assumes "keeps f" and "\<And>c. keeps (g c)"
  shows "keeps (\<lambda>c. Option.bind (f c) (g c))"
proof
  fix F G H c c'
  assume i: "client_inv F G H c" and "Option.bind (f c) (g c) = Some c'"
  then obtain d where d: "f c = Some d" "g c d = Some c'"
    by (auto simp: Option.bind_eq_Some_conv)
  show "client_inv F G H c' \<and> frame c c'"
    using keepsD [OF assms(1) i d(1)] keepsD [OF assms(2), of F G H d c c'] d(2) frame_trans by metis
qed

lemma keeps_if: "keeps f \<Longrightarrow> keeps g \<Longrightarrow> keeps (\<lambda>c. if b c then f c else g c)"
  unfolding keeps_def by metis

lemma inv_lock [simp]:
  "client_inv F G H (pc_mutex_lock m c) = client_inv F G H c"
  by (simp add: client_inv_def events_inv_def handlers_inv_def pc_mutex_lock_def)

lemma inv_state [simp]:
  "client_inv F G H (c\<lparr>state := st\<rparr>) = client_inv F G H c"
  "client_inv F G H (c\<lparr>tran := t\<rparr>) = client_inv F G H c"
  "client_inv F G H (c\<lparr>locks := l\<rparr>) = client_inv F G H c"
  "client_inv F G H (c\<lparr>is_in_poll := b\<rparr>) = client_inv F G H c"
  "client_inv F G H (c\<lparr>seq_num := n\<rparr>) = client_inv F G H c"
  "client_inv F G H (c\<lparr>req_id_seq := n\<rparr>) = client_inv F G H c"
  by (simp_all add: client_inv_def events_inv_def handlers_inv_def)

text \<open>A locked section: what is between the two calls decides everything but the counter.\<close>

lemma unlock_lock:
  "pc_mutex_unlock m (pc_mutex_lock m c) = Some c"
  by (simp add: pc_mutex_lock_def pc_mutex_unlock_def)

lemma unlock_Some:
  "pc_mutex_unlock m c = Some c' \<longleftrightarrow>
     locks c m > 0 \<and> c' = c\<lparr>locks := (locks c)(m := locks c m - 1)\<rparr>"
  by (auto simp: pc_mutex_unlock_def)

end
