(* ===== verification/Trans.thy ===== *)
theory Trans
  imports Client
begin

text \<open>
  \<open>src/pc_trans.c\<close>: how a transport reports network events, sent notifies and responses to
  the client. With polling the report is queued as an event, otherwise it is delivered at
  once: the state machine steps, the callbacks run and the item is released.
\<close>

section \<open>Queueing events for the poll\<close>

definition alloc_event :: "'t pc_client \<Rightarrow> ref \<times> 't pc_client" where
  "alloc_event c = (case pool_alloc ev_type_word ev_upd dyn_event (pending_events c) of
     (r, p) \<Rightarrow> (r, c\<lparr>pending_events := p\<rparr>))"

definition pc__trans_queue_event ::
    "int \<Rightarrow> string option \<Rightarrow> string option \<Rightarrow> 't pc_client \<Rightarrow> 't pc_client option" where
  "pc__trans_queue_event ev_type arg1 arg2 c =
     (if \<not> net_event_ok ev_type arg1 arg2 then Some c
      else do {
        assert_c (enable_polling (config c));
        pc_client_ev_str ev_type;
        let c1 = pc_mutex_lock M_event c;
        let (ev, c2) = alloc_event c1;
        c3 \<leftarrow> put_event ev (ev_upd PC_EV_SET_NET_EVENT) c2;
        let c4 = c3\<lparr>pending_ev_queue := pending_ev_queue c3 @ [ev]\<rparr>;
        c5 \<leftarrow> put_event ev (\<lambda>e. e\<lparr>ev_data := Ev_net ev_type (pc_lib_strdup arg1) (pc_lib_strdup arg2)\<rparr>) c4;
        pc_mutex_unlock M_event c5 })"

definition pc__trans_queue_sent :: "u32 \<Rightarrow> int \<Rightarrow> 't pc_client \<Rightarrow> 't pc_client option" where
  "pc__trans_queue_sent seq rc c =
     do {
       let c1 = pc_mutex_lock M_event c;
       pc_client_rc_str rc;
       let (ev, c2) = alloc_event c1;
       c3 \<leftarrow> put_event ev (ev_upd PC_EV_SET_NOTIFY_SENT) c2;
       c4 \<leftarrow> put_event ev (\<lambda>e. e\<lparr>ev_data := Ev_notify seq rc\<rparr>) c3;
       let c5 = c4\<lparr>pending_ev_queue := pending_ev_queue c4 @ [ev]\<rparr>;
       pc_mutex_unlock M_event c5 }"

definition pc__trans_queue_resp :: "u32 \<Rightarrow> int \<Rightarrow> string option \<Rightarrow> 't pc_client \<Rightarrow> 't pc_client option" where
  "pc__trans_queue_resp rid rc resp c =
     do {
       let c1 = pc_mutex_lock M_event c;
       pc_client_rc_str rc;
       let (ev, c2) = alloc_event c1;
       c3 \<leftarrow> put_event ev (ev_upd PC_EV_SET_RESP) c2;
       c4 \<leftarrow> put_event ev (\<lambda>e. e\<lparr>ev_data := Ev_req rid rc (pc_lib_strdup resp)\<rparr>) c3;
       let c5 = c4\<lparr>pending_ev_queue := pending_ev_queue c4 @ [ev]\<rparr>;
       pc_mutex_unlock M_event c5 }"

section \<open>Network events\<close>

text \<open>The \<open>switch\<close> on the event type: the next client state, \<open>None\<close> if its assert fails.\<close>

definition fire_state :: "int \<Rightarrow> pc_state \<Rightarrow> pc_state option" where
  "fire_state ev_type st =
     (if ev_type = PC_EV_CONNECTED then
        do { assert_c (st = PC_ST_CONNECTING); Some PC_ST_CONNECTED }
      else if ev_type = PC_EV_CONNECT_ERROR then
        do { assert_c (st = PC_ST_CONNECTING \<or> st = PC_ST_DISCONNECTING); Some st }
      else if ev_type = PC_EV_CONNECT_FAILED then
        do { assert_c (st = PC_ST_CONNECTING \<or> st = PC_ST_DISCONNECTING); Some PC_ST_INITED }
      else if ev_type = PC_EV_DISCONNECT then
        do { assert_c (st = PC_ST_DISCONNECTING); Some PC_ST_INITED }
      else if ev_type = PC_EV_KICKED_BY_SERVER then
        do { assert_c (st = PC_ST_CONNECTED \<or> st = PC_ST_DISCONNECTING); Some PC_ST_INITED }
      else if ev_type = PC_EV_UNEXPECTED_DISCONNECT \<or> ev_type = PC_EV_PROTO_ERROR then
        do { assert_c (st = PC_ST_CONNECTING \<or> st = PC_ST_CONNECTED \<or> st = PC_ST_DISCONNECTING);
             Some PC_ST_CONNECTING }
      else Some st)"

text \<open>
  \<open>QUEUE_FOREACH\<close> over the handlers, with the callbacks free to change the list: the next
  handler is read from the current one after its callback returned, which is a read of freed
  memory if the callback removed that handler.
\<close>

fun next_in :: "nat \<Rightarrow> nat list \<Rightarrow> nat option" where
  "next_in q [] = None"
| "next_in q (x # xs) = (if x = q then (case xs of [] \<Rightarrow> None | y # _ \<Rightarrow> Some y) else next_in q xs)"

definition first_in :: "nat list \<Rightarrow> nat option" where
  "first_in xs = (case xs of [] \<Rightarrow> None | x # _ \<Rightarrow> Some x)"

definition call_handler :: "'t user \<Rightarrow> int \<Rightarrow> string option \<Rightarrow> string option \<Rightarrow> nat \<Rightarrow>
    't pc_client \<Rightarrow> 't pc_client option" where
  "call_handler U ev_type arg1 arg2 q c =
     do {
       h \<leftarrow> handlers c q;
       cb \<leftarrow> h_cb h;
       u_ev U cb ev_type (h_ex_data h) arg1 arg2 (note_call (Ev_handled (handler_id h) ev_type arg1 arg2) c) }"

partial_function (option) fire_handlers :: "'t user \<Rightarrow> int \<Rightarrow> string option \<Rightarrow> string option \<Rightarrow>
    nat option \<Rightarrow> 't pc_client \<Rightarrow> 't pc_client option" where
  "fire_handlers U ev_type arg1 arg2 cur c =
     (case cur of
        None \<Rightarrow> Some c
      | Some q \<Rightarrow>
          do {
            c1 \<leftarrow> call_handler U ev_type arg1 arg2 q c;
            assert_c (q \<in> set (ev_handlers c1));
            fire_handlers U ev_type arg1 arg2 (next_in q (ev_handlers c1)) c1 })"

declare fire_handlers.simps [code]

definition pc__trans_fire_event :: "'t user \<Rightarrow> int \<Rightarrow> string option \<Rightarrow> string option \<Rightarrow>
    't pc_client \<Rightarrow> 't pc_client option" where
  "pc__trans_fire_event U ev_type arg1 arg2 c =
     (if \<not> net_event_ok ev_type arg1 arg2 then Some c
      else do {
        pc_client_ev_str ev_type;
        let c1 = pc_mutex_lock M_state c;
        st \<leftarrow> fire_state ev_type (state c1);
        c2 \<leftarrow> pc_mutex_unlock M_state (c1\<lparr>state := st\<rparr>);
        let c3 = pc_mutex_lock M_handler c2;
        c4 \<leftarrow> fire_handlers U ev_type arg1 arg2 (first_in (ev_handlers c3)) c3;
        pc_mutex_unlock M_handler c4 })"

definition pc_trans_fire_event :: "'t user \<Rightarrow> int \<Rightarrow> string option \<Rightarrow> string option \<Rightarrow>
    't pc_client \<Rightarrow> 't pc_client option" where
  "pc_trans_fire_event U ev_type arg1 arg2 c =
     (if enable_polling (config c) then pc__trans_queue_event ev_type arg1 arg2 c
      else pc__trans_fire_event U ev_type arg1 arg2 c)"

section \<open>Sent notifies\<close>

definition clear_common :: "pc_common_req \<Rightarrow> pc_common_req" where
  "clear_common b = b\<lparr>msg := None, route := None\<rparr>"

definition clear_notify :: "pc_notify \<Rightarrow> pc_notify" where
  "clear_notify n = n\<lparr>ntf_base := clear_common (ntf_base n)\<rparr>"

definition clear_request :: "pc_request \<Rightarrow> pc_request" where
  "clear_request r = r\<lparr>req_base := clear_common (req_base r)\<rparr>"

definition set_notify_idle :: "ref \<Rightarrow> 't pc_client \<Rightarrow> 't pc_client option" where
  "set_notify_idle r c = put_notify r (nt_upd PC_PRE_ALLOC_SET_IDLE) c"

definition free_notify :: "ref \<Rightarrow> 't pc_client \<Rightarrow> 't pc_client option" where
  "free_notify r c = do { p \<leftarrow> pool_free r (notifies c); Some (c\<lparr>notifies := p\<rparr>) }"

definition pc__trans_sent :: "'t user \<Rightarrow> u32 \<Rightarrow> int \<Rightarrow> 't pc_client \<Rightarrow> 't pc_client option" where
  "pc__trans_sent U seq rc c =
     do {
       let c1 = pc_mutex_lock M_notify c;
       target \<leftarrow> queue_find (pool_get (notifies c1)) (\<lambda>n. rq_seq_num (ntf_base n) = seq) (notify_queue c1);
       case target of
         None \<Rightarrow> pc_mutex_unlock M_notify c1
       | Some r \<Rightarrow>
           do {
             pc_client_rc_str rc;
             c2 \<leftarrow> pc_mutex_unlock M_notify (c1\<lparr>notify_queue := remove1 r (notify_queue c1)\<rparr>);
             n \<leftarrow> pool_get (notifies c2) r;
             cb \<leftarrow> ntf_cb n;
             c3 \<leftarrow> u_ntf U cb n rc (note_call (Ntf_answered n rc) c2);
             c4 \<leftarrow> put_notify r clear_notify c3;
             n' \<leftarrow> pool_get (notifies c4) r;
             if PC_IS_PRE_ALLOC (nt_ty n') then
               do { c5 \<leftarrow> set_notify_idle r (pc_mutex_lock M_notify c4); pc_mutex_unlock M_notify c5 }
             else free_notify r c4 } }"

definition pc_trans_sent :: "'t user \<Rightarrow> u32 \<Rightarrow> int \<Rightarrow> 't pc_client \<Rightarrow> 't pc_client option" where
  "pc_trans_sent U seq rc c =
     (if enable_polling (config c) then pc__trans_queue_sent seq rc c else pc__trans_sent U seq rc c)"

section \<open>Responses\<close>

definition set_request_idle :: "ref \<Rightarrow> 't pc_client \<Rightarrow> 't pc_client option" where
  "set_request_idle r c = put_request r (rq_upd PC_PRE_ALLOC_SET_IDLE) c"

definition free_request :: "ref \<Rightarrow> 't pc_client \<Rightarrow> 't pc_client option" where
  "free_request r c = do { p \<leftarrow> pool_free r (requests c); Some (c\<lparr>requests := p\<rparr>) }"

definition pc__trans_resp :: "'t user \<Rightarrow> u32 \<Rightarrow> int \<Rightarrow> string option \<Rightarrow> 't pc_client \<Rightarrow> 't pc_client option" where
  "pc__trans_resp U rid rc resp c =
     do {
       let c1 = pc_mutex_lock M_req c;
       target \<leftarrow> queue_find (pool_get (requests c1)) (\<lambda>r. req_id r = rid) (req_queue c1);
       case target of
         None \<Rightarrow> pc_mutex_unlock M_req c1
       | Some r \<Rightarrow>
           do {
             pc_client_rc_str rc;
             c2 \<leftarrow> pc_mutex_unlock M_req (c1\<lparr>req_queue := remove1 r (req_queue c1)\<rparr>);
             q \<leftarrow> pool_get (requests c2) r;
             cb \<leftarrow> req_cb q;
             c3 \<leftarrow> u_req U cb q rc resp (note_call (Req_answered q rc resp) c2);
             c4 \<leftarrow> put_request r clear_request c3;
             q' \<leftarrow> pool_get (requests c4) r;
             if PC_IS_PRE_ALLOC (rq_ty q') then
               do { c5 \<leftarrow> set_request_idle r (pc_mutex_lock M_req c4); pc_mutex_unlock M_req c5 }
             else free_request r c4 } }"

definition pc_trans_resp :: "'t user \<Rightarrow> u32 \<Rightarrow> int \<Rightarrow> string option \<Rightarrow> 't pc_client \<Rightarrow> 't pc_client option" where
  "pc_trans_resp U rid rc resp c =
     (if enable_polling (config c) then pc__trans_queue_resp rid rc resp c else pc__trans_resp U rid rc resp c)"

section \<open>Steps on the invariant\<close>

lemma queue_find_Some:
  "queue_find g P q = Some (Some r) \<Longrightarrow> r \<in> set q \<and> (\<exists>x. g r = Some x \<and> P x)"
  by (induction q) (auto split: bind_splits if_splits)

lemma queue_find_total:
  "(\<And>r. r \<in> set q \<Longrightarrow> g r \<noteq> None) \<Longrightarrow> queue_find g P q \<noteq> None"
  by (induction q) (auto split: bind_splits)

lemma queue_find_None:
  "queue_find g P q = Some None \<longleftrightarrow> (\<forall>r \<in> set q. \<exists>x. g r = Some x \<and> \<not> P x)"
  by (induction q) (auto split: bind_splits if_splits)

lemma history_append [simp]:
  "accepted_reqs (h @ es) = accepted_reqs h @ accepted_reqs es"
  "settled_reqs (h @ es) = settled_reqs h @ settled_reqs es"
  "accepted_ntfs (h @ es) = accepted_ntfs h @ accepted_ntfs es"
  "settled_ntfs (h @ es) = settled_ntfs h @ settled_ntfs es"
  by (simp_all add: history_defs List.map_filter_def)

lemma history_single [simp]:
  "accepted_reqs [e] = (case e of Req_accepted r \<Rightarrow> [r] | _ \<Rightarrow> [])"
  "settled_reqs [e] = (case e of Req_answered r _ _ \<Rightarrow> [r] | Req_withdrawn r \<Rightarrow> [r] | _ \<Rightarrow> [])"
  "accepted_ntfs [e] = (case e of Ntf_accepted r \<Rightarrow> [r] | _ \<Rightarrow> [])"
  "settled_ntfs [e] = (case e of Ntf_answered r _ \<Rightarrow> [r] | Ntf_withdrawn r \<Rightarrow> [r] | _ \<Rightarrow> [])"
  by (simp_all add: history_defs List.map_filter_def split: call.splits)

lemma history_Nil [simp]:
  "accepted_reqs [] = []" "settled_reqs [] = []" "accepted_ntfs [] = []" "settled_ntfs [] = []"
  by (simp_all add: history_defs List.map_filter_def)

lemma unlock_upd [simp]:
  "pc_mutex_unlock m ((pc_mutex_lock m c)\<lparr>req_queue := q\<rparr>) = Some (c\<lparr>req_queue := q\<rparr>)"
  "pc_mutex_unlock m ((pc_mutex_lock m c)\<lparr>notify_queue := q\<rparr>) = Some (c\<lparr>notify_queue := q\<rparr>)"
  "pc_mutex_unlock m ((pc_mutex_lock m c)\<lparr>requests := p\<rparr>) = Some (c\<lparr>requests := p\<rparr>)"
  "pc_mutex_unlock m ((pc_mutex_lock m c)\<lparr>notifies := n\<rparr>) = Some (c\<lparr>notifies := n\<rparr>)"
  "pc_mutex_unlock m ((pc_mutex_lock m c)\<lparr>state := st\<rparr>) = Some (c\<lparr>state := st\<rparr>)"
  "pc_mutex_unlock m ((pc_mutex_lock m c)\<lparr>history := h\<rparr>) = Some (c\<lparr>history := h\<rparr>)"
  "pc_mutex_unlock m (pc_mutex_lock m c) = Some c"
  by (simp_all add: pc_mutex_lock_def pc_mutex_unlock_def)

lemma lock_fields [simp]:
  "requests (pc_mutex_lock m c) = requests c" "req_queue (pc_mutex_lock m c) = req_queue c"
  "notifies (pc_mutex_lock m c) = notifies c" "notify_queue (pc_mutex_lock m c) = notify_queue c"
  "pending_events (pc_mutex_lock m c) = pending_events c" "state (pc_mutex_lock m c) = state c"
  "pending_ev_queue (pc_mutex_lock m c) = pending_ev_queue c" "config (pc_mutex_lock m c) = config c"
  "ev_handlers (pc_mutex_lock m c) = ev_handlers c" "history (pc_mutex_lock m c) = history c"
  "handlers (pc_mutex_lock m c) = handlers c" "is_in_poll (pc_mutex_lock m c) = is_in_poll c"
  "magic_num (pc_mutex_lock m c) = magic_num c" "tran (pc_mutex_lock m c) = tran c"
  "self (pc_mutex_lock m c) = self c" "seq_num (pc_mutex_lock m c) = seq_num c"
  "req_id_seq (pc_mutex_lock m c) = req_id_seq c"
  "handler_fresh (pc_mutex_lock m c) = handler_fresh c"
  by (simp_all add: pc_mutex_lock_def)

text \<open>Taking a request out of the queue and answering it.\<close>

lemma answer_request:
  assumes "client_inv F G H c" and "r \<in> set (req_queue c)" and "pool_get (requests c) r = Some q"
  shows "client_inv (insert r F) G H
    (note_call (Req_answered q rc resp) (c\<lparr>req_queue := remove1 r (req_queue c)\<rparr>)) \<and> r \<notin> F"
proof -
  have "queue_inv rq_ty req_base (requests c) (req_queue c) F
      (accepted_reqs (history c)) (settled_reqs (history c))"
    using assms(1) by (simp add: client_inv_def)
  from rq.take_out [OF this assms(2,3)] show ?thesis
    using assms(1) by (simp add: client_inv_def note_call_def events_inv_def handlers_inv_def)
qed

lemma answer_notify:
  assumes "client_inv F G H c" and "r \<in> set (notify_queue c)" and "pool_get (notifies c) r = Some q"
  shows "client_inv F (insert r G) H
    (note_call (Ntf_answered q rc) (c\<lparr>notify_queue := remove1 r (notify_queue c)\<rparr>)) \<and> r \<notin> G"
proof -
  have "queue_inv nt_ty ntf_base (notifies c) (notify_queue c) G
      (accepted_ntfs (history c)) (settled_ntfs (history c))"
    using assms(1) by (simp add: client_inv_def)
  from nt.take_out [OF this assms(2,3)] show ?thesis
    using assms(1) by (simp add: client_inv_def note_call_def events_inv_def handlers_inv_def)
qed

text \<open>Clearing its strings and giving it back.\<close>

lemma cleared [simp]:
  "rq_ty (clear_request q) = rq_ty q" "nt_ty (clear_notify n) = nt_ty n"
  "route (req_base (clear_request q)) = None" "msg (req_base (clear_request q)) = None"
  "route (ntf_base (clear_notify n)) = None" "msg (ntf_base (clear_notify n)) = None"
  by (simp_all add: clear_request_def clear_notify_def clear_common_def rq_ty_def nt_ty_def)

definition finish_request :: "ref \<Rightarrow> 't pc_client \<Rightarrow> 't pc_client option" where
  "finish_request r c = do { p1 \<leftarrow> pool_upd r clear_request (requests c);
     p2 \<leftarrow> pool_release rq_ty rq_upd r p1; Some (c\<lparr>requests := p2\<rparr>) }"

definition finish_notify :: "ref \<Rightarrow> 't pc_client \<Rightarrow> 't pc_client option" where
  "finish_notify r c = do { p1 \<leftarrow> pool_upd r clear_notify (notifies c);
     p2 \<leftarrow> pool_release nt_ty nt_upd r p1; Some (c\<lparr>notifies := p2\<rparr>) }"

lemma finish_request_code:
  "do { c4 \<leftarrow> put_request r clear_request c;
        q' \<leftarrow> pool_get (requests c4) r;
        if PC_IS_PRE_ALLOC (rq_ty q') then
          do { c5 \<leftarrow> set_request_idle r (pc_mutex_lock m c4); pc_mutex_unlock m c5 }
        else free_request r c4 } = finish_request r c"
  by (cases "pool_upd r clear_request (requests c)")
    (auto simp: put_request_def finish_request_def set_request_idle_def free_request_def
      pool_release_def pool_upd_def intro!: bind_option_cong split: bind_splits)

lemma finish_notify_code:
  "do { c4 \<leftarrow> put_notify r clear_notify c;
        q' \<leftarrow> pool_get (notifies c4) r;
        if PC_IS_PRE_ALLOC (nt_ty q') then
          do { c5 \<leftarrow> set_notify_idle r (pc_mutex_lock m c4); pc_mutex_unlock m c5 }
        else free_notify r c4 } = finish_notify r c"
  by (cases "pool_upd r clear_notify (notifies c)")
    (auto simp: put_notify_def finish_notify_def set_notify_idle_def free_notify_def
      pool_release_def pool_upd_def intro!: bind_option_cong split: bind_splits)

lemma finish_request:
  assumes "client_inv (insert r F) G H c" and "r \<notin> F" and "finish_request r c = Some c'"
  shows "client_inv F G H c' \<and> frame c c'"
proof -
  obtain p1 p2 where p1: "pool_upd r clear_request (requests c) = Some p1"
    and p2: "pool_release rq_ty rq_upd r p1 = Some p2" and c': "c' = c\<lparr>requests := p2\<rparr>"
    using assms(3) by (auto simp: finish_request_def Option.bind_eq_Some_conv)
  obtain x where x: "pool_get p1 r = Some (clear_request x)"
    using p1 by (auto simp: pool_upd_Some pool_get_put)
  have "queue_inv rq_ty req_base (requests c) (req_queue c) (insert r F)
      (accepted_reqs (history c)) (settled_reqs (history c))"
    using assms(1) by (simp add: client_inv_def)
  then have "queue_inv rq_ty req_base p1 (req_queue c) (insert r F)
      (accepted_reqs (history c)) (settled_reqs (history c))"
    by (rule rq.clear [OF _ _ p1]) simp_all
  then have "queue_inv rq_ty req_base p2 (req_queue c) F
      (accepted_reqs (history c)) (settled_reqs (history c))"
    by (rule rq.give_back [OF _ assms(2) p2 x]) simp_all
  then show ?thesis
    using assms(1) by (auto simp: client_inv_def c' events_inv_def handlers_inv_def frame_def)
qed

lemma finish_notify:
  assumes "client_inv F (insert r G) H c" and "r \<notin> G" and "finish_notify r c = Some c'"
  shows "client_inv F G H c' \<and> frame c c'"
proof -
  obtain p1 p2 where p1: "pool_upd r clear_notify (notifies c) = Some p1"
    and p2: "pool_release nt_ty nt_upd r p1 = Some p2" and c': "c' = c\<lparr>notifies := p2\<rparr>"
    using assms(3) by (auto simp: finish_notify_def Option.bind_eq_Some_conv)
  obtain x where x: "pool_get p1 r = Some (clear_notify x)"
    using p1 by (auto simp: pool_upd_Some pool_get_put)
  have "queue_inv nt_ty ntf_base (notifies c) (notify_queue c) (insert r G)
      (accepted_ntfs (history c)) (settled_ntfs (history c))"
    using assms(1) by (simp add: client_inv_def)
  then have "queue_inv nt_ty ntf_base p1 (notify_queue c) (insert r G)
      (accepted_ntfs (history c)) (settled_ntfs (history c))"
    by (rule nt.clear [OF _ _ p1]) simp_all
  then have "queue_inv nt_ty ntf_base p2 (notify_queue c) G
      (accepted_ntfs (history c)) (settled_ntfs (history c))"
    by (rule nt.give_back [OF _ assms(2) p2 x]) simp_all
  then show ?thesis
    using assms(1) by (auto simp: client_inv_def c' events_inv_def handlers_inv_def frame_def)
qed

text \<open>Queueing an event.\<close>

lemma enqueue_event:
  assumes "pool_inv ev_type_word p q H" and "\<forall>e \<in> set (queued p q). event_ok e"
    and alloc: "pool_alloc ev_type_word ev_upd dyn_event p = (r, p1)"
    and "pool_upd r f p1 = Some p2" and "pool_upd r g p2 = Some p3"
    and flags: "\<And>e. PC_IS_PRE_ALLOC (ev_type_word (f e)) = PC_IS_PRE_ALLOC (ev_type_word e)"
      "\<And>e. PC_PRE_ALLOC_IS_IDLE (ev_type_word (f e)) = PC_PRE_ALLOC_IS_IDLE (ev_type_word e)"
      "\<And>e. ev_type_word (g e) = ev_type_word e"
    and ok: "\<And>e. event_ok (g (f e))"
  shows "pool_inv ev_type_word p3 (q @ [r]) H \<and> (\<forall>e \<in> set (queued p3 (q @ [r])). event_ok e)"
proof -
  obtain x where x: "pool_get p1 r = Some x" and p2: "pool_put r (f x) p1 = Some p2"
    using assms(4) by (auto simp: pool_upd_Some)
  have x2: "pool_get p2 r = Some (f x)"
    by (simp add: pool_get_put [OF p2])
  have p3: "pool_put r (g (f x)) p2 = Some p3"
    using assms(5) by (auto simp: pool_upd_Some x2)
  have inv1: "pool_inv ev_type_word p1 (q @ [r]) H"
    by (rule ev_pool.inv_enqueue [OF assms(1) alloc])
  have "pool_inv ev_type_word p2 (q @ [r]) H"
    by (rule ev_pool.inv_put [OF inv1 p2 x]) (simp_all add: flags)
  then have "pool_inv ev_type_word p3 (q @ [r]) H"
    by (rule ev_pool.inv_put [OF _ p3 x2]) (simp_all add: flags)
  moreover have "r \<notin> set q"
    using inv1 by (auto simp: pool_inv_def)
  then have "queued p3 q = queued p q"
    using ev_pool.alloc_other(1) [OF alloc]
    by (intro queued_cong) (auto simp: pool_get_put [OF p3] pool_get_put [OF p2])
  ultimately show ?thesis
    using assms(2) ok by (auto simp: pool_get_put [OF p3])
qed

text \<open>The three ways of queueing an event differ in the flag and the union member they set.\<close>

definition add_event :: "(u32 \<Rightarrow> u32) \<Rightarrow> ev_data \<Rightarrow> 't pc_client \<Rightarrow> 't pc_client option" where
  "add_event flag d c =
     (case pool_alloc ev_type_word ev_upd dyn_event (pending_events c) of (r, p1) \<Rightarrow>
        do { p2 \<leftarrow> pool_upd r (ev_upd flag) p1;
             p3 \<leftarrow> pool_upd r (\<lambda>e. e\<lparr>ev_data := d\<rparr>) p2;
             Some (c\<lparr>pending_events := p3, pending_ev_queue := pending_ev_queue c @ [r]\<rparr>) })"

lemma add_event:
  assumes inv: "client_inv F G H c" and add: "add_event flag d c = Some c'"
    and flags: "\<And>t. PC_IS_PRE_ALLOC (flag t) = PC_IS_PRE_ALLOC t"
      "\<And>t. PC_PRE_ALLOC_IS_IDLE (flag t) = PC_PRE_ALLOC_IS_IDLE t"
    and ok: "\<And>e. event_ok (e\<lparr>ev_type_word := flag (ev_type_word e), ev_data := d\<rparr>)"
  shows "client_inv F G H c' \<and> frame c c'"
proof -
  obtain r p1 where alloc: "pool_alloc ev_type_word ev_upd dyn_event (pending_events c) = (r, p1)"
    by (cases "pool_alloc ev_type_word ev_upd dyn_event (pending_events c)")
  then obtain p2 p3 where p2: "pool_upd r (ev_upd flag) p1 = Some p2"
    and p3: "pool_upd r (\<lambda>e. e\<lparr>ev_data := d\<rparr>) p2 = Some p3"
    and c': "c' = c\<lparr>pending_events := p3, pending_ev_queue := pending_ev_queue c @ [r]\<rparr>"
    using add by (auto simp: add_event_def Option.bind_eq_Some_conv)
  have "events_inv H c'"
  proof (cases "enable_polling (config c)")
    case True
    then have "pool_inv ev_type_word (pending_events c) (pending_ev_queue c) H"
      "\<forall>e \<in> set (queued (pending_events c) (pending_ev_queue c)). event_ok e"
      using inv by (auto simp: client_inv_def events_inv_def)
    from enqueue_event [OF this alloc p2 p3] show ?thesis
      using True flags ok by (simp add: events_inv_def c' ev_upd_def)
  next
    case False
    then show ?thesis by (simp add: events_inv_def c')
  qed
  then show ?thesis
    using inv by (simp add: client_inv_def c' handlers_inv_def frame_def)
qed

lemma add_event_Some: "\<exists>c'. add_event flag d c = Some c'"
proof -
  obtain r p1 where alloc: "pool_alloc ev_type_word ev_upd dyn_event (pending_events c) = (r, p1)"
    by (cases "pool_alloc ev_type_word ev_upd dyn_event (pending_events c)")
  then obtain x where x: "pool_get p1 r = Some x"
    using ev_pool.alloc_get by blast
  obtain p2 where p2: "pool_put r (ev_upd flag x) p1 = Some p2"
    using pool_put_Some [OF x] by blast
  obtain p3 where "pool_put r (ev_upd flag x\<lparr>ev_data := d\<rparr>) p2 = Some p3"
    using pool_put_Some [of p2 r "ev_upd flag x"] by (auto simp: pool_get_put [OF p2])
  then show ?thesis
    by (simp add: add_event_def alloc pool_upd_def x p2 pool_get_put [OF p2])
qed

lemma put_event_as:
  "put_event r f c = Option.bind (pool_upd r f (pending_events c)) (\<lambda>p. Some (c\<lparr>pending_events := p\<rparr>))"
  by (simp add: put_event_def)

lemma queue_event_code:
  assumes "enable_polling (config c)"
  shows "pc__trans_queue_event ev_type a1 a2 c =
    (if net_event_ok ev_type a1 a2 then add_event PC_EV_SET_NET_EVENT (Ev_net ev_type a1 a2) c else Some c)"
proof (cases "net_event_ok ev_type a1 a2")
  case True
  then have "0 \<le> ev_type \<and> ev_type < 8"
    by (auto simp: net_event_ok_def)
  then show ?thesis
    using True assms
    by (auto simp: pc__trans_queue_event_def alloc_event_def add_event_def put_event_def Let_def
        pc_mutex_lock_def pc_mutex_unlock_def Option.bind_assoc fun_upd_triv split: prod.splits
        intro!: bind_option_cong)
next
  case False
  then show ?thesis by (simp add: pc__trans_queue_event_def)
qed

lemma queue_sent_code:
  "pc__trans_queue_sent seq rc c =
    (if rc_ok rc then add_event PC_EV_SET_NOTIFY_SENT (Ev_notify seq rc) c else None)"
  by (auto simp: pc__trans_queue_sent_def alloc_event_def add_event_def put_event_def Let_def
      pc_mutex_lock_def pc_mutex_unlock_def Option.bind_assoc split: prod.splits
      intro!: bind_option_cong)

lemma queue_resp_code:
  "pc__trans_queue_resp rid rc resp c =
    (if rc_ok rc then add_event PC_EV_SET_RESP (Ev_req rid rc resp) c else None)"
  by (auto simp: pc__trans_queue_resp_def alloc_event_def add_event_def put_event_def Let_def
      pc_mutex_lock_def pc_mutex_unlock_def Option.bind_assoc split: prod.splits
      intro!: bind_option_cong)

lemma keeps_queue_sent: "keeps (pc__trans_queue_sent seq rc)"
  by rule (auto simp: queue_sent_code event_ok_def flag_simps split: if_splits dest!: add_event [rotated])

lemma keeps_queue_resp: "keeps (pc__trans_queue_resp rid rc resp)"
  by rule (auto simp: queue_resp_code event_ok_def flag_simps split: if_splits dest!: add_event [rotated])

lemma keeps_queue_event: "keeps (pc__trans_queue_event ev_type a1 a2)"
proof
  fix F G H c and c' :: "'a pc_client"
  assume inv: "client_inv F G H c" and run: "pc__trans_queue_event ev_type a1 a2 c = Some c'"
  show "client_inv F G H c' \<and> frame c c'"
  proof (cases "net_event_ok ev_type a1 a2")
    case True
    then have "enable_polling (config c)"
      using run by (simp add: pc__trans_queue_event_def split: if_splits)
    then have "add_event PC_EV_SET_NET_EVENT (Ev_net ev_type a1 a2) c = Some c'"
      using run True by (simp add: queue_event_code)
    from add_event [OF inv this] show ?thesis
      using True by (simp add: event_ok_def flag_simps)
  next
    case False
    then show ?thesis
      using run inv by (simp add: pc__trans_queue_event_def)
  qed
qed

text \<open>The handler loop: whatever each call keeps, the loop keeps, however it ends.\<close>

lemma fire_handlers_keeps:
  assumes call: "\<And>q. keeps (call_handler U t a1 a2 q)"
  shows "keeps (fire_handlers U t a1 a2 cur)"
proof
  fix F G H c c'
  have "fire_handlers V s b1 b2 cur c = Some c' \<Longrightarrow> V = U \<and> s = t \<and> b1 = a1 \<and> b2 = a2 \<Longrightarrow>
      client_inv F G H c \<Longrightarrow> client_inv F G H c' \<and> frame c c'" for V s b1 b2 cur c c'
  proof (induction V s b1 b2 cur c c' rule: fire_handlers.raw_induct [rotated, consumes 1])
    case (1 rec V s b1 b2 cur c c')
    show ?case
    proof (cases cur)
      case None
      then show ?thesis using 1 by simp
    next
      case (Some q)
      then obtain c1 where c1: "call_handler U t a1 a2 q c = Some c1"
        and rest: "rec V s b1 b2 (next_in q (ev_handlers c1)) c1 = Some c'"
        using 1(2,3) by (auto simp: Option.bind_eq_Some_conv split: if_splits)
      from keepsD [OF call 1(4) c1] 1(1) [OF rest 1(3)] show ?thesis
        using frame_trans by blast
    qed
  qed
  then show "client_inv F G H c \<Longrightarrow> fire_handlers U t a1 a2 cur c = Some c' \<Longrightarrow>
      client_inv F G H c' \<and> frame c c'" by blast
qed

section \<open>The user's contract\<close>

text \<open>
  What the library relies on in the user's callbacks: they change the client through its entry
  points only, so they keep its invariant and what an operation in progress has taken out.
  Under this contract every delivery keeps the invariant, reentrant calls included.
  \<open>Script\<close> interprets it on callbacks that call the entry points.
\<close>

locale client_user =
  fixes U :: "'t user"
  assumes user_req: "keeps (u_req U cb q rc resp)"
    and user_ntf: "keeps (u_ntf U cb n rc)"
    and user_ev: "keeps (u_ev U cb t x a1 a2)"
    and user_destroy: "keeps (u_destroy U d x)"
begin

lemma keeps_resp: "keeps (pc__trans_resp U rid rc resp)"
proof
  fix F G H c c'
  assume inv: "client_inv F G H c" and run: "pc__trans_resp U rid rc resp c = Some c'"
  let ?find = "queue_find (pool_get (requests c)) (\<lambda>r. req_id r = rid) (req_queue c)"
  obtain t where t: "?find = Some t"
    using run by (auto simp: pc__trans_resp_def Let_def split: bind_splits)
  show "client_inv F G H c' \<and> frame c c'"
  proof (cases t)
    case None
    then show ?thesis
      using run t inv by (simp add: pc__trans_resp_def Let_def)
  next
    case (Some r)
    then obtain q where r: "r \<in> set (req_queue c)" and q: "pool_get (requests c) r = Some q"
      using t queue_find_Some by blast
    let ?c2 = "c\<lparr>req_queue := remove1 r (req_queue c)\<rparr>"
    obtain cb c3 where cb: "req_cb q = Some cb"
      and c3: "u_req U cb q rc resp (note_call (Req_answered q rc resp) ?c2) = Some c3"
      and fin: "finish_request r c3 = Some c'"
      using run t Some q
      by (auto simp: pc__trans_resp_def Let_def finish_request_code Option.bind_eq_Some_conv split: if_splits)
    have taken: "client_inv (insert r F) G H (note_call (Req_answered q rc resp) ?c2)" and "r \<notin> F"
      using answer_request [OF inv r q] by auto
    from keepsD [OF user_req taken c3]
    have inv3: "client_inv (insert r F) G H c3" and fr: "frame (note_call (Req_answered q rc resp) ?c2) c3"
      by auto
    from finish_request [OF inv3 \<open>r \<notin> F\<close> fin] frame_note [OF fr] show ?thesis
      using frame_trans by fastforce
  qed
qed

lemma keeps_sent: "keeps (pc__trans_sent U seq rc)"
proof
  fix F G H c c'
  assume inv: "client_inv F G H c" and run: "pc__trans_sent U seq rc c = Some c'"
  let ?find = "queue_find (pool_get (notifies c)) (\<lambda>n. rq_seq_num (ntf_base n) = seq) (notify_queue c)"
  obtain t where t: "?find = Some t"
    using run by (auto simp: pc__trans_sent_def Let_def split: bind_splits)
  show "client_inv F G H c' \<and> frame c c'"
  proof (cases t)
    case None
    then show ?thesis
      using run t inv by (simp add: pc__trans_sent_def Let_def)
  next
    case (Some r)
    then obtain q where r: "r \<in> set (notify_queue c)" and q: "pool_get (notifies c) r = Some q"
      using t queue_find_Some by blast
    let ?c2 = "c\<lparr>notify_queue := remove1 r (notify_queue c)\<rparr>"
    obtain cb c3 where cb: "ntf_cb q = Some cb"
      and c3: "u_ntf U cb q rc (note_call (Ntf_answered q rc) ?c2) = Some c3"
      and fin: "finish_notify r c3 = Some c'"
      using run t Some q
      by (auto simp: pc__trans_sent_def Let_def finish_notify_code Option.bind_eq_Some_conv split: if_splits)
    have taken: "client_inv F (insert r G) H (note_call (Ntf_answered q rc) ?c2)" and "r \<notin> G"
      using answer_notify [OF inv r q] by auto
    from keepsD [OF user_ntf taken c3]
    have inv3: "client_inv F (insert r G) H c3" and fr: "frame (note_call (Ntf_answered q rc) ?c2) c3"
      by auto
    from finish_notify [OF inv3 \<open>r \<notin> G\<close> fin] frame_note [OF fr] show ?thesis
      using frame_trans by fastforce
  qed
qed

lemma keeps_call_handler: "keeps (call_handler U t a1 a2 q)"
proof
  fix F G H c c'
  assume inv: "client_inv F G H c" and run: "call_handler U t a1 a2 q c = Some c'"
  obtain h cb where "handlers c q = Some h" "h_cb h = Some cb" and call:
    "u_ev U cb t (h_ex_data h) a1 a2 (note_call (Ev_handled (handler_id h) t a1 a2) c) = Some c'"
    using run by (auto simp: call_handler_def Option.bind_eq_Some_conv)
  have "client_inv F G H (note_call (Ev_handled (handler_id h) t a1 a2) c)"
    using inv by (simp add: client_inv_def note_call_def events_inv_def handlers_inv_def)
  then show "client_inv F G H c' \<and> frame c c'"
    using keepsD [OF user_ev _ call] frame_note by blast
qed

lemma keeps_fire_event: "keeps (pc__trans_fire_event U t a1 a2)"
proof
  fix F G H c c'
  assume inv: "client_inv F G H c" and run: "pc__trans_fire_event U t a1 a2 c = Some c'"
  show "client_inv F G H c' \<and> frame c c'"
  proof (cases "net_event_ok t a1 a2")
    case True
    then obtain st c4 where
      c4: "fire_handlers U t a1 a2 (first_in (ev_handlers c)) (pc_mutex_lock M_handler (c\<lparr>state := st\<rparr>)) = Some c4"
      and out: "pc_mutex_unlock M_handler c4 = Some c'"
      using run by (auto simp: pc__trans_fire_event_def Let_def Option.bind_eq_Some_conv split: if_splits)
    have "client_inv F G H (pc_mutex_lock M_handler (c\<lparr>state := st\<rparr>))"
      using inv by simp
    from keepsD [OF fire_handlers_keeps [OF keeps_call_handler] this c4] out show ?thesis
      using frame_unlock by (fastforce simp: unlock_Some)
  next
    case False
    then show ?thesis
      using run inv by (simp add: pc__trans_fire_event_def)
  qed
qed

lemma keeps_trans_resp: "keeps (pc_trans_resp U rid rc resp)"
  using keeps_if [OF keeps_queue_resp keeps_resp] by (simp add: pc_trans_resp_def [abs_def])

lemma keeps_trans_sent: "keeps (pc_trans_sent U seq rc)"
  using keeps_if [OF keeps_queue_sent keeps_sent] by (simp add: pc_trans_sent_def [abs_def])

lemma keeps_trans_fire_event: "keeps (pc_trans_fire_event U t a1 a2)"
  using keeps_if [OF keeps_queue_event keeps_fire_event] by (simp add: pc_trans_fire_event_def [abs_def])

end

section \<open>What a delivery does\<close>

lemma finish_request_Some:
  assumes "client_inv (insert r F) G H c"
  obtains c' where "finish_request r c = Some c'" and "\<not> in_use rq_ty (requests c') r"
    and "\<And>s. s \<noteq> r \<Longrightarrow> pool_get (requests c') s = pool_get (requests c) s"
    and "c' = c\<lparr>requests := requests c'\<rparr>"
proof -
  have inv: "pool_inv rq_ty (requests c) (req_queue c) (insert r F)"
    using assms by (simp add: client_inv_def queue_inv_def)
  then obtain x where x: "pool_get (requests c) r = Some x"
    using inv_get [OF inv] by blast
  then obtain p1 where p1: "pool_put r (clear_request x) (requests c) = Some p1"
    using pool_put_Some [OF x] by blast
  have inv1: "pool_inv rq_ty p1 (req_queue c) (insert r F)"
    by (rule rq_pool.inv_put [OF inv p1 x]) simp_all
  then obtain p2 where p2: "pool_release rq_ty rq_upd r p1 = Some p2"
    using rq_pool.inv_release_Some [OF inv1, of r] by blast
  have "finish_request r c = Some (c\<lparr>requests := p2\<rparr>)"
    using x p1 p2 by (simp add: finish_request_def pool_upd_def)
  moreover have "\<not> in_use rq_ty p2 r"
    using rq_pool.release_in_use [OF _ p2] inv1 by (auto simp: pool_inv_def)
  moreover have "pool_get p2 s = pool_get (requests c) s" if "s \<noteq> r" for s
    using rq_pool.release_get_other [OF p2 that] that by (simp add: pool_get_put [OF p1])
  ultimately show ?thesis
    using that [of "c\<lparr>requests := p2\<rparr>"] by simp
qed

lemma finish_notify_Some:
  assumes "client_inv F (insert r G) H c"
  obtains c' where "finish_notify r c = Some c'" and "\<not> in_use nt_ty (notifies c') r"
    and "\<And>s. s \<noteq> r \<Longrightarrow> pool_get (notifies c') s = pool_get (notifies c) s"
    and "c' = c\<lparr>notifies := notifies c'\<rparr>"
proof -
  have inv: "pool_inv nt_ty (notifies c) (notify_queue c) (insert r G)"
    using assms by (simp add: client_inv_def queue_inv_def)
  then obtain x where x: "pool_get (notifies c) r = Some x"
    using inv_get [OF inv] by blast
  then obtain p1 where p1: "pool_put r (clear_notify x) (notifies c) = Some p1"
    using pool_put_Some [OF x] by blast
  have inv1: "pool_inv nt_ty p1 (notify_queue c) (insert r G)"
    by (rule nt_pool.inv_put [OF inv p1 x]) simp_all
  then obtain p2 where p2: "pool_release nt_ty nt_upd r p1 = Some p2"
    using nt_pool.inv_release_Some [OF inv1, of r] by blast
  have "finish_notify r c = Some (c\<lparr>notifies := p2\<rparr>)"
    using x p1 p2 by (simp add: finish_notify_def pool_upd_def)
  moreover have "\<not> in_use nt_ty p2 r"
    using nt_pool.release_in_use [OF _ p2] inv1 by (auto simp: pool_inv_def)
  moreover have "pool_get p2 s = pool_get (notifies c) s" if "s \<noteq> r" for s
    using nt_pool.release_get_other [OF p2 that] that by (simp add: pool_get_put [OF p1])
  ultimately show ?thesis
    using that [of "c\<lparr>notifies := p2\<rparr>"] by simp
qed

lemma queue_find_first:
  assumes "\<And>s. s \<in> set xs \<Longrightarrow> \<exists>y. g s = Some y \<and> \<not> P y" and "g r = Some x" and "P x"
  shows "queue_find g P (xs @ r # ys) = Some (Some r)"
  using assms(1)
proof (induction xs)
  case Nil
  then show ?case using assms(2,3) by simp
next
  case (Cons a xs)
  then obtain y where "g a = Some y" "\<not> P y" by force
  then show ?case using Cons by simp
qed

lemma resp_effect:
  assumes inv: "client_inv F G H c" and queue: "req_queue c = xs @ r # ys"
    and others: "\<forall>s \<in> set xs. req_id (the (pool_get (requests c) s)) \<noteq> rid"
    and q: "pool_get (requests c) r = Some q" "req_id q = rid" "req_cb q = Some cb"
    and rc: "rc_ok rc"
    and callback: "u_req U cb q rc resp (note_call (Req_answered q rc resp) (c\<lparr>req_queue := xs @ ys\<rparr>)) = Some d"
      "client_inv (insert r F) G H d"
  shows "\<exists>c'. pc__trans_resp U rid rc resp c = Some c' \<and> c' = d\<lparr>requests := requests c'\<rparr> \<and>
    client_inv F G H c' \<and> \<not> in_use rq_ty (requests c') r \<and>
    (\<forall>s. s \<noteq> r \<longrightarrow> pool_get (requests c') s = pool_get (requests d) s)"
proof -
  have pinv: "pool_inv rq_ty (requests c) (req_queue c) F"
    using inv by (simp add: client_inv_def queue_inv_def)
  then have dist: "remove1 r (req_queue c) = xs @ ys" "r \<notin> F"
    using queue by (auto simp: pool_inv_def remove1_append)
  have found: "queue_find (pool_get (requests c)) (\<lambda>r. req_id r = rid) (req_queue c) = Some (Some r)"
    unfolding queue using others q inv_get [OF pinv] queue by (intro queue_find_first) fastforce+
  obtain c' where c': "finish_request r d = Some c'" "\<not> in_use rq_ty (requests c') r"
    "\<And>s. s \<noteq> r \<Longrightarrow> pool_get (requests c') s = pool_get (requests d) s" "c' = d\<lparr>requests := requests c'\<rparr>"
    using finish_request_Some [OF callback(2)] by metis
  have "pc__trans_resp U rid rc resp c = Some c'"
    using found q rc callback(1) c'(1) by (simp add: pc__trans_resp_def Let_def finish_request_code dist)
  then show ?thesis
    using c' finish_request [OF callback(2) dist(2) c'(1)] by blast
qed

lemma resp_unknown:
  assumes none: "rid \<notin> req_id ` set (queued (requests c) (req_queue c))" and "client_inv F G H c"
  shows "pc__trans_resp U rid rc resp c = Some c"
proof -
  have "pool_inv rq_ty (requests c) (req_queue c) F"
    using assms(2) by (simp add: client_inv_def queue_inv_def)
  from inv_get [OF this] none
  have "queue_find (pool_get (requests c)) (\<lambda>r. req_id r = rid) (req_queue c) = Some None"
    by (simp add: queue_find_None queued_def) (metis UnI1 image_eqI option.sel)
  then show ?thesis
    by (simp add: pc__trans_resp_def Let_def)
qed

lemma sent_effect:
  assumes inv: "client_inv F G H c" and queue: "notify_queue c = xs @ r # ys"
    and others: "\<forall>s \<in> set xs. rq_seq_num (ntf_base (the (pool_get (notifies c) s))) \<noteq> rid"
    and q: "pool_get (notifies c) r = Some q" "rq_seq_num (ntf_base q) = rid" "ntf_cb q = Some cb"
    and rc: "rc_ok rc"
    and callback: "u_ntf U cb q rc (note_call (Ntf_answered q rc) (c\<lparr>notify_queue := xs @ ys\<rparr>)) = Some d"
      "client_inv F (insert r G) H d"
  shows "\<exists>c'. pc__trans_sent U rid rc c = Some c' \<and> c' = d\<lparr>notifies := notifies c'\<rparr> \<and>
    client_inv F G H c' \<and> \<not> in_use nt_ty (notifies c') r \<and>
    (\<forall>s. s \<noteq> r \<longrightarrow> pool_get (notifies c') s = pool_get (notifies d) s)"
proof -
  have pinv: "pool_inv nt_ty (notifies c) (notify_queue c) G"
    using inv by (simp add: client_inv_def queue_inv_def)
  then have dist: "remove1 r (notify_queue c) = xs @ ys" "r \<notin> G"
    using queue by (auto simp: pool_inv_def remove1_append)
  have found: "queue_find (pool_get (notifies c)) (\<lambda>r. rq_seq_num (ntf_base r) = rid) (notify_queue c) = Some (Some r)"
    unfolding queue using others q inv_get [OF pinv] queue by (intro queue_find_first) fastforce+
  obtain c' where c': "finish_notify r d = Some c'" "\<not> in_use nt_ty (notifies c') r"
    "\<And>s. s \<noteq> r \<Longrightarrow> pool_get (notifies c') s = pool_get (notifies d) s" "c' = d\<lparr>notifies := notifies c'\<rparr>"
    using finish_notify_Some [OF callback(2)] by metis
  have "pc__trans_sent U rid rc c = Some c'"
    using found q rc callback(1) c'(1) by (simp add: pc__trans_sent_def Let_def finish_notify_code dist)
  then show ?thesis
    using c' finish_notify [OF callback(2) dist(2) c'(1)] by blast
qed

lemma sent_unknown:
  assumes none: "rid \<notin> (\<lambda>n. rq_seq_num (ntf_base n)) ` set (queued (notifies c) (notify_queue c))" and "client_inv F G H c"
  shows "pc__trans_sent U rid rc c = Some c"
proof -
  have "pool_inv nt_ty (notifies c) (notify_queue c) G"
    using assms(2) by (simp add: client_inv_def queue_inv_def)
  from inv_get [OF this] none
  have "queue_find (pool_get (notifies c)) (\<lambda>r. rq_seq_num (ntf_base r) = rid) (notify_queue c) = Some None"
    by (simp add: queue_find_None queued_def) (metis UnI1 image_eqI option.sel)
  then show ?thesis
    by (simp add: pc__trans_sent_def Let_def)
qed

text \<open>The handlers run in registration order when the callbacks leave the client alone.\<close>

lemma next_in_append: "q \<notin> set xs \<Longrightarrow> next_in q (xs @ q # ys) = first_in ys"
  by (induction xs) (auto simp: first_in_def split: list.splits)

lemma fire_handlers_passive:
  assumes "\<And>cb x d. u_ev U cb t x a1 a2 d = Some d"
    and "ev_handlers c = xs @ ys" and "distinct (ev_handlers c)"
    and "\<forall>n \<in> set ys. \<exists>h. handlers c n = Some h \<and> h_cb h \<noteq> None"
  shows "fire_handlers U t a1 a2 (first_in ys) c =
    Some (c\<lparr>history := history c @ map (\<lambda>n. Ev_handled (handler_id (the (handlers c n))) t a1 a2) ys\<rparr>)"
  using assms(2-4)
proof (induction ys arbitrary: xs c)
  case Nil
  then show ?case by (subst fire_handlers.simps) (simp add: first_in_def)
next
  case (Cons y ys)
  let ?c1 = "note_call (Ev_handled (handler_id (the (handlers c y))) t a1 a2) c"
  have call: "call_handler U t a1 a2 y c = Some ?c1"
    using Cons.prems(3) assms(1) by (auto simp: call_handler_def)
  have "ev_handlers ?c1 = (xs @ [y]) @ ys"
    using Cons.prems(1) by (simp add: note_call_def)
  from Cons.IH [OF this] Cons.prems have "fire_handlers U t a1 a2 (first_in ys) ?c1 =
      Some (?c1\<lparr>history := history ?c1 @
        map (\<lambda>n. Ev_handled (handler_id (the (handlers c n))) t a1 a2) ys\<rparr>)"
    by (simp add: note_call_def)
  moreover have "next_in y (ev_handlers ?c1) = first_in ys" "y \<in> set (ev_handlers ?c1)"
    using Cons.prems(1,2) by (simp_all add: note_call_def next_in_append)
  ultimately show ?case
    by (subst fire_handlers.simps) (simp add: first_in_def [of "y # ys"] call note_call_def)
qed

lemma fire_event_effect:
  assumes "client_inv F G H c" and "net_event_ok t a1 a2"
    and "\<And>cb x d. u_ev U cb t x a1 a2 d = Some d"
  shows "pc__trans_fire_event U t a1 a2 c =
    (case fire_state t (state c) of
       None \<Rightarrow> None
     | Some st \<Rightarrow> Some (c\<lparr>state := st, history := history c @
         map (\<lambda>n. Ev_handled (handler_id (the (handlers c n))) t a1 a2) (ev_handlers c)\<rparr>))"
proof (cases "fire_state t (state c)")
  case None
  then show ?thesis
    using assms(2) by (simp add: pc__trans_fire_event_def Let_def)
next
  case (Some st)
  let ?c3 = "pc_mutex_lock M_handler (c\<lparr>state := st\<rparr>)"
  have "0 \<le> t \<and> t < 8"
    using assms(2) by (auto simp: net_event_ok_def)
  moreover have "fire_handlers U t a1 a2 (first_in (ev_handlers c)) ?c3 = Some (?c3\<lparr>history :=
      history ?c3 @ map (\<lambda>n. Ev_handled (handler_id (the (handlers ?c3 n))) t a1 a2) (ev_handlers c)\<rparr>)"
    using assms(1) fire_handlers_passive [OF assms(3), of ?c3 "[]" "ev_handlers c"]
    by (auto simp: client_inv_def handlers_inv_def)
  ultimately show ?thesis
    using Some assms(2) by (simp add: pc__trans_fire_event_def Let_def)
qed

end
