(* ===== verification/Api.thy ===== *)
theory Api
  imports Trans
begin

text \<open>
  \<open>src/pc_pomelo.c\<close>: the entry points of the library. The transport is an argument: the record
  of its operations, each a transformer of the client that holds its state.
\<close>

section \<open>The transport's operations\<close>

record 't trans_ops =
  t_connect :: "string \<Rightarrow> int \<Rightarrow> string option \<Rightarrow> 't pc_client \<Rightarrow> (int \<times> 't pc_client) option"
  t_send :: "string option \<Rightarrow> u32 \<Rightarrow> string option \<Rightarrow> u32 \<Rightarrow> int \<Rightarrow> 't pc_client \<Rightarrow> (int \<times> 't pc_client) option"
  t_disconnect :: "'t pc_client \<Rightarrow> (int \<times> 't pc_client) option"
  t_cleanup :: "'t pc_client \<Rightarrow> (int \<times> 't pc_client) option"
  t_internal_data :: "('t pc_client \<Rightarrow> nat option) option"
  t_quality :: "('t pc_client \<Rightarrow> int) option"

text \<open>A plugin's \<open>transport_create\<close> (\<open>None\<close>: NULL) and the \<open>init\<close> of what it creates.\<close>

record 't plugin_impl =
  transport_create :: "'t option"
  transport_init :: "'t pc_client \<Rightarrow> (int \<times> 't pc_client) option"

section \<open>Initialisation\<close>

definition pc__init_magic_num :: int where
  "pc__init_magic_num = 0x65521abc"

definition pc__default_config :: pc_client_config where
  "pc__default_config = PC_CLIENT_CONFIG_DEFAULT"

definition idle_request :: "nat \<Rightarrow> pc_request" where
  "idle_request me = zero_request\<lparr>req_base := zero_common\<lparr>rq_client := me,
     rq_type := PC_REQ_TYPE_REQUEST OR PC_PRE_ALLOC_ST_IDLE OR PC_PRE_ALLOC\<rparr>\<rparr>"

definition idle_notify :: "nat \<Rightarrow> pc_notify" where
  "idle_notify me = zero_notify\<lparr>ntf_base := zero_common\<lparr>rq_client := me,
     rq_type := PC_REQ_TYPE_NOTIFY OR PC_PRE_ALLOC_ST_IDLE OR PC_PRE_ALLOC\<rparr>\<rparr>"

definition idle_event :: pc_event where
  "idle_event = zero_event\<lparr>ev_type_word := PC_PRE_ALLOC_ST_IDLE OR PC_PRE_ALLOC\<rparr>"

definition new_pool :: "nat \<Rightarrow> 'a \<Rightarrow> 'a pool" where
  "new_pool n x = \<lparr>slots = replicate n x, heap = (\<lambda>_. None), fresh = 0\<rparr>"

definition init_fields :: "nat \<Rightarrow> 't pc_client \<Rightarrow> 't pc_client" where
  "init_fields ex_data c =
     (let c1 = c\<lparr>locks := (\<lambda>_. 0), c_ex_data := ex_data,
                 ev_handlers := [], handlers := (\<lambda>_. None), handler_fresh := 0,
                 req_queue := [], notify_queue := [], seq_num := 0, req_id_seq := 1,
                 requests := new_pool PC_PRE_ALLOC_REQUEST_SLOT_COUNT (idle_request (self c)),
                 notifies := new_pool PC_PRE_ALLOC_NOTIFY_SLOT_COUNT (idle_notify (self c)),
                 history := []\<rparr>;
          c2 = (if enable_polling (config c1)
                then c1\<lparr>pending_ev_queue := [],
                        pending_events := new_pool PC_PRE_ALLOC_EVENT_SLOT_COUNT idle_event\<rparr>
                else c1)
      in c2\<lparr>is_in_poll := False, magic_num := pc__init_magic_num, state := PC_ST_INITED\<rparr>)"

text \<open>
  The log line for a missing plugin reads \<open>config->transport_name\<close>, which is a null
  dereference when the default configuration was asked for.
\<close>

definition pc_client_init :: "(int \<Rightarrow> 't plugin_impl option) \<Rightarrow> nat \<Rightarrow> pc_client_config option \<Rightarrow>
    't pc_client \<Rightarrow> (int \<times> 't pc_client) option" where
  "pc_client_init get_plugin ex_data cfg c =
     (if magic_num c = pc__init_magic_num then Some (PC_RC_OK, c)
      else
        let c1 = c\<lparr>config := (case cfg of None \<Rightarrow> pc__default_config | Some k \<Rightarrow> k)\<rparr> in
        case get_plugin (config_transport_name (config c1)) of
          None \<Rightarrow> do { assert_c (cfg \<noteq> None); Some (PC_RC_NO_TRANS, c1\<lparr>magic_num := 0\<rparr>) }
        | Some tp \<Rightarrow>
            (case transport_create tp of
               None \<Rightarrow> Some (PC_RC_ERROR, c1\<lparr>magic_num := 0\<rparr>)
             | Some t \<Rightarrow>
                 do {
                   (rc, c2) \<leftarrow> transport_init tp (c1\<lparr>tran := Some t\<rparr>);
                   if rc \<noteq> 0 then Some (PC_RC_ERROR, c2\<lparr>magic_num := 0, tran := None\<rparr>)
                   else Some (PC_RC_OK, init_fields ex_data c2) }))"

section \<open>Polling\<close>

definition pc_client_state :: "'t pc_client \<Rightarrow> pc_state" where
  "pc_client_state c = (if magic_num c \<noteq> pc__init_magic_num then PC_ST_NOT_INITED else state c)"

definition free_event :: "ref \<Rightarrow> 't pc_client \<Rightarrow> 't pc_client option" where
  "free_event r c = do { p \<leftarrow> pool_free r (pending_events c); Some (c\<lparr>pending_events := p\<rparr>) }"

text \<open>The delivery of an event by its kind, with the strings of the event freed afterwards.\<close>

definition deliver_event :: "'t user \<Rightarrow> ref \<Rightarrow> pc_event \<Rightarrow> 't pc_client \<Rightarrow> 't pc_client option" where
  "deliver_event U ev e c =
     (if PC_EV_IS_RESP (ev_type_word e) then
        (case ev_data e of
           Ev_req rid rc resp \<Rightarrow>
             do { c1 \<leftarrow> pc__trans_resp U rid rc resp c;
                  pc_client_rc_str rc;
                  put_event ev (\<lambda>e. e\<lparr>ev_data := Ev_req rid rc None\<rparr>) c1 }
         | _ \<Rightarrow> None)
      else if PC_EV_IS_NOTIFY_SENT (ev_type_word e) then
        (case ev_data e of
           Ev_notify seq rc \<Rightarrow> do { c1 \<leftarrow> pc__trans_sent U seq rc c; pc_client_rc_str rc; Some c1 }
         | _ \<Rightarrow> None)
      else
        (case ev_data e of
           Ev_net ev_type arg1 arg2 \<Rightarrow>
             do { c1 \<leftarrow> pc__trans_fire_event U ev_type arg1 arg2 c;
                  pc_client_ev_str ev_type;
                  put_event ev (\<lambda>e. e\<lparr>ev_data := Ev_net ev_type None None\<rparr>) c1 }
         | _ \<Rightarrow> None))"

definition pc__handle_event :: "'t user \<Rightarrow> ref \<Rightarrow> 't pc_client \<Rightarrow> 't pc_client option" where
  "pc__handle_event U ev c =
     do {
       e \<leftarrow> pool_get (pending_events c) ev;
       assert_c (PC_EV_IS_RESP (ev_type_word e) \<or> PC_EV_IS_NOTIFY_SENT (ev_type_word e)
                 \<or> PC_EV_IS_NET_EVENT (ev_type_word e));
       c1 \<leftarrow> deliver_event U ev e c;
       e' \<leftarrow> pool_get (pending_events c1) ev;
       if PC_IS_DYN_ALLOC (ev_type_word e') then free_event ev c1
       else put_event ev (ev_upd PC_PRE_ALLOC_SET_IDLE) c1 }"

text \<open>The loop ends when the queue is empty; callbacks may queue further events while it runs.\<close>

partial_function (option) poll_loop :: "'t user \<Rightarrow> 't pc_client \<Rightarrow> 't pc_client option" where
  "poll_loop U c =
     (case pending_ev_queue c of
        [] \<Rightarrow> Some c
      | ev # _ \<Rightarrow>
          do {
            let c1 = c\<lparr>pending_ev_queue := remove1 ev (pending_ev_queue c)\<rparr>;
            e \<leftarrow> pool_get (pending_events c1) ev;
            assert_c (PC_IS_PRE_ALLOC (ev_type_word e) \<and> PC_PRE_ALLOC_IS_BUSY (ev_type_word e)
                      \<or> PC_IS_DYN_ALLOC (ev_type_word e));
            c2 \<leftarrow> pc__handle_event U ev c1;
            poll_loop U c2 })"

declare poll_loop.simps [code]

definition pc_client_poll :: "'t user \<Rightarrow> 't pc_client \<Rightarrow> (int \<times> 't pc_client) option" where
  "pc_client_poll U c =
     (if \<not> enable_polling (config c) then Some (PC_RC_ERROR, c)
      else do {
        let c1 = pc_mutex_lock M_event c;
        c2 \<leftarrow> (if \<not> is_in_poll c1
               then do { c2 \<leftarrow> poll_loop U (c1\<lparr>is_in_poll := True\<rparr>); Some (c2\<lparr>is_in_poll := False\<rparr>) }
               else Some c1);
        c3 \<leftarrow> pc_mutex_unlock M_event c2;
        Some (PC_RC_OK, c3) })"

definition poll_if_enabled :: "'t user \<Rightarrow> 't pc_client \<Rightarrow> 't pc_client option" where
  "poll_if_enabled U c =
     (if enable_polling (config c) then do { (_, c1) \<leftarrow> pc_client_poll U c; Some c1 } else Some c)"

section \<open>Connecting and disconnecting\<close>

definition set_state :: "pc_state \<Rightarrow> 't pc_client \<Rightarrow> 't pc_client option" where
  "set_state st c = pc_mutex_unlock M_state ((pc_mutex_lock M_state c)\<lparr>state := st\<rparr>)"

definition pc_client_connect :: "'t user \<Rightarrow> 't trans_ops \<Rightarrow> string option \<Rightarrow> int \<Rightarrow> string option \<Rightarrow>
    't pc_client \<Rightarrow> (int \<times> 't pc_client) option" where
  "pc_client_connect U T host port handshake_opts c =
     (case host of
        None \<Rightarrow> Some (PC_RC_INVALID_ARG, c)
      | Some h \<Rightarrow>
          if port < 0 \<or> port > 65535 then Some (PC_RC_INVALID_ARG, c)
          else do {
            c1 \<leftarrow> poll_if_enabled U c;
            (case pc_client_state c1 of
               PC_ST_NOT_INITED \<Rightarrow> Some (PC_RC_INVALID_STATE, c1)
             | PC_ST_DISCONNECTING \<Rightarrow> Some (PC_RC_INVALID_STATE, c1)
             | PC_ST_CONNECTED \<Rightarrow> Some (PC_RC_OK, c1)
             | PC_ST_CONNECTING \<Rightarrow> Some (PC_RC_OK, c1)
             | PC_ST_INITED \<Rightarrow>
                 do {
                   assert_c (tran c1 \<noteq> None);
                   c2 \<leftarrow> set_state PC_ST_CONNECTING c1;
                   (ret, c3) \<leftarrow> t_connect T h port handshake_opts c2;
                   c4 \<leftarrow> (if ret \<noteq> PC_RC_OK then do { pc_client_rc_str ret; set_state PC_ST_INITED c3 }
                         else Some c3);
                   Some (ret, c4) }
             | PC_ST_UNKNOWN \<Rightarrow> Some (PC_RC_ERROR, c1)) })"

definition pc_client_disconnect :: "'t user \<Rightarrow> 't trans_ops \<Rightarrow> 't pc_client \<Rightarrow> (int \<times> 't pc_client) option" where
  "pc_client_disconnect U T c =
     do {
       c1 \<leftarrow> poll_if_enabled U c;
       let st = pc_client_state c1;
       (if st = PC_ST_NOT_INITED \<or> st = PC_ST_INITED then Some (PC_RC_INVALID_STATE, c1)
        else if st = PC_ST_CONNECTING \<or> st = PC_ST_CONNECTED then
          do {
            assert_c (tran c1 \<noteq> None);
            c2 \<leftarrow> set_state PC_ST_DISCONNECTING c1;
            (ret, c3) \<leftarrow> t_disconnect T c2;
            c4 \<leftarrow> (if ret \<noteq> PC_RC_OK then do { pc_client_rc_str ret; set_state st c3 } else Some c3);
            Some (ret, c4) }
        else if st = PC_ST_DISCONNECTING then Some (PC_RC_OK, c1)
        else Some (PC_RC_ERROR, c1)) }"

section \<open>Event handlers\<close>

text \<open>\<open>handler_id++\<close> on the static counter, an \<open>int\<close>, is undefined at its maximum.\<close>

definition pc_client_add_ev_handler :: "nat option \<Rightarrow> nat \<Rightarrow> nat option \<Rightarrow> 't pc_client \<Rightarrow>
    (int \<times> 't pc_client) option" where
  "pc_client_add_ev_handler cb ex_data destructor c =
     (if cb = None then Some (PC_EV_INVALID_HANDLER_ID, c)
      else
        let n = handler_fresh c; i = next_handler_id c;
            h = \<lparr>h_ex_data = ex_data, h_destructor = destructor, handler_id = i, h_cb = cb\<rparr>;
            c1 = c\<lparr>handlers := (handlers c)(n \<mapsto> h), handler_fresh := Suc n, next_handler_id := i + 1\<rparr>;
            c2 = pc_mutex_lock M_handler c1
        in do {
          assert_c (int_fits (i + 1));
          c3 \<leftarrow> pc_mutex_unlock M_handler (c2\<lparr>ev_handlers := ev_handlers c2 @ [n]\<rparr>);
          Some (i, c3) })"

fun find_handler :: "(nat \<Rightarrow> pc_ev_handler option) \<Rightarrow> int \<Rightarrow> nat list \<Rightarrow> (nat \<times> pc_ev_handler) option option" where
  "find_handler hs i [] = Some None"
| "find_handler hs i (q # qs) =
     do { h \<leftarrow> hs q; if handler_id h \<noteq> i then find_handler hs i qs else Some (Some (q, h)) }"

text \<open>Unlinking a handler, running its destructor and freeing it.\<close>

definition drop_handler :: "'t user \<Rightarrow> nat \<Rightarrow> pc_ev_handler \<Rightarrow> 't pc_client \<Rightarrow> 't pc_client option" where
  "drop_handler U q h c =
     do {
       let c1 = c\<lparr>ev_handlers := remove1 q (ev_handlers c)\<rparr>;
       c2 \<leftarrow> (case h_destructor h of
                None \<Rightarrow> Some c1
              | Some d \<Rightarrow> u_destroy U d (h_ex_data h) (note_call (Destroyed (handler_id h)) c1));
       assert_c (handlers c2 q \<noteq> None);
       Some (c2\<lparr>handlers := (handlers c2)(q := None)\<rparr>) }"

definition pc_client_rm_ev_handler :: "'t user \<Rightarrow> int \<Rightarrow> 't pc_client \<Rightarrow> (int \<times> 't pc_client) option" where
  "pc_client_rm_ev_handler U i c =
     do {
       let c1 = pc_mutex_lock M_handler c;
       t \<leftarrow> find_handler (handlers c1) i (ev_handlers c1);
       c2 \<leftarrow> (case t of None \<Rightarrow> Some c1 | Some (q, h) \<Rightarrow> drop_handler U q h c1);
       c3 \<leftarrow> pc_mutex_unlock M_handler c2;
       Some (PC_RC_OK, c3) }"

section \<open>Requests\<close>

text \<open>
  The search for an idle slot with its asserts, or a zeroed cell of the heap that then gets its
  type word and its client.
\<close>

definition alloc_request :: "'t pc_client \<Rightarrow> (ref \<times> 't pc_client) option" where
  "alloc_request c =
     (case pool_alloc rq_ty rq_upd dyn_request (requests c) of
        (Pre i, p) \<Rightarrow>
          do {
            x \<leftarrow> pool_get p (Pre i);
            assert_c (route (req_base x) = None \<and> msg (req_base x) = None);
            assert_c (PC_IS_PRE_ALLOC (rq_ty x));
            Some (Pre i, c\<lparr>requests := p\<rparr>) }
      | (Dyn n, p) \<Rightarrow>
          do {
            p1 \<leftarrow> pool_upd (Dyn n) (\<lambda>x. x\<lparr>req_base := (req_base x)\<lparr>rq_client := self c\<rparr>\<rparr>) p;
            Some (Dyn n, c\<lparr>requests := p1\<rparr>) })"

text \<open>The next request id, skipping the two reserved values.\<close>

definition next_req_id :: "u32 \<Rightarrow> u32" where
  "next_req_id s = (if s = PC_NOTIFY_PUSH_REQ_ID \<or> s = PC_INVALID_REQ_ID then 1 else s)"

definition fill_common :: "string option \<Rightarrow> string option \<Rightarrow> u32 \<Rightarrow> int \<Rightarrow> nat \<Rightarrow> pc_common_req \<Rightarrow> pc_common_req" where
  "fill_common rt m seq tmo ex b =
     b\<lparr>route := pc_lib_strdup rt, msg := pc_lib_strdup m, rq_seq_num := seq, timeout := tmo, rq_ex_data := ex\<rparr>"

definition fill_request :: "string option \<Rightarrow> string option \<Rightarrow> u32 \<Rightarrow> int \<Rightarrow> nat \<Rightarrow> u32 \<Rightarrow> nat option \<Rightarrow>
    pc_request \<Rightarrow> pc_request" where
  "fill_request rt m seq tmo ex rid cb x =
     x\<lparr>req_base := fill_common rt m seq tmo ex (req_base x), req_id := rid, req_cb := cb\<rparr>"

text \<open>The first locked section: allocate, queue, fill in.\<close>

definition submit_request :: "string option \<Rightarrow> string option \<Rightarrow> nat \<Rightarrow> int \<Rightarrow> nat option \<Rightarrow>
    't pc_client \<Rightarrow> (ref \<times> pc_request \<times> 't pc_client) option" where
  "submit_request rt m ex tmo cb c =
     do {
       let c1 = pc_mutex_lock M_req c;
       (r, c2) \<leftarrow> alloc_request c1;
       let c3 = c2\<lparr>req_queue := req_queue c2 @ [r]\<rparr>;
       let rid = next_req_id (req_id_seq c3);
       c4 \<leftarrow> put_request r (fill_request rt m (seq_num c3) tmo ex rid cb) c3;
       let c5 = c4\<lparr>seq_num := seq_num c4 + 1, req_id_seq := rid + 1\<rparr>;
       q \<leftarrow> pool_get (requests c5) r;
       c6 \<leftarrow> pc_mutex_unlock M_req (note_call (Req_accepted q) c5);
       Some (r, q, c6) }"

text \<open>The second one, after the transport refused the request: take it out and release it.\<close>

definition withdraw_request :: "ref \<Rightarrow> 't pc_client \<Rightarrow> 't pc_client option" where
  "withdraw_request r c =
     do {
       let c1 = pc_mutex_lock M_req c;
       q \<leftarrow> pool_get (requests c1) r;
       c2 \<leftarrow> put_request r clear_request c1;
       let c3 = note_call (Req_withdrawn q) (c2\<lparr>req_queue := remove1 r (req_queue c2)\<rparr>);
       q' \<leftarrow> pool_get (requests c3) r;
       c4 \<leftarrow> (if PC_IS_PRE_ALLOC (rq_ty q') then set_request_idle r c3 else free_request r c3);
       pc_mutex_unlock M_req c4 }"

definition pc_request_with_timeout :: "'t trans_ops \<Rightarrow> string option \<Rightarrow> string option \<Rightarrow> nat \<Rightarrow> int \<Rightarrow>
    nat option \<Rightarrow> 't pc_client \<Rightarrow> (int \<times> 't pc_client) option" where
  "pc_request_with_timeout T rt m ex_data tmo cb c =
     (if rt = None \<or> m = None \<or> cb = None then Some (PC_RC_INVALID_ARG, c)
      else if pc_client_state c \<noteq> PC_ST_CONNECTED \<and> pc_client_state c \<noteq> PC_ST_CONNECTING
        then Some (PC_RC_INVALID_STATE, c)
      else if tmo \<noteq> PC_WITHOUT_TIMEOUT \<and> tmo \<le> 0 then Some (PC_RC_INVALID_ARG, c)
      else do {
        assert_c (tran c \<noteq> None);
        (r, q, c1) \<leftarrow> submit_request rt m ex_data tmo cb c;
        (ret, c2) \<leftarrow> t_send T (route (req_base q)) (rq_seq_num (req_base q)) (msg (req_base q)) (req_id q)
                      (timeout (req_base q)) c1;
        c3 \<leftarrow> (if ret \<noteq> PC_RC_OK then do { pc_client_rc_str ret; withdraw_request r c2 } else Some c2);
        Some (ret, c3) })"

section \<open>Notifies\<close>

definition alloc_notify :: "'t pc_client \<Rightarrow> (ref \<times> 't pc_client) option" where
  "alloc_notify c =
     (case pool_alloc nt_ty nt_upd dyn_notify (notifies c) of
        (Pre i, p) \<Rightarrow>
          do {
            x \<leftarrow> pool_get p (Pre i);
            assert_c (route (ntf_base x) = None \<and> msg (ntf_base x) = None);
            assert_c (PC_IS_PRE_ALLOC (nt_ty x));
            Some (Pre i, c\<lparr>notifies := p\<rparr>) }
      | (Dyn n, p) \<Rightarrow>
          do {
            p1 \<leftarrow> pool_upd (Dyn n) (\<lambda>x. x\<lparr>ntf_base := (ntf_base x)\<lparr>rq_client := self c\<rparr>\<rparr>) p;
            Some (Dyn n, c\<lparr>notifies := p1\<rparr>) })"

definition fill_notify :: "string option \<Rightarrow> string option \<Rightarrow> u32 \<Rightarrow> int \<Rightarrow> nat \<Rightarrow> nat option \<Rightarrow>
    pc_notify \<Rightarrow> pc_notify" where
  "fill_notify rt m seq tmo ex cb x =
     x\<lparr>ntf_base := fill_common rt m seq tmo ex (ntf_base x), ntf_cb := cb\<rparr>"

text \<open>The code guards the notify queue with the request mutex here, as written.\<close>

definition submit_notify :: "string option \<Rightarrow> string option \<Rightarrow> nat \<Rightarrow> int \<Rightarrow> nat option \<Rightarrow>
    't pc_client \<Rightarrow> (ref \<times> pc_notify \<times> 't pc_client) option" where
  "submit_notify rt m ex tmo cb c =
     do {
       let c1 = pc_mutex_lock M_req c;
       (r, c2) \<leftarrow> alloc_notify c1;
       let c3 = c2\<lparr>notify_queue := notify_queue c2 @ [r]\<rparr>;
       c4 \<leftarrow> put_notify r (fill_notify rt m (seq_num c3) tmo ex cb) c3;
       let c5 = c4\<lparr>seq_num := seq_num c4 + 1\<rparr>;
       n \<leftarrow> pool_get (notifies c5) r;
       c6 \<leftarrow> pc_mutex_unlock M_req (note_call (Ntf_accepted n) c5);
       Some (r, n, c6) }"

definition withdraw_notify :: "ref \<Rightarrow> 't pc_client \<Rightarrow> 't pc_client option" where
  "withdraw_notify r c =
     do {
       let c1 = pc_mutex_lock M_req c;
       n \<leftarrow> pool_get (notifies c1) r;
       c2 \<leftarrow> put_notify r clear_notify c1;
       let c3 = note_call (Ntf_withdrawn n) (c2\<lparr>notify_queue := remove1 r (notify_queue c2)\<rparr>);
       n' \<leftarrow> pool_get (notifies c3) r;
       c4 \<leftarrow> (if PC_IS_PRE_ALLOC (nt_ty n') then set_notify_idle r c3 else free_notify r c3);
       pc_mutex_unlock M_req c4 }"

definition pc_notify_with_timeout :: "'t trans_ops \<Rightarrow> string option \<Rightarrow> string option \<Rightarrow> nat \<Rightarrow> int \<Rightarrow>
    nat option \<Rightarrow> 't pc_client \<Rightarrow> (int \<times> 't pc_client) option" where
  "pc_notify_with_timeout T rt m ex_data tmo cb c =
     (if rt = None \<or> m = None \<or> cb = None then Some (PC_RC_INVALID_ARG, c)
      else if tmo \<noteq> PC_WITHOUT_TIMEOUT \<and> tmo \<le> 0 then Some (PC_RC_INVALID_ARG, c)
      else if pc_client_state c \<noteq> PC_ST_CONNECTED \<and> pc_client_state c \<noteq> PC_ST_CONNECTING
        then Some (PC_RC_INVALID_STATE, c)
      else do {
        assert_c (tran c \<noteq> None);
        (r, n, c1) \<leftarrow> submit_notify rt m ex_data tmo cb c;
        (ret, c2) \<leftarrow> t_send T (route (ntf_base n)) (rq_seq_num (ntf_base n)) (msg (ntf_base n))
                      PC_NOTIFY_PUSH_REQ_ID (timeout (ntf_base n)) c1;
        c3 \<leftarrow> (if ret \<noteq> PC_RC_OK then do { pc_client_rc_str ret; withdraw_notify r c2 } else Some c2);
        Some (ret, c3) })"

section \<open>Cleaning up\<close>

partial_function (option) free_handlers :: "'t user \<Rightarrow> 't pc_client \<Rightarrow> 't pc_client option" where
  "free_handlers U c =
     (case ev_handlers c of
        [] \<Rightarrow> Some c
      | q # _ \<Rightarrow> do { h \<leftarrow> handlers c q; c1 \<leftarrow> drop_handler U q h c; free_handlers U c1 })"

declare free_handlers.simps [code]

text \<open>Destroying a mutex that is held fails its \<open>assert\<close>.\<close>

definition pc_mutex_destroy :: "mutex \<Rightarrow> 't pc_client \<Rightarrow> unit option" where
  "pc_mutex_destroy m c = assert_c (locks c m = 0)"

text \<open>
  \<open>QUEUE_EMPTY(&client->pending_events)\<close> looks at the links of the first event slot, so it
  asserts that this slot is not queued.
\<close>

definition pc_client_cleanup :: "'t user \<Rightarrow> 't trans_ops \<Rightarrow> 't pc_client \<Rightarrow> (int \<times> 't pc_client) option" where
  "pc_client_cleanup U T c =
     (if magic_num c \<noteq> pc__init_magic_num then Some (PC_RC_OK, c)
      else do {
        assert_c (tran c \<noteq> None);
        (ret, c1) \<leftarrow> t_cleanup T c;
        if ret \<noteq> PC_RC_OK then do { pc_client_rc_str ret; Some (ret, c1) }
        else do {
          let c2 = c1\<lparr>tran := None\<rparr>;
          c3 \<leftarrow> poll_if_enabled U c2;
          assert_c (enable_polling (config c2) \<longrightarrow> Pre 0 \<notin> set (pending_ev_queue c3));
          assert_c (req_queue c3 = []);
          assert_c (notify_queue c3 = []);
          c4 \<leftarrow> free_handlers U c3;
          pc_mutex_destroy M_req c4;
          pc_mutex_destroy M_notify c4;
          pc_mutex_destroy M_event c4;
          pc_mutex_destroy M_handler c4;
          pc_mutex_destroy M_state c4;
          Some (PC_RC_OK, c4\<lparr>req_id_seq := 1, seq_num := 0, magic_num := 0, state := PC_ST_NOT_INITED\<rparr>) } })"

section \<open>Getters\<close>

definition pc_client_ex_data :: "'t pc_client \<Rightarrow> nat" where
  "pc_client_ex_data c = c_ex_data c"

definition pc_client_config_of :: "'t pc_client \<Rightarrow> pc_client_config" where
  "pc_client_config_of c = config c"

definition pc_client_conn_quality :: "'t trans_ops \<Rightarrow> 't pc_client \<Rightarrow> int option" where
  "pc_client_conn_quality T c =
     do { assert_c (tran c \<noteq> None);
          (case t_quality T of Some f \<Rightarrow> Some (f c) | None \<Rightarrow> Some PC_RC_ERROR) }"

definition pc_client_trans_data :: "'t trans_ops \<Rightarrow> 't pc_client \<Rightarrow> nat option option" where
  "pc_client_trans_data T c =
     do { assert_c (tran c \<noteq> None);
          (case t_internal_data T of Some f \<Rightarrow> Some (f c) | None \<Rightarrow> Some None) }"

definition pc_request_client :: "pc_request option \<Rightarrow> nat option" where
  "pc_request_client req = do { r \<leftarrow> req; Some (rq_client (req_base r)) }"

definition pc_request_route :: "pc_request option \<Rightarrow> string option option" where
  "pc_request_route req = do { r \<leftarrow> req; Some (route (req_base r)) }"

definition pc_request_msg :: "pc_request option \<Rightarrow> string option option" where
  "pc_request_msg req = do { r \<leftarrow> req; Some (msg (req_base r)) }"

definition pc_request_timeout :: "pc_request option \<Rightarrow> int option" where
  "pc_request_timeout req = do { r \<leftarrow> req; Some (timeout (req_base r)) }"

definition pc_request_ex_data :: "pc_request option \<Rightarrow> nat option" where
  "pc_request_ex_data req = do { r \<leftarrow> req; Some (rq_ex_data (req_base r)) }"

definition pc_notify_client :: "pc_notify option \<Rightarrow> nat option" where
  "pc_notify_client n = do { r \<leftarrow> n; Some (rq_client (ntf_base r)) }"

definition pc_notify_route :: "pc_notify option \<Rightarrow> string option option" where
  "pc_notify_route n = do { r \<leftarrow> n; Some (route (ntf_base r)) }"

definition pc_notify_msg :: "pc_notify option \<Rightarrow> string option option" where
  "pc_notify_msg n = do { r \<leftarrow> n; Some (msg (ntf_base r)) }"

definition pc_notify_timeout :: "pc_notify option \<Rightarrow> int option" where
  "pc_notify_timeout n = do { r \<leftarrow> n; Some (timeout (ntf_base r)) }"

definition pc_notify_ex_data :: "pc_notify option \<Rightarrow> nat option" where
  "pc_notify_ex_data n = do { r \<leftarrow> n; Some (rq_ex_data (ntf_base r)) }"

end
