(* ===== verification/ApiInv.thy ===== *)
theory ApiInv
  imports Api
begin

text \<open>
  The entry points of \<open>pc_pomelo.c\<close> keep the client's invariant, for every transport and every
  set of callbacks that keep it: \<open>client_world\<close> states what they rely on.
\<close>

section \<open>Initialisation\<close>

lemma new_pool_inv:
  assumes "PC_IS_PRE_ALLOC (ty x)" and "PC_PRE_ALLOC_IS_IDLE (ty x)"
  shows "pool_inv ty (new_pool n x) [] {}"
  using assms by (auto simp: pool_inv_def pool_ok_def new_pool_def in_use_def split: ref.splits)

lemma idle_items:
  "PC_IS_PRE_ALLOC (rq_ty (idle_request me))" "PC_PRE_ALLOC_IS_IDLE (rq_ty (idle_request me))"
  "PC_IS_PRE_ALLOC (nt_ty (idle_notify me))" "PC_PRE_ALLOC_IS_IDLE (nt_ty (idle_notify me))"
  "PC_IS_PRE_ALLOC (ev_type_word idle_event)" "PC_PRE_ALLOC_IS_IDLE (ev_type_word idle_event)"
  by (simp_all add: rq_ty_def nt_ty_def idle_request_def idle_notify_def idle_event_def zero_event_def
      zero_request_def zero_notify_def zero_common_def flag_defs)

lemma new_request_inv:
  "queue_inv rq_ty req_base (new_pool n (idle_request me)) [] {} [] []"
  "queue_inv nt_ty ntf_base (new_pool n (idle_notify me)) [] {} [] []"
  using new_pool_inv [of rq_ty "idle_request me" n] new_pool_inv [of nt_ty "idle_notify me" n]
  by (simp_all add: queue_inv_def idle_items queued_def)
    (auto simp: new_pool_def idle_request_def idle_notify_def zero_common_def)

lemma init_inv: "client_inv {} {} {} (init_fields ex c)"
  by (simp add: client_inv_def init_fields_def Let_def new_request_inv events_inv_def handlers_inv_def
      new_pool_inv idle_items queued_def)

section \<open>Pending events\<close>

lemma take_event:
  assumes inv: "client_inv F G H c" and poll: "enable_polling (config c)"
    and r: "r \<in> set (pending_ev_queue c)"
  shows "client_inv F G (insert r H) (c\<lparr>pending_ev_queue := remove1 r (pending_ev_queue c)\<rparr>)"
    and "r \<notin> H" and "\<exists>e. pool_get (pending_events c) r = Some e \<and> event_ok e"
proof -
  have p: "pool_inv ev_type_word (pending_events c) (pending_ev_queue c) H"
    and ok: "\<forall>e \<in> set (queued (pending_events c) (pending_ev_queue c)). event_ok e"
    using inv poll by (auto simp: client_inv_def events_inv_def)
  have "\<forall>e \<in> set (queued (pending_events c) (remove1 r (pending_ev_queue c))). event_ok e"
    using ok notin_set_remove1 by (fastforce simp: queued_def)
  then show "client_inv F G (insert r H) (c\<lparr>pending_ev_queue := remove1 r (pending_ev_queue c)\<rparr>)"
    using inv inv_dequeue [OF p r] by (simp add: client_inv_def events_inv_def handlers_inv_def)
  show "r \<notin> H"
    using inv_dequeue [OF p r] by simp
  show "\<exists>e. pool_get (pending_events c) r = Some e \<and> event_ok e"
    using inv_get [OF p, of r] r ok by (auto simp: queued_def)
qed

lemma put_event_inv:
  assumes inv: "client_inv F G H c" and r: "r \<in> H" and put: "put_event r f c = Some c'"
    and ty: "\<And>e. ev_type_word (f e) = ev_type_word e"
  shows "client_inv F G H c' \<and> frame c c'"
proof -
  obtain p where p: "pool_upd r f (pending_events c) = Some p" and c': "c' = c\<lparr>pending_events := p\<rparr>"
    using put by (auto simp: put_event_def Option.bind_eq_Some_conv)
  then obtain x where x: "pool_get (pending_events c) r = Some x"
    and pp: "pool_put r (f x) (pending_events c) = Some p"
    by (auto simp: pool_upd_Some)
  have "events_inv H c'"
  proof (cases "enable_polling (config c)")
    case True
    then have i: "pool_inv ev_type_word (pending_events c) (pending_ev_queue c) H"
      and ok: "\<forall>e \<in> set (queued (pending_events c) (pending_ev_queue c)). event_ok e"
      using inv by (auto simp: client_inv_def events_inv_def)
    have "r \<notin> set (pending_ev_queue c)"
      using i r by (auto simp: pool_inv_def)
    then have "queued p (pending_ev_queue c) = queued (pending_events c) (pending_ev_queue c)"
      by (intro queued_cong) (auto simp: pool_get_put [OF pp])
    then show ?thesis
      using ev_pool.inv_put [OF i pp x] ty ok by (simp add: events_inv_def c')
  next
    case False
    then show ?thesis by (simp add: events_inv_def c')
  qed
  then show ?thesis
    using inv by (simp add: client_inv_def c' handlers_inv_def frame_def)
qed

lemma release_event:
  assumes inv: "client_inv F G (insert r H) c" and r: "r \<notin> H" and poll: "enable_polling (config c)"
    and e: "pool_get (pending_events c) r = Some e"
    and run: "(if PC_IS_DYN_ALLOC (ev_type_word e) then free_event r c
               else put_event r (ev_upd PC_PRE_ALLOC_SET_IDLE) c) = Some c'"
  shows "client_inv F G H c' \<and> frame c c'"
proof -
  have i: "pool_inv ev_type_word (pending_events c) (pending_ev_queue c) (insert r H)"
    and ok: "\<forall>e \<in> set (queued (pending_events c) (pending_ev_queue c)). event_ok e"
    using inv poll by (auto simp: client_inv_def events_inv_def)
  obtain p where p: "pool_release ev_type_word ev_upd r (pending_events c) = Some p"
    and c': "c' = c\<lparr>pending_events := p\<rparr>"
    using run e by (auto simp: pool_release_def pre_or_dyn free_event_def put_event_def pool_upd_def
        Option.bind_eq_Some_conv split: if_splits)
  have "r \<notin> set (pending_ev_queue c)"
    using i by (auto simp: pool_inv_def)
  then have "queued p (pending_ev_queue c) = queued (pending_events c) (pending_ev_queue c)"
    using ev_pool.release_get_other [OF p] by (intro queued_cong) metis
  then show ?thesis
    using ev_pool.inv_release [OF i r p] ok inv
    by (simp add: client_inv_def events_inv_def handlers_inv_def c' frame_def)
qed

context client_user
begin

lemma deliver_event_inv:
  assumes inv: "client_inv F G H c" and r: "r \<in> H" and run: "deliver_event U r e c = Some c'"
  shows "client_inv F G H c' \<and> frame c c'"
proof -
  have upd: "client_inv F G H d' \<and> frame c d'"
    if "client_inv F G H d \<and> frame c d" and "put_event r (\<lambda>e. e\<lparr>ev_data := x\<rparr>) d = Some d'" for d d' x
    using put_event_inv [of F G H d r "\<lambda>e. e\<lparr>ev_data := x\<rparr>" d'] that r frame_trans by auto
  show ?thesis
  proof (cases "ev_data e")
    case (Ev_req rid rc resp)
    then obtain c1 where "pc__trans_resp U rid rc resp c = Some c1"
      "put_event r (\<lambda>e. e\<lparr>ev_data := Ev_req rid rc None\<rparr>) c1 = Some c'"
      using run by (auto simp: deliver_event_def Option.bind_eq_Some_conv split: if_splits)
    then show ?thesis
      using keepsD [OF keeps_resp inv] upd by blast
  next
    case (Ev_notify seq rc)
    then have "pc__trans_sent U seq rc c = Some c'"
      using run by (auto simp: deliver_event_def Option.bind_eq_Some_conv split: if_splits)
    then show ?thesis
      using keepsD [OF keeps_sent inv] by blast
  next
    case (Ev_net t a1 a2)
    then obtain c1 where "pc__trans_fire_event U t a1 a2 c = Some c1"
      "put_event r (\<lambda>e. e\<lparr>ev_data := Ev_net t None None\<rparr>) c1 = Some c'"
      using run by (auto simp: deliver_event_def Option.bind_eq_Some_conv split: if_splits)
    then show ?thesis
      using keepsD [OF keeps_fire_event inv] upd by blast
  qed
qed

lemma handle_event_inv:
  assumes inv: "client_inv F G (insert r H) c" and r: "r \<notin> H" and poll: "enable_polling (config c)"
    and run: "pc__handle_event U r c = Some c'"
  shows "client_inv F G H c' \<and> frame c c'"
proof -
  obtain e c1 e' where c1: "deliver_event U r e c = Some c1"
    and e': "pool_get (pending_events c1) r = Some e'"
    and rel: "(if PC_IS_DYN_ALLOC (ev_type_word e') then free_event r c1
               else put_event r (ev_upd PC_PRE_ALLOC_SET_IDLE) c1) = Some c'"
    using run unfolding pc__handle_event_def Option.bind_eq_Some_conv bind_assert_c
    by (auto split: if_splits simp: Option.bind_eq_Some_conv)
  from deliver_event_inv [OF inv insertI1 c1]
  have inv1: "client_inv F G (insert r H) c1" and fr: "frame c c1" by auto
  have "enable_polling (config c1)"
    using fr poll by (auto simp: frame_def)
  from release_event [OF inv1 r this e' rel] fr show ?thesis
    using frame_trans by blast
qed

lemma keeps_poll_loop:
  assumes "client_inv F G H c" and "enable_polling (config c)" and "poll_loop U c = Some c'"
  shows "client_inv F G H c' \<and> frame c c'"
proof -
  have "V = U \<Longrightarrow> client_inv F G H c \<Longrightarrow> enable_polling (config c) \<Longrightarrow> client_inv F G H c' \<and> frame c c'"
    if "poll_loop V c = Some c'" for V c c'
    using that
  proof (induction V c c' rule: poll_loop.raw_induct [rotated, consumes 1])
    case (1 rec V c c')
    show ?case
    proof (cases "pending_ev_queue c")
      case Nil
      then show ?thesis using 1 by simp
    next
      case (Cons ev evs)
      let ?c1 = "c\<lparr>pending_ev_queue := remove1 ev (pending_ev_queue c)\<rparr>"
      obtain c2 where c2: "pc__handle_event U ev ?c1 = Some c2" and rest: "rec V c2 = Some c'"
        using 1(2,3) Cons by (auto simp: Option.bind_eq_Some_conv Let_def split: if_splits)
      have m: "ev \<in> set (pending_ev_queue c)"
        using Cons by simp
      from handle_event_inv [OF take_event(1,2) [OF 1(4,5) m] _ c2] 1(5)
      have inv2: "client_inv F G H c2" and fr: "frame ?c1 c2" by auto
      then have "enable_polling (config c2)"
        using 1(5) by (simp add: frame_def)
      from 1(1) [OF rest 1(3) inv2 this] fr show ?thesis
        using frame_trans by fastforce
    qed
  qed
  with assms show ?thesis by blast
qed

lemma keeps_poll: "keeps_rc (pc_client_poll U)"
proof
  fix F G H c x c'
  assume inv: "client_inv F G H c" and run: "pc_client_poll U c = Some (x, c')"
  show "client_inv F G H c' \<and> frame c c'"
  proof (cases "enable_polling (config c) \<and> \<not> is_in_poll c")
    case True
    let ?c1 = "(pc_mutex_lock M_event c)\<lparr>is_in_poll := True\<rparr>"
    obtain c2 where c2: "poll_loop U ?c1 = Some c2"
      and c': "pc_mutex_unlock M_event (c2\<lparr>is_in_poll := False\<rparr>) = Some c'"
      using run True by (auto simp: pc_client_poll_def Let_def Option.bind_eq_Some_conv)
    have "client_inv F G H ?c1" "enable_polling (config ?c1)"
      using inv True by simp_all
    from keeps_poll_loop [OF this c2] have "client_inv F G H c2"
      and "frame (pc_mutex_lock M_event c) (c2\<lparr>is_in_poll := False\<rparr>)" by simp_all
    with frame_unlock [OF this(2)] c' show ?thesis
      by (auto simp: unlock_Some)
  next
    case False
    then show ?thesis
      using run inv by (auto simp: pc_client_poll_def Let_def split: if_splits)
  qed
qed

lemma keeps_poll_if: "keeps (poll_if_enabled U)"
proof
  fix F G H c c'
  assume inv: "client_inv F G H c" and run: "poll_if_enabled U c = Some c'"
  then show "client_inv F G H c' \<and> frame c c'"
    using keeps_rcD [OF keeps_poll inv]
    by (auto simp: poll_if_enabled_def Option.bind_eq_Some_conv split: if_splits prod.splits)
qed

end

section \<open>The entry points\<close>

text \<open>
  The transport's side of the contract: its operations keep the invariant, and a send that is
  refused has not touched the client.
\<close>

locale client_world = client_user U for U :: "'t user" +
  fixes T :: "'t trans_ops"
  assumes trans_connect: "keeps_rc (t_connect T h port opts)"
    and trans_send: "keeps_rc (t_send T rt seq m rid tmo)"
    and trans_disconnect: "keeps_rc (t_disconnect T)"
    and trans_refused: "t_send T rt seq m rid tmo c = Some (rc, c') \<Longrightarrow> rc \<noteq> PC_RC_OK \<Longrightarrow>
          \<exists>t. c' = c\<lparr>tran := Some t\<rparr>"

lemma set_state_code: "set_state st c = Some (c\<lparr>state := st\<rparr>)"
  by (simp add: set_state_def)

lemma keeps_add_handler: "keeps_rc (pc_client_add_ev_handler cb x d)"
proof
  fix F G H c i c'
  assume inv: "client_inv F G H c" and run: "pc_client_add_ev_handler cb x d c = Some (i, c')"
  show "client_inv F G H c' \<and> frame c c'"
  proof (cases cb)
    case None
    then show ?thesis using inv run by (simp add: pc_client_add_ev_handler_def)
  next
    case (Some f)
    have h: "handlers_inv c" and fresh: "handler_fresh c \<notin> set (ev_handlers c)"
      using inv by (auto simp: client_inv_def handlers_inv_def)
    have "handlers_inv c' \<and> frame c c' \<and> requests c' = requests c \<and> req_queue c' = req_queue c \<and>
        notifies c' = notifies c \<and> notify_queue c' = notify_queue c \<and> history c' = history c \<and>
        pending_events c' = pending_events c \<and> pending_ev_queue c' = pending_ev_queue c"
      using run Some h fresh
      by (auto simp: pc_client_add_ev_handler_def Let_def pc_mutex_lock_def pc_mutex_unlock_def
          handlers_inv_def frame_def split: if_splits)
    then show ?thesis
      using inv by (auto simp: client_inv_def events_inv_def frame_def)
  qed
qed

lemma find_handler_Some:
  "find_handler hs i qs = Some (Some (q, h)) \<Longrightarrow> q \<in> set qs \<and> hs q = Some h \<and> handler_id h = i"
  by (induction qs) (auto split: bind_splits if_splits)

context client_user
begin

lemma drop_handler_inv:
  assumes inv: "client_inv F G H c" and q: "q \<in> set (ev_handlers c)" and run: "drop_handler U q h c = Some c'"
  shows "client_inv F G H c' \<and> frame c c'"
proof -
  let ?c1 = "c\<lparr>ev_handlers := remove1 q (ev_handlers c)\<rparr>"
  have inv1: "client_inv F G H (note_call (Destroyed i) ?c1)" "client_inv F G H ?c1" for i
    using inv notin_set_remove1 by (fastforce simp: client_inv_def events_inv_def handlers_inv_def note_call_def)+
  obtain c2 where c2: "(case h_destructor h of None \<Rightarrow> Some ?c1
      | Some d \<Rightarrow> u_destroy U d (h_ex_data h) (note_call (Destroyed (handler_id h)) ?c1)) = Some c2"
    and c': "c' = c2\<lparr>handlers := (handlers c2)(q := None)\<rparr>"
    using run by (auto simp: drop_handler_def Let_def Option.bind_eq_Some_conv split: if_splits)
  have c2_inv: "client_inv F G H c2" and fr: "frame ?c1 c2"
    using c2 keepsD [OF user_destroy inv1(1)] inv1(2) frame_note
    by (auto split: option.splits) blast+
  have h: "handlers_inv c"
    using inv by (simp add: client_inv_def)
  then have "handlers c q \<noteq> None" "\<forall>n \<ge> handler_fresh c. handlers c n = None" "distinct (ev_handlers c)"
    using q by (auto simp: handlers_inv_def)
  then have "q < handler_fresh c" and "q \<notin> set (ev_handlers ?c1)"
    by (metis leI, simp)
  then have "q \<notin> set (ev_handlers c2)"
    using fr by (auto simp: frame_def)
  moreover have "frame c c2"
    using fr set_remove1_subset [of q "ev_handlers c"] by (auto simp: frame_def)
  ultimately have "client_inv F G H c2 \<and> frame c c2 \<and> q \<notin> set (ev_handlers c2)"
    using c2_inv by blast
  then show ?thesis
    by (auto simp: c' client_inv_def events_inv_def handlers_inv_def frame_def)
qed

lemma keeps_rm_handler: "keeps_rc (pc_client_rm_ev_handler U i)"
proof
  fix F G H c x c'
  assume inv: "client_inv F G H c" and run: "pc_client_rm_ev_handler U i c = Some (x, c')"
  let ?c1 = "pc_mutex_lock M_handler c"
  obtain t c2 where t: "find_handler (handlers ?c1) i (ev_handlers ?c1) = Some t"
    and c2: "(case t of None \<Rightarrow> Some ?c1 | Some (q, h) \<Rightarrow> drop_handler U q h ?c1) = Some c2"
    and c': "pc_mutex_unlock M_handler c2 = Some c'"
    using run by (auto simp: pc_client_rm_ev_handler_def Let_def Option.bind_eq_Some_conv)
  have inv1: "client_inv F G H ?c1"
    using inv by simp
  have "client_inv F G H c2 \<and> frame ?c1 c2"
  proof (cases t)
    case None
    then show ?thesis using c2 inv by auto
  next
    case (Some qh)
    then obtain q h where "t = Some (q, h)" by (cases qh) auto
    then show ?thesis
      using c2 drop_handler_inv [OF inv1] find_handler_Some [of "handlers ?c1" i "ev_handlers ?c1" q h] t
      by auto
  qed
  with frame_unlock c' show "client_inv F G H c' \<and> frame c c'"
    by (auto simp: unlock_Some)
qed

end

section \<open>Requests and notifies\<close>

lemma pool_upd_comp:
  assumes "pool_upd r f p = Some p1"
  shows "pool_upd r g p1 = pool_upd r (\<lambda>x. g (f x)) p"
  using assms by (cases r) (auto simp: pool_upd_def split: if_splits bind_splits)

lemma submit_request_inv:
  assumes inv: "client_inv F G H c" and cb: "cb \<noteq> None"
    and run: "submit_request rt m ex tmo cb c = Some (r, q, c')"
  shows "client_inv F G H c' \<and> frame c c' \<and> req_queue c' = req_queue c @ [r] \<and>
    pool_get (requests c') r = Some q"
proof -
  obtain p where alloc: "pool_alloc rq_ty rq_upd dyn_request (requests c) = (r, p)"
    using run by (cases "pool_alloc rq_ty rq_upd dyn_request (requests c)")
      (auto simp: submit_request_def alloc_request_def Let_def Option.bind_eq_Some_conv split: ref.splits if_splits)
  define f0 :: "pc_request \<Rightarrow> pc_request" where "f0 = (case r of Pre _ \<Rightarrow> (\<lambda>x. x) | Dyn _ \<Rightarrow> (\<lambda>x. x\<lparr>req_base := (req_base x)\<lparr>rq_client := self c\<rparr>\<rparr>))"
  define f where "f = (\<lambda>x. fill_request rt m (seq_num c) tmo ex (next_req_id (req_id_seq c)) cb (f0 x))"
  obtain p2 where p2: "pool_upd r f p = Some p2" and q: "pool_get p2 r = Some q"
    and c': "c' = note_call (Req_accepted q) (c\<lparr>requests := p2, req_queue := req_queue c @ [r],
       seq_num := seq_num c + 1, req_id_seq := next_req_id (req_id_seq c) + 1\<rparr>)"
  proof (cases r)
    case (Pre i)
    then show ?thesis
      using run alloc that
      by (auto simp: submit_request_def alloc_request_def Let_def Option.bind_eq_Some_conv put_request_def
          f_def f0_def note_call_def pc_mutex_lock_def pc_mutex_unlock_def split: if_splits)
  next
    case (Dyn n)
    then show ?thesis
      using run alloc that pool_upd_comp [of r f0 p]
      by (auto simp: submit_request_def alloc_request_def Let_def Option.bind_eq_Some_conv put_request_def
          f_def f0_def note_call_def pc_mutex_lock_def pc_mutex_unlock_def split: if_splits)
  qed
  have "rq_ty (f x) = rq_ty x" for x
    by (simp add: f_def f0_def fill_request_def fill_common_def rq_ty_def split: ref.splits)
  moreover have "queue_inv rq_ty req_base (requests c) (req_queue c) F
      (accepted_reqs (history c)) (settled_reqs (history c))"
    using inv by (simp add: client_inv_def)
  ultimately have "queue_inv rq_ty req_base p2 (req_queue c @ [r]) F
      (accepted_reqs (history c) @ [q]) (settled_reqs (history c))"
    using rq.enqueue [OF _ alloc p2] q by simp
  moreover have "req_id q \<noteq> PC_NOTIFY_PUSH_REQ_ID \<and> req_id q \<noteq> PC_INVALID_REQ_ID \<and> req_cb q \<noteq> None"
    using p2 q cb by (auto simp: pool_upd_Some pool_get_put f_def fill_request_def next_req_id_def split: if_splits)
  ultimately show ?thesis
    using inv q by (auto simp: client_inv_def c' note_call_def events_inv_def handlers_inv_def frame_def)
qed

lemma submit_notify_inv:
  assumes inv: "client_inv F G H c" and cb: "cb \<noteq> None"
    and run: "submit_notify rt m ex tmo cb c = Some (r, q, c')"
  shows "client_inv F G H c' \<and> frame c c' \<and> notify_queue c' = notify_queue c @ [r] \<and>
    pool_get (notifies c') r = Some q"
proof -
  obtain p where alloc: "pool_alloc nt_ty nt_upd dyn_notify (notifies c) = (r, p)"
    using run by (cases "pool_alloc nt_ty nt_upd dyn_notify (notifies c)")
      (auto simp: submit_notify_def alloc_notify_def Let_def Option.bind_eq_Some_conv split: ref.splits if_splits)
  define f0 :: "pc_notify \<Rightarrow> pc_notify" where "f0 = (case r of Pre _ \<Rightarrow> (\<lambda>x. x) | Dyn _ \<Rightarrow> (\<lambda>x. x\<lparr>ntf_base := (ntf_base x)\<lparr>rq_client := self c\<rparr>\<rparr>))"
  define f where "f = (\<lambda>x. fill_notify rt m (seq_num c) tmo ex cb (f0 x))"
  obtain p2 where p2: "pool_upd r f p = Some p2" and q: "pool_get p2 r = Some q"
    and c': "c' = note_call (Ntf_accepted q) (c\<lparr>notifies := p2, notify_queue := notify_queue c @ [r],
       seq_num := seq_num c + 1\<rparr>)"
  proof (cases r)
    case (Pre i)
    then show ?thesis
      using run alloc that
      by (auto simp: submit_notify_def alloc_notify_def Let_def Option.bind_eq_Some_conv put_notify_def
          f_def f0_def note_call_def pc_mutex_lock_def pc_mutex_unlock_def split: if_splits)
  next
    case (Dyn n)
    then show ?thesis
      using run alloc that pool_upd_comp [of r f0 p]
      by (auto simp: submit_notify_def alloc_notify_def Let_def Option.bind_eq_Some_conv put_notify_def
          f_def f0_def note_call_def pc_mutex_lock_def pc_mutex_unlock_def split: if_splits)
  qed
  have "nt_ty (f x) = nt_ty x" for x
    by (simp add: f_def f0_def fill_notify_def fill_common_def nt_ty_def split: ref.splits)
  moreover have "queue_inv nt_ty ntf_base (notifies c) (notify_queue c) G
      (accepted_ntfs (history c)) (settled_ntfs (history c))"
    using inv by (simp add: client_inv_def)
  ultimately have "queue_inv nt_ty ntf_base p2 (notify_queue c @ [r]) G
      (accepted_ntfs (history c) @ [q]) (settled_ntfs (history c))"
    using nt.enqueue [OF _ alloc p2] q by simp
  moreover have "ntf_cb q \<noteq> None"
    using p2 q cb by (auto simp: pool_upd_Some pool_get_put f_def fill_notify_def)
  ultimately show ?thesis
    using inv q by (auto simp: client_inv_def c' note_call_def events_inv_def handlers_inv_def frame_def)
qed


text \<open>Taking back what the transport refused: it is still the last of the queue.\<close>

lemma withdraw_request_code:
  assumes q: "pool_get (requests c) r = Some q"
  shows "withdraw_request r c =
    finish_request r (note_call (Req_withdrawn q) (c\<lparr>req_queue := remove1 r (req_queue c)\<rparr>))"
proof -
  obtain p1 where p1: "pool_put r (clear_request q) (requests c) = Some p1"
    using pool_put_Some [OF q] by blast
  have q1: "pool_get p1 r = Some (clear_request q)"
    by (simp add: pool_get_put [OF p1])
  show ?thesis
    using q p1 q1
    by (cases "PC_IS_PRE_ALLOC (rq_ty q)"; cases "pool_put r (rq_upd PC_PRE_ALLOC_SET_IDLE (clear_request q)) p1";
        cases "pool_free r p1")
      (simp_all add: withdraw_request_def finish_request_def Let_def put_request_def pool_upd_def note_call_def
        pool_release_def set_request_idle_def free_request_def pc_mutex_lock_def pc_mutex_unlock_def)
qed

lemma withdraw_request_taken:
  assumes inv: "client_inv F G H c" and r: "r \<in> set (req_queue c)" and q: "pool_get (requests c) r = Some q"
  shows "client_inv (insert r F) G H
    (note_call (Req_withdrawn q) (c\<lparr>req_queue := remove1 r (req_queue c)\<rparr>)) \<and> r \<notin> F"
proof -
  have qi: "queue_inv rq_ty req_base (requests c) (req_queue c) F
      (accepted_reqs (history c)) (settled_reqs (history c))"
    using inv by (simp add: client_inv_def)
  show ?thesis
    using rq.take_out [OF qi r q] inv
    by (simp add: client_inv_def note_call_def events_inv_def handlers_inv_def)
qed

lemma withdraw_request_inv:
  assumes inv: "client_inv F G H c" and r: "r \<in> set (req_queue c)" and run: "withdraw_request r c = Some c'"
  shows "client_inv F G H c' \<and> frame c c'"
proof -
  obtain q where q: "pool_get (requests c) r = Some q"
    using run by (auto simp: withdraw_request_def Let_def Option.bind_eq_Some_conv)
  let ?c1 = "note_call (Req_withdrawn q) (c\<lparr>req_queue := remove1 r (req_queue c)\<rparr>)"
  have inv1: "client_inv (insert r F) G H ?c1" and F: "r \<notin> F"
    using withdraw_request_taken [OF inv r q] by auto
  have fin: "finish_request r ?c1 = Some c'"
    using run by (simp add: withdraw_request_code [OF q])
  have "frame c ?c1"
    by (rule frame_note_right) simp
  with finish_request [OF inv1 F fin] show ?thesis
    using frame_trans by blast
qed

lemma withdraw_notify_code:
  assumes q: "pool_get (notifies c) r = Some q"
  shows "withdraw_notify r c =
    finish_notify r (note_call (Ntf_withdrawn q) (c\<lparr>notify_queue := remove1 r (notify_queue c)\<rparr>))"
proof -
  obtain p1 where p1: "pool_put r (clear_notify q) (notifies c) = Some p1"
    using pool_put_Some [OF q] by blast
  have q1: "pool_get p1 r = Some (clear_notify q)"
    by (simp add: pool_get_put [OF p1])
  show ?thesis
    using q p1 q1
    by (cases "PC_IS_PRE_ALLOC (nt_ty q)"; cases "pool_put r (nt_upd PC_PRE_ALLOC_SET_IDLE (clear_notify q)) p1";
        cases "pool_free r p1")
      (simp_all add: withdraw_notify_def finish_notify_def Let_def put_notify_def pool_upd_def note_call_def
        pool_release_def set_notify_idle_def free_notify_def pc_mutex_lock_def pc_mutex_unlock_def)
qed

lemma withdraw_notify_inv:
  assumes inv: "client_inv F G H c" and r: "r \<in> set (notify_queue c)" and run: "withdraw_notify r c = Some c'"
  shows "client_inv F G H c' \<and> frame c c'"
proof -
  obtain q where q: "pool_get (notifies c) r = Some q"
    using run by (auto simp: withdraw_notify_def Let_def Option.bind_eq_Some_conv)
  let ?c1 = "note_call (Ntf_withdrawn q) (c\<lparr>notify_queue := remove1 r (notify_queue c)\<rparr>)"
  have qi: "queue_inv nt_ty ntf_base (notifies c) (notify_queue c) G
      (accepted_ntfs (history c)) (settled_ntfs (history c))"
    using inv by (simp add: client_inv_def)
  have inv1: "client_inv F (insert r G) H ?c1" and G: "r \<notin> G"
    using nt.take_out [OF qi r q] inv
    by (simp_all add: client_inv_def note_call_def events_inv_def handlers_inv_def)
  have fin: "finish_notify r ?c1 = Some c'"
    using run by (simp add: withdraw_notify_code [OF q])
  have "frame c ?c1"
    by (rule frame_note_right) simp
  with finish_notify [OF inv1 G fin] show ?thesis
    using frame_trans by blast
qed

context client_world
begin

lemma keeps_request: "keeps_rc (pc_request_with_timeout T rt m ex tmo cb)"
proof
  fix F G H c x c'
  assume inv: "client_inv F G H c" and run: "pc_request_with_timeout T rt m ex tmo cb c = Some (x, c')"
  show "client_inv F G H c' \<and> frame c c'"
  proof (cases "c' = c")
    case True
    then show ?thesis using inv by simp
  next
    case False
    then have cb: "cb \<noteq> None"
      using run by (auto simp: pc_request_with_timeout_def split: if_splits)
    obtain r q c1 c2 where sub: "submit_request rt m ex tmo cb c = Some (r, q, c1)"
      and send: "t_send T (route (req_base q)) (rq_seq_num (req_base q)) (msg (req_base q)) (req_id q)
                 (timeout (req_base q)) c1 = Some (x, c2)"
      and out: "c' = c2 \<or> x \<noteq> PC_RC_OK \<and> withdraw_request r c2 = Some c'"
      using run False by (auto simp: pc_request_with_timeout_def Option.bind_eq_Some_conv split: if_splits prod.splits)
    note s = submit_request_inv [OF inv cb sub]
    have c2: "client_inv F G H c2" "frame c c2"
      using keeps_rcD [OF trans_send _ send] s frame_trans by blast+
    have "client_inv F G H c' \<and> frame c2 c'" if w: "x \<noteq> PC_RC_OK" "withdraw_request r c2 = Some c'"
    proof -
      have "r \<in> set (req_queue c2)"
        using trans_refused [OF send w(1)] s by auto
      from withdraw_request_inv [OF c2(1) this w(2)] show ?thesis .
    qed
    then show ?thesis
      using out c2 frame_trans by blast
  qed
qed

lemma keeps_notify: "keeps_rc (pc_notify_with_timeout T rt m ex tmo cb)"
proof
  fix F G H c x c'
  assume inv: "client_inv F G H c" and run: "pc_notify_with_timeout T rt m ex tmo cb c = Some (x, c')"
  show "client_inv F G H c' \<and> frame c c'"
  proof (cases "c' = c")
    case True
    then show ?thesis using inv by simp
  next
    case False
    then have cb: "cb \<noteq> None"
      using run by (auto simp: pc_notify_with_timeout_def split: if_splits)
    obtain r q c1 c2 where sub: "submit_notify rt m ex tmo cb c = Some (r, q, c1)"
      and send: "t_send T (route (ntf_base q)) (rq_seq_num (ntf_base q)) (msg (ntf_base q))
                 PC_NOTIFY_PUSH_REQ_ID (timeout (ntf_base q)) c1 = Some (x, c2)"
      and out: "c' = c2 \<or> x \<noteq> PC_RC_OK \<and> withdraw_notify r c2 = Some c'"
      using run False by (auto simp: pc_notify_with_timeout_def Option.bind_eq_Some_conv split: if_splits prod.splits)
    note s = submit_notify_inv [OF inv cb sub]
    have c2: "client_inv F G H c2" "frame c c2"
      using keeps_rcD [OF trans_send _ send] s frame_trans by blast+
    have "client_inv F G H c' \<and> frame c2 c'" if w: "x \<noteq> PC_RC_OK" "withdraw_notify r c2 = Some c'"
    proof -
      have "r \<in> set (notify_queue c2)"
        using trans_refused [OF send w(1)] s by auto
      from withdraw_notify_inv [OF c2(1) this w(2)] show ?thesis .
    qed
    then show ?thesis
      using out c2 frame_trans by blast
  qed
qed

lemma keeps_connect: "keeps_rc (pc_client_connect U T host port opts)"
proof
  fix F G H c x c'
  assume inv: "client_inv F G H c" and run: "pc_client_connect U T host port opts c = Some (x, c')"
  show "client_inv F G H c' \<and> frame c c'"
  proof (cases "c' = c")
    case True
    then show ?thesis using inv by simp
  next
    case False
    then obtain h c1 where host: "host = Some h" and c1: "poll_if_enabled U c = Some c1"
      using run by (auto simp: pc_client_connect_def Option.bind_eq_Some_conv split: if_splits option.splits)
    have i1: "client_inv F G H c1" "frame c c1"
      using keepsD [OF keeps_poll_if inv c1] by auto
    show ?thesis
    proof (cases "pc_client_state c1 = PC_ST_INITED")
      case True
      then obtain c3 where c3: "t_connect T h port opts (c1\<lparr>state := PC_ST_CONNECTING\<rparr>) = Some (x, c3)"
        and c': "c' = c3 \<or> c' = c3\<lparr>state := PC_ST_INITED\<rparr>"
        using run host c1 False
        by (auto simp: pc_client_connect_def set_state_code Option.bind_eq_Some_conv split: if_splits)
      have "client_inv F G H c3 \<and> frame (c1\<lparr>state := PC_ST_CONNECTING\<rparr>) c3"
        using keeps_rcD [OF trans_connect _ c3] i1(1) by simp
      then show ?thesis
        using c' i1(2) frame_trans by fastforce
    next
      case other: False
      then have "c' = c1"
        using run host c1 False
        by (auto simp: pc_client_connect_def split: if_splits pc_state.splits)
      then show ?thesis using i1 by simp
    qed
  qed
qed

lemma keeps_disconnect: "keeps_rc (pc_client_disconnect U T)"
proof
  fix F G H c x c'
  assume inv: "client_inv F G H c" and run: "pc_client_disconnect U T c = Some (x, c')"
  then obtain c1 where c1: "poll_if_enabled U c = Some c1"
    by (auto simp: pc_client_disconnect_def Option.bind_eq_Some_conv)
  have i1: "client_inv F G H c1" "frame c c1"
    using keepsD [OF keeps_poll_if inv c1] by auto
  show "client_inv F G H c' \<and> frame c c'"
  proof (cases "pc_client_state c1 = PC_ST_CONNECTING \<or> pc_client_state c1 = PC_ST_CONNECTED")
    case True
    then obtain c3 st where c3: "t_disconnect T (c1\<lparr>state := PC_ST_DISCONNECTING\<rparr>) = Some (x, c3)"
      and c': "c' = c3 \<or> c' = c3\<lparr>state := st\<rparr>"
      using run c1
      by (auto simp: pc_client_disconnect_def set_state_code Let_def Option.bind_eq_Some_conv split: if_splits)
    have "client_inv F G H c3 \<and> frame (c1\<lparr>state := PC_ST_DISCONNECTING\<rparr>) c3"
      using keeps_rcD [OF trans_disconnect _ c3] i1(1) by simp
    then show ?thesis
      using c' i1(2) frame_trans by fastforce
  next
    case False
    then have "c' = c1"
      using run c1 by (auto simp: pc_client_disconnect_def Let_def split: if_splits)
    then show ?thesis using i1 by simp
  qed
qed

end

end
