(* ===== verification/Script.thy ===== *)
theory Script
  imports ApiInv
begin

text \<open>
  The dummy transport of \<open>src/tr/dummy/tr_dummy.c\<close>, and sessions: lists of calls of the entry
  points, whose callbacks are scripts of further calls, to any depth of nesting. Sessions over
  the dummy transport interpret the contract of \<open>ApiInv\<close>, so the invariant holds after every
  session with reentrant callbacks.
\<close>

section \<open>The dummy transport\<close>

record dummy_transport =
  d_client :: nat

definition TR_DUMMY_RESP :: string where
  "TR_DUMMY_RESP = ''{'' @ [CHR 0x22] @ ''msg'' @ [CHR 0x22] @ '': '' @ [CHR 0x22] @ ''dummy msg'' @ [CHR 0x22]"

definition dummy_init :: "dummy_transport pc_client \<Rightarrow> (int \<times> dummy_transport pc_client) option" where
  "dummy_init c = do { d \<leftarrow> tran c; Some (PC_RC_OK, c\<lparr>tran := Some (d\<lparr>d_client := self c\<rparr>)\<rparr>) }"

definition dummy_connect :: "dummy_transport user \<Rightarrow> string \<Rightarrow> int \<Rightarrow> string option \<Rightarrow>
    dummy_transport pc_client \<Rightarrow> (int \<times> dummy_transport pc_client) option" where
  "dummy_connect U host port handshake_opt c =
     do { assert_c (tran c \<noteq> None);
          c1 \<leftarrow> pc_trans_fire_event U PC_EV_CONNECTED None None c;
          Some (PC_RC_OK, c1) }"

definition dummy_send :: "dummy_transport user \<Rightarrow> string option \<Rightarrow> u32 \<Rightarrow> string option \<Rightarrow> u32 \<Rightarrow> int \<Rightarrow>
    dummy_transport pc_client \<Rightarrow> (int \<times> dummy_transport pc_client) option" where
  "dummy_send U rt seq m rid tmo c =
     do { assert_c (tran c \<noteq> None);
          c1 \<leftarrow> (if rid = PC_NOTIFY_PUSH_REQ_ID then pc_trans_sent U seq PC_RC_OK c
                else pc_trans_resp U rid PC_RC_OK (Some TR_DUMMY_RESP) c);
          Some (PC_RC_OK, c1) }"

definition dummy_disconnect :: "dummy_transport user \<Rightarrow> dummy_transport pc_client \<Rightarrow>
    (int \<times> dummy_transport pc_client) option" where
  "dummy_disconnect U c =
     do { assert_c (tran c \<noteq> None);
          c1 \<leftarrow> pc_trans_fire_event U PC_EV_DISCONNECT None None c;
          Some (PC_RC_OK, c1) }"

definition dummy_cleanup :: "dummy_transport pc_client \<Rightarrow> (int \<times> dummy_transport pc_client) option" where
  "dummy_cleanup c = Some (PC_RC_OK, c)"

definition dummy_internal_data :: "dummy_transport pc_client \<Rightarrow> nat option" where
  "dummy_internal_data c = None"

definition dummy_conn_quality :: "dummy_transport pc_client \<Rightarrow> int" where
  "dummy_conn_quality c = 0"

definition dummy_trans_create :: "dummy_transport option" where
  "dummy_trans_create = Some \<lparr>d_client = 0\<rparr>"

definition dummy_ops :: "dummy_transport user \<Rightarrow> dummy_transport trans_ops" where
  "dummy_ops U = \<lparr>t_connect = dummy_connect U, t_send = dummy_send U, t_disconnect = dummy_disconnect U,
     t_cleanup = dummy_cleanup, t_internal_data = Some dummy_internal_data,
     t_quality = Some dummy_conn_quality\<rparr>"

definition dummy_plugin_impl :: "dummy_transport plugin_impl" where
  "dummy_plugin_impl = \<lparr>transport_create = dummy_trans_create, transport_init = dummy_init\<rparr>"

section \<open>Sessions\<close>

datatype api_call =
    A_connect "string option" int "string option"
  | A_disconnect
  | A_poll
  | A_add_handler "nat option" nat "nat option"
  | A_rm_handler int
  | A_request "string option" "string option" nat int "nat option"
  | A_notify "string option" "string option" nat int "nat option"

definition drop_rc :: "(int \<times> 't pc_client) option \<Rightarrow> 't pc_client option" where
  "drop_rc r = map_option snd r"

fun do_call :: "'t user \<Rightarrow> 't trans_ops \<Rightarrow> api_call \<Rightarrow> 't pc_client \<Rightarrow> 't pc_client option" where
  "do_call U T (A_connect h p opts) c = drop_rc (pc_client_connect U T h p opts c)"
| "do_call U T A_disconnect c = drop_rc (pc_client_disconnect U T c)"
| "do_call U T A_poll c = drop_rc (pc_client_poll U c)"
| "do_call U T (A_add_handler cb x d) c = drop_rc (pc_client_add_ev_handler cb x d c)"
| "do_call U T (A_rm_handler i) c = drop_rc (pc_client_rm_ev_handler U i c)"
| "do_call U T (A_request rt m x tmo cb) c = drop_rc (pc_request_with_timeout T rt m x tmo cb c)"
| "do_call U T (A_notify rt m x tmo cb) c = drop_rc (pc_notify_with_timeout T rt m x tmo cb c)"

fun do_calls :: "'t user \<Rightarrow> 't trans_ops \<Rightarrow> api_call list \<Rightarrow> 't pc_client \<Rightarrow> 't pc_client option" where
  "do_calls U T [] c = Some c"
| "do_calls U T (a # as) c = do { c1 \<leftarrow> do_call U T a c; do_calls U T as c1 }"

text \<open>Callback number \<open>cb\<close> runs the calls \<open>S cb\<close>, whose own callbacks nest one level less deep.\<close>

fun script_user :: "('t user \<Rightarrow> 't trans_ops) \<Rightarrow> (nat \<Rightarrow> api_call list) \<Rightarrow> nat \<Rightarrow> 't user" where
  "script_user B S 0 = \<lparr>u_req = (\<lambda>_ _ _ _. Some), u_ntf = (\<lambda>_ _ _. Some), u_ev = (\<lambda>_ _ _ _ _. Some),
     u_destroy = (\<lambda>_ _. Some)\<rparr>"
| "script_user B S (Suc n) =
     (let U = script_user B S n; run = (\<lambda>cb. do_calls U (B U) (S cb))
      in \<lparr>u_req = (\<lambda>cb _ _ _. run cb), u_ntf = (\<lambda>cb _ _. run cb), u_ev = (\<lambda>cb _ _ _ _. run cb),
          u_destroy = (\<lambda>d _. run d)\<rparr>)"

section \<open>The contract holds\<close>

lemma keeps_drop_rc: "keeps_rc f \<Longrightarrow> keeps (\<lambda>c. drop_rc (f c))"
  unfolding keeps_rc_def keeps_def drop_rc_def by fastforce

context client_world
begin

lemma keeps_do_call: "keeps (do_call U T a)"
proof -
  have "do_call U T a = (\<lambda>c. drop_rc ((case a of
      A_connect h p opts \<Rightarrow> pc_client_connect U T h p opts
    | A_disconnect \<Rightarrow> pc_client_disconnect U T
    | A_poll \<Rightarrow> \<lambda>c. pc_client_poll U c
    | A_add_handler cb x d \<Rightarrow> (\<lambda>c. pc_client_add_ev_handler cb x d c)
    | A_rm_handler i \<Rightarrow> pc_client_rm_ev_handler U i
    | A_request rt m x tmo cb \<Rightarrow> pc_request_with_timeout T rt m x tmo cb
    | A_notify rt m x tmo cb \<Rightarrow> pc_notify_with_timeout T rt m x tmo cb) c))"
    by (rule ext) (cases a; simp)
  moreover have "keeps_rc (case a of
      A_connect h p opts \<Rightarrow> pc_client_connect U T h p opts
    | A_disconnect \<Rightarrow> pc_client_disconnect U T
    | A_poll \<Rightarrow> \<lambda>c. pc_client_poll U c
    | A_add_handler cb x d \<Rightarrow> (\<lambda>c. pc_client_add_ev_handler cb x d c)
    | A_rm_handler i \<Rightarrow> pc_client_rm_ev_handler U i
    | A_request rt m x tmo cb \<Rightarrow> pc_request_with_timeout T rt m x tmo cb
    | A_notify rt m x tmo cb \<Rightarrow> pc_notify_with_timeout T rt m x tmo cb)"
    using keeps_connect keeps_disconnect keeps_poll keeps_add_handler keeps_rm_handler keeps_request
      keeps_notify by (cases a) simp_all
  ultimately show ?thesis
    using keeps_drop_rc by metis
qed

lemma keeps_do_calls: "keeps (do_calls U T as)"
proof (induction as)
  case Nil
  have "do_calls U T [] = Some" by (rule ext) simp
  then show ?case by simp
next
  case (Cons a as)
  have "do_calls U T (a # as) = (\<lambda>c. Option.bind (do_call U T a c) (do_calls U T as))"
    by (rule ext) simp
  then show ?case
    using keeps_bind [OF keeps_do_call Cons] by metis
qed

end

lemma keeps_rc_OK:
  assumes "keeps f"
  shows "keeps_rc (\<lambda>c. do { assert_c (tran c \<noteq> None); c1 \<leftarrow> f c; Some (PC_RC_OK, c1) })"
  using assms unfolding keeps_rc_def keeps_def by (auto simp: Option.bind_eq_Some_conv split: if_splits)

lemma dummy_world:
  assumes "client_user U"
  shows "client_world U (dummy_ops U)"
proof -
  note k = client_user.keeps_trans_resp [OF assms] client_user.keeps_trans_sent [OF assms]
    client_user.keeps_trans_fire_event [OF assms]
  have "keeps (\<lambda>c. if rid = PC_NOTIFY_PUSH_REQ_ID then pc_trans_sent U seq PC_RC_OK c
                else pc_trans_resp U rid PC_RC_OK (Some TR_DUMMY_RESP) c)" for rid seq
    by (rule keeps_if) (rule k)+
  from keeps_rc_OK [OF this] have "keeps_rc (t_send (dummy_ops U) rt seq m rid tmo)" for rt seq m rid tmo
    by (simp only: dummy_ops_def trans_ops.simps dummy_send_def [abs_def])
  moreover have "keeps_rc (t_connect (dummy_ops U) h p opts)" "keeps_rc (t_disconnect (dummy_ops U))" for h p opts
    using keeps_rc_OK [OF k(3)] by (simp_all add: dummy_ops_def dummy_connect_def [abs_def] dummy_disconnect_def [abs_def])
  moreover have "rc = PC_RC_OK" if "t_send (dummy_ops U) rt seq m rid tmo c = Some (rc, c')" for rt seq m rid tmo c rc c'
    using that by (auto simp: dummy_ops_def dummy_send_def Option.bind_eq_Some_conv split: if_splits)
  ultimately show ?thesis
    using assms by (simp add: client_world_def client_world_axioms_def)
qed

lemma script_user_ok:
  assumes world: "\<And>U. client_user U \<Longrightarrow> client_world U (B U)"
  shows "client_user (script_user B S n)"
proof (induction n)
  case 0
  show ?case by unfold_locales simp_all
next
  case (Suc n)
  note calls = client_world.keeps_do_calls [OF world [OF Suc]]
  show ?case
    by unfold_locales (simp_all add: Let_def calls)
qed

interpretation scripted: client_world "script_user dummy_ops S n" "dummy_ops (script_user dummy_ops S n)" for S n
  using dummy_world script_user_ok by blast

end
