(* ===== verification/ClientRel.thy ===== *)
theory ClientRel
  imports Script
begin

text \<open>
  Relations between the client before and after an operation that depend on its transport, its
  history, its configuration and its pending events only. A client operation changes the
  transport through the user's callbacks and the transport's operations and nowhere else, so a
  reflexive and transitive relation that these keep is kept by every entry point. \<open>client_core\<close>
  states what such a relation is; the TCP transport interprets it.
\<close>

definition related :: "('k \<Rightarrow> 'k \<Rightarrow> bool) \<Rightarrow> ('c \<Rightarrow> 'k) \<Rightarrow> ('c \<Rightarrow> 'c option) \<Rightarrow> bool" where
  "related R core f \<longleftrightarrow> (\<forall>c c'. f c = Some c' \<longrightarrow> R (core c) (core c'))"

definition related_rc :: "('k \<Rightarrow> 'k \<Rightarrow> bool) \<Rightarrow> ('c \<Rightarrow> 'k) \<Rightarrow> ('c \<Rightarrow> ('b \<times> 'c) option) \<Rightarrow> bool" where
  "related_rc R core f \<longleftrightarrow> (\<forall>c x c'. f c = Some (x, c') \<longrightarrow> R (core c) (core c'))"

lemma relatedI [intro?]: "(\<And>c c'. f c = Some c' \<Longrightarrow> R (core c) (core c')) \<Longrightarrow> related R core f"
  by (simp add: related_def)

lemma relatedD: "related R core f \<Longrightarrow> f c = Some c' \<Longrightarrow> R (core c) (core c')"
  by (simp add: related_def)

lemma related_rcI [intro?]: "(\<And>c x c'. f c = Some (x, c') \<Longrightarrow> R (core c) (core c')) \<Longrightarrow> related_rc R core f"
  by (simp add: related_rc_def)

lemma related_rcD: "related_rc R core f \<Longrightarrow> f c = Some (x, c') \<Longrightarrow> R (core c) (core c')"
  unfolding related_rc_def by blast

definition accepts :: "call \<Rightarrow> bool" where
  "accepts e = (case e of Req_accepted _ \<Rightarrow> True | Ntf_accepted _ \<Rightarrow> True | _ \<Rightarrow> False)"

lemma accepts_simps [simp]:
  "accepts (Req_accepted r)" "accepts (Ntf_accepted n)" "\<not> accepts (Req_answered r rc resp)"
  "\<not> accepts (Req_withdrawn r)" "\<not> accepts (Ntf_answered n rc)" "\<not> accepts (Ntf_withdrawn n)"
  "\<not> accepts (Ev_handled i t a1 a2)" "\<not> accepts (Destroyed i)"
  by (simp_all add: accepts_def)

locale client_core =
  fixes core :: "'t pc_client \<Rightarrow> 'k" and R :: "'k \<Rightarrow> 'k \<Rightarrow> bool"
  assumes core_cong: "tran c' = tran c \<Longrightarrow> history c' = history c \<Longrightarrow> config c' = config c \<Longrightarrow>
      pending_events c' = pending_events c \<Longrightarrow> pending_ev_queue c' = pending_ev_queue c \<Longrightarrow>
      is_in_poll c' = is_in_poll c \<Longrightarrow> core c' = core c"
    and R_refl: "R k k"
    and R_trans: "R a b \<Longrightarrow> R b d \<Longrightarrow> R a d"
    and R_note: "\<not> accepts e \<Longrightarrow> R (core c) (core (note_call e c))"
begin

lemma core_fields:
  "core (c\<lparr>state := st\<rparr>) = core c" "core (c\<lparr>locks := l\<rparr>) = core c" "core (c\<lparr>requests := p\<rparr>) = core c"
  "core (c\<lparr>notifies := n\<rparr>) = core c" "core (c\<lparr>req_queue := q\<rparr>) = core c" "core (c\<lparr>notify_queue := q\<rparr>) = core c"
  "core (c\<lparr>ev_handlers := hs\<rparr>) = core c" "core (c\<lparr>handlers := h\<rparr>) = core c"
  "core (pc_mutex_lock m c) = core c"
  by (rule core_cong; simp add: pc_mutex_lock_def)+

lemma core_unlock: "pc_mutex_unlock m c = Some c' \<Longrightarrow> core c' = core c"
  by (auto simp: unlock_Some intro: core_cong)

lemma core_note_fields:
  assumes "core c' = core c" and "tran c' = tran c" "history c' = history c" "config c' = config c"
    "pending_events c' = pending_events c" "pending_ev_queue c' = pending_ev_queue c" "is_in_poll c' = is_in_poll c"
  shows "core (note_call e c') = core (note_call e c)"
  by (rule core_cong) (simp_all add: assms note_call_def)

lemma core_finish:
  "finish_request r c = Some c' \<Longrightarrow> core c' = core c" "finish_notify r c = Some c' \<Longrightarrow> core c' = core c"
  by (auto simp: finish_request_def finish_notify_def Option.bind_eq_Some_conv core_fields)

lemma rel_set_state: "related R core (set_state st)"
  by (rule relatedI) (auto simp: set_state_code core_fields R_refl)

end

locale client_rel = client_core core R for core :: "'t pc_client \<Rightarrow> 'k" and R +
  fixes U :: "'t user"
  assumes rel_req: "related R core (u_req U cb q rc resp)"
    and rel_ntf: "related R core (u_ntf U cb n rc)"
    and rel_ev: "related R core (u_ev U cb t x a1 a2)"
    and rel_destroy: "related R core (u_destroy U d x)"
begin

text \<open>A response finds no request, or answers one: what follows is the callback's doing.\<close>

lemma resp_cases:
  assumes run: "pc__trans_resp U rid rc resp c = Some c'"
  obtains "c' = c" "queue_find (pool_get (requests c)) (\<lambda>r. req_id r = rid) (req_queue c) = Some None"
  | q where "req_id q = rid" "R (core (note_call (Req_answered q rc resp) c)) (core c')"
proof -
  let ?find = "queue_find (pool_get (requests c)) (\<lambda>r. req_id r = rid) (req_queue c)"
  obtain t where t: "?find = Some t"
    using run by (auto simp: pc__trans_resp_def Let_def split: bind_splits)
  show thesis
  proof (cases t)
    case None
    then show ?thesis
      using run t that(1) by (simp add: pc__trans_resp_def Let_def)
  next
    case (Some r)
    then obtain q where q: "pool_get (requests c) r = Some q" "req_id q = rid"
      using t queue_find_Some by blast
    let ?c2 = "c\<lparr>req_queue := remove1 r (req_queue c)\<rparr>"
    obtain cb c3 where c3: "u_req U cb q rc resp (note_call (Req_answered q rc resp) ?c2) = Some c3"
      and fin: "finish_request r c3 = Some c'"
      using run t Some q(1)
      by (auto simp: pc__trans_resp_def Let_def finish_request_code Option.bind_eq_Some_conv split: if_splits)
    have "core (note_call (Req_answered q rc resp) ?c2) = core (note_call (Req_answered q rc resp) c)"
      by (rule core_note_fields) (simp_all add: core_fields)
    with relatedD [OF rel_req c3] that(2) [OF q(2)] show ?thesis
      by (simp add: core_finish(1) [OF fin])
  qed
qed

lemma sent_cases:
  assumes run: "pc__trans_sent U seq rc c = Some c'"
  obtains "c' = c" "queue_find (pool_get (notifies c)) (\<lambda>n. rq_seq_num (ntf_base n) = seq) (notify_queue c) = Some None"
  | n where "rq_seq_num (ntf_base n) = seq" "R (core (note_call (Ntf_answered n rc) c)) (core c')"
proof -
  let ?find = "queue_find (pool_get (notifies c)) (\<lambda>n. rq_seq_num (ntf_base n) = seq) (notify_queue c)"
  obtain t where t: "?find = Some t"
    using run by (auto simp: pc__trans_sent_def Let_def split: bind_splits)
  show thesis
  proof (cases t)
    case None
    then show ?thesis
      using run t that(1) by (simp add: pc__trans_sent_def Let_def)
  next
    case (Some r)
    then obtain n where n: "pool_get (notifies c) r = Some n" "rq_seq_num (ntf_base n) = seq"
      using t queue_find_Some by blast
    let ?c2 = "c\<lparr>notify_queue := remove1 r (notify_queue c)\<rparr>"
    obtain cb c3 where c3: "u_ntf U cb n rc (note_call (Ntf_answered n rc) ?c2) = Some c3"
      and fin: "finish_notify r c3 = Some c'"
      using run t Some n(1)
      by (auto simp: pc__trans_sent_def Let_def finish_notify_code Option.bind_eq_Some_conv split: if_splits)
    have "core (note_call (Ntf_answered n rc) ?c2) = core (note_call (Ntf_answered n rc) c)"
      by (rule core_note_fields) (simp_all add: core_fields)
    with relatedD [OF rel_ntf c3] that(2) [OF n(2)] show ?thesis
      by (simp add: core_finish(2) [OF fin])
  qed
qed

lemma rel_resp: "related R core (pc__trans_resp U rid rc resp)"
  by (rule relatedI, erule resp_cases) (simp add: R_refl, rule R_trans [OF R_note], simp_all)

lemma rel_sent: "related R core (pc__trans_sent U seq rc)"
  by (rule relatedI, erule sent_cases) (simp add: R_refl, rule R_trans [OF R_note], simp_all)

lemma rel_call_handler: "related R core (call_handler U t a1 a2 q)"
proof
  fix c c'
  assume "call_handler U t a1 a2 q c = Some c'"
  then obtain h cb where "handlers c q = Some h" "h_cb h = Some cb" and
    call: "u_ev U cb t (h_ex_data h) a1 a2 (note_call (Ev_handled (handler_id h) t a1 a2) c) = Some c'"
    by (auto simp: call_handler_def Option.bind_eq_Some_conv)
  from R_trans [OF R_note relatedD [OF rel_ev call]] show "R (core c) (core c')"
    by simp
qed

lemma rel_fire_handlers: "related R core (fire_handlers U t a1 a2 cur)"
proof
  fix c c'
  have "fire_handlers V s b1 b2 cur c = Some c' \<Longrightarrow> V = U \<and> s = t \<and> b1 = a1 \<and> b2 = a2 \<Longrightarrow>
      R (core c) (core c')" for V s b1 b2 cur c c'
  proof (induction V s b1 b2 cur c c' rule: fire_handlers.raw_induct [rotated, consumes 1])
    case (1 rec V s b1 b2 cur c c')
    show ?case
    proof (cases cur)
      case None
      then show ?thesis using 1 by (simp add: R_refl)
    next
      case (Some q)
      then obtain c1 where c1: "call_handler U t a1 a2 q c = Some c1"
        and rest: "rec V s b1 b2 (next_in q (ev_handlers c1)) c1 = Some c'"
        using 1(2,3) by (auto simp: Option.bind_eq_Some_conv split: if_splits)
      show ?thesis
        by (rule R_trans [OF relatedD [OF rel_call_handler c1] 1(1) [OF rest 1(3)]])
    qed
  qed
  then show "fire_handlers U t a1 a2 cur c = Some c' \<Longrightarrow> R (core c) (core c')" by blast
qed

lemma rel_fire_event: "related R core (pc__trans_fire_event U t a1 a2)"
proof
  fix c c'
  assume run: "pc__trans_fire_event U t a1 a2 c = Some c'"
  show "R (core c) (core c')"
  proof (cases "net_event_ok t a1 a2")
    case True
    then obtain st c4 where
      c4: "fire_handlers U t a1 a2 (first_in (ev_handlers c)) (pc_mutex_lock M_handler (c\<lparr>state := st\<rparr>)) = Some c4"
      and out: "pc_mutex_unlock M_handler c4 = Some c'"
      using run by (auto simp: pc__trans_fire_event_def Let_def Option.bind_eq_Some_conv split: if_splits)
    from relatedD [OF rel_fire_handlers c4] show ?thesis
      by (simp add: core_fields core_unlock [OF out])
  next
    case False
    then show ?thesis
      using run by (simp add: pc__trans_fire_event_def R_refl)
  qed
qed

lemma rel_drop_handler: "related R core (drop_handler U q h)"
proof
  fix c c'
  assume run: "drop_handler U q h c = Some c'"
  let ?c1 = "c\<lparr>ev_handlers := remove1 q (ev_handlers c)\<rparr>"
  obtain c2 where c2: "(case h_destructor h of None \<Rightarrow> Some ?c1
      | Some d \<Rightarrow> u_destroy U d (h_ex_data h) (note_call (Destroyed (handler_id h)) ?c1)) = Some c2"
    and c': "c' = c2\<lparr>handlers := (handlers c2)(q := None)\<rparr>"
    using run by (auto simp: drop_handler_def Let_def Option.bind_eq_Some_conv split: if_splits)
  have "R (core ?c1) (core c2)"
  proof (cases "h_destructor h")
    case (Some d)
    then have "u_destroy U d (h_ex_data h) (note_call (Destroyed (handler_id h)) ?c1) = Some c2"
      using c2 by simp
    from R_trans [OF R_note relatedD [OF rel_destroy this]] show ?thesis by simp
  qed (use c2 R_refl in simp)
  then show "R (core c) (core c')"
    by (simp add: c' core_fields)
qed

lemma rel_rm_handler: "related_rc R core (pc_client_rm_ev_handler U i)"
proof
  fix c x c'
  assume run: "pc_client_rm_ev_handler U i c = Some (x, c')"
  let ?c1 = "pc_mutex_lock M_handler c"
  obtain t c2 where c2: "(case t of None \<Rightarrow> Some ?c1 | Some (q, h) \<Rightarrow> drop_handler U q h ?c1) = Some c2"
    and c': "pc_mutex_unlock M_handler c2 = Some c'"
    using run by (auto simp: pc_client_rm_ev_handler_def Let_def Option.bind_eq_Some_conv)
  have "R (core ?c1) (core c2)"
    using c2 R_refl relatedD [OF rel_drop_handler] by (auto split: option.splits)
  then show "R (core c) (core c')"
    by (simp add: core_fields core_unlock [OF c'])
qed

lemma rel_add_handler: "related_rc R core (pc_client_add_ev_handler cb x d)"
proof
  fix c c' :: "'t pc_client" and i
  assume "pc_client_add_ev_handler cb x d c = Some (i, c')"
  then have "core c' = core c"
    by (auto simp: pc_client_add_ev_handler_def Let_def unlock_Some pc_mutex_lock_def Option.bind_eq_Some_conv
        split: if_splits intro!: core_cong)
  then show "R (core c) (core c')"
    by (simp add: R_refl)
qed

end

section \<open>The entry points\<close>

lemma submit_request_core:
  assumes "submit_request rt m ex tmo cb c = Some (r, q, c')"
  shows "\<exists>d. c' = note_call (Req_accepted q) d \<and> tran d = tran c \<and> history d = history c \<and> config d = config c \<and>
     pending_events d = pending_events c \<and> pending_ev_queue d = pending_ev_queue c \<and>
     is_in_poll d = is_in_poll c \<and> pool_get (requests c') r = Some q \<and> req_id q \<noteq> PC_NOTIFY_PUSH_REQ_ID"
proof -
  obtain c2 c4 where c2: "alloc_request (pc_mutex_lock M_req c) = Some (r, c2)"
    and c4: "put_request r (fill_request rt m (seq_num c2) tmo ex (next_req_id (req_id_seq c2)) cb)
       (c2\<lparr>req_queue := req_queue c2 @ [r]\<rparr>) = Some c4"
    and q: "pool_get (requests c4) r = Some q"
    and c': "pc_mutex_unlock M_req (note_call (Req_accepted q)
       (c4\<lparr>seq_num := seq_num c4 + 1, req_id_seq := next_req_id (req_id_seq c2) + 1\<rparr>)) = Some c'"
    using assms by (auto simp: submit_request_def Let_def Option.bind_eq_Some_conv)
  have "\<exists>p. c2 = (pc_mutex_lock M_req c)\<lparr>requests := p\<rparr>"
    using c2 by (auto simp: alloc_request_def Option.bind_eq_Some_conv split: prod.splits ref.splits if_splits)
  moreover have "\<exists>p. c4 = (c2\<lparr>req_queue := req_queue c2 @ [r]\<rparr>)\<lparr>requests := p\<rparr>"
    using c4 by (auto simp: put_request_def Option.bind_eq_Some_conv)
  moreover have "req_id q \<noteq> PC_NOTIFY_PUSH_REQ_ID"
    using c4 q by (auto simp: put_request_def Option.bind_eq_Some_conv pool_upd_Some pool_get_put
        fill_request_def next_req_id_def split: if_splits)
  moreover have "c' = note_call (Req_accepted q) (c4\<lparr>seq_num := seq_num c4 + 1,
      req_id_seq := next_req_id (req_id_seq c2) + 1, locks := (locks c4)(M_req := locks c4 M_req - 1)\<rparr>)"
    using c' by (auto simp: unlock_Some note_call_def)
  ultimately show ?thesis
    using q by (auto simp: pc_mutex_lock_def note_call_def
        intro!: exI [of _ "c4\<lparr>seq_num := seq_num c4 + 1,
      req_id_seq := next_req_id (req_id_seq c2) + 1, locks := (locks c4)(M_req := locks c4 M_req - 1)\<rparr>"])
qed

lemma submit_notify_core:
  assumes "submit_notify rt m ex tmo cb c = Some (r, n, c')"
  shows "\<exists>d. c' = note_call (Ntf_accepted n) d \<and> tran d = tran c \<and> history d = history c \<and> config d = config c \<and>
     pending_events d = pending_events c \<and> pending_ev_queue d = pending_ev_queue c \<and>
     is_in_poll d = is_in_poll c \<and> pool_get (notifies c') r = Some n"
proof -
  obtain c2 c4 where c2: "alloc_notify (pc_mutex_lock M_req c) = Some (r, c2)"
    and c4: "put_notify r (fill_notify rt m (seq_num c2) tmo ex cb)
       (c2\<lparr>notify_queue := notify_queue c2 @ [r]\<rparr>) = Some c4"
    and q: "pool_get (notifies c4) r = Some n"
    and c': "pc_mutex_unlock M_req (note_call (Ntf_accepted n) (c4\<lparr>seq_num := seq_num c4 + 1\<rparr>)) = Some c'"
    using assms by (auto simp: submit_notify_def Let_def Option.bind_eq_Some_conv)
  have "\<exists>p. c2 = (pc_mutex_lock M_req c)\<lparr>notifies := p\<rparr>"
    using c2 by (auto simp: alloc_notify_def Option.bind_eq_Some_conv split: prod.splits ref.splits if_splits)
  moreover have "\<exists>p. c4 = (c2\<lparr>notify_queue := notify_queue c2 @ [r]\<rparr>)\<lparr>notifies := p\<rparr>"
    using c4 by (auto simp: put_notify_def Option.bind_eq_Some_conv)
  moreover have "c' = note_call (Ntf_accepted n) (c4\<lparr>seq_num := seq_num c4 + 1,
      locks := (locks c4)(M_req := locks c4 M_req - 1)\<rparr>)"
    using c' by (auto simp: unlock_Some note_call_def)
  ultimately show ?thesis
    using q by (auto simp: pc_mutex_lock_def note_call_def
        intro!: exI [of _ "c4\<lparr>seq_num := seq_num c4 + 1, locks := (locks c4)(M_req := locks c4 M_req - 1)\<rparr>"])
qed

text \<open>
  The transport's side: a request that is accepted is related across the send, one that is
  refused is related once it is withdrawn.
\<close>

locale client_rel_world = client_rel core R U for core :: "'t pc_client \<Rightarrow> 'k" and R and U +
  fixes T :: "'t trans_ops"
  assumes rel_connect: "related_rc R core (t_connect T h port opts)"
    and rel_disconnect: "related_rc R core (t_disconnect T)"
    and rel_refused: "t_send T rt seq m rid tmo c = Some (rc, c') \<Longrightarrow> rc \<noteq> PC_RC_OK \<Longrightarrow> c' = c"
    and rel_send: "req_id q \<noteq> PC_NOTIFY_PUSH_REQ_ID \<Longrightarrow>
      t_send T rt seq m (req_id q) tmo (note_call (Req_accepted q) c) = Some (PC_RC_OK, c') \<Longrightarrow>
      R (core c) (core c')"
    and rel_send_ntf: "t_send T rt (rq_seq_num (ntf_base n)) m PC_NOTIFY_PUSH_REQ_ID tmo
      (note_call (Ntf_accepted n) c) = Some (PC_RC_OK, c') \<Longrightarrow> R (core c) (core c')"
    and rel_withdrawn: "req_id q' = req_id q \<Longrightarrow>
      R (core c) (core (note_call (Req_withdrawn q') (note_call (Req_accepted q) c)))"
    and rel_withdrawn_ntf: "rq_seq_num (ntf_base n') = rq_seq_num (ntf_base n) \<Longrightarrow>
      R (core c) (core (note_call (Ntf_withdrawn n') (note_call (Ntf_accepted n) c)))"
    and rel_poll: "related_rc R core (pc_client_poll U)"
begin

lemma rel_poll_if: "related R core (poll_if_enabled U)"
  using related_rcD [OF rel_poll] R_refl
  by (auto simp: poll_if_enabled_def Option.bind_eq_Some_conv intro!: relatedI split: if_splits prod.splits)

lemma rel_request: "related_rc R core (pc_request_with_timeout T rt m ex tmo cb)"
proof
  fix c c' :: "'t pc_client" and x
  assume run: "pc_request_with_timeout T rt m ex tmo cb c = Some (x, c')"
  show "R (core c) (core c')"
  proof (cases "c' = c")
    case True
    then show ?thesis by (simp add: R_refl)
  next
    case False
    then obtain r q c1 c2 where sub: "submit_request rt m ex tmo cb c = Some (r, q, c1)"
      and send: "t_send T (route (req_base q)) (rq_seq_num (req_base q)) (msg (req_base q)) (req_id q)
                 (timeout (req_base q)) c1 = Some (x, c2)"
      and out: "x = PC_RC_OK \<and> c' = c2 \<or> x \<noteq> PC_RC_OK \<and> withdraw_request r c2 = Some c'"
      using run by (auto simp: pc_request_with_timeout_def Option.bind_eq_Some_conv split: if_splits prod.splits)
    obtain d where c1: "c1 = note_call (Req_accepted q) d" and d: "core d = core c"
      and q: "pool_get (requests c1) r = Some q" and id: "req_id q \<noteq> PC_NOTIFY_PUSH_REQ_ID"
      using submit_request_core [OF sub] by (auto intro: core_cong)
    show ?thesis
    proof (cases "x = PC_RC_OK")
      case True
      then show ?thesis
        using rel_send [OF id send [unfolded c1, unfolded True]] d out by simp
    next
      case x: False
      have c2: "c2 = c1" by (rule rel_refused [OF send x])
      then have "finish_request r (note_call (Req_withdrawn q) (c1\<lparr>req_queue := remove1 r (req_queue c1)\<rparr>)) = Some c'"
        using out x by (simp add: withdraw_request_code [OF q])
      then have "core c' = core (note_call (Req_withdrawn q) c1)"
        using core_finish(1) core_note_fields [of "c1\<lparr>req_queue := remove1 r (req_queue c1)\<rparr>" c1]
        by (simp add: core_fields)
      then show ?thesis
        using rel_withdrawn [of q q d] d by (simp add: c1)
    qed
  qed
qed

lemma rel_notify: "related_rc R core (pc_notify_with_timeout T rt m ex tmo cb)"
proof
  fix c c' :: "'t pc_client" and x
  assume run: "pc_notify_with_timeout T rt m ex tmo cb c = Some (x, c')"
  show "R (core c) (core c')"
  proof (cases "c' = c")
    case True
    then show ?thesis by (simp add: R_refl)
  next
    case False
    then obtain r n c1 c2 where sub: "submit_notify rt m ex tmo cb c = Some (r, n, c1)"
      and send: "t_send T (route (ntf_base n)) (rq_seq_num (ntf_base n)) (msg (ntf_base n)) PC_NOTIFY_PUSH_REQ_ID
                 (timeout (ntf_base n)) c1 = Some (x, c2)"
      and out: "x = PC_RC_OK \<and> c' = c2 \<or> x \<noteq> PC_RC_OK \<and> withdraw_notify r c2 = Some c'"
      using run by (auto simp: pc_notify_with_timeout_def Option.bind_eq_Some_conv split: if_splits prod.splits)
    obtain d where c1: "c1 = note_call (Ntf_accepted n) d" and d: "core d = core c"
      and n: "pool_get (notifies c1) r = Some n"
      using submit_notify_core [OF sub] by (auto intro: core_cong)
    show ?thesis
    proof (cases "x = PC_RC_OK")
      case True
      then show ?thesis
        using rel_send_ntf [OF send [unfolded c1, unfolded True]] d out by simp
    next
      case x: False
      have c2: "c2 = c1" by (rule rel_refused [OF send x])
      then have "finish_notify r (note_call (Ntf_withdrawn n) (c1\<lparr>notify_queue := remove1 r (notify_queue c1)\<rparr>)) = Some c'"
        using out x by (simp add: withdraw_notify_code [OF n])
      then have "core c' = core (note_call (Ntf_withdrawn n) c1)"
        using core_finish(2) core_note_fields [of "c1\<lparr>notify_queue := remove1 r (notify_queue c1)\<rparr>" c1]
        by (simp add: core_fields)
      then show ?thesis
        using rel_withdrawn_ntf [of n n d] d by (simp add: c1)
    qed
  qed
qed

lemma rel_client_connect: "related_rc R core (pc_client_connect U T host port opts)"
proof
  fix c c' :: "'t pc_client" and x
  assume run: "pc_client_connect U T host port opts c = Some (x, c')"
  show "R (core c) (core c')"
  proof (cases "c' = c")
    case True
    then show ?thesis by (simp add: R_refl)
  next
    case False
    then obtain h c1 where host: "host = Some h" and c1: "poll_if_enabled U c = Some c1"
      using run by (auto simp: pc_client_connect_def Option.bind_eq_Some_conv split: if_splits option.splits)
    have r1: "R (core c) (core c1)"
      by (rule relatedD [OF rel_poll_if c1])
    show ?thesis
    proof (cases "pc_client_state c1 = PC_ST_INITED")
      case True
      then obtain c3 where c3: "t_connect T h port opts (c1\<lparr>state := PC_ST_CONNECTING\<rparr>) = Some (x, c3)"
        and c': "c' = c3 \<or> c' = c3\<lparr>state := PC_ST_INITED\<rparr>"
        using run host c1 False
        by (auto simp: pc_client_connect_def set_state_code Option.bind_eq_Some_conv split: if_splits)
      have "R (core c1) (core c3)"
        using related_rcD [OF rel_connect c3] by (simp add: core_fields)
      then show ?thesis
        using c' R_trans [OF r1] by (auto simp: core_fields)
    next
      case other: False
      then have "c' = c1"
        using run host c1 False
        by (auto simp: pc_client_connect_def split: if_splits pc_state.splits)
      then show ?thesis using r1 by simp
    qed
  qed
qed

lemma rel_client_disconnect: "related_rc R core (pc_client_disconnect U T)"
proof
  fix c c' :: "'t pc_client" and x
  assume run: "pc_client_disconnect U T c = Some (x, c')"
  then obtain c1 where c1: "poll_if_enabled U c = Some c1"
    by (auto simp: pc_client_disconnect_def Option.bind_eq_Some_conv)
  have r1: "R (core c) (core c1)"
    by (rule relatedD [OF rel_poll_if c1])
  show "R (core c) (core c')"
  proof (cases "pc_client_state c1 = PC_ST_CONNECTING \<or> pc_client_state c1 = PC_ST_CONNECTED")
    case True
    then obtain c3 st where c3: "t_disconnect T (c1\<lparr>state := PC_ST_DISCONNECTING\<rparr>) = Some (x, c3)"
      and c': "c' = c3 \<or> c' = c3\<lparr>state := st\<rparr>"
      using run c1
      by (auto simp: pc_client_disconnect_def set_state_code Let_def Option.bind_eq_Some_conv split: if_splits)
    have "R (core c1) (core c3)"
      using related_rcD [OF rel_disconnect c3] by (simp add: core_fields)
    then show ?thesis
      using c' R_trans [OF r1] by (auto simp: core_fields)
  next
    case False
    then have "c' = c1"
      using run c1 by (auto simp: pc_client_disconnect_def Let_def split: if_splits)
    then show ?thesis using r1 by simp
  qed
qed

lemma rel_do_call: "related R core (do_call U T a)"
proof
  fix c c'
  assume "do_call U T a c = Some c'"
  then show "R (core c) (core c')"
    using related_rcD [OF rel_client_connect] related_rcD [OF rel_client_disconnect] related_rcD [OF rel_poll]
      related_rcD [OF rel_add_handler] related_rcD [OF rel_rm_handler] related_rcD [OF rel_request]
      related_rcD [OF rel_notify]
    by (cases a) (auto simp: drop_rc_def)
qed

lemma rel_do_calls: "related R core (do_calls U T as)"
proof (induction as)
  case Nil
  show ?case by (rule relatedI) (simp add: R_refl)
next
  case (Cons a as)
  show ?case
    by (rule relatedI) (auto simp: Option.bind_eq_Some_conv
        dest!: relatedD [OF rel_do_call] relatedD [OF Cons.IH] intro: R_trans)
qed

end

lemma script_user_rel:
  assumes core: "client_core core R"
    and world: "\<And>U. client_rel core R U \<Longrightarrow> client_rel_world core R U (B U)"
  shows "client_rel core R (script_user B S n)"
proof -
  have Some: "related R core Some"
    using client_core.R_refl [OF core] by (auto intro: relatedI)
  show ?thesis
  proof (induction n)
    case 0
    then show ?case
      using core Some by (simp add: client_rel_def client_rel_axioms_def)
  next
    case (Suc n)
    note calls = client_rel_world.rel_do_calls [OF world [OF Suc]]
    show ?case
      using core calls by (simp add: client_rel_def client_rel_axioms_def Let_def)
  qed
qed

text \<open>Relations on the transport and the configuration alone: polling is covered too.\<close>

locale client_rel_free = client_rel core R U for core :: "'t pc_client \<Rightarrow> 'k" and R and U +
  assumes core_free: "tran c' = tran c \<Longrightarrow> config c' = config c \<Longrightarrow> core c' = core c"
begin

lemma core_put_event: "put_event r f c = Some c' \<Longrightarrow> core c' = core c" "free_event r c = Some c' \<Longrightarrow> core c' = core c"
  by (auto simp: put_event_def free_event_def Option.bind_eq_Some_conv intro: core_free)

lemma rel_handle_event: "related R core (pc__handle_event U ev)"
proof
  fix c c'
  assume run: "pc__handle_event U ev c = Some c'"
  obtain e c1 e' where c1: "deliver_event U ev e c = Some c1"
    and e': "pool_get (pending_events c1) ev = Some e'"
    and fin: "(if PC_IS_DYN_ALLOC (ev_type_word e') then free_event ev c1
               else put_event ev (ev_upd PC_PRE_ALLOC_SET_IDLE) c1) = Some c'"
    using run unfolding pc__handle_event_def Option.bind_eq_Some_conv bind_assert_c
    by (auto split: if_splits simp: Option.bind_eq_Some_conv)
  have "R (core c) (core c1)"
    using c1 relatedD [OF rel_resp] relatedD [OF rel_sent] relatedD [OF rel_fire_event] core_put_event
    by (fastforce simp: deliver_event_def Option.bind_eq_Some_conv split: if_splits ev_data.splits)
  moreover have "core c' = core c1"
    using fin core_put_event by (auto split: if_splits)
  ultimately show "R (core c) (core c')" by simp
qed

lemma rel_poll_loop: "related R core (poll_loop U)"
proof
  fix c c'
  have "poll_loop V c = Some c' \<Longrightarrow> V = U \<Longrightarrow> R (core c) (core c')" for V c c'
  proof (induction V c c' rule: poll_loop.raw_induct [rotated, consumes 1])
    case (1 rec V c c')
    show ?case
    proof (cases "pending_ev_queue c")
      case Nil
      then show ?thesis using 1 by (simp add: R_refl)
    next
      case (Cons ev evs)
      let ?c1 = "c\<lparr>pending_ev_queue := remove1 ev (pending_ev_queue c)\<rparr>"
      obtain c2 where c2: "pc__handle_event U ev ?c1 = Some c2" and rest: "rec V c2 = Some c'"
        using 1(2,3) Cons by (auto simp: Option.bind_eq_Some_conv Let_def split: if_splits)
      have "core ?c1 = core c" by (rule core_free) simp_all
      with R_trans [OF relatedD [OF rel_handle_event c2] 1(1) [OF rest 1(3)]] show ?thesis by simp
    qed
  qed
  then show "poll_loop U c = Some c' \<Longrightarrow> R (core c) (core c')" by blast
qed

lemma rel_client_poll: "related_rc R core (pc_client_poll U)"
proof
  fix c c' :: "'t pc_client" and x
  assume run: "pc_client_poll U c = Some (x, c')"
  show "R (core c) (core c')"
  proof (cases "enable_polling (config c) \<and> \<not> is_in_poll c")
    case True
    let ?c1 = "(pc_mutex_lock M_event c)\<lparr>is_in_poll := True\<rparr>"
    obtain c2 where c2: "poll_loop U ?c1 = Some c2"
      and c': "pc_mutex_unlock M_event (c2\<lparr>is_in_poll := False\<rparr>) = Some c'"
      using run True by (auto simp: pc_client_poll_def Let_def Option.bind_eq_Some_conv)
    have "core ?c1 = core c" by (rule core_free) (simp_all add: pc_mutex_lock_def)
    moreover have "core c' = core c2" using c' by (auto simp: unlock_Some intro: core_free)
    ultimately show ?thesis using relatedD [OF rel_poll_loop c2] by simp
  next
    case False
    then have "c' = c"
      using run by (auto simp: pc_client_poll_def Let_def split: if_splits)
    then show ?thesis by (simp add: R_refl)
  qed
qed

end

end
