(* ===== verification/ClientProps.thy ===== *)
theory ClientProps
  imports ClientRel
begin

text \<open>
  The properties of the client: \<open>pc_trans.c\<close>, \<open>pc_pomelo.c\<close> and the dummy transport.
\<close>

section \<open>A client for the examples\<close>

definition zeroed_client :: "'t pc_client" where
  "zeroed_client = \<lparr>self = 1, magic_num = 0, state = PC_ST_NOT_INITED, config = PC_CLIENT_CONFIG_DEFAULT,
     c_ex_data = 0, tran = None, ev_handlers = [], handlers = (\<lambda>_. None), handler_fresh = 0,
     next_handler_id = 0, seq_num = 0, notifies = new_pool 0 zero_notify, notify_queue = [],
     req_id_seq = 0, requests = new_pool 0 zero_request, req_queue = [],
     pending_events = new_pool 0 zero_event, pending_ev_queue = [], is_in_poll = False,
     locks = (\<lambda>_. 0), history = []\<rparr>"

definition quiet :: "'t user" where
  "quiet = \<lparr>u_req = (\<lambda>_ _ _ _. Some), u_ntf = (\<lambda>_ _ _. Some), u_ev = (\<lambda>_ _ _ _ _. Some),
     u_destroy = (\<lambda>_ _. Some)\<rparr>"

lemma quiet_user: "client_user quiet"
  by unfold_locales (simp_all add: quiet_def)

definition started :: "pc_state \<Rightarrow> bool \<Rightarrow> dummy_transport pc_client" where
  "started st polling = init_fields 7 (zeroed_client\<lparr>config := PC_CLIENT_CONFIG_DEFAULT\<lparr>enable_polling := polling\<rparr>,
     tran := Some \<lparr>d_client = 1\<rparr>\<rparr>)\<lparr>state := st\<rparr>"

lemma started_inv: "client_inv {} {} {} (started st p)"
  by (simp add: started_def init_inv)

lemma started_fields [simp]:
  "state (started st p) = st" "ev_handlers (started st p) = []" "tran (started st p) = Some \<lparr>d_client = 1\<rparr>"
  "req_queue (started st p) = []" "notify_queue (started st p) = []" "history (started st p) = []"
  "enable_polling (config (started st p)) = p" "magic_num (started st p) = pc__init_magic_num"
  "seq_num (started st p) = 0" "req_id_seq (started st p) = 1" "locks (started st p) = (\<lambda>_. 0)"
  "requests (started st p) = new_pool 4 (idle_request 1)" "notifies (started st p) = new_pool 4 (idle_notify 1)"
  "is_in_poll (started st p) = False" "handlers (started st p) = (\<lambda>_. None)" "handler_fresh (started st p) = 0"
  "self (started st p) = 1"
  by (simp_all add: started_def init_fields_def zeroed_client_def Let_def PC_CLIENT_CONFIG_DEFAULT_def)

lemma started_pending [simp]: "p \<Longrightarrow> pending_ev_queue (started st p) = []"
  by (simp add: started_def init_fields_def zeroed_client_def Let_def PC_CLIENT_CONFIG_DEFAULT_def)

text \<open>A submission never fails on a client that keeps its invariant.\<close>

lemma alloc_request_Some:
  assumes "client_inv F G H c"
  obtains r c1 where "alloc_request c = Some (r, c1)" and "pool_get (requests c1) r \<noteq> None"
    and "c1 = c\<lparr>requests := requests c1\<rparr>"
proof -
  have inv: "queue_inv rq_ty req_base (requests c) (req_queue c) F
      (accepted_reqs (history c)) (settled_reqs (history c))"
    using assms by (simp add: client_inv_def)
  obtain r p where alloc: "pool_alloc rq_ty rq_upd dyn_request (requests c) = (r, p)"
    by (cases "pool_alloc rq_ty rq_upd dyn_request (requests c)")
  obtain x where x: "pool_get p r = Some x"
    using rq_pool.alloc_get [OF alloc] by blast
  show ?thesis
  proof (cases r)
    case (Pre i)
    then have i: "first_idle rq_ty (slots (requests c)) = Some i"
      and p: "x = rq_upd PC_PRE_ALLOC_SET_BUSY (slots (requests c) ! i)"
      using alloc x by (auto simp: pool_alloc_def split: option.splits dest: first_idle_Some)
    note f = first_idle_Some [OF i]
    have "route (req_base x) = None \<and> msg (req_base x) = None \<and> PC_IS_PRE_ALLOC (rq_ty x)"
      using inv f by (auto simp: queue_inv_def pool_inv_def pool_ok_def p flag_simps)
    then show ?thesis
      using that [of r "c\<lparr>requests := p\<rparr>"] alloc x Pre by (simp add: alloc_request_def)
  next
    case (Dyn n)
    obtain p1 where "pool_put r (x\<lparr>req_base := (req_base x)\<lparr>rq_client := self c\<rparr>\<rparr>) p = Some p1"
      using pool_put_Some [OF x] by blast
    then show ?thesis
      using that [of r "c\<lparr>requests := p1\<rparr>"] alloc x Dyn
      by (auto simp: alloc_request_def pool_upd_def pool_get_put)
  qed
qed

lemma submit_request_Some:
  assumes "client_inv F G H c"
  obtains r q c1 where "submit_request rt m ex tmo cb c = Some (r, q, c1)"
    and "q = fill_request rt m (seq_num c) tmo ex (next_req_id (req_id_seq c)) cb q"
    and "seq_num c1 = seq_num c + 1" and "req_id_seq c1 = next_req_id (req_id_seq c) + 1"
    and "history c1 = history c @ [Req_accepted q]" and "state c1 = state c" and "tran c1 = tran c"
proof -
  have "client_inv F G H (pc_mutex_lock M_req c)"
    using assms by simp
  from alloc_request_Some [OF this] obtain r c2 where
    a: "alloc_request (pc_mutex_lock M_req c) = Some (r, c2)" "pool_get (requests c2) r \<noteq> None"
      "c2 = (pc_mutex_lock M_req c)\<lparr>requests := requests c2\<rparr>" .
  obtain p where p: "requests c2 = p" by simp
  obtain x where x: "pool_get p r = Some x"
    using a(2) p by blast
  let ?q = "fill_request rt m (seq_num c) tmo ex (next_req_id (req_id_seq c)) cb x"
  obtain p1 where p1: "pool_put r ?q p = Some p1"
    using pool_put_Some [OF x] by blast
  let ?c1 = "c\<lparr>requests := p1, req_queue := req_queue c @ [r], seq_num := seq_num c + 1,
      req_id_seq := next_req_id (req_id_seq c) + 1, history := history c @ [Req_accepted ?q]\<rparr>"
  have "submit_request rt m ex tmo cb c = Some (r, ?q, ?c1)"
    using a(1) a(3)[unfolded p] x p1 pool_get_put [OF p1, of r]
    by (simp add: submit_request_def Let_def put_request_def pool_upd_def note_call_def
        pc_mutex_lock_def pc_mutex_unlock_def)
  then show ?thesis
    by (rule that) (simp_all add: fill_request_def fill_common_def)
qed

text \<open>One request queued, and one handler registered.\<close>

lemma one_request:
  obtains r q c1 where "submit_request (Some ''r'') (Some ''m'') 9 (-1) (Some 3) (started PC_ST_CONNECTED p) = Some (r, q, c1)"
    and "client_inv {} {} {} c1" and "req_queue c1 = [r]" and "pool_get (requests c1) r = Some q"
    and "req_id q = 1" and "req_cb q = Some 3" and "enable_polling (config c1) = p"
proof -
  obtain r q c1 where c1: "submit_request (Some ''r'') (Some ''m'') 9 (-1) (Some 3) (started PC_ST_CONNECTED p) = Some (r, q, c1)"
    "q = fill_request (Some ''r'') (Some ''m'') 0 (-1) 9 (next_req_id 1) (Some 3) q"
    using submit_request_Some [OF started_inv] started_fields by metis
  have "req_id q = 1" "req_cb q = Some 3"
    by (subst c1(2), simp add: fill_request_def next_req_id_def)+
  with submit_request_inv [OF started_inv _ c1(1)] show ?thesis
    using that [OF c1(1)] by (simp add: frame_def)
qed

definition with_handler :: "pc_state \<Rightarrow> dummy_transport pc_client" where
  "with_handler st = (started st False)\<lparr>handlers := [0 \<mapsto> \<lparr>h_ex_data = 5, h_destructor = Some 2, handler_id = 0, h_cb = Some 1\<rparr>],
     handler_fresh := 1, ev_handlers := [0]\<rparr>"

lemma with_handler_inv: "client_inv {} {} {} (with_handler st)"
  using started_inv [of st False]
  by (simp add: with_handler_def client_inv_def events_inv_def handlers_inv_def)

lemma with_handler_fields [simp]:
  "state (with_handler st) = st" "ev_handlers (with_handler st) = [0]" "tran (with_handler st) \<noteq> None"
  "handlers (with_handler st) 0 = Some \<lparr>h_ex_data = 5, h_destructor = Some 2, handler_id = 0, h_cb = Some 1\<rparr>"
  "history (with_handler st) = []" "enable_polling (config (with_handler st)) = False"
  "magic_num (with_handler st) = pc__init_magic_num" "locks (with_handler st) = (\<lambda>_. 0)"
  "req_queue (with_handler st) = []" "notify_queue (with_handler st) = []"
  by (simp_all add: with_handler_def)

lemma quiet_simps [simp]:
  "u_req quiet cb q rc resp d = Some d" "u_ntf quiet cb n rc d = Some d" "u_ev quiet cb t x a1 a2 d = Some d"
  "u_destroy quiet f y d = Some d"
  by (simp_all add: quiet_def)

section \<open>Every accepted request is answered exactly once\<close>

lemma inv_meaning:
  assumes "client_inv F G H c"
  shows "mset (accepted_reqs (history c)) =
      mset (settled_reqs (history c)) + mset (queued (requests c) (req_queue c))"
    and "mset (accepted_ntfs (history c)) =
      mset (settled_ntfs (history c)) + mset (queued (notifies c) (notify_queue c))"
    and "in_use rq_ty (requests c) r \<longleftrightarrow> r \<in> set (req_queue c) \<union> F"
    and "in_use nt_ty (notifies c) r \<longleftrightarrow> r \<in> set (notify_queue c) \<union> G"
  using assms by (auto simp: client_inv_def queue_inv_def pool_inv_def)

text \<open>
  C1. For every transport and every set of user callbacks that keep the client's invariant
  (\<open>client_world\<close>), whatever calls the program makes: each accepted request or notify is settled
  by exactly one callback or one refusal, or is still queued; exactly the queued ones occupy
  slots; and every mutex is released. Callbacks may call the library again.
\<close>

theorem session_settles_once:
  assumes "client_world U T" and "client_inv {} {} {} c" and "do_calls U T calls c = Some c'"
  shows "mset (accepted_reqs (history c')) =
      mset (settled_reqs (history c')) + mset (queued (requests c') (req_queue c')) \<and>
    mset (accepted_ntfs (history c')) =
      mset (settled_ntfs (history c')) + mset (queued (notifies c') (notify_queue c')) \<and>
    (\<forall>r. in_use rq_ty (requests c') r \<longleftrightarrow> r \<in> set (req_queue c')) \<and>
    (\<forall>r. in_use nt_ty (notifies c') r \<longleftrightarrow> r \<in> set (notify_queue c')) \<and> locks c' = locks c"
  using keepsD [OF client_world.keeps_do_calls [OF assms(1)] assms(2,3)] inv_meaning [of "{}" "{}" "{}" c']
  by (auto simp: frame_def)

theorem session_settles_once_witness:
  "\<exists>c'. do_calls quiet (dummy_ops quiet) [A_request (Some ''r'') (Some ''m'') 0 (-1) (Some 3)]
      (started PC_ST_CONNECTED False) = Some c' \<and>
    mset (accepted_reqs (history c')) =
      mset (settled_reqs (history c')) + mset (queued (requests c') (req_queue c')) \<and>
    length (history c') = 2 \<and> locks c' = (\<lambda>_. 0)"
proof -
  let ?run = "do_calls quiet (dummy_ops quiet) [A_request (Some ''r'') (Some ''m'') 0 (-1) (Some 3)]
      (started PC_ST_CONNECTED False)"
  have "case ?run of None \<Rightarrow> False | Some c \<Rightarrow> length (history c) = 2"
    by code_simp
  then obtain c' where c': "?run = Some c'" "length (history c') = 2"
    by (cases ?run) auto
  then show ?thesis
    using session_settles_once [OF dummy_world [OF quiet_user] started_inv c'(1)] by auto
qed

text \<open>
  The dummy transport answers at once, so nothing is queued when a call returns: the property of
  the client that the callbacks, and the calls they make, keep.
\<close>

definition all_answered :: "'t pc_client \<Rightarrow> bool" where
  "all_answered c \<longleftrightarrow> \<not> enable_polling (config c) \<and> req_queue c = [] \<and> notify_queue c = [] \<and>
     (\<forall>q. Req_withdrawn q \<notin> set (history c)) \<and> (\<forall>n. Ntf_withdrawn n \<notin> set (history c))"

definition answers :: "('t pc_client \<Rightarrow> 't pc_client option) \<Rightarrow> bool" where
  "answers f \<longleftrightarrow> (\<forall>c c'. all_answered c \<longrightarrow> f c = Some c' \<longrightarrow> all_answered c')"

definition answering_user :: "'t user \<Rightarrow> bool" where
  "answering_user U \<longleftrightarrow> (\<forall>cb q rc resp. answers (u_req U cb q rc resp)) \<and> (\<forall>cb n rc. answers (u_ntf U cb n rc)) \<and>
     (\<forall>cb t x a1 a2. answers (u_ev U cb t x a1 a2)) \<and> (\<forall>d x. answers (u_destroy U d x))"

lemma answersI: "(\<And>c c'. all_answered c \<Longrightarrow> f c = Some c' \<Longrightarrow> all_answered c') \<Longrightarrow> answers f"
  by (auto simp: answers_def)

lemma answersD: "answers f \<Longrightarrow> f c = Some c' \<Longrightarrow> all_answered c \<Longrightarrow> all_answered c'"
  by (auto simp: answers_def)

lemma all_answered_fields [simp]:
  "all_answered (c\<lparr>state := st\<rparr>) = all_answered c" "all_answered (c\<lparr>locks := l\<rparr>) = all_answered c"
  "all_answered (c\<lparr>ev_handlers := hs\<rparr>) = all_answered c" "all_answered (c\<lparr>handlers := h\<rparr>) = all_answered c"
  "all_answered (c\<lparr>handler_fresh := n\<rparr>) = all_answered c" "all_answered (c\<lparr>next_handler_id := i\<rparr>) = all_answered c"
  "all_answered (c\<lparr>requests := p\<rparr>) = all_answered c" "all_answered (c\<lparr>notifies := p'\<rparr>) = all_answered c"
  "all_answered (pc_mutex_lock m c) = all_answered c"
  "all_answered (note_call (Ev_handled i t a1 a2) c) = all_answered c"
  "all_answered (note_call (Destroyed i) c) = all_answered c"
  by (simp_all add: all_answered_def pc_mutex_lock_def note_call_def)

lemma answers_unlock: "pc_mutex_unlock m c = Some c' \<Longrightarrow> all_answered c' = all_answered c"
  by (auto simp: unlock_Some)

lemma answers_call_handler:
  assumes "answering_user U"
  shows "answers (call_handler U t a1 a2 q)"
proof (rule answersI)
  fix c c' :: "'a pc_client"
  assume ok: "all_answered c" and run: "call_handler U t a1 a2 q c = Some c'"
  obtain h :: pc_ev_handler and cb where "u_ev U cb t (h_ex_data h) a1 a2 (note_call (Ev_handled (handler_id h) t a1 a2) c) = Some c'"
    using run by (auto simp: call_handler_def Option.bind_eq_Some_conv)
  from answersD [where f = "u_ev U cb t (h_ex_data h) a1 a2", OF _ this] show "all_answered c'"
    using assms ok by (simp add: answering_user_def)
qed

lemma answers_fire_handlers:
  assumes user: "answering_user U"
  shows "answers (fire_handlers U t a1 a2 cur)"
proof (rule answersI)
  fix c c'
  have "fire_handlers V s b1 b2 cur c = Some c' \<Longrightarrow> V = U \<and> s = t \<and> b1 = a1 \<and> b2 = a2 \<Longrightarrow>
      all_answered c \<Longrightarrow> all_answered c'" for V s b1 b2 cur c c'
  proof (induction V s b1 b2 cur c c' rule: fire_handlers.raw_induct [rotated, consumes 1])
    case (1 rec V s b1 b2 cur c c')
    show ?case
    proof (cases cur)
      case None
      then show ?thesis using 1 by simp
    next
      case (Some q)
      then obtain c1 where c1: "call_handler U t a1 a2 q c = Some c1"
        and rest: "rec V s b1 b2 (next_in q (ev_handlers c1)) c1 = Some c'"
        using 1(2,3) by (auto simp: Option.bind_eq_Some_conv split: if_splits)
      from 1(1) [OF rest 1(3)] answersD [OF answers_call_handler [OF user] c1 1(4)] show ?thesis
        by simp
    qed
  qed
  then show "all_answered c \<Longrightarrow> fire_handlers U t a1 a2 cur c = Some c' \<Longrightarrow> all_answered c'" by blast
qed

lemma answers_fire_event:
  assumes "answering_user U"
  shows "answers (pc_trans_fire_event U t a1 a2)"
proof (rule answersI)
  fix c c' :: "'a pc_client"
  assume ok: "all_answered c" and run: "pc_trans_fire_event U t a1 a2 c = Some c'"
  then have run: "pc__trans_fire_event U t a1 a2 c = Some c'"
    by (simp add: pc_trans_fire_event_def all_answered_def)
  show "all_answered c'"
  proof (cases "net_event_ok t a1 a2")
    case True
    then obtain st c4 where
      "fire_handlers U t a1 a2 (first_in (ev_handlers c)) (pc_mutex_lock M_handler (c\<lparr>state := st\<rparr>)) = Some c4"
      "pc_mutex_unlock M_handler c4 = Some c'"
      using run by (auto simp: pc__trans_fire_event_def Let_def Option.bind_eq_Some_conv split: if_splits)
    then show ?thesis
      using answersD [OF answers_fire_handlers [OF assms]] ok by (simp add: answers_unlock)
  next
    case False
    then show ?thesis using run ok by (simp add: pc__trans_fire_event_def)
  qed
qed

lemma submit_queue:
  "submit_request rt m ex tmo cb c = Some (r, q, c1) \<Longrightarrow> req_queue c1 = req_queue c @ [r] \<and> notify_queue c1 = notify_queue c"
  "submit_notify rt m ex tmo cb c = Some (r, n, c1) \<Longrightarrow> req_queue c1 = req_queue c \<and> notify_queue c1 = notify_queue c @ [r] \<and>
     rq_seq_num (ntf_base n) = seq_num c"
  by (auto simp: submit_request_def alloc_request_def put_request_def submit_notify_def alloc_notify_def put_notify_def
      fill_notify_def fill_common_def unlock_Some pool_upd_Some pool_get_put
      note_call_def Let_def pc_mutex_lock_def Option.bind_eq_Some_conv split: prod.splits ref.splits if_splits)

lemma finished_fields:
  "finish_request r c = Some c' \<Longrightarrow> all_answered c' = all_answered c"
  "finish_notify r c = Some c' \<Longrightarrow> all_answered c' = all_answered c"
  by (auto simp: finish_request_def finish_notify_def Option.bind_eq_Some_conv)

lemma dummy_answers_request:
  assumes user: "answering_user U" and ok: "all_answered c"
    and run: "pc_request_with_timeout (dummy_ops U) rt m ex tmo cb c = Some (x, c')"
  shows "all_answered c'"
proof (cases "c' = c")
  case True
  then show ?thesis using ok by simp
next
  case False
  then obtain r q c1 c2 where sub: "submit_request rt m ex tmo cb c = Some (r, q, c1)"
    and send: "dummy_send U (route (req_base q)) (rq_seq_num (req_base q)) (msg (req_base q)) (req_id q)
                 (timeout (req_base q)) c1 = Some (x, c2)"
    and out: "x = PC_RC_OK \<and> c' = c2 \<or> x \<noteq> PC_RC_OK"
    using run by (auto simp: pc_request_with_timeout_def dummy_ops_def Option.bind_eq_Some_conv split: if_splits prod.splits)
  note core = submit_request_core [OF sub]
  have queue: "req_queue c1 = [r]" "notify_queue c1 = []"
    using submit_queue(1) [OF sub] ok by (simp_all add: all_answered_def)
  have conf: "config c1 = config c" "history c1 = history c @ [Req_accepted q]"
    and q: "pool_get (requests c1) r = Some q" "req_id q \<noteq> PC_NOTIFY_PUSH_REQ_ID"
    using core by (auto simp: note_call_def)
  have c2: "x = PC_RC_OK" "pc__trans_resp U (req_id q) PC_RC_OK (Some TR_DUMMY_RESP) c1 = Some c2"
    using send q conf ok by (auto simp: dummy_send_def pc_trans_resp_def all_answered_def Option.bind_eq_Some_conv split: if_splits)
  let ?d = "note_call (Req_answered q PC_RC_OK (Some TR_DUMMY_RESP)) (c1\<lparr>req_queue := []\<rparr>)"
  obtain cb c3 where c3: "u_req U cb q PC_RC_OK (Some TR_DUMMY_RESP) ?d = Some c3" and fin: "finish_request r c3 = Some c2"
    using c2(2) q queue
    by (auto simp: pc__trans_resp_def Let_def finish_request_code Option.bind_eq_Some_conv split: if_splits)
  have "all_answered ?d"
    using ok conf queue by (auto simp: all_answered_def note_call_def)
  then have "all_answered c3"
    using answersD [where f = "u_req U cb q PC_RC_OK (Some TR_DUMMY_RESP)", OF _ c3] user
    by (simp add: answering_user_def)
  then show ?thesis
    using out c2(1) finished_fields(1) [OF fin] by simp
qed

lemma dummy_answers_notify:
  assumes user: "answering_user U" and ok: "all_answered c"
    and run: "pc_notify_with_timeout (dummy_ops U) rt m ex tmo cb c = Some (x, c')"
  shows "all_answered c'"
proof (cases "c' = c")
  case True
  then show ?thesis using ok by simp
next
  case False
  then obtain r q c1 c2 where sub: "submit_notify rt m ex tmo cb c = Some (r, q, c1)"
    and send: "dummy_send U (route (ntf_base q)) (rq_seq_num (ntf_base q)) (msg (ntf_base q)) PC_NOTIFY_PUSH_REQ_ID
                 (timeout (ntf_base q)) c1 = Some (x, c2)"
    and out: "x = PC_RC_OK \<and> c' = c2 \<or> x \<noteq> PC_RC_OK"
    using run by (auto simp: pc_notify_with_timeout_def dummy_ops_def Option.bind_eq_Some_conv split: if_splits prod.splits)
  note core = submit_notify_core [OF sub]
  have queue: "req_queue c1 = []" "notify_queue c1 = [r]"
    using submit_queue(2) [OF sub] ok by (simp_all add: all_answered_def)
  have conf: "config c1 = config c" "history c1 = history c @ [Ntf_accepted q]"
    and q: "pool_get (notifies c1) r = Some q"
    using core by (auto simp: note_call_def)
  have c2: "x = PC_RC_OK" "pc__trans_sent U (rq_seq_num (ntf_base q)) PC_RC_OK c1 = Some c2"
    using send conf ok by (auto simp: dummy_send_def pc_trans_sent_def all_answered_def Option.bind_eq_Some_conv split: if_splits)
  let ?d = "note_call (Ntf_answered q PC_RC_OK) (c1\<lparr>notify_queue := []\<rparr>)"
  obtain cb c3 where c3: "u_ntf U cb q PC_RC_OK ?d = Some c3" and fin: "finish_notify r c3 = Some c2"
    using c2(2) q queue
    by (auto simp: pc__trans_sent_def Let_def finish_notify_code Option.bind_eq_Some_conv split: if_splits)
  have "all_answered ?d"
    using ok conf queue by (auto simp: all_answered_def note_call_def)
  then have "all_answered c3"
    using answersD [where f = "u_ntf U cb q PC_RC_OK", OF _ c3] user by (simp add: answering_user_def)
  then show ?thesis
    using out c2(1) finished_fields(2) [OF fin] by simp
qed

lemma answers_handlers:
  assumes "answering_user U" and "all_answered c"
  shows "pc_client_rm_ev_handler U i c = Some (x, c') \<Longrightarrow> all_answered c'"
    and "pc_client_add_ev_handler cb ex d c = Some (x, c') \<Longrightarrow> all_answered c'"
proof -
  assume "pc_client_rm_ev_handler U i c = Some (x, c')"
  then obtain t c2 where t: "(case t of None \<Rightarrow> Some (pc_mutex_lock M_handler c) | Some (q, h) \<Rightarrow> drop_handler U q h (pc_mutex_lock M_handler c)) = Some c2"
    and c': "pc_mutex_unlock M_handler c2 = Some c'"
    by (auto simp: pc_client_rm_ev_handler_def Let_def Option.bind_eq_Some_conv)
  have destroy: "answers (u_destroy U d y)" for d y
    using assms(1) by (simp add: answering_user_def)
  have "all_answered c2"
    using t assms(2) answersD [OF destroy]
    by (auto simp: drop_handler_def Let_def Option.bind_eq_Some_conv split: option.splits if_splits)
  then show "all_answered c'"
    using answers_unlock [OF c'] by simp
next
  assume "pc_client_add_ev_handler cb ex d c = Some (x, c')"
  then show "all_answered c'"
    using assms(2) by (auto simp: pc_client_add_ev_handler_def Let_def Option.bind_eq_Some_conv split: if_splits
        dest!: answers_unlock)
qed

lemma dummy_answers_connect:
  assumes user: "answering_user U" and ok: "all_answered c"
  shows "pc_client_connect U (dummy_ops U) host port opts c = Some (x, c') \<Longrightarrow> all_answered c'"
    and "pc_client_disconnect U (dummy_ops U) c = Some (x, c') \<Longrightarrow> all_answered c'"
  using ok answersD [OF answers_fire_event [OF user]]
  by (auto simp: pc_client_connect_def pc_client_disconnect_def poll_if_enabled_def set_state_code dummy_ops_def
      dummy_connect_def dummy_disconnect_def Let_def Option.bind_eq_Some_conv all_answered_def
      split: option.splits if_splits pc_state.splits)

lemma dummy_answers_call:
  assumes user: "answering_user U"
  shows "answers (do_call U (dummy_ops U) a)"
proof (rule answersI)
  fix c c'
  assume ok: "all_answered c" and "do_call U (dummy_ops U) a c = Some c'"
  then show "all_answered c'"
    using dummy_answers_connect [OF user ok] answers_handlers [OF user ok] dummy_answers_request [OF user ok]
      dummy_answers_notify [OF user ok]
      ok
    by (cases a) (auto simp: drop_rc_def pc_client_poll_def all_answered_def [of c] simp del: not_None_eq
        split: if_splits)
qed

lemma dummy_answers_calls:
  assumes "answering_user U"
  shows "answers (do_calls U (dummy_ops U) as)"
proof (induction as)
  case (Cons a as)
  show ?case
    using answersD [OF Cons.IH] answersD [OF dummy_answers_call [OF assms]]
    by (auto intro!: answersI simp: Option.bind_eq_Some_conv)
qed (auto intro: answersI)

lemma scripts_answer: "answering_user (script_user dummy_ops S n)"
proof (induction n)
  case 0
  show ?case by (simp add: answering_user_def answers_def)
next
  case (Suc n)
  then show ?case
    using dummy_answers_calls [OF Suc] by (simp add: answering_user_def Let_def)
qed

text \<open>
  C12. Over the dummy transport nothing is left open: without polling, when a session of calls on
  a client that \<open>pc_client_init\<close> set up returns, with callbacks that run any scripts of further calls
  nested to any depth, every request and notify that was accepted, by the session or from inside a
  callback, has been answered by exactly one callback, none was withdrawn or is still queued,
  and every slot is free.
\<close>

theorem dummy_session_answers_all:
  assumes "pc_client_init (\<lambda>_. Some dummy_plugin_impl) ex (Some cfg) c0 = Some (PC_RC_OK, c)"
    and "magic_num c0 \<noteq> pc__init_magic_num" and "\<not> enable_polling cfg"
    and "do_calls (script_user dummy_ops S n) (dummy_ops (script_user dummy_ops S n)) calls c = Some c'"
  shows "req_queue c' = [] \<and> notify_queue c' = [] \<and>
    mset (accepted_reqs (history c')) = mset (settled_reqs (history c')) \<and>
    mset (accepted_ntfs (history c')) = mset (settled_ntfs (history c')) \<and>
    (\<forall>q. Req_withdrawn q \<notin> set (history c')) \<and> (\<forall>n. Ntf_withdrawn n \<notin> set (history c')) \<and>
    (\<forall>r. \<not> in_use rq_ty (requests c') r) \<and> (\<forall>r. \<not> in_use nt_ty (notifies c') r)"
proof -
  obtain d where c: "c = init_fields ex d" and d: "config d = cfg"
    using assms(1,2) by (auto simp: pc_client_init_def dummy_plugin_impl_def dummy_trans_create_def
        dummy_init_def Let_def)
  have "all_answered c"
    using assms(3) d by (simp add: c init_fields_def all_answered_def Let_def)
  then have ans: "all_answered c'"
    using answersD [OF dummy_answers_calls [OF scripts_answer] assms(4)] by simp
  have "client_inv {} {} {} c"
    by (simp add: c init_inv)
  then have "client_inv {} {} {} c'"
    using keepsD [OF scripted.keeps_do_calls _ assms(4)] by simp
  from inv_meaning [OF this] ans show ?thesis
    by (simp add: all_answered_def queued_def)
qed

theorem dummy_session_answers_all_witness:
  "\<exists>c c'. pc_client_init (\<lambda>_. Some dummy_plugin_impl) 7 (Some PC_CLIENT_CONFIG_DEFAULT) zeroed_client = Some (PC_RC_OK, c) \<and>
    (let U = script_user dummy_ops (\<lambda>cb. if cb = 1 then [A_request (Some ''r'') (Some ''m'') 0 (-1) (Some 3)] else []) 1
     in do_calls U (dummy_ops U) [A_add_handler (Some 1) 0 None, A_connect (Some ''h'') 80 None,
          A_notify (Some ''r'') (Some ''m'') 0 (-1) (Some 3)] c = Some c') \<and>
    length (accepted_reqs (history c')) = 1 \<and> length (accepted_ntfs (history c')) = 1 \<and>
    mset (accepted_reqs (history c')) = mset (settled_reqs (history c')) \<and> req_queue c' = []"
proof -
  let ?c = "init_fields 7 (zeroed_client\<lparr>config := PC_CLIENT_CONFIG_DEFAULT, tran := Some \<lparr>d_client = 1\<rparr>\<rparr>)"
  let ?S = "\<lambda>cb. if cb = 1 then [A_request (Some ''r'') (Some ''m'') 0 (-1) (Some 3)] else []"
  let ?U = "script_user dummy_ops ?S 1"
  let ?calls = "[A_add_handler (Some 1) 0 None, A_connect (Some ''h'') 80 None,
      A_notify (Some ''r'') (Some ''m'') 0 (-1) (Some 3)]"
  have init: "pc_client_init (\<lambda>_. Some dummy_plugin_impl) 7 (Some PC_CLIENT_CONFIG_DEFAULT) zeroed_client = Some (PC_RC_OK, ?c)"
    and magic: "magic_num (zeroed_client :: dummy_transport pc_client) \<noteq> pc__init_magic_num"
    and poll: "\<not> enable_polling PC_CLIENT_CONFIG_DEFAULT"
    by (simp_all add: pc_client_init_def zeroed_client_def pc__init_magic_num_def dummy_plugin_impl_def
        dummy_trans_create_def dummy_init_def PC_CLIENT_CONFIG_DEFAULT_def Let_def)
  have "case do_calls ?U (dummy_ops ?U) ?calls ?c of None \<Rightarrow> False | Some c \<Rightarrow>
      length (accepted_reqs (history c)) = 1 \<and> length (accepted_ntfs (history c)) = 1"
    by code_simp
  then obtain c' where c': "do_calls ?U (dummy_ops ?U) ?calls ?c = Some c'"
    "length (accepted_reqs (history c')) = 1" "length (accepted_ntfs (history c')) = 1"
    by (cases "do_calls ?U (dummy_ops ?U) ?calls ?c") auto
  show ?thesis
    unfolding Let_def
    using init c' dummy_session_answers_all [OF init magic poll c'(1)] by blast
qed

section \<open>Delivery\<close>

text \<open>
  C17. A response for a queued request is delivered exactly once to that request: its callback
  runs with the request's own data, with the request already out of the queue, and its slot is
  free again afterwards; no other request is touched, whatever the callback did to them. A
  response that no queued request waits for changes nothing.
\<close>

theorem resp_answers_once:
  assumes "client_inv F G H c"
  shows "(\<forall>xs r ys q cb d. req_queue c = xs @ r # ys \<longrightarrow>
      (\<forall>s \<in> set xs. req_id (the (pool_get (requests c) s)) \<noteq> rid) \<longrightarrow>
      pool_get (requests c) r = Some q \<longrightarrow> req_id q = rid \<longrightarrow> req_cb q = Some cb \<longrightarrow> rc_ok rc \<longrightarrow>
      u_req U cb q rc resp (note_call (Req_answered q rc resp) (c\<lparr>req_queue := xs @ ys\<rparr>)) = Some d \<longrightarrow>
      client_inv (insert r F) G H d \<longrightarrow>
      (\<exists>c'. pc__trans_resp U rid rc resp c = Some c' \<and> c' = d\<lparr>requests := requests c'\<rparr> \<and>
        client_inv F G H c' \<and> \<not> in_use rq_ty (requests c') r \<and>
        (\<forall>s. s \<noteq> r \<longrightarrow> pool_get (requests c') s = pool_get (requests d) s))) \<and>
    (rid \<notin> req_id ` set (queued (requests c) (req_queue c)) \<longrightarrow> pc__trans_resp U rid rc resp c = Some c)"
proof (intro conjI allI impI, goal_cases)
  case (1 xs r ys q cb d)
  then show ?case
    using resp_effect [OF assms, of xs r ys rid q cb rc U resp d] by blast
next
  case 2
  then show ?case
    using resp_unknown [OF _ assms] by blast
qed

theorem resp_answers_once_witness:
  "\<exists>r q c c'. submit_request (Some ''r'') (Some ''m'') 9 (-1) (Some 3) (started PC_ST_CONNECTED False) = Some (r, q, c) \<and>
    req_queue c = [r] \<and> pc__trans_resp quiet 1 PC_RC_OK (Some ''ok'') c = Some c' \<and> req_queue c' = [] \<and>
    \<not> in_use rq_ty (requests c') r \<and> history c' = history c @ [Req_answered q PC_RC_OK (Some ''ok'')]"
proof -
  obtain r q c where c: "submit_request (Some ''r'') (Some ''m'') 9 (-1) (Some 3) (started PC_ST_CONNECTED False) = Some (r, q, c)"
    "client_inv {} {} {} c" "req_queue c = [r]" "pool_get (requests c) r = Some q" "req_id q = 1" "req_cb q = Some 3"
    by (rule one_request)
  let ?d = "note_call (Req_answered q PC_RC_OK (Some ''ok'')) (c\<lparr>req_queue := []\<rparr>)"
  have "client_inv (insert r {}) {} {} ?d"
    using answer_request [OF c(2) _ c(4)] c(3) by simp
  then obtain c' where "pc__trans_resp quiet 1 PC_RC_OK (Some ''ok'') c = Some c'"
    "c' = ?d\<lparr>requests := requests c'\<rparr>" "\<not> in_use rq_ty (requests c') r"
    using conjunct1 [OF resp_answers_once [OF c(2), of 1 PC_RC_OK quiet "Some ''ok''"], rule_format,
        of "[]" r "[]" q 3 ?d] c(3-6) by (auto simp: rc_ok_def)
  moreover have "req_queue (?d\<lparr>requests := p\<rparr>) = [] \<and>
      history (?d\<lparr>requests := p\<rparr>) = history c @ [Req_answered q PC_RC_OK (Some ''ok'')]" for p
    by (simp add: note_call_def)
  ultimately show ?thesis
    using c(1,3) by metis
qed

text \<open>
  C30. The code of a response or of a sent notify is looked up in a table for the log after an
  \<open>assert\<close> of its range: a transport that passes anything but a library code (a system error,
  say) for a waiting item aborts the program, delivered at once or through the poll.
\<close>

theorem foreign_code_aborts:
  assumes "client_inv F G H c" and "\<not> rc_ok rc"
    and "rid \<in> req_id ` set (queued (requests c) (req_queue c))"
  shows "pc_trans_resp U rid rc resp c = None \<and>
    (enable_polling (config c) \<longrightarrow> pc_trans_sent U seq rc c = None)"
proof -
  obtain r q where r: "r \<in> set (req_queue c)" "pool_get (requests c) r = Some q" "req_id q = rid"
    using assms(1,3) inv_get [of rq_ty "requests c" "req_queue c" F]
    by (fastforce simp: queued_def client_inv_def queue_inv_def)
  have "queue_find (pool_get (requests c)) (\<lambda>r. req_id r = rid) (req_queue c) \<noteq> Some None"
    using r by (simp add: queue_find_None) (metis option.inject)
  then have "pc__trans_resp U rid rc resp c = None"
    using assms(2) by (auto simp: pc__trans_resp_def Let_def split: option.splits bind_splits)
  then show ?thesis
    using assms(2) by (simp add: pc_trans_resp_def queue_resp_code pc_trans_sent_def queue_sent_code)
qed

theorem foreign_code_aborts_witness:
  "\<exists>r q c. submit_request (Some ''r'') (Some ''m'') 9 (-1) (Some 3) (started PC_ST_CONNECTED False) = Some (r, q, c) \<and>
    pc_trans_resp quiet 1 (-32) None c = None"
proof -
  obtain r q c where c: "submit_request (Some ''r'') (Some ''m'') 9 (-1) (Some 3) (started PC_ST_CONNECTED False) = Some (r, q, c)"
    "client_inv {} {} {} c" "req_queue c = [r]" "pool_get (requests c) r = Some q" "req_id q = 1" "req_cb q = Some 3"
    by (rule one_request)
  then show ?thesis
    using foreign_code_aborts [OF c(2), of "-32" 1 quiet None 0] by (auto simp: rc_ok_def queued_def)
qed

text \<open>
  What the delivery loop does for a list of handlers: each one's callback, in the order of the list,
  on the client that the one before left.
\<close>

primrec run_handlers :: "'t user \<Rightarrow> int \<Rightarrow> string option \<Rightarrow> string option \<Rightarrow> pc_ev_handler list \<Rightarrow>
    't pc_client \<Rightarrow> 't pc_client option" where
  "run_handlers U t a1 a2 [] c = Some c"
| "run_handlers U t a1 a2 (h # hs) c =
     do { cb \<leftarrow> h_cb h;
          c1 \<leftarrow> u_ev U cb t (h_ex_data h) a1 a2 (note_call (Ev_handled (handler_id h) t a1 a2) c);
          run_handlers U t a1 a2 hs c1 }"

lemma fire_handlers_run:
  assumes stable: "\<And>cb x d d'. u_ev U cb t x a1 a2 d = Some d' \<Longrightarrow> ev_handlers d' = ev_handlers d \<and> handlers d' = handlers d"
    and "ev_handlers c = xs @ ys" and "distinct (ev_handlers c)"
    and "\<forall>n \<in> set ys. \<exists>h. handlers c n = Some h \<and> h_cb h \<noteq> None"
  shows "fire_handlers U t a1 a2 (first_in ys) c = run_handlers U t a1 a2 (map (\<lambda>n. the (handlers c n)) ys) c"
  using assms(2-4)
proof (induction ys arbitrary: xs c)
  case Nil
  then show ?case by (subst fire_handlers.simps) (simp add: first_in_def)
next
  case (Cons y ys)
  then obtain h cb where h: "handlers c y = Some h" "h_cb h = Some cb"
    by force
  let ?run = "u_ev U cb t (h_ex_data h) a1 a2 (note_call (Ev_handled (handler_id h) t a1 a2) c)"
  show ?case
  proof (cases ?run)
    case None
    then show ?thesis
      using h by (subst fire_handlers.simps) (simp add: first_in_def call_handler_def)
  next
    case (Some c1)
    then have c1: "ev_handlers c1 = (xs @ [y]) @ ys" "handlers c1 = handlers c"
      using stable [OF Some] Cons.prems(1) by (simp_all add: note_call_def)
    from Cons.IH [OF c1(1)] Cons.prems have
      "fire_handlers U t a1 a2 (first_in ys) c1 = run_handlers U t a1 a2 (map (\<lambda>n. the (handlers c n)) ys) c1"
      by (simp add: c1)
    moreover have "next_in y (ev_handlers c1) = first_in ys" "y \<in> set (ev_handlers c1)"
      using Cons.prems(1,2) by (simp_all add: c1 next_in_append)
    ultimately show ?thesis
      using h Some by (subst fire_handlers.simps) (simp add: first_in_def [of "y # ys"] call_handler_def)
  qed
qed

text \<open>
  C22. A network event that the client's state allows moves it to the next state, both as the
  table below has them, and then calls every registered handler exactly once, in registration
  order, with the event's arguments and the handler's own data, while the handler mutex is held;
  an event that the state does not allow aborts the program before any handler runs. The callbacks may
  do anything, calls of the library included, but add or remove handlers.
\<close>

theorem fire_event_runs_handlers:
  assumes "client_inv F G H c" and "net_event_ok t a1 a2"
    and "\<And>cb x d d'. u_ev U cb t x a1 a2 d = Some d' \<Longrightarrow> ev_handlers d' = ev_handlers d \<and> handlers d' = handlers d"
  shows "pc__trans_fire_event U t a1 a2 c =
    (if (t = PC_EV_CONNECTED \<longrightarrow> state c = PC_ST_CONNECTING) \<and>
        (t = PC_EV_CONNECT_ERROR \<or> t = PC_EV_CONNECT_FAILED \<longrightarrow> state c \<in> {PC_ST_CONNECTING, PC_ST_DISCONNECTING}) \<and>
        (t = PC_EV_DISCONNECT \<longrightarrow> state c = PC_ST_DISCONNECTING) \<and>
        (t = PC_EV_KICKED_BY_SERVER \<longrightarrow> state c \<in> {PC_ST_CONNECTED, PC_ST_DISCONNECTING}) \<and>
        (t = PC_EV_UNEXPECTED_DISCONNECT \<or> t = PC_EV_PROTO_ERROR \<longrightarrow>
           state c \<in> {PC_ST_CONNECTING, PC_ST_CONNECTED, PC_ST_DISCONNECTING})
     then do {
       d \<leftarrow> run_handlers U t a1 a2 (map (\<lambda>n. the (handlers c n)) (ev_handlers c))
             (pc_mutex_lock M_handler (c\<lparr>state :=
               (if t = PC_EV_CONNECTED then PC_ST_CONNECTED
                else if t \<in> {PC_EV_CONNECT_FAILED, PC_EV_DISCONNECT, PC_EV_KICKED_BY_SERVER} then PC_ST_INITED
                else if t \<in> {PC_EV_UNEXPECTED_DISCONNECT, PC_EV_PROTO_ERROR} then PC_ST_CONNECTING
                else state c)\<rparr>));
       pc_mutex_unlock M_handler d }
     else None)"
proof -
  have t: "0 \<le> t \<and> t < 8"
    using assms(2) by (auto simp: net_event_ok_def)
  have loop: "fire_handlers U t a1 a2 (first_in (ev_handlers c)) (pc_mutex_lock M_handler (c\<lparr>state := st\<rparr>)) =
      run_handlers U t a1 a2 (map (\<lambda>n. the (handlers c n)) (ev_handlers c)) (pc_mutex_lock M_handler (c\<lparr>state := st\<rparr>))" for st
    using assms(1) fire_handlers_run [OF assms(3), where c = "pc_mutex_lock M_handler (c\<lparr>state := st\<rparr>)" and xs = "[]" and ys = "ev_handlers c"]
    by (auto simp: client_inv_def handlers_inv_def)
  have code: "pc__trans_fire_event U t a1 a2 c = Option.bind (fire_state t (state c)) (\<lambda>st.
      Option.bind (run_handlers U t a1 a2 (map (\<lambda>n. the (handlers c n)) (ev_handlers c))
        (pc_mutex_lock M_handler (c\<lparr>state := st\<rparr>))) (pc_mutex_unlock M_handler))"
    using t assms(2) by (simp add: pc__trans_fire_event_def Let_def loop)
  have "t = PC_EV_CONNECTED \<or> t = PC_EV_USER_DEFINED_PUSH \<or> t = PC_EV_CONNECT_ERROR \<or> t = PC_EV_CONNECT_FAILED \<or>
      t = PC_EV_DISCONNECT \<or> t = PC_EV_KICKED_BY_SERVER \<or> t = PC_EV_UNEXPECTED_DISCONNECT \<or> t = PC_EV_PROTO_ERROR"
    using t by simp arith
  then show ?thesis
    unfolding code by (elim disjE) (simp_all add: fire_state_def)
qed

theorem fire_event_runs_handlers_witness:
  "pc__trans_fire_event quiet PC_EV_CONNECTED None None (with_handler PC_ST_CONNECTING) =
     Some ((with_handler PC_ST_CONNECTING)\<lparr>state := PC_ST_CONNECTED, history := [Ev_handled 0 1 None None]\<rparr>) \<and>
   pc__trans_fire_event quiet PC_EV_CONNECTED None None (with_handler PC_ST_INITED) = None"
  using fire_event_runs_handlers [OF with_handler_inv, of PC_EV_CONNECTED None None quiet]
  by (simp add: net_event_ok_def note_call_def)

text \<open>
  C31. The transports report \<open>PC_EV_DISCONNECT\<close> when a disconnect completes. If the connection
  was lost in between, the client is back in the connecting state and the report aborts.
\<close>

theorem lost_connection_while_disconnecting_aborts:
  assumes "client_inv F G H c" and "state c = PC_ST_DISCONNECTING"
    and "t \<in> {PC_EV_UNEXPECTED_DISCONNECT, PC_EV_PROTO_ERROR, PC_EV_KICKED_BY_SERVER, PC_EV_CONNECT_FAILED}"
    and "\<And>t cb x a1 a2 d. u_ev U cb t x a1 a2 d = Some d"
  shows "\<exists>c1. pc__trans_fire_event U t (Some why) None c = Some c1 \<and>
    pc__trans_fire_event U PC_EV_DISCONNECT None None c1 = None"
proof -
  obtain st where st: "fire_state t (state c) = Some st" "st \<noteq> PC_ST_DISCONNECTING"
    using assms(2,3) by (auto simp: fire_state_def)
  have "net_event_ok t (Some why) None"
    using assms(3) by (auto simp: net_event_ok_def)
  then have "pc__trans_fire_event U t (Some why) None c = Some (c\<lparr>state := st, history := history c @
         map (\<lambda>n. Ev_handled (handler_id (the (handlers c n))) t (Some why) None) (ev_handlers c)\<rparr>)"
    using fire_event_effect [OF assms(1)] assms(4) st(1) by simp
  moreover have "pc__trans_fire_event U PC_EV_DISCONNECT None None (c\<lparr>state := st, history := h\<rparr>) = None" for h
    using st(2) by (simp add: pc__trans_fire_event_def fire_state_def net_event_ok_def Let_def)
  ultimately show ?thesis by blast
qed

theorem lost_connection_while_disconnecting_aborts_witness:
  "\<exists>c1. pc__trans_fire_event quiet PC_EV_UNEXPECTED_DISCONNECT (Some ''Connection Reset'') None
      (with_handler PC_ST_DISCONNECTING) = Some c1 \<and>
    pc__trans_fire_event quiet PC_EV_DISCONNECT None None c1 = None"
  using lost_connection_while_disconnecting_aborts [OF with_handler_inv, of PC_ST_DISCONNECTING
      PC_EV_UNEXPECTED_DISCONNECT quiet "''Connection Reset''"]
  by simp

text \<open>
  C32. A handler whose callback removes that handler makes the delivery loop read the freed
  handler: the program has no defined behaviour.
\<close>

theorem handler_removing_itself_crashes:
  assumes "client_inv F G H c" and "net_event_ok t a1 a2" and "ev_handlers c = q # qs"
    and "handlers c q = Some h" and "h_cb h = Some cb"
    and "\<And>x a1 a2 d. u_ev U cb t x a1 a2 d = drop_rc (pc_client_rm_ev_handler V (handler_id h) d)"
    and "h_destructor h = None"
  shows "pc__trans_fire_event U t a1 a2 c = None"
proof (rule ccontr)
  assume "pc__trans_fire_event U t a1 a2 c \<noteq> None"
  then obtain st where run: "fire_handlers U t a1 a2 (Some q) (pc_mutex_lock M_handler (c\<lparr>state := st\<rparr>)) \<noteq> None"
    using assms(2,3) by (auto simp: pc__trans_fire_event_def Let_def first_in_def split: bind_splits if_splits)
  let ?c0 = "pc_mutex_lock M_handler (c\<lparr>state := st\<rparr>)"
  obtain c1 where c1: "call_handler U t a1 a2 q ?c0 = Some c1" and q: "q \<in> set (ev_handlers c1)"
    using run by (subst (asm) fire_handlers.simps) (auto split: bind_splits if_splits)
  have "distinct (q # qs)"
    using assms(1,3) by (simp add: client_inv_def handlers_inv_def)
  then have "q \<notin> set (ev_handlers c1)"
    using c1 assms(3-7)
    by (auto simp: call_handler_def drop_rc_def pc_client_rm_ev_handler_def Let_def note_call_def
        drop_handler_def pc_mutex_unlock_def pc_mutex_lock_def split: if_splits)
  with q show False by simp
qed

theorem handler_removing_itself_crashes_witness:
  "pc__trans_fire_event (quiet\<lparr>u_ev := \<lambda>_ _ _ _ _ d. drop_rc (pc_client_rm_ev_handler quiet 0 d)\<rparr>)
     PC_EV_CONNECTED None None ((with_handler PC_ST_CONNECTING)\<lparr>handlers := [0 \<mapsto>
       \<lparr>h_ex_data = 5, h_destructor = None, handler_id = 0, h_cb = Some 1\<rparr>]\<rparr>) = None"
proof -
  let ?c = "(with_handler PC_ST_CONNECTING)\<lparr>handlers := [0 \<mapsto>
       \<lparr>h_ex_data = 5, h_destructor = None, handler_id = 0, h_cb = Some 1\<rparr>]\<rparr>"
  have "client_inv {} {} {} ?c"
    using with_handler_inv [of PC_ST_CONNECTING]
    by (simp add: with_handler_def client_inv_def events_inv_def handlers_inv_def)
  then show ?thesis
    using handler_removing_itself_crashes [of "{}" "{}" "{}" ?c PC_EV_CONNECTED None None 0 "[]"
        "\<lparr>h_ex_data = 5, h_destructor = None, handler_id = 0, h_cb = Some 1\<rparr>" 1
        "quiet\<lparr>u_ev := \<lambda>_ _ _ _ _ d. drop_rc (pc_client_rm_ev_handler quiet 0 d)\<rparr>" quiet]
    by (simp add: net_event_ok_def)
qed

section \<open>Submission\<close>

lemma pool_get_other:
  "s \<noteq> Pre i \<Longrightarrow> pool_get (p\<lparr>slots := (slots p)[i := x]\<rparr>) s = pool_get p s"
  "s \<noteq> Dyn n \<Longrightarrow> pool_get (p\<lparr>heap := (heap p)(n \<mapsto> x)\<rparr>) s = pool_get p s"
  by (cases s; auto)+

lemma submit_request_effect:
  assumes inv: "client_inv F G H c" and cb: "cb \<noteq> None"
  obtains r q c1 where "submit_request rt m ex tmo cb c = Some (r, q, c1)"
    and "q = fill_request rt m (seq_num c) tmo ex (next_req_id (req_id_seq c)) cb q"
    and "seq_num c1 = seq_num c + 1" and "req_id_seq c1 = next_req_id (req_id_seq c) + 1"
    and "history c1 = history c @ [Req_accepted q]" and "req_queue c1 = req_queue c @ [r]"
    and "pool_get (requests c1) r = Some q" and "r \<notin> set (req_queue c)" and "client_inv F G H c1"
    and "queued (requests c1) (req_queue c) = queued (requests c) (req_queue c)"
proof -
  obtain r q c1 where sub: "submit_request rt m ex tmo cb c = Some (r, q, c1)"
    and q: "q = fill_request rt m (seq_num c) tmo ex (next_req_id (req_id_seq c)) cb q"
    and seq: "seq_num c1 = seq_num c + 1" "req_id_seq c1 = next_req_id (req_id_seq c) + 1"
    and h: "history c1 = history c @ [Req_accepted q]"
    using submit_request_Some [OF inv] by metis
  note s = submit_request_inv [OF inv cb sub, simplified]
  have "distinct (req_queue c @ [r])"
    using s by (auto simp: client_inv_def queue_inv_def pool_inv_def)
  then have fresh: "r \<notin> set (req_queue c)"
    by simp
  obtain r' p1 where a: "pool_alloc rq_ty rq_upd dyn_request (requests c) = (r', p1)"
    by (cases "pool_alloc rq_ty rq_upd dyn_request (requests c)")
  then have "r' = r" and same: "\<forall>s. s \<noteq> r \<longrightarrow> pool_get (requests c1) s = pool_get p1 s"
    using sub by (auto simp: submit_request_def alloc_request_def put_request_def pool_upd_Some pool_get_put unlock_Some pool_get_other
        note_call_def Let_def pc_mutex_lock_def Option.bind_eq_Some_conv split: prod.splits ref.splits if_splits)
  note p1 = a [unfolded \<open>r' = r\<close>]
  have "queued (requests c1) (req_queue c) = queued (requests c) (req_queue c)"
    using fresh same rq_pool.alloc_other(1) [OF p1] by (intro queued_cong) metis
  then show ?thesis
    using that [OF sub q seq h _ _ fresh] s by simp
qed

text \<open>
  C18. A valid request on a connecting or connected client is appended to the queue with the caller's
  strings, the next sequence number and the next id that is not reserved, in a slot that no queued request
  occupies and without touching the requests already queued; both counters advance; and the transport is handed exactly
  this request. If the transport takes it, its answer is returned; if it refuses it and leaves the client
  alone, the refusal is returned, the queue is what it was, the slot is free, no callback runs and the
  counters stay advanced. A missing string or callback, a wrong state and a bad timeout are
  each answered by their code and change nothing.
\<close>

theorem request_outcome:
  assumes inv: "client_inv F G H c" and tran: "tran c \<noteq> None"
  shows "if rt = None \<or> m = None \<or> cb = None then
      pc_request_with_timeout T rt m ex tmo cb c = Some (PC_RC_INVALID_ARG, c)
    else if pc_client_state c \<notin> {PC_ST_CONNECTED, PC_ST_CONNECTING} then
      pc_request_with_timeout T rt m ex tmo cb c = Some (PC_RC_INVALID_STATE, c)
    else if tmo \<noteq> PC_WITHOUT_TIMEOUT \<and> tmo \<le> 0 then
      pc_request_with_timeout T rt m ex tmo cb c = Some (PC_RC_INVALID_ARG, c)
    else \<exists>r q c1. route (req_base q) = rt \<and> msg (req_base q) = m \<and> rq_ex_data (req_base q) = ex \<and>
      timeout (req_base q) = tmo \<and> rq_seq_num (req_base q) = seq_num c \<and> req_cb q = cb \<and>
      req_id q = (if req_id_seq c \<in> {PC_NOTIFY_PUSH_REQ_ID, PC_INVALID_REQ_ID} then 1 else req_id_seq c) \<and>
      req_queue c1 = req_queue c @ [r] \<and> pool_get (requests c1) r = Some q \<and> r \<notin> set (req_queue c) \<and>
      queued (requests c1) (req_queue c) = queued (requests c) (req_queue c) \<and>
      client_inv F G H c1 \<and> seq_num c1 = seq_num c + 1 \<and> req_id_seq c1 = req_id q + 1 \<and>
      history c1 = history c @ [Req_accepted q] \<and>
      (\<forall>c2. t_send T rt (seq_num c) m (req_id q) tmo c1 = Some (PC_RC_OK, c2) \<longrightarrow>
         pc_request_with_timeout T rt m ex tmo cb c = Some (PC_RC_OK, c2)) \<and>
      (\<forall>rc t. rc \<noteq> PC_RC_OK \<longrightarrow> rc_ok rc \<longrightarrow>
         t_send T rt (seq_num c) m (req_id q) tmo c1 = Some (rc, c1\<lparr>tran := t\<rparr>) \<longrightarrow>
         (\<exists>c3. pc_request_with_timeout T rt m ex tmo cb c = Some (rc, c3) \<and>
            req_queue c3 = req_queue c \<and> client_inv F G H c3 \<and> \<not> in_use rq_ty (requests c3) r \<and>
            seq_num c3 = seq_num c + 1 \<and> req_id_seq c3 = req_id q + 1 \<and>
            history c3 = history c @ [Req_accepted q, Req_withdrawn q])) \<and>
      (t_send T rt (seq_num c) m (req_id q) tmo c1 = None \<longrightarrow> pc_request_with_timeout T rt m ex tmo cb c = None)"
proof (cases "rt = None \<or> m = None \<or> cb = None \<or> pc_client_state c \<notin> {PC_ST_CONNECTED, PC_ST_CONNECTING} \<or>
    tmo \<noteq> PC_WITHOUT_TIMEOUT \<and> tmo \<le> 0")
  case True
  then show ?thesis
    by (auto simp: pc_request_with_timeout_def)
next
  case valid: False
  then have cb: "cb \<noteq> None"
    by simp
  obtain r q c1 where sub: "submit_request rt m ex tmo cb c = Some (r, q, c1)"
    and q: "q = fill_request rt m (seq_num c) tmo ex (next_req_id (req_id_seq c)) cb q"
    and s: "seq_num c1 = seq_num c + 1" "req_id_seq c1 = next_req_id (req_id_seq c) + 1"
      "history c1 = history c @ [Req_accepted q]" "req_queue c1 = req_queue c @ [r]"
      "pool_get (requests c1) r = Some q" "r \<notin> set (req_queue c)" "client_inv F G H c1"
      "queued (requests c1) (req_queue c) = queued (requests c) (req_queue c)"
    by (rule submit_request_effect [OF inv cb])
  have f: "route (req_base q) = rt" "msg (req_base q) = m" "rq_ex_data (req_base q) = ex"
    "timeout (req_base q) = tmo" "rq_seq_num (req_base q) = seq_num c" "req_cb q = cb"
    "req_id q = next_req_id (req_id_seq c)"
    by (subst q; simp add: fill_request_def fill_common_def)+
  have code: "pc_request_with_timeout T rt m ex tmo cb c =
      Option.bind (t_send T rt (seq_num c) m (req_id q) tmo c1) (\<lambda>(ret, c2).
        Option.bind (if ret \<noteq> PC_RC_OK then Option.bind (pc_client_rc_str ret) (\<lambda>_. withdraw_request r c2) else Some c2)
          (\<lambda>c3. Some (ret, c3)))"
    unfolding pc_request_with_timeout_def using valid tran sub f by auto
  have refused: "\<exists>c3. pc_request_with_timeout T rt m ex tmo cb c = Some (rc, c3) \<and>
          req_queue c3 = req_queue c \<and> client_inv F G H c3 \<and> \<not> in_use rq_ty (requests c3) r \<and>
          seq_num c3 = seq_num c + 1 \<and> req_id_seq c3 = req_id q + 1 \<and>
          history c3 = history c @ [Req_accepted q, Req_withdrawn q]"
    if rc: "rc \<noteq> PC_RC_OK" "rc_ok rc"
      and send: "t_send T rt (seq_num c) m (req_id q) tmo c1 = Some (rc, c1\<lparr>tran := t\<rparr>)" for rc t
  proof -
    let ?c2 = "c1\<lparr>tran := t\<rparr>"
    have inv2: "client_inv F G H ?c2" and rq: "r \<in> set (req_queue ?c2)" "pool_get (requests ?c2) r = Some q"
      using s by simp_all
    let ?c2' = "note_call (Req_withdrawn q) (?c2\<lparr>req_queue := remove1 r (req_queue ?c2)\<rparr>)"
    obtain c3 where c3: "finish_request r ?c2' = Some c3" "\<not> in_use rq_ty (requests c3) r"
      "c3 = ?c2'\<lparr>requests := requests c3\<rparr>"
      using withdraw_request_taken [OF inv2 rq] finish_request_Some by metis
    have w: "withdraw_request r ?c2 = Some c3"
      using withdraw_request_code [OF rq(2)] c3(1) by simp
    have "req_queue c3 = req_queue c" "history c3 = history c @ [Req_accepted q, Req_withdrawn q]"
      "seq_num c3 = seq_num c + 1" "req_id_seq c3 = req_id q + 1"
      using s f(7) by (subst c3(3); simp add: note_call_def remove1_append)+
    then show ?thesis
      using code rc send w c3(2) withdraw_request_inv [OF inv2 rq(1) w] by simp
  qed
  have v: "\<not> (rt = None \<or> m = None \<or> cb = None)" "\<not> pc_client_state c \<notin> {PC_ST_CONNECTED, PC_ST_CONNECTING}"
    "\<not> (tmo \<noteq> PC_WITHOUT_TIMEOUT \<and> tmo \<le> 0)"
    using valid by auto
  show ?thesis
    unfolding if_not_P [OF v(1)] if_not_P [OF v(2)] if_not_P [OF v(3)]
    by (rule exI [of _ r], rule exI [of _ q], rule exI [of _ c1], intro conjI allI impI)
      (use f s refused code in \<open>auto simp: next_req_id_def\<close>)
qed

theorem request_outcome_witness:
  "\<exists>q c c'. pc_request_with_timeout ((dummy_ops quiet)\<lparr>t_send := \<lambda>_ _ _ _ _ c. Some (PC_RC_OK, c)\<rparr>)
      (Some ''a'') (Some ''b'') 2 10 (Some 3) (started PC_ST_CONNECTED False) = Some (PC_RC_OK, c) \<and>
    queued (requests c) (req_queue c) = [q] \<and> route (req_base q) = Some ''a'' \<and> timeout (req_base q) = 10 \<and>
    rq_seq_num (req_base q) = 0 \<and> req_id q = 1 \<and> seq_num c = 1 \<and> req_id_seq c = 2 \<and>
    pc_request_with_timeout ((dummy_ops quiet)\<lparr>t_send := \<lambda>_ _ _ _ _ c. Some (PC_RC_ERROR, c)\<rparr>)
      (Some ''a'') (Some ''b'') 2 10 (Some 3) (started PC_ST_CONNECTED False) = Some (PC_RC_ERROR, c') \<and> req_queue c' = [] \<and>
    pc_request_with_timeout (dummy_ops quiet) (Some ''a'') (Some ''b'') 2 0 (Some 3) (started PC_ST_CONNECTED False) =
      Some (PC_RC_INVALID_ARG, started PC_ST_CONNECTED False)"
proof -
  let ?c = "started PC_ST_CONNECTED False"
  let ?T = "\<lambda>rc. (dummy_ops quiet)\<lparr>t_send := \<lambda>_ _ _ _ _ c. Some (rc, c)\<rparr>"
  have st: "pc_client_state ?c = PC_ST_CONNECTED" and tran: "tran ?c \<noteq> None"
    by (simp_all add: pc_client_state_def)
  note out = request_outcome [OF started_inv tran, where rt = "Some ''a''" and m = "Some ''b''" and ex = 2 and cb = "Some 3"]
  obtain q c where c: "pc_request_with_timeout (?T PC_RC_OK) (Some ''a'') (Some ''b'') 2 10 (Some 3) ?c = Some (PC_RC_OK, c)"
    "queued (requests c) (req_queue c) = [q]" "route (req_base q) = Some ''a''" "timeout (req_base q) = 10"
    "rq_seq_num (req_base q) = 0" "req_id q = 1" "seq_num c = 1" "req_id_seq c = 2"
    using out [where T = "?T PC_RC_OK" and tmo = 10] st by (auto simp: queued_def)
  have same: "d\<lparr>tran := tran d\<rparr> = d" for d :: "dummy_transport pc_client"
    by simp
  obtain c' where c': "pc_request_with_timeout (?T PC_RC_ERROR) (Some ''a'') (Some ''b'') 2 10 (Some 3) ?c = Some (PC_RC_ERROR, c')"
    "req_queue c' = []"
  proof -
    obtain c1 :: "dummy_transport pc_client" where "\<forall>t. Some (PC_RC_ERROR, c1) = Some (PC_RC_ERROR, c1\<lparr>tran := t\<rparr>) \<longrightarrow>
         (\<exists>c3. pc_request_with_timeout (?T PC_RC_ERROR) (Some ''a'') (Some ''b'') 2 10 (Some 3) ?c = Some (PC_RC_ERROR, c3) \<and>
            req_queue c3 = [])"
      using out [where T = "?T PC_RC_ERROR" and tmo = 10] st by (fastforce simp: rc_ok_def)
    from this [rule_format, of "tran c1"] show ?thesis
      using that same by auto
  qed
  have "pc_request_with_timeout (dummy_ops quiet) (Some ''a'') (Some ''b'') 2 0 (Some 3) ?c = Some (PC_RC_INVALID_ARG, ?c)"
    using out [where T = "dummy_ops quiet" and tmo = 0] st by simp
  with c c' show ?thesis
    by blast
qed

section \<open>Polling\<close>

lemma first_match:
  assumes "x \<in> set q" and "P x"
  obtains xs r ys where "q = xs @ r # ys" and "P r" and "\<forall>s \<in> set xs. \<not> P s"
  using assms split_list_first_prop [of q P] by blast

lemma queued_accepted:
  assumes "client_inv F G H c"
  shows "r \<in> set (req_queue c) \<Longrightarrow> \<exists>q. pool_get (requests c) r = Some q \<and> req_cb q \<noteq> None"
    and "r \<in> set (notify_queue c) \<Longrightarrow> \<exists>n. pool_get (notifies c) r = Some n \<and> ntf_cb n \<noteq> None"
proof -
  assume r: "r \<in> set (req_queue c)"
  have "pool_inv rq_ty (requests c) (req_queue c) F"
    using assms by (simp add: client_inv_def queue_inv_def)
  then obtain q where q: "pool_get (requests c) r = Some q"
    using inv_get r by blast
  then have "q \<in> set (queued (requests c) (req_queue c))"
    using r by (force simp: queued_def)
  then have "q \<in># mset (accepted_reqs (history c))"
    by (simp only: inv_meaning(1) [OF assms] set_mset_union set_mset_mset Un_iff simp_thms)
  then show "\<exists>q. pool_get (requests c) r = Some q \<and> req_cb q \<noteq> None"
    using assms q by (auto simp: client_inv_def)
next
  assume r: "r \<in> set (notify_queue c)"
  have "pool_inv nt_ty (notifies c) (notify_queue c) G"
    using assms by (simp add: client_inv_def queue_inv_def)
  then obtain n where n: "pool_get (notifies c) r = Some n"
    using inv_get r by blast
  then have "n \<in> set (queued (notifies c) (notify_queue c))"
    using r by (force simp: queued_def)
  then have "n \<in># mset (accepted_ntfs (history c))"
    by (simp only: inv_meaning(2) [OF assms] set_mset_union set_mset_mset Un_iff simp_thms)
  then show "\<exists>n. pool_get (notifies c) r = Some n \<and> ntf_cb n \<noteq> None"
    using assms n by (auto simp: client_inv_def)
qed

text \<open>
  What the delivery of pending events means, on the items themselves: the requests and notifies that wait, the
  state and the history. A response goes to the first waiting request with its id, a sent report to the
  first waiting notify with its sequence number, and either is dropped if there is none; a network
  event steps the state machine and goes to every handler. \<open>None\<close>: an event that the state does not allow.
\<close>

type_synonym waiting = "pc_request list \<times> pc_notify list \<times> pc_state \<times> call list"

definition deliver_now :: "pc_ev_handler list \<Rightarrow> ev_data \<Rightarrow> waiting \<Rightarrow> waiting option" where
  "deliver_now hs d w = (case w of (rs, ns, st, log) \<Rightarrow>
     (case d of
        Ev_req rid rc resp \<Rightarrow>
          Some (case find (\<lambda>q. req_id q = rid) rs of
                  None \<Rightarrow> w
                | Some q \<Rightarrow> (remove1 q rs, ns, st, log @ [Req_answered q rc resp]))
      | Ev_notify seq rc \<Rightarrow>
          Some (case find (\<lambda>n. rq_seq_num (ntf_base n) = seq) ns of
                  None \<Rightarrow> w
                | Some n \<Rightarrow> (rs, remove1 n ns, st, log @ [Ntf_answered n rc]))
      | Ev_net t a1 a2 \<Rightarrow>
          do { st' \<leftarrow> fire_state t st;
               Some (rs, ns, st', log @ map (\<lambda>h. Ev_handled (handler_id h) t a1 a2) hs) }))"

primrec deliver_all :: "pc_ev_handler list \<Rightarrow> ev_data list \<Rightarrow> waiting \<Rightarrow> waiting option" where
  "deliver_all hs [] w = Some w"
| "deliver_all hs (d # ds) w = do { w1 \<leftarrow> deliver_now hs d w; deliver_all hs ds w1 }"

definition waiting_of :: "'t pc_client \<Rightarrow> waiting" where
  "waiting_of c = (queued (requests c) (req_queue c), queued (notifies c) (notify_queue c), state c, history c)"

definition handlers_of :: "'t pc_client \<Rightarrow> pc_ev_handler list" where
  "handlers_of c = map (\<lambda>n. the (handlers c n)) (ev_handlers c)"

definition same_events :: "'t pc_client \<Rightarrow> 't pc_client \<Rightarrow> bool" where
  "same_events c c' \<longleftrightarrow> pending_events c' = pending_events c \<and> pending_ev_queue c' = pending_ev_queue c \<and>
     config c' = config c \<and> handlers_of c' = handlers_of c"

definition quiet_user_fns :: "'t user \<Rightarrow> bool" where
  "quiet_user_fns U \<longleftrightarrow> (\<forall>cb q rc resp d. u_req U cb q rc resp d = Some d) \<and> (\<forall>cb q rc d. u_ntf U cb q rc d = Some d)"

definition looking_user :: "'t user \<Rightarrow> bool" where
  "looking_user U \<longleftrightarrow> quiet_user_fns U \<and> (\<forall>cb t x a1 a2 d. u_ev U cb t x a1 a2 d = Some d)"

lemma find_split:
  assumes "\<forall>x \<in> set xs. \<not> P x" and "P y"
  shows "find P (xs @ y # ys) = Some y" and "remove1 y (xs @ y # ys) = xs @ ys"
  using assms by (induction xs) auto

lemma queued_split: "queued p (r # ys) = the (pool_get p r) # queued p ys" "queued p (xs @ ys) = queued p xs @ queued p ys"
  by (simp_all add: queued_def)

text \<open>A delivery with callbacks that only look returns, touches no event, and does what the specification says.\<close>

lemma quiet_resp:
  assumes inv: "client_inv F G H c" and rc: "rc_ok rc" and quiet: "looking_user U"
  shows "\<exists>c'. pc__trans_resp U rid rc resp c = Some c' \<and> same_events c c' \<and>
    deliver_now hs (Ev_req rid rc resp) (waiting_of c) = Some (waiting_of c')"
proof (cases "rid \<in> req_id ` set (queued (requests c) (req_queue c))")
  case True
  then obtain r0 where "r0 \<in> set (req_queue c)" "req_id (the (pool_get (requests c) r0)) = rid"
    by (auto simp: queued_def)
  then obtain xs r ys where q: "req_queue c = xs @ r # ys" and id: "req_id (the (pool_get (requests c) r)) = rid"
    and xs: "\<forall>s \<in> set xs. req_id (the (pool_get (requests c) s)) \<noteq> rid"
    using first_match [of r0 "req_queue c" "\<lambda>r. req_id (the (pool_get (requests c) r)) = rid"] by metis
  have "r \<in> set (req_queue c)" using q by simp
  then obtain x cb where x: "pool_get (requests c) r = Some x" "req_cb x = Some cb"
    using queued_accepted(1) [OF inv] by blast
  have dist: "distinct (req_queue c)"
    using inv by (auto simp: client_inv_def queue_inv_def pool_inv_def)
  then have "remove1 r (req_queue c) = xs @ ys"
    using q by (simp add: remove1_append)
  then have inv1: "client_inv (insert r F) G H (note_call (Req_answered x rc resp) (c\<lparr>req_queue := xs @ ys\<rparr>))"
    using answer_request [OF inv \<open>r \<in> set (req_queue c)\<close> x(1)] by simp
  let ?d = "note_call (Req_answered x rc resp) (c\<lparr>req_queue := xs @ ys\<rparr>)"
  have "u_req U cb x rc resp ?d = Some ?d"
    using quiet by (simp add: looking_user_def quiet_user_fns_def)
  from resp_effect [OF inv q xs x(1) _ x(2) rc this inv1] id x(1) obtain p where
    run: "pc__trans_resp U rid rc resp c = Some (?d\<lparr>requests := p\<rparr>)"
    and same: "\<forall>s. s \<noteq> r \<longrightarrow> pool_get p s = pool_get (requests c) s"
    by (auto simp: note_call_def)
  have "r \<notin> set (xs @ ys)"
    using dist q by simp
  then have "queued p (xs @ ys) = queued (requests c) (xs @ ys)"
    using same by (intro queued_cong) metis
  then have kept: "queued p xs @ queued p ys = queued (requests c) xs @ queued (requests c) ys"
    by (simp add: queued_split)
  have "\<forall>y \<in> set (queued (requests c) xs). req_id y \<noteq> rid"
    using xs by (simp add: queued_def)
  from find_split [OF this, of x] id x(1) have "find (\<lambda>q. req_id q = rid) (queued (requests c) (req_queue c)) = Some x"
    "remove1 x (queued (requests c) (req_queue c)) = queued p (xs @ ys)"
    by (simp_all add: q queued_split kept)
  then show ?thesis
    using run by (auto simp: waiting_of_def deliver_now_def note_call_def same_events_def handlers_of_def)
next
  case False
  then have "find (\<lambda>q. req_id q = rid) (queued (requests c) (req_queue c)) = None"
    by (auto simp: find_None_iff)
  then show ?thesis
    using resp_unknown [OF False inv] by (auto simp: same_events_def deliver_now_def waiting_of_def)
qed

lemma quiet_sent:
  assumes inv: "client_inv F G H c" and rc: "rc_ok rc" and quiet: "looking_user U"
  shows "\<exists>c'. pc__trans_sent U rid rc c = Some c' \<and> same_events c c' \<and>
    deliver_now hs (Ev_notify rid rc) (waiting_of c) = Some (waiting_of c')"
proof (cases "rid \<in> (\<lambda>n. rq_seq_num (ntf_base n)) ` set (queued (notifies c) (notify_queue c))")
  case True
  then obtain r0 where "r0 \<in> set (notify_queue c)" "rq_seq_num (ntf_base (the (pool_get (notifies c) r0))) = rid"
    by (auto simp: queued_def)
  then obtain xs r ys where q: "notify_queue c = xs @ r # ys" and id: "rq_seq_num (ntf_base (the (pool_get (notifies c) r))) = rid"
    and xs: "\<forall>s \<in> set xs. rq_seq_num (ntf_base (the (pool_get (notifies c) s))) \<noteq> rid"
    using first_match [of r0 "notify_queue c" "\<lambda>r. rq_seq_num (ntf_base (the (pool_get (notifies c) r))) = rid"] by metis
  have "r \<in> set (notify_queue c)" using q by simp
  then obtain x cb where x: "pool_get (notifies c) r = Some x" "ntf_cb x = Some cb"
    using queued_accepted(2) [OF inv] by blast
  have dist: "distinct (notify_queue c)"
    using inv by (auto simp: client_inv_def queue_inv_def pool_inv_def)
  then have "remove1 r (notify_queue c) = xs @ ys"
    using q by (simp add: remove1_append)
  then have inv1: "client_inv F (insert r G) H (note_call (Ntf_answered x rc) (c\<lparr>notify_queue := xs @ ys\<rparr>))"
    using answer_notify [OF inv \<open>r \<in> set (notify_queue c)\<close> x(1)] by simp
  let ?d = "note_call (Ntf_answered x rc) (c\<lparr>notify_queue := xs @ ys\<rparr>)"
  have "u_ntf U cb x rc ?d = Some ?d"
    using quiet by (simp add: looking_user_def quiet_user_fns_def)
  from sent_effect [OF inv q xs x(1) _ x(2) rc this inv1] id x(1) obtain p where
    run: "pc__trans_sent U rid rc c = Some (?d\<lparr>notifies := p\<rparr>)"
    and same: "\<forall>s. s \<noteq> r \<longrightarrow> pool_get p s = pool_get (notifies c) s"
    by (auto simp: note_call_def)
  have "r \<notin> set (xs @ ys)"
    using dist q by simp
  then have "queued p (xs @ ys) = queued (notifies c) (xs @ ys)"
    using same by (intro queued_cong) metis
  then have kept: "queued p xs @ queued p ys = queued (notifies c) xs @ queued (notifies c) ys"
    by (simp add: queued_split)
  have "\<forall>y \<in> set (queued (notifies c) xs). rq_seq_num (ntf_base y) \<noteq> rid"
    using xs by (simp add: queued_def)
  from find_split [OF this, of x] id x(1) have
    "find (\<lambda>n. rq_seq_num (ntf_base n) = rid) (queued (notifies c) (notify_queue c)) = Some x"
    "remove1 x (queued (notifies c) (notify_queue c)) = queued p (xs @ ys)"
    by (simp_all add: q queued_split kept)
  then show ?thesis
    using run by (auto simp: waiting_of_def deliver_now_def note_call_def same_events_def handlers_of_def)
next
  case False
  then have "find (\<lambda>n. rq_seq_num (ntf_base n) = rid) (queued (notifies c) (notify_queue c)) = None"
    by (auto simp: find_None_iff)
  then show ?thesis
    using sent_unknown [OF False inv] by (auto simp: same_events_def deliver_now_def waiting_of_def)
qed

lemma quiet_event:
  assumes inv: "client_inv F G H c" and ok: "net_event_ok t a1 a2" and quiet: "looking_user U"
  shows "case deliver_now (handlers_of c) (Ev_net t a1 a2) (waiting_of c) of
      None \<Rightarrow> pc__trans_fire_event U t a1 a2 c = None
    | Some w \<Rightarrow> \<exists>c'. pc__trans_fire_event U t a1 a2 c = Some c' \<and> same_events c c' \<and> waiting_of c' = w"
proof -
  have "u_ev U cb t x a1 a2 d = Some d" for cb x d
    using quiet by (simp add: looking_user_def quiet_user_fns_def)
  from fire_event_effect [OF inv ok this] show ?thesis
    by (cases "fire_state t (state c)")
      (auto simp: deliver_now_def waiting_of_def handlers_of_def same_events_def)
qed

lemma quiet_deliver:
  assumes inv: "client_inv F G H c" and ok: "event_ok e" and quiet: "looking_user U"
    and e: "pool_get (pending_events c) r = Some e"
  shows "case deliver_now (handlers_of c) (ev_data e) (waiting_of c) of
      None \<Rightarrow> deliver_event U r e c = None
    | Some w \<Rightarrow> \<exists>c1. deliver_event U r e c = Some c1 \<and> pending_ev_queue c1 = pending_ev_queue c \<and>
        config c1 = config c \<and> handlers_of c1 = handlers_of c \<and> waiting_of c1 = w \<and>
        (\<exists>x. pool_get (pending_events c1) r = Some x) \<and>
        (\<forall>s. s \<noteq> r \<longrightarrow> pool_get (pending_events c1) s = pool_get (pending_events c) s)"
proof -
  have put: "\<exists>p. put_event r f d = Some (d\<lparr>pending_events := p\<rparr>) \<and> (\<exists>x. pool_get p r = Some x) \<and>
      (\<forall>s. s \<noteq> r \<longrightarrow> pool_get p s = pool_get (pending_events c) s)"
    if "same_events c d" for f and d :: "'a pc_client"
  proof -
    have e': "pool_get (pending_events d) r = Some e"
      using that e by (simp add: same_events_def)
    obtain p where p: "pool_put r (f e) (pending_events d) = Some p"
      using pool_put_Some [OF e'] by blast
    then show ?thesis
      using e' that pool_get_put [OF p] by (auto simp: put_event_def pool_upd_def same_events_def)
  qed
  have fields: "waiting_of (d\<lparr>pending_events := p\<rparr>) = waiting_of d" "handlers_of (d\<lparr>pending_events := p\<rparr>) = handlers_of d"
    for p and d :: "'a pc_client"
    by (simp_all add: waiting_of_def handlers_of_def)
  show ?thesis
  proof (cases "ev_data e")
    case (Ev_req rid rc resp)
    then have t: "PC_EV_IS_RESP (ev_type_word e)" "rc_ok rc"
      using ok by (simp_all add: event_ok_def)
    obtain c1 where c1: "pc__trans_resp U rid rc resp c = Some c1" "same_events c c1"
      "deliver_now (handlers_of c) (Ev_req rid rc resp) (waiting_of c) = Some (waiting_of c1)"
      using quiet_resp [OF inv t(2) quiet] by blast
    from put [OF c1(2)] show ?thesis
      using Ev_req t c1 by (fastforce simp: deliver_event_def fields same_events_def)
  next
    case (Ev_notify seq rc)
    then have t: "PC_EV_IS_NOTIFY_SENT (ev_type_word e)" "\<not> PC_EV_IS_RESP (ev_type_word e)" "rc_ok rc"
      using ok by (simp_all add: event_ok_def)
    obtain c1 where c1: "pc__trans_sent U seq rc c = Some c1" "same_events c c1"
      "deliver_now (handlers_of c) (Ev_notify seq rc) (waiting_of c) = Some (waiting_of c1)"
      using quiet_sent [OF inv t(3) quiet] by blast
    then show ?thesis
      using Ev_notify t e by (simp add: deliver_event_def same_events_def)
  next
    case (Ev_net t a1 a2)
    then have t: "\<not> PC_EV_IS_NOTIFY_SENT (ev_type_word e)" "\<not> PC_EV_IS_RESP (ev_type_word e)" "net_event_ok t a1 a2"
      using ok by (simp_all add: event_ok_def)
    then have ev: "0 \<le> t \<and> t < 8"
      by (auto simp: net_event_ok_def)
    note run = quiet_event [OF inv t(3) quiet]
    show ?thesis
    proof (cases "deliver_now (handlers_of c) (Ev_net t a1 a2) (waiting_of c)")
      case None
      then show ?thesis
        using run Ev_net t by (simp add: deliver_event_def)
    next
      case (Some w)
      then obtain c1 where c1: "pc__trans_fire_event U t a1 a2 c = Some c1" "same_events c c1" "waiting_of c1 = w"
        using run by auto
      from put [OF c1(2)] show ?thesis
        using Ev_net t c1 ev Some by (fastforce simp: deliver_event_def fields same_events_def)
    qed
  qed
qed

lemma quiet_handle:
  assumes user: "client_user U" and inv: "client_inv F G (insert r H) c" and r: "r \<notin> H"
    and poll: "enable_polling (config c)" and ok: "event_ok e" and quiet: "looking_user U"
    and e: "pool_get (pending_events c) r = Some e"
  shows "case deliver_now (handlers_of c) (ev_data e) (waiting_of c) of
      None \<Rightarrow> pc__handle_event U r c = None
    | Some w \<Rightarrow> \<exists>c'. pc__handle_event U r c = Some c' \<and> client_inv F G H c' \<and> frame c c' \<and>
        handlers_of c' = handlers_of c \<and> waiting_of c' = w \<and> pending_ev_queue c' = pending_ev_queue c \<and>
        (\<forall>s. s \<noteq> r \<longrightarrow> pool_get (pending_events c') s = pool_get (pending_events c) s)"
proof -
  note d = quiet_deliver [OF inv ok quiet e]
  have kind: "PC_EV_IS_RESP (ev_type_word e) \<or> PC_EV_IS_NOTIFY_SENT (ev_type_word e) \<or> PC_EV_IS_NET_EVENT (ev_type_word e)"
    using ok by (auto simp: event_ok_def split: ev_data.splits)
  show ?thesis
  proof (cases "deliver_now (handlers_of c) (ev_data e) (waiting_of c)")
    case None
    then show ?thesis
      using d e by (simp add: pc__handle_event_def)
  next
    case (Some w)
    then obtain c1 x where c1: "deliver_event U r e c = Some c1" "pending_ev_queue c1 = pending_ev_queue c"
      "config c1 = config c" "handlers_of c1 = handlers_of c" "waiting_of c1 = w"
      "pool_get (pending_events c1) r = Some x"
      "\<And>s. s \<noteq> r \<Longrightarrow> pool_get (pending_events c1) s = pool_get (pending_events c) s"
      using d by auto
    have inv1: "client_inv F G (insert r H) c1"
      using client_user.deliver_event_inv [OF user inv insertI1 c1(1)] by simp
    then have "pool_inv ev_type_word (pending_events c1) (pending_ev_queue c1) (insert r H)"
      using poll c1(3) by (simp add: client_inv_def events_inv_def)
    then obtain p where p: "pool_release ev_type_word ev_upd r (pending_events c1) = Some p"
      using ev_pool.inv_release_Some by blast
    have run: "pc__handle_event U r c = Some (c1\<lparr>pending_events := p\<rparr>)"
      using kind e c1(1,6) p by (auto simp: pc__handle_event_def pool_release_def pre_or_dyn free_event_def
          put_event_def pool_upd_def)
    from client_user.handle_event_inv [OF user inv r poll run]
    show ?thesis
      using Some run c1 ev_pool.release_get_other [OF p] by (auto simp: waiting_of_def handlers_of_def)
  qed
qed

lemma quiet_poll_loop:
  assumes user: "client_user U" and quiet: "looking_user U"
  shows "client_inv F G H c \<Longrightarrow> enable_polling (config c) \<Longrightarrow> pending_ev_queue c = rs \<Longrightarrow>
    case deliver_all (handlers_of c) (map ev_data (queued (pending_events c) rs)) (waiting_of c) of
      None \<Rightarrow> poll_loop U c = None
    | Some w \<Rightarrow> \<exists>c'. poll_loop U c = Some c' \<and> client_inv F G H c' \<and> frame c c' \<and> pending_ev_queue c' = [] \<and> waiting_of c' = w"
proof (induction rs arbitrary: c)
  case Nil
  then show ?case by (subst poll_loop.simps, subst poll_loop.simps) (simp add: queued_def)
next
  case (Cons r rs)
  let ?c1 = "c\<lparr>pending_ev_queue := rs\<rparr>"
  have m: "r \<in> set (pending_ev_queue c)" and rm: "remove1 r (pending_ev_queue c) = rs"
    using Cons.prems(3) by simp_all
  note t = take_event [OF Cons.prems(1,2) m, unfolded rm]
  obtain e where e: "pool_get (pending_events c) r = Some e" "event_ok e"
    using t(3) by blast
  have i: "pool_inv ev_type_word (pending_events c) (pending_ev_queue c) H"
    using Cons.prems(1,2) by (simp add: client_inv_def events_inv_def)
  then have fresh: "r \<notin> set rs"
    using Cons.prems(3) by (auto simp: pool_inv_def)
  have "in_use ev_type_word (pending_events c) r" "pool_ok ev_type_word (pending_events c)"
    using i m by (auto simp: pool_inv_def)
  then have busy: "PC_IS_PRE_ALLOC (ev_type_word e) \<and> PC_PRE_ALLOC_IS_BUSY (ev_type_word e) \<or> PC_IS_DYN_ALLOC (ev_type_word e)"
    using e(1) by (auto simp: in_use_iff busy_or_idle pre_or_dyn)
  have step: "poll_loop U c = Option.bind (pc__handle_event U r ?c1) (poll_loop U)"
    using Cons.prems(3) e(1) busy by (subst poll_loop.simps) simp
  have fields: "waiting_of ?c1 = waiting_of c" "handlers_of ?c1 = handlers_of c"
    by (simp_all add: waiting_of_def handlers_of_def)
  have data: "map ev_data (queued (pending_events c) (r # rs)) = ev_data e # map ev_data (queued (pending_events c) rs)"
    using e(1) by (simp add: queued_def)
  have "pool_get (pending_events ?c1) r = Some e" "enable_polling (config ?c1)"
    using e(1) Cons.prems(2) by simp_all
  note h = quiet_handle [OF user t(1,2) this(2) e(2) quiet this(1), unfolded fields]
  show ?case
  proof (cases "deliver_now (handlers_of c) (ev_data e) (waiting_of c)")
    case None
    then show ?thesis
      using h by (simp add: step data)
  next
    case (Some w)
    then obtain c2 where
      c2: "pc__handle_event U r ?c1 = Some c2" "client_inv F G H c2" "frame c c2" "handlers_of c2 = handlers_of c"
      "waiting_of c2 = w" "pending_ev_queue c2 = rs" "\<forall>s. s \<noteq> r \<longrightarrow> pool_get (pending_events c2) s = pool_get (pending_events c) s"
      using h by auto
    then have same: "queued (pending_events c2) rs = queued (pending_events c) rs"
      using fresh by (intro queued_cong) metis
    have "enable_polling (config c2)"
      using c2(3) Cons.prems(2) by (simp add: frame_def)
    from Cons.IH [OF c2(2) this c2(6)] show ?thesis
      using Some c2(1,3) frame_trans unfolding step data same c2(4,5)
      by (fastforce split: option.splits)
  qed
qed

text \<open>
  C19. Polling is delivery, deferred: with callbacks that only look, \<open>pc_client_poll\<close> called from outside a
  poll delivers every pending event, responses, sent reports and network events, exactly once and in the order
  they were queued, with the effect the specification gives each; then it returns with no
  event pending, every event slot free and no mutex it did not hold before. If one of the events is
  not allowed in the state it meets, the program aborts.
\<close>

theorem poll_drains:
  assumes "client_user U" and "looking_user U" and "client_inv F G {} c" and "enable_polling (config c)"
    and "\<not> is_in_poll c"
  shows "case deliver_all (handlers_of c) (map ev_data (queued (pending_events c) (pending_ev_queue c))) (waiting_of c) of
      None \<Rightarrow> pc_client_poll U c = None
    | Some w \<Rightarrow> \<exists>c'. pc_client_poll U c = Some (PC_RC_OK, c') \<and> client_inv F G {} c' \<and> waiting_of c' = w \<and>
        pending_ev_queue c' = [] \<and> (\<forall>r. \<not> in_use ev_type_word (pending_events c') r) \<and>
        locks c' = locks c \<and> \<not> is_in_poll c'"
proof -
  let ?c1 = "(pc_mutex_lock M_event c)\<lparr>is_in_poll := True\<rparr>"
  have fields: "waiting_of ?c1 = waiting_of c" "handlers_of ?c1 = handlers_of c"
    by (simp_all add: waiting_of_def handlers_of_def)
  have "client_inv F G {} ?c1" "enable_polling (config ?c1)" "pending_ev_queue ?c1 = pending_ev_queue c"
    using assms(3,4) by simp_all
  note loop = quiet_poll_loop [OF assms(1,2) this, unfolded fields, simplified]
  show ?thesis
  proof (cases "deliver_all (handlers_of c) (map ev_data (queued (pending_events c) (pending_ev_queue c))) (waiting_of c)")
    case None
    then show ?thesis
      using loop assms(4,5) by (simp add: pc_client_poll_def Let_def)
  next
    case (Some w)
    then obtain c2 where c2: "poll_loop U ?c1 = Some c2" "client_inv F G {} c2" "frame ?c1 c2" "pending_ev_queue c2 = []"
      "waiting_of c2 = w"
      using loop by auto
    then have l: "locks c2 = (locks c)(M_event := Suc (locks c M_event))" "enable_polling (config c2)"
      using assms(4) by (auto simp: frame_def pc_mutex_lock_def)
    then have "pc_client_poll U c = Some (PC_RC_OK, c2\<lparr>is_in_poll := False, locks := locks c\<rparr>)"
      using assms(4,5) c2(1) by (simp add: pc_client_poll_def Let_def pc_mutex_unlock_def)
    moreover have "waiting_of (c2\<lparr>is_in_poll := False, locks := locks c\<rparr>) = w"
      using c2(5) by (simp add: waiting_of_def)
    ultimately show ?thesis
      using Some c2(2,4) l(2) by (auto simp: client_inv_def events_inv_def pool_inv_def handlers_inv_def)
  qed
qed

theorem poll_drains_witness:
  "\<exists>c0 c c'. pc__trans_queue_event PC_EV_CONNECTED None None (started PC_ST_CONNECTING True) = Some c0 \<and>
    pc__trans_queue_resp 5 PC_RC_OK None c0 = Some c \<and> length (pending_ev_queue c) = 2 \<and>
    pc_client_poll quiet c = Some (PC_RC_OK, c') \<and> pending_ev_queue c' = [] \<and> state c' = PC_ST_CONNECTED"
proof -
  let ?s = "started PC_ST_CONNECTING True"
  let ?run = "Option.bind (pc__trans_queue_event PC_EV_CONNECTED None None ?s) (pc__trans_queue_resp 5 PC_RC_OK None)"
  have "case ?run of None \<Rightarrow> False | Some c \<Rightarrow> length (pending_ev_queue c) = 2 \<and> enable_polling (config c) \<and>
      \<not> is_in_poll c \<and> deliver_all (handlers_of c) (map ev_data (queued (pending_events c) (pending_ev_queue c))) (waiting_of c) =
        Some ([], [], PC_ST_CONNECTED, [])"
    by code_simp
  then obtain c0 c where c: "pc__trans_queue_event PC_EV_CONNECTED None None ?s = Some c0"
    "pc__trans_queue_resp 5 PC_RC_OK None c0 = Some c" "length (pending_ev_queue c) = 2" "enable_polling (config c)"
    "\<not> is_in_poll c" "deliver_all (handlers_of c) (map ev_data (queued (pending_events c) (pending_ev_queue c))) (waiting_of c) =
        Some ([], [], PC_ST_CONNECTED, [])"
    by (cases ?run) (auto simp: Option.bind_eq_Some_conv)
  have "client_inv {} {} {} c0"
    using keepsD [OF keeps_queue_event started_inv c(1)] by simp
  then have inv: "client_inv {} {} {} c" and quiet: "looking_user quiet"
    using keepsD [OF keeps_queue_resp _ c(2)] by (simp_all add: looking_user_def quiet_user_fns_def)
  show ?thesis
    using poll_drains [OF quiet_user quiet inv c(4,5)] c(1-3,6) by (auto simp: waiting_of_def)
qed

section \<open>Starting and stopping\<close>

text \<open>
  C27. With a plugin that works, initialising a client makes it ready: the invariant holds with
  nothing in progress, no lock held, state \<open>PC_ST_INITED\<close>; initialising it again changes nothing.
  Without a plugin for the configured transport the call fails with \<open>PC_RC_NO_TRANS\<close>, and for
  the default configuration (NULL) it crashes in its own error message.
\<close>

theorem client_init_outcome:
  assumes "magic_num c0 \<noteq> pc__init_magic_num"
    and "get_plugin (config_transport_name cfg) = Some tp" and "transport_create tp = Some t"
    and "transport_init tp (c0\<lparr>config := cfg, tran := Some t\<rparr>) = Some (0, d)"
  shows "\<exists>c. pc_client_init get_plugin ex (Some cfg) c0 = Some (PC_RC_OK, c) \<and> client_inv {} {} {} c \<and>
      pc_client_state c = PC_ST_INITED \<and> locks c = (\<lambda>_. 0) \<and> tran c = tran d \<and> c_ex_data c = ex \<and>
      pc_client_init get_plugin ex (Some cfg) c = Some (PC_RC_OK, c) \<and>
      pc_client_init (\<lambda>_. None) ex (Some cfg) c0 =
        Some (PC_RC_NO_TRANS, c0\<lparr>config := cfg, magic_num := 0\<rparr>) \<and>
      pc_client_init (\<lambda>_. None) ex None c0 = None"
proof -
  have "client_inv {} {} {} (init_fields ex d)" by (rule init_inv)
  moreover have "pc_client_state (init_fields ex d) = PC_ST_INITED" "locks (init_fields ex d) = (\<lambda>_. 0)"
    "tran (init_fields ex d) = tran d" "c_ex_data (init_fields ex d) = ex"
    "magic_num (init_fields ex d) = pc__init_magic_num"
    by (simp_all add: init_fields_def Let_def pc_client_state_def)
  ultimately show ?thesis
    using assms by (simp add: pc_client_init_def Let_def)
qed

theorem client_init_outcome_witness:
  "\<exists>c. pc_client_init (\<lambda>_. Some dummy_plugin_impl) 7 (Some PC_CLIENT_CONFIG_DEFAULT) zeroed_client = Some (PC_RC_OK, c) \<and>
    pc_client_state c = PC_ST_INITED \<and>
    pc_client_init (\<lambda>_. None) 7 None (zeroed_client :: dummy_transport pc_client) = None"
  using client_init_outcome [of zeroed_client "\<lambda>_. Some dummy_plugin_impl" PC_CLIENT_CONFIG_DEFAULT dummy_plugin_impl
      "\<lparr>d_client = 0\<rparr>" "zeroed_client\<lparr>config := PC_CLIENT_CONFIG_DEFAULT, tran := Some \<lparr>d_client = 1\<rparr>\<rparr>" 7]
  by (auto simp: zeroed_client_def pc__init_magic_num_def dummy_plugin_impl_def dummy_trans_create_def dummy_init_def)

text \<open>
  C29. Over the dummy transport, without polling and with event callbacks that only look, connecting an
  initialised client succeeds and leaves it connected, and disconnecting it again leaves it initialised;
  every handler sees the two events once each, in registration order.
\<close>

theorem dummy_connect_disconnect:
  assumes "client_inv F G H c" and "pc_client_state c = PC_ST_INITED" and "magic_num c = pc__init_magic_num"
    and "\<not> enable_polling (config c)" and "tran c \<noteq> None" and "0 \<le> port" and "port \<le> 65535"
    and quiet: "\<And>cb t x a1 a2 d. u_ev U cb t x a1 a2 d = Some d"
  shows "\<exists>c1 c2. pc_client_connect U (dummy_ops U) (Some host) port opts c = Some (PC_RC_OK, c1) \<and>
      pc_client_state c1 = PC_ST_CONNECTED \<and>
      pc_client_disconnect U (dummy_ops U) c1 = Some (PC_RC_OK, c2) \<and> pc_client_state c2 = PC_ST_INITED \<and>
      history c2 = history c @
        map (\<lambda>n. Ev_handled (handler_id (the (handlers c n))) PC_EV_CONNECTED None None) (ev_handlers c) @
        map (\<lambda>n. Ev_handled (handler_id (the (handlers c n))) PC_EV_DISCONNECT None None) (ev_handlers c)"
proof -
  let ?ev = "\<lambda>t. map (\<lambda>n. Ev_handled (handler_id (the (handlers c n))) t None None) (ev_handlers c)"
  have ev: "net_event_ok PC_EV_CONNECTED None None" "net_event_ok PC_EV_DISCONNECT None None"
    by (simp_all add: net_event_ok_def)
  have st: "state c = PC_ST_INITED"
    using assms(2,3) by (simp add: pc_client_state_def)
  let ?c1 = "c\<lparr>state := PC_ST_CONNECTED, history := history c @ ?ev PC_EV_CONNECTED\<rparr>"
  have "client_inv F G H (c\<lparr>state := PC_ST_CONNECTING\<rparr>)"
    using assms(1) by simp
  from fire_event_effect [OF this ev(1), of U] quiet assms(4)
  have fire1: "pc_trans_fire_event U PC_EV_CONNECTED None None (c\<lparr>state := PC_ST_CONNECTING\<rparr>) = Some ?c1"
    by (simp add: pc_trans_fire_event_def fire_state_def)
  have connect: "pc_client_connect U (dummy_ops U) (Some host) port opts c = Some (PC_RC_OK, ?c1)"
    using assms(2-7) st fire1
    by (simp add: pc_client_connect_def poll_if_enabled_def set_state_code dummy_ops_def dummy_connect_def
        pc_client_state_def)
  have accepted: "accepted_reqs (?ev t) = []" "settled_reqs (?ev t) = []" "accepted_ntfs (?ev t) = []"
    "settled_ntfs (?ev t) = []" for t
    by (simp_all add: history_defs List.map_filter_def)
  have inv2: "client_inv F G H (?c1\<lparr>state := PC_ST_DISCONNECTING\<rparr>)"
    using assms(1) by (simp add: client_inv_def events_inv_def handlers_inv_def accepted)
  from fire_event_effect [OF inv2 ev(2), of U] quiet assms(4)
  have fire2: "pc_trans_fire_event U PC_EV_DISCONNECT None None (?c1\<lparr>state := PC_ST_DISCONNECTING\<rparr>) =
      Some (?c1\<lparr>state := PC_ST_INITED, history := history c @ ?ev PC_EV_CONNECTED @ ?ev PC_EV_DISCONNECT\<rparr>)"
    by (simp add: pc_trans_fire_event_def fire_state_def)
  have "pc_client_disconnect U (dummy_ops U) ?c1 =
      Some (PC_RC_OK, ?c1\<lparr>state := PC_ST_INITED, history := history c @ ?ev PC_EV_CONNECTED @ ?ev PC_EV_DISCONNECT\<rparr>)"
    using assms(3-5) fire2
    by (simp add: pc_client_disconnect_def poll_if_enabled_def set_state_code dummy_ops_def dummy_disconnect_def
        pc_client_state_def Let_def)
  then show ?thesis
    using connect assms(3) by (intro exI conjI) (auto simp: pc_client_state_def)
qed

theorem dummy_connect_disconnect_witness:
  "\<exists>c1 c2. pc_client_connect quiet (dummy_ops quiet) (Some ''h'') 80 None (with_handler PC_ST_INITED) = Some (PC_RC_OK, c1) \<and>
    pc_client_state c1 = PC_ST_CONNECTED \<and>
    pc_client_disconnect quiet (dummy_ops quiet) c1 = Some (PC_RC_OK, c2) \<and>
    history c2 = [Ev_handled 0 1 None None, Ev_handled 0 4 None None]"
proof -
  have "pc_client_state (with_handler PC_ST_INITED) = PC_ST_INITED"
    by (simp add: pc_client_state_def)
  then show ?thesis
    using dummy_connect_disconnect [OF with_handler_inv, of PC_ST_INITED 80 quiet "''h''" None] by auto
qed

text \<open>Dropping all handlers, with destructors that return and leave what the cleanup works on alone.\<close>

lemma free_handlers_quiet:
  assumes modest: "\<And>d x e. \<exists>e'. u_destroy U d x e = Some e' \<and> ev_handlers e' = ev_handlers e \<and> handlers e' = handlers e \<and>
      handler_fresh e' = handler_fresh e \<and> locks e' = locks e \<and> tran e' = tran e \<and> history e' = history e"
  shows "handlers_inv c \<Longrightarrow> ev_handlers c = qs \<Longrightarrow>
    \<exists>c'. free_handlers U c = Some c' \<and> ev_handlers c' = [] \<and> locks c' = locks c \<and> tran c' = tran c \<and>
      (\<forall>n. handlers c' n = (if n \<in> set qs then None else handlers c n)) \<and>
      history c' = history c @ List.map_filter (\<lambda>n. map_option (\<lambda>_. Destroyed (handler_id (the (handlers c n))))
        (h_destructor (the (handlers c n)))) qs"
proof (induction qs arbitrary: c)
  case Nil
  then show ?case by (subst free_handlers.simps) (simp add: List.map_filter_def)
next
  case (Cons q qs)
  then obtain h where h: "handlers c q = Some h"
    by (auto simp: handlers_inv_def)
  obtain c1 where drop: "drop_handler U q h c = Some c1" and c1: "ev_handlers c1 = qs" "locks c1 = locks c"
    "tran c1 = tran c" "handlers c1 = (handlers c)(q := None)" "handler_fresh c1 = handler_fresh c"
    "history c1 = history c @ (case h_destructor h of None \<Rightarrow> [] | Some _ \<Rightarrow> [Destroyed (handler_id h)])"
  proof (cases "h_destructor h")
    case None
    then show ?thesis
      using that Cons.prems(2) h by (simp add: drop_handler_def)
  next
    case (Some d)
    let ?c0 = "note_call (Destroyed (handler_id h)) (c\<lparr>ev_handlers := qs\<rparr>)"
    obtain e where e: "u_destroy U d (h_ex_data h) ?c0 = Some e" "ev_handlers e = qs" "handlers e = handlers c"
      "handler_fresh e = handler_fresh c" "locks e = locks c" "tran e = tran c" "history e = history c @ [Destroyed (handler_id h)]"
      using modest [of d "h_ex_data h" ?c0] by (auto simp: note_call_def)
    then have "drop_handler U q h c = Some (e\<lparr>handlers := (handlers c)(q := None)\<rparr>)"
      using Cons.prems(2) h Some by (simp add: drop_handler_def)
    from that [OF this] show ?thesis
      using e Some by simp
  qed
  have "q \<notin> set qs" "handlers_inv c1"
    using Cons.prems c1 by (auto simp: handlers_inv_def)
  note c1 = this(2) c1(1-4) this(1) c1(6)
  obtain c' where c': "free_handlers U c1 = Some c'" "ev_handlers c' = []" "locks c' = locks c1" "tran c' = tran c1"
    "\<forall>n. handlers c' n = (if n \<in> set qs then None else handlers c1 n)"
    "history c' = history c1 @ List.map_filter (\<lambda>n. map_option (\<lambda>_. Destroyed (handler_id (the (handlers c1 n))))
        (h_destructor (the (handlers c1 n)))) qs"
    using Cons.IH [OF c1(1,2)] by blast
  have "List.map_filter (\<lambda>n. map_option (\<lambda>_. Destroyed (handler_id (the (handlers c1 n))))
        (h_destructor (the (handlers c1 n)))) qs =
      List.map_filter (\<lambda>n. map_option (\<lambda>_. Destroyed (handler_id (the (handlers c n))))
        (h_destructor (the (handlers c n)))) qs"
    unfolding List.map_filter_def using c1(5,6) by (intro map_cong filter_cong) auto
  then have "history c' = history c @ List.map_filter (\<lambda>n. map_option (\<lambda>_. Destroyed (handler_id (the (handlers c n))))
        (h_destructor (the (handlers c n)))) (q # qs)"
    using c'(6) c1(7) h by (simp add: List.map_filter_simps split: option.splits)
  moreover have "free_handlers U c = Some c'"
    using Cons.prems(2) h drop c'(1) by (subst free_handlers.simps) simp
  ultimately show ?case
    using c' c1 by auto
qed

text \<open>
  C28. Cleaning up an initialised client. If the transport's own cleanup fails, its code is returned
  and nothing else happens. If it succeeds, the transport is released and, once the poll that a polling
  client still runs has returned with no event pending and no lock held, every handler's destructor runs once, in
  registration order, its memory is freed, all mutexes are free to be destroyed, and the client is
  back in the uninitialised state; a second cleanup does nothing. If a request or notify is still
  queued, the cleanup aborts. The destructors may do anything that returns and leaves the handlers, the locks,
  the transport and the record of calls alone.
\<close>

theorem client_cleanup_outcome:
  assumes "magic_num c = pc__init_magic_num" and "tran c \<noteq> None"
    and "t_cleanup T c = Some (rc, d)" and "rc_ok rc"
    and "rc = PC_RC_OK \<Longrightarrow> poll_if_enabled U (d\<lparr>tran := None\<rparr>) = Some e \<and> handlers_inv e \<and> tran e = None \<and>
      locks e = (\<lambda>_. 0) \<and> (enable_polling (config d) \<longrightarrow> pending_ev_queue e = [])"
    and "\<And>f x b. \<exists>b'. u_destroy U f x b = Some b' \<and> ev_handlers b' = ev_handlers b \<and> handlers b' = handlers b \<and>
      handler_fresh b' = handler_fresh b \<and> locks b' = locks b \<and> tran b' = tran b \<and> history b' = history b"
  shows "if rc \<noteq> PC_RC_OK then pc_client_cleanup U T c = Some (rc, d)
    else if req_queue e = [] \<and> notify_queue e = [] then
      \<exists>c'. pc_client_cleanup U T c = Some (PC_RC_OK, c') \<and> tran c' = None \<and> ev_handlers c' = [] \<and>
        (\<forall>n. handlers c' n = (if n \<in> set (ev_handlers e) then None else handlers e n)) \<and>
        history c' = history e @ List.map_filter (\<lambda>n. map_option (\<lambda>_. Destroyed (handler_id (the (handlers e n))))
          (h_destructor (the (handlers e n)))) (ev_handlers e) \<and>
        pc_client_state c' = PC_ST_NOT_INITED \<and> pc_client_cleanup U T c' = Some (PC_RC_OK, c')
    else pc_client_cleanup U T c = None"
proof (cases "rc = PC_RC_OK")
  case False
  then show ?thesis
    using assms(1-4) by (simp add: pc_client_cleanup_def)
next
  case True
  then have e: "poll_if_enabled U (d\<lparr>tran := None\<rparr>) = Some e" "handlers_inv e" "tran e = None" "locks e = (\<lambda>_. 0)"
    "enable_polling (config d) \<longrightarrow> Pre 0 \<notin> set (pending_ev_queue e)"
    using assms(5) by auto
  show ?thesis
  proof (cases "req_queue e = [] \<and> notify_queue e = []")
    case empty: True
    from free_handlers_quiet [OF assms(6) e(2) refl] obtain c1 where
      c1: "free_handlers U e = Some c1" "ev_handlers c1 = []" "locks c1 = locks e" "tran c1 = tran e"
        "\<forall>n. handlers c1 n = (if n \<in> set (ev_handlers e) then None else handlers e n)"
        "history c1 = history e @ List.map_filter (\<lambda>n. map_option (\<lambda>_. Destroyed (handler_id (the (handlers e n))))
            (h_destructor (the (handlers e n)))) (ev_handlers e)"
      by auto
    have "pc_client_cleanup U T c =
        Some (PC_RC_OK, c1\<lparr>req_id_seq := 1, seq_num := 0, magic_num := 0, state := PC_ST_NOT_INITED\<rparr>)"
      using True empty assms(1-3) e c1(1,3) by (simp add: pc_client_cleanup_def pc_mutex_destroy_def)
    then show ?thesis
      using True empty e(3) c1 by (simp add: pc_client_state_def pc__init_magic_num_def pc_client_cleanup_def)
  next
    case False
    then show ?thesis
      using True assms(1-3) e by (auto simp: pc_client_cleanup_def)
  qed
qed

theorem client_cleanup_outcome_witness:
  "\<exists>c'. pc_client_cleanup quiet (dummy_ops quiet) (with_handler PC_ST_CONNECTED) = Some (PC_RC_OK, c') \<and>
    handlers c' 0 = None \<and> history c' = [Destroyed 0] \<and> pc_client_state c' = PC_ST_NOT_INITED \<and>
    pc_client_cleanup quiet ((dummy_ops quiet)\<lparr>t_cleanup := \<lambda>c. Some (PC_RC_ERROR, c)\<rparr>) (with_handler PC_ST_CONNECTED) =
      Some (PC_RC_ERROR, with_handler PC_ST_CONNECTED)"
proof -
  let ?c = "with_handler PC_ST_CONNECTED"
  have inv: "handlers_inv (?c\<lparr>tran := None\<rparr>)"
    using with_handler_inv [of PC_ST_CONNECTED] by (simp add: client_inv_def handlers_inv_def)
  note out = client_cleanup_outcome [where c = ?c and d = ?c and U = quiet and e = "?c\<lparr>tran := None\<rparr>"]
  have "pc_client_cleanup quiet ((dummy_ops quiet)\<lparr>t_cleanup := \<lambda>c. Some (PC_RC_ERROR, c)\<rparr>) ?c = Some (PC_RC_ERROR, ?c)"
    using out [where T = "(dummy_ops quiet)\<lparr>t_cleanup := \<lambda>c. Some (PC_RC_ERROR, c)\<rparr>" and rc = PC_RC_ERROR] by (simp add: rc_ok_def)
  then show ?thesis
    using out [where T = "dummy_ops quiet" and rc = PC_RC_OK] inv
    by (auto simp: dummy_ops_def dummy_cleanup_def poll_if_enabled_def rc_ok_def List.map_filter_simps)
qed

end
