(* ===== verification/Double.thy ===== *)
theory Double
  imports Prelude Complex_Main
begin

text \<open>
  The C types \<open>double\<close> and \<open>float\<close> as the 64-bit and 32-bit words of IEEE 754: exact values are
  rationals, every operation rounds its exact result to the nearest representable number, ties
  to even. \<open>pow(10.0, k)\<close> is the correctly rounded power. A conversion to \<open>int\<close> whose value is
  out of range, undefined in C, yields \<open>INT_MIN\<close> as on x86-64. \<open>sprintf\<close> with the four formats that the
  program uses is defined on the exact value.
\<close>

section \<open>Rounding\<close>

definition round_even :: "rat \<Rightarrow> int" where
  "round_even x =
     (let f = \<lfloor>x\<rfloor>; r = x - of_int f
      in if r < 1 / 2 then f else if r > 1 / 2 then f + 1 else if even f then f else f + 1)"

function bitlen :: "int \<Rightarrow> int" where
  "bitlen n = (if n \<le> 0 then 0 else 1 + bitlen (n div 2))"
  by pat_completeness auto
termination
  by (relation "measure nat") auto

declare bitlen.simps [simp del]

text \<open>\<open>2 ^ k\<close> for any integer \<open>k\<close>, and the exponent of a positive number.\<close>

definition pow2 :: "int \<Rightarrow> rat" where
  "pow2 k = (if k \<ge> 0 then 2 ^ nat k else 1 / 2 ^ nat (- k))"

definition ilog2 :: "rat \<Rightarrow> int" where
  "ilog2 x = (case quotient_of x of (n, d) \<Rightarrow>
     let k = bitlen n - bitlen d in if x < pow2 k then k - 1 else k)"

text \<open>
  The magnitude bits (without sign) of a format with \<open>m\<close> fraction and \<open>e\<close> exponent bits:
  \<open>min_exp\<close> is the exponent of the last bit of a subnormal.
\<close>

definition min_exp :: "nat \<Rightarrow> nat \<Rightarrow> int" where
  "min_exp m e = 2 - 2 ^ (e - 1) - int m"

definition inf_bits :: "nat \<Rightarrow> nat \<Rightarrow> int" where
  "inf_bits m e = (2 ^ e - 1) * 2 ^ m"

definition ieee_bits :: "nat \<Rightarrow> nat \<Rightarrow> rat \<Rightarrow> int" where
  "ieee_bits m e x =
     (if x = 0 then 0
      else let E = max (ilog2 x - int m) (min_exp m e);
               b = (E - min_exp m e) * 2 ^ m + round_even (x / pow2 E)
           in min b (inf_bits m e))"

definition ieee_val :: "nat \<Rightarrow> nat \<Rightarrow> int \<Rightarrow> rat" where
  "ieee_val m e b =
     (let k = b div 2 ^ m; f = b mod 2 ^ m
      in if k = 0 then of_int f * pow2 (min_exp m e)
         else of_int (2 ^ m + f) * pow2 (k - 1 + min_exp m e))"

section \<open>Doubles\<close>

type_synonym double = u64

definition dbl_neg :: "double \<Rightarrow> bool" where "dbl_neg d = bit d 63"
definition dbl_mag :: "double \<Rightarrow> int" where "dbl_mag d = uint (take_bit 63 d)"
definition dbl_is_nan :: "double \<Rightarrow> bool" where "dbl_is_nan d \<longleftrightarrow> dbl_mag d > inf_bits 52 11"
definition dbl_is_inf :: "double \<Rightarrow> bool" where "dbl_is_inf d \<longleftrightarrow> dbl_mag d = inf_bits 52 11"
definition dbl_finite :: "double \<Rightarrow> bool" where "dbl_finite d \<longleftrightarrow> dbl_mag d < inf_bits 52 11"

definition dbl_val :: "double \<Rightarrow> rat" where
  "dbl_val d = (let v = ieee_val 52 11 (dbl_mag d) in if dbl_neg d then - v else v)"

definition dbl_pack :: "bool \<Rightarrow> int \<Rightarrow> double" where
  "dbl_pack s b = (if s then set_bit 63 (word_of_int b) else word_of_int b)"

definition dbl_nan :: double where "dbl_nan = word_of_int (inf_bits 52 11 + 2 ^ 51)"

text \<open>Rounding an exact value; a zero result takes the sign \<open>z\<close>.\<close>

definition dbl_round :: "bool \<Rightarrow> rat \<Rightarrow> double" where
  "dbl_round z x = (if x = 0 then dbl_pack z 0 else dbl_pack (x < 0) (ieee_bits 52 11 \<bar>x\<bar>))"

definition dbl_of_int :: "int \<Rightarrow> double" where
  "dbl_of_int i = dbl_round False (of_int i)"

definition dbl_minus :: "double \<Rightarrow> double" where
  "dbl_minus d = flip_bit 63 d"

definition dbl_abs :: "double \<Rightarrow> double" where
  "dbl_abs d = take_bit 63 d"

definition dbl_add :: "double \<Rightarrow> double \<Rightarrow> double" where
  "dbl_add a b =
     (if dbl_is_nan a \<or> dbl_is_nan b then dbl_nan
      else if dbl_is_inf a \<and> dbl_is_inf b then (if dbl_neg a = dbl_neg b then a else dbl_nan)
      else if dbl_is_inf a then a
      else if dbl_is_inf b then b
      else dbl_round (dbl_neg a \<and> dbl_neg b) (dbl_val a + dbl_val b))"

definition dbl_sub :: "double \<Rightarrow> double \<Rightarrow> double" where
  "dbl_sub a b = dbl_add a (dbl_minus b)"

definition dbl_mul :: "double \<Rightarrow> double \<Rightarrow> double" where
  "dbl_mul a b =
     (let s = (dbl_neg a \<noteq> dbl_neg b)
      in if dbl_is_nan a \<or> dbl_is_nan b then dbl_nan
         else if dbl_is_inf a \<or> dbl_is_inf b then
           (if dbl_finite a \<and> dbl_val a = 0 \<or> dbl_finite b \<and> dbl_val b = 0 then dbl_nan
            else dbl_pack s (inf_bits 52 11))
         else dbl_round s (dbl_val a * dbl_val b))"

text \<open>Order; every comparison with a NaN is false.\<close>

definition dbl_lt :: "double \<Rightarrow> double \<Rightarrow> bool" where
  "dbl_lt a b \<longleftrightarrow> \<not> dbl_is_nan a \<and> \<not> dbl_is_nan b \<and>
     (if dbl_is_inf a then dbl_neg a \<and> \<not> (dbl_is_inf b \<and> dbl_neg b)
      else if dbl_is_inf b then \<not> dbl_neg b
      else dbl_val a < dbl_val b)"

definition dbl_le :: "double \<Rightarrow> double \<Rightarrow> bool" where
  "dbl_le a b \<longleftrightarrow> \<not> dbl_is_nan a \<and> \<not> dbl_is_nan b \<and> \<not> dbl_lt b a"

definition dbl_floor :: "double \<Rightarrow> double" where
  "dbl_floor d = (if dbl_finite d then dbl_round (dbl_neg d) (of_int \<lfloor>dbl_val d\<rfloor>) else d)"

definition INT_MAX :: int where [simp]: "INT_MAX = 2147483647"
definition INT_MIN :: int where [simp]: "INT_MIN = -2147483648"

definition rat_trunc :: "rat \<Rightarrow> int" where
  "rat_trunc x = (if x < 0 then - \<lfloor>- x\<rfloor> else \<lfloor>x\<rfloor>)"

definition dbl_to_int :: "double \<Rightarrow> int" where
  "dbl_to_int d =
     (if dbl_finite d \<and> INT_MIN \<le> rat_trunc (dbl_val d) \<and> rat_trunc (dbl_val d) \<le> INT_MAX
      then rat_trunc (dbl_val d) else INT_MIN)"

definition DBL_EPSILON :: double where
  "DBL_EPSILON = dbl_round False (pow2 (- 52))"

definition dbl_pow10 :: "int \<Rightarrow> double" where
  "dbl_pow10 k =
     (if k > 400 then dbl_pack False (inf_bits 52 11)
      else if k < - 400 then dbl_pack False 0
      else dbl_round False (if k \<ge> 0 then 10 ^ nat k else 1 / 10 ^ nat (- k)))"

section \<open>Single precision\<close>

definition float_of_double :: "double \<Rightarrow> u32" where
  "float_of_double d =
     (if dbl_is_nan d then 0x7FC00000
      else (let b = (if dbl_is_inf d then inf_bits 23 8 else ieee_bits 23 8 \<bar>dbl_val d\<bar>)
            in if dbl_neg d then set_bit 31 (word_of_int b) else word_of_int b))"

definition double_of_float :: "u32 \<Rightarrow> double" where
  "double_of_float f =
     (let b = uint (take_bit 31 f)
      in if b > inf_bits 23 8 then dbl_nan
         else if b = inf_bits 23 8 then dbl_pack (bit f 31) (inf_bits 52 11)
         else (let v = ieee_val 23 8 b in dbl_round (bit f 31) (if bit f 31 then - v else v)))"

section \<open>Decimal output\<close>

definition digit_char :: "int \<Rightarrow> char" where
  "digit_char i = char_of (nat (48 + i))"

function digits :: "int \<Rightarrow> string" where
  "digits n = (if n < 10 then [digit_char n] else digits (n div 10) @ [digit_char (n mod 10)])"
  by pat_completeness auto
termination
  by (relation "measure nat") auto

declare digits.simps [simp del]

definition sprintf_d :: "int \<Rightarrow> string" where
  "sprintf_d i = (if i < 0 then CHR 0x2D # digits (- i) else digits i)"

definition pad_left :: "nat \<Rightarrow> string \<Rightarrow> string" where
  "pad_left n s = replicate (n - length s) (CHR 0x30) @ s"

definition not_finite_str :: "double \<Rightarrow> string" where
  "not_finite_str d = (if dbl_neg d then ''-'' else '''') @ (if dbl_is_inf d then ''inf'' else ''nan'')"

text \<open>\<open>%.<p>f\<close>\<close>

definition sprintf_f :: "nat \<Rightarrow> double \<Rightarrow> string" where
  "sprintf_f p d =
     (if \<not> dbl_finite d then not_finite_str d
      else let n = round_even (\<bar>dbl_val d\<bar> * 10 ^ p)
           in (if dbl_neg d then ''-'' else '''') @ digits (n div 10 ^ p) @
              (if p = 0 then '''' else ''.'' @ pad_left p (digits (n mod 10 ^ p))))"

text \<open>\<open>%e\<close>: one digit, six decimals, and an exponent of at least two digits.\<close>

definition pow10r :: "int \<Rightarrow> rat" where
  "pow10r k = (if k \<ge> 0 then 10 ^ nat k else 1 / 10 ^ nat (- k))"

definition ilog10 :: "rat \<Rightarrow> int" where
  "ilog10 x = (case quotient_of x of (n, d) \<Rightarrow>
     let k = int (length (digits n)) - int (length (digits d))
     in if x < pow10r k then k - 1 else k)"

definition sprintf_e :: "double \<Rightarrow> string" where
  "sprintf_e d =
     (if \<not> dbl_finite d then not_finite_str d
      else let x = \<bar>dbl_val d\<bar>;
               k0 = (if x = 0 then 0 else ilog10 x);
               n0 = round_even (x * pow10r (6 - k0));
               (n, k) = (if n0 \<ge> 10 ^ 7 then (n0 div 10, k0 + 1) else (n0, k0))
           in (if dbl_neg d then ''-'' else '''') @ digits (n div 10 ^ 6) @ ''.'' @
              pad_left 6 (digits (n mod 10 ^ 6)) @ ''e'' @
              (if k < 0 then ''-'' else ''+'') @ pad_left 2 (digits \<bar>k\<bar>))"

section \<open>Integers are exact\<close>

lemma bitlen_bounds: "0 < n \<Longrightarrow> 0 < bitlen n \<and> 2 ^ nat (bitlen n - 1) \<le> n \<and> n < 2 ^ nat (bitlen n)"
proof (induction n rule: bitlen.induct)
  case (1 n)
  show ?case
  proof (cases "n = 1")
    case True
    then show ?thesis by (simp add: bitlen.simps)
  next
    case False
    then have "0 < n div 2" using 1(2) by simp
    with 1 have ih: "0 < bitlen (n div 2)" "2 ^ nat (bitlen (n div 2) - 1) \<le> n div 2"
      "n div 2 < 2 ^ nat (bitlen (n div 2))" by auto
    have b: "bitlen n = 1 + bitlen (n div 2)"
      using 1(2) by (subst bitlen.simps) simp
    have e: "nat (bitlen n - 1) = Suc (nat (bitlen (n div 2) - 1))" "nat (bitlen n) = Suc (nat (bitlen (n div 2)))"
      using ih(1) b by simp_all
    have "2 * (n div 2) \<le> n" "n < 2 * (n div 2) + 2" by auto
    then have "2 * 2 ^ nat (bitlen (n div 2) - 1) \<le> n" "n < 2 * 2 ^ nat (bitlen (n div 2))"
      using ih by linarith+
    then show ?thesis
      unfolding e using ih b by simp
  qed
qed

lemma quotient_of_of_int: "quotient_of (of_int i) = (i, 1)"
  using quotient_of_int [of i] by (simp add: Rat.of_int_def)

lemma pow2_pos [simp]: "0 < pow2 k"
  by (simp add: pow2_def)

lemma ilog2_of_int:
  assumes "0 < i"
  shows "ilog2 (of_int i) = bitlen i - 1"
proof -
  have one: "bitlen 1 = 1" by (simp add: bitlen.simps)
  have "pow2 (bitlen i - 1) = of_int (2 ^ nat (bitlen i - 1))"
    using bitlen_bounds [OF assms] by (simp add: pow2_def)
  then have "\<not> of_int i < pow2 (bitlen i - 1)"
    using bitlen_bounds [OF assms] by (simp only: of_int_less_iff not_less)
  then show ?thesis
    by (simp add: ilog2_def quotient_of_of_int one)
qed

lemma round_even_of_int [simp]: "round_even (of_int i) = i"
  by (simp add: round_even_def)

text \<open>An integer below \<open>2 ^ 53\<close>, scaled to 53 bits.\<close>

lemma ieee_bits_of_int:
  assumes i: "0 < i" "i < 2 ^ 53"
  defines "L \<equiv> nat (bitlen i)"
  shows "ieee_bits 52 11 (of_int i) = (int L + 1021) * 2 ^ 52 + i * 2 ^ (53 - L)"
    and "2 ^ 52 \<le> i * 2 ^ (53 - L)" and "i * 2 ^ (53 - L) < 2 ^ 53" and "1 \<le> L" and "L \<le> 53"
proof -
  note b = bitlen_bounds [OF i(1)]
  have L: "bitlen i = int L" "1 \<le> L"
    using b by (auto simp: L_def)
  have lo: "2 ^ (L - 1) \<le> i" and hi: "i < 2 ^ L"
    using b L by (auto simp: nat_diff_distrib)
  have "(2::int) ^ (L - 1) < 2 ^ 53"
    using lo i(2) by linarith
  then have "L - 1 < 53"
    by (rule power_less_imp_less_exp [rotated]) simp
  then show L53: "L \<le> 53" by simp
  show "1 \<le> L" by fact
  have "(2::int) ^ (L - 1) * 2 ^ (53 - L) = 2 ^ 52" "(2::int) ^ L * 2 ^ (53 - L) = 2 ^ 53"
    using L(2) L53 by (simp_all flip: power_add)
  then show M: "2 ^ 52 \<le> i * 2 ^ (53 - L)" "i * 2 ^ (53 - L) < 2 ^ 53"
    using lo hi by (metis mult_right_mono zero_le_numeral zero_le_power,
        metis mult_strict_right_mono zero_less_numeral zero_less_power)
  have E: "max (ilog2 (of_int i) - int 52) (min_exp 52 11) = int L - 53"
    using L L53 by (simp add: ilog2_of_int [OF i(1)] min_exp_def)
  have "pow2 (int L - 53) = 1 / 2 ^ (53 - L)"
  proof (cases "L = 53")
    case False
    then have "nat (53 - int L) = 53 - L" "\<not> int L - 53 \<ge> 0"
      using L53 by auto
    then show ?thesis by (simp add: pow2_def)
  qed (simp add: pow2_def)
  then have "of_int i / pow2 (int L - 53) = of_int (i * 2 ^ (53 - L))"
    by simp
  then have r: "round_even (of_int i / pow2 (int L - 53)) = i * 2 ^ (53 - L)"
    by (simp only: round_even_of_int)
  have "(int L - 53 - min_exp 52 11) * 2 ^ 52 + i * 2 ^ (53 - L) \<le> inf_bits 52 11"
    using M(2) L53 by (simp add: min_exp_def inf_bits_def)
  then show "ieee_bits 52 11 (of_int i) = (int L + 1021) * 2 ^ 52 + i * 2 ^ (53 - L)"
    using i(1) E r by (simp add: ieee_bits_def Let_def min_exp_def)
qed

lemma pow2_scale:
  assumes "1 \<le> L" "L \<le> 53"
  shows "of_int (i * 2 ^ (53 - L)) * pow2 (int L - 53) = of_int i"
proof (cases "L = 53")
  case False
  then have "nat (53 - int L) = 53 - L" "\<not> int L - 53 \<ge> 0"
    using assms by auto
  then have "pow2 (int L - 53) = 1 / 2 ^ (53 - L)"
    by (simp add: pow2_def)
  then show ?thesis by simp
qed (simp add: pow2_def)

lemma ieee_val_normal:
  assumes "1 \<le> k" and "2 ^ m \<le> M" "M < 2 * 2 ^ m"
  shows "ieee_val m e ((k - 1) * 2 ^ m + M) = of_int M * pow2 (k - 1 + min_exp m e)"
proof -
  have e: "(k - 1) * 2 ^ m + M = 2 ^ m * k + (M - 2 ^ m)"
    by (simp add: algebra_simps)
  have "((k - 1) * 2 ^ m + M) div 2 ^ m = k" "((k - 1) * 2 ^ m + M) mod 2 ^ m = M - 2 ^ m"
    using int_div_pos_eq [OF e] int_mod_pos_eq [OF e] assms(2,3) by auto
  then show ?thesis
    using assms(1) by (simp add: ieee_val_def Let_def)
qed

lemma ieee_val_of_int:
  assumes i: "0 < i" "i < 2 ^ 53"
  shows "ieee_val 52 11 (ieee_bits 52 11 (of_int i)) = of_int i"
    and "0 < ieee_bits 52 11 (of_int i)" and "ieee_bits 52 11 (of_int i) < inf_bits 52 11"
proof -
  define L where "L = nat (bitlen i)"
  note b = ieee_bits_of_int [OF i, folded L_def]
  have L: "1 \<le> L" "L \<le> 53" using b(4,5) by auto
  have "ieee_bits 52 11 (of_int i) = (int L + 1022 - 1) * 2 ^ 52 + i * 2 ^ (53 - L)"
    using b(1) by simp
  then have "ieee_val 52 11 (ieee_bits 52 11 (of_int i)) =
      of_int (i * 2 ^ (53 - L)) * pow2 (int L + 1022 - 1 + min_exp 52 11)"
    using ieee_val_normal [of "int L + 1022" 52 "i * 2 ^ (53 - L)" 11] b(2,3) L by simp
  moreover have "int L + 1022 - 1 + min_exp 52 11 = int L - 53"
    by (simp add: min_exp_def)
  ultimately show "ieee_val 52 11 (ieee_bits 52 11 (of_int i)) = of_int i"
    using pow2_scale [OF L, of i] by (simp only:)
  show "0 < ieee_bits 52 11 (of_int i)" "ieee_bits 52 11 (of_int i) < inf_bits 52 11"
    unfolding b(1) using b(2,3) L by (simp_all add: inf_bits_def)
qed


lemma dbl_pack_parts:
  assumes "0 \<le> b" "b < 2 ^ 63"
  shows "dbl_mag (dbl_pack s b) = b" and "dbl_neg (dbl_pack s b) = s"
proof -
  have m: "uint (take_bit 63 (word_of_int b :: double)) = b"
    using assms by (simp add: unsigned_take_bit_eq take_bit_int_eq_self unsigned_of_int)
  have "bit (word_of_int b :: double) 63 = bit (take_bit 63 b) 63"
    using assms by (simp add: bit_word_of_int_iff take_bit_int_eq_self)
  then have n: "\<not> bit (word_of_int b :: double) 63"
    by (simp add: bit_take_bit_iff)
  have t: "take_bit 63 (set_bit 63 (w :: double)) = take_bit 63 w" for w
    by (rule bit_eqI) (auto simp: bit_take_bit_iff bit_set_bit_iff)
  show "dbl_mag (dbl_pack s b) = b" "dbl_neg (dbl_pack s b) = s"
    using m n by (auto simp: dbl_mag_def dbl_neg_def dbl_pack_def t bit_set_bit_iff)
qed

lemma round_even_nonneg: "0 \<le> x \<Longrightarrow> 0 \<le> round_even x"
  by (simp add: round_even_def Let_def)

lemma ieee_bits_range:
  assumes "0 \<le> x"
  shows "0 \<le> ieee_bits m e x" and "ieee_bits m e x \<le> inf_bits m e"
proof -
  have inf: "0 \<le> inf_bits m e" by (simp add: inf_bits_def)
  have "0 \<le> x / pow2 k" for k using assms by (simp add: less_imp_le)
  then show "0 \<le> ieee_bits m e x" "ieee_bits m e x \<le> inf_bits m e"
    using inf round_even_nonneg by (auto simp: ieee_bits_def Let_def)
qed

lemma ieee_val_nonneg: "0 \<le> b \<Longrightarrow> 0 \<le> ieee_val m e b"
  by (auto simp: ieee_val_def Let_def less_imp_le)

lemma inf_bits_53: "inf_bits 52 11 < 2 ^ 63"
  by (simp add: inf_bits_def)

text \<open>A rounded value is never a NaN and has the sign of the exact one.\<close>

lemma dbl_round_sign:
  "\<not> dbl_is_nan (dbl_round z x)" "dbl_neg (dbl_round z x) = (if x = 0 then z else x < 0)"
proof -
  have inf: "0 \<le> inf_bits 52 11" by (simp add: inf_bits_def)
  note b = ieee_bits_range [of "\<bar>x\<bar>" 52 11, OF abs_ge_zero]
  have "ieee_bits 52 11 \<bar>x\<bar> < 2 ^ 63" using b(2) inf_bits_53 by simp
  with b inf show "\<not> dbl_is_nan (dbl_round z x)" "dbl_neg (dbl_round z x) = (if x = 0 then z else x < 0)"
    by (auto simp: dbl_round_def dbl_is_nan_def dbl_pack_parts)
qed

lemma dbl_le_zero_round:
  assumes "0 < x"
  shows "dbl_le 0 (dbl_round z x)"
proof -
  have "0 \<le> dbl_mag (dbl_round z x)" by (simp add: dbl_mag_def)
  moreover have "dbl_mag 0 = 0" "\<not> dbl_neg 0" by (simp_all add: dbl_mag_def dbl_neg_def)
  moreover have "(0::int) < inf_bits 52 11" by (simp add: inf_bits_def)
  ultimately show ?thesis
    using dbl_round_sign [of z x] assms ieee_val_nonneg [of "dbl_mag (dbl_round z x)" 52 11]
    by (auto simp: dbl_le_def dbl_lt_def dbl_val_def dbl_is_inf_def dbl_is_nan_def Let_def
        ieee_val_def [of _ _ 0])
qed

text \<open>Integers of less than 53 bits convert exactly, and so do their sums and products.\<close>

lemma dbl_round_of_int:
  assumes "\<bar>i\<bar> < 2 ^ 53"
  shows "dbl_val (dbl_round z (of_int i)) = of_int i" and "dbl_finite (dbl_round z (of_int i))"
    and "dbl_neg (dbl_round z (of_int i)) = (if i = 0 then z else i < 0)"
proof -
  have "dbl_val (dbl_round z (of_int i)) = of_int i \<and> dbl_finite (dbl_round z (of_int i)) \<and>
      dbl_neg (dbl_round z (of_int i)) = (if i = 0 then z else i < 0)"
  proof (cases "i = 0")
    case True
    then show ?thesis
      by (simp add: dbl_round_def dbl_val_def dbl_finite_def dbl_pack_parts ieee_val_def inf_bits_def)
  next
    case False
    define b where "b = ieee_bits 52 11 (of_int \<bar>i\<bar>)"
    have p: "0 < \<bar>i\<bar>" using False by simp
    note v = ieee_val_of_int [OF p assms, folded b_def]
    have r: "dbl_round z (of_int i) = dbl_pack (i < 0) b"
      using False by (simp add: dbl_round_def b_def)
    have bb: "0 \<le> b" "b < 2 ^ 63"
      using v(2,3) inf_bits_53 by linarith+
    show ?thesis
      using False v unfolding r
      by (auto simp: dbl_val_def dbl_finite_def dbl_pack_parts [OF bb] Let_def)
  qed
  then show "dbl_val (dbl_round z (of_int i)) = of_int i" "dbl_finite (dbl_round z (of_int i))"
    "dbl_neg (dbl_round z (of_int i)) = (if i = 0 then z else i < 0)" by auto
qed

lemma dbl_of_int_exact:
  assumes "\<bar>i\<bar> < 2 ^ 53"
  shows "dbl_val (dbl_of_int i) = of_int i" and "dbl_finite (dbl_of_int i)"
    and "dbl_neg (dbl_of_int i) = (i < 0)"
  using dbl_round_of_int [OF assms, of False] by (auto simp: dbl_of_int_def)

lemma dbl_finite_cases: "dbl_finite d \<Longrightarrow> \<not> dbl_is_nan d \<and> \<not> dbl_is_inf d"
  by (simp add: dbl_finite_def dbl_is_nan_def dbl_is_inf_def)

lemma dbl_add_of_int:
  assumes "\<bar>i\<bar> < 2 ^ 53" "\<bar>j\<bar> < 2 ^ 53"
  shows "dbl_add (dbl_of_int i) (dbl_of_int j) = dbl_of_int (i + j)"
proof -
  have "dbl_round (i < 0 \<and> j < 0) (of_int i + of_int j) = dbl_round False (of_int (i + j))"
  proof (cases "i + j = 0")
    case True
    then have f: "(i < 0 \<and> j < 0) = False" by presburger
    show ?thesis unfolding f using True by (simp add: dbl_round_def flip: of_int_add)
  qed (simp add: dbl_round_def flip: of_int_add)
  then show ?thesis
    using dbl_of_int_exact [OF assms(1)] dbl_of_int_exact [OF assms(2)] dbl_finite_cases
    by (simp add: dbl_add_def dbl_of_int_def)
qed

lemma dbl_mul_of_int:
  assumes "\<bar>i\<bar> < 2 ^ 53" "\<bar>j\<bar> < 2 ^ 53"
  shows "dbl_mul (dbl_of_int i) (dbl_of_int j) = dbl_round ((i < 0) \<noteq> (j < 0)) (of_int (i * j))"
  using dbl_of_int_exact [OF assms(1)] dbl_of_int_exact [OF assms(2)] dbl_finite_cases
  by (simp add: dbl_mul_def Let_def)

lemma rat_trunc_of_int [simp]: "rat_trunc (of_int i) = i"
  by (simp add: rat_trunc_def floor_minus)

lemma dbl_to_int_round:
  assumes "INT_MIN \<le> i" "i \<le> INT_MAX"
  shows "dbl_to_int (dbl_round z (of_int i)) = i"
proof -
  have "\<bar>i\<bar> < 2 ^ 53" using assms by simp
  from dbl_round_of_int [OF this, of z] assms show ?thesis
    by (simp add: dbl_to_int_def)
qed

lemma dbl_to_int_of_int:
  "INT_MIN \<le> i \<Longrightarrow> i \<le> INT_MAX \<Longrightarrow> dbl_to_int (dbl_of_int i) = i"
  unfolding dbl_of_int_def by (rule dbl_to_int_round)

lemma dbl_to_int_range: "INT_MIN \<le> dbl_to_int d \<and> dbl_to_int d \<le> INT_MAX"
  by (simp add: dbl_to_int_def)

lemma dbl_pow10_0 [simp]: "dbl_pow10 0 = dbl_of_int 1"
  by (simp add: dbl_pow10_def dbl_of_int_def)

section \<open>Decimal digits\<close>

lemma digits_small [simp]: "n < 10 \<Longrightarrow> digits n = [digit_char n]"
  by (simp add: digits.simps)

lemma digits_big: "10 \<le> n \<Longrightarrow> digits n = digits (n div 10) @ [digit_char (n mod 10)]"
  by (subst digits.simps) simp

end
