(* ===== verification/Json.thy ===== *)
theory Json
  imports Double
begin

text \<open>
  \<open>pc_JSON.c\<close>: the item tree, its accessors and constructors, the parser and the printer.

  An item is a value: the sibling chain of a C item is the list of children of its parent, and
  a reference (\<open>create_reference\<close>) is a copy that carries the reference bit, which is what it
  is as long as the original lives and does not change. The text a parser reads is the memory
  from the pointer to the end of its buffer, including the terminating NUL where there is one;
  a read past the end of the buffer and a write past the end of an allocation are \<open>None\<close>.
  Allocation succeeds. \<open>pc_JSON_Delete\<close> and the hooks only manage memory and have no
  counterpart.
\<close>

section \<open>Items\<close>

definition pc_JSON_False :: u32 where [simp]: "pc_JSON_False = 0"
definition pc_JSON_True :: u32 where [simp]: "pc_JSON_True = 1"
definition pc_JSON_NULL :: u32 where [simp]: "pc_JSON_NULL = 2"
definition pc_JSON_Number :: u32 where [simp]: "pc_JSON_Number = 3"
definition pc_JSON_String :: u32 where [simp]: "pc_JSON_String = 4"
definition pc_JSON_Array :: u32 where [simp]: "pc_JSON_Array = 5"
definition pc_JSON_Object :: u32 where [simp]: "pc_JSON_Object = 6"
definition pc_JSON_IsReference :: u32 where [simp]: "pc_JSON_IsReference = 256"

datatype pc_JSON = Item (jtype: u32) (valuestring: "string option") (valueint: int)
  (valuedouble: double) (jstring: "string option") (child: "pc_JSON list")

fun set_jtype :: "u32 \<Rightarrow> pc_JSON \<Rightarrow> pc_JSON" where
  "set_jtype t (Item _ vs vi vd nm ch) = Item t vs vi vd nm ch"
fun set_valuestring :: "string option \<Rightarrow> pc_JSON \<Rightarrow> pc_JSON" where
  "set_valuestring vs (Item t _ vi vd nm ch) = Item t vs vi vd nm ch"
fun set_valueint :: "int \<Rightarrow> pc_JSON \<Rightarrow> pc_JSON" where
  "set_valueint vi (Item t vs _ vd nm ch) = Item t vs vi vd nm ch"
fun set_valuedouble :: "double \<Rightarrow> pc_JSON \<Rightarrow> pc_JSON" where
  "set_valuedouble vd (Item t vs vi _ nm ch) = Item t vs vi vd nm ch"
fun set_jstring :: "string option \<Rightarrow> pc_JSON \<Rightarrow> pc_JSON" where
  "set_jstring nm (Item t vs vi vd _ ch) = Item t vs vi vd nm ch"
fun set_child :: "pc_JSON list \<Rightarrow> pc_JSON \<Rightarrow> pc_JSON" where
  "set_child ch (Item t vs vi vd nm _) = Item t vs vi vd nm ch"

definition pc_JSON_New_Item :: pc_JSON where
  "pc_JSON_New_Item = Item 0 None 0 0 None []"

text \<open>Constructors. A number keeps its value as a double and truncated to an \<open>int\<close>.\<close>

definition pc_JSON_CreateNull :: pc_JSON where
  "pc_JSON_CreateNull = set_jtype pc_JSON_NULL pc_JSON_New_Item"
definition pc_JSON_CreateTrue :: pc_JSON where
  "pc_JSON_CreateTrue = set_jtype pc_JSON_True pc_JSON_New_Item"
definition pc_JSON_CreateFalse :: pc_JSON where
  "pc_JSON_CreateFalse = set_jtype pc_JSON_False pc_JSON_New_Item"
definition pc_JSON_CreateBool :: "bool \<Rightarrow> pc_JSON" where
  "pc_JSON_CreateBool b = set_jtype (if b then pc_JSON_True else pc_JSON_False) pc_JSON_New_Item"
definition pc_JSON_CreateNumber :: "double \<Rightarrow> pc_JSON" where
  "pc_JSON_CreateNumber num =
     set_valueint (dbl_to_int num) (set_valuedouble num (set_jtype pc_JSON_Number pc_JSON_New_Item))"
definition pc_JSON_CreateString :: "string \<Rightarrow> pc_JSON" where
  "pc_JSON_CreateString s = set_valuestring (Some s) (set_jtype pc_JSON_String pc_JSON_New_Item)"
definition pc_JSON_CreateArray :: pc_JSON where
  "pc_JSON_CreateArray = set_jtype pc_JSON_Array pc_JSON_New_Item"
definition pc_JSON_CreateObject :: pc_JSON where
  "pc_JSON_CreateObject = set_jtype pc_JSON_Object pc_JSON_New_Item"

definition pc_JSON_CreateIntArray :: "int list \<Rightarrow> pc_JSON" where
  "pc_JSON_CreateIntArray ns = set_child (map (\<lambda>i. pc_JSON_CreateNumber (dbl_of_int i)) ns) pc_JSON_CreateArray"
definition pc_JSON_CreateFloatArray :: "u32 list \<Rightarrow> pc_JSON" where
  "pc_JSON_CreateFloatArray ns = set_child (map (\<lambda>f. pc_JSON_CreateNumber (double_of_float f)) ns) pc_JSON_CreateArray"
definition pc_JSON_CreateDoubleArray :: "double list \<Rightarrow> pc_JSON" where
  "pc_JSON_CreateDoubleArray ns = set_child (map pc_JSON_CreateNumber ns) pc_JSON_CreateArray"
definition pc_JSON_CreateStringArray :: "string list \<Rightarrow> pc_JSON" where
  "pc_JSON_CreateStringArray ss = set_child (map pc_JSON_CreateString ss) pc_JSON_CreateArray"

section \<open>Access\<close>

definition pc_JSON_GetArraySize :: "pc_JSON \<Rightarrow> nat" where
  "pc_JSON_GetArraySize a = length (child a)"

text \<open>A negative index gives the first item, as the loop does not run.\<close>

definition pc_JSON_GetArrayItem :: "pc_JSON \<Rightarrow> int \<Rightarrow> pc_JSON option" where
  "pc_JSON_GetArrayItem a i = (if nat i < length (child a) then Some (child a ! nat i) else None)"

text \<open>
  The index of the first item with the name: \<open>strcmp\<close> of an item without a name (a null
  pointer) is undefined.
\<close>

fun find_item :: "string \<Rightarrow> pc_JSON list \<Rightarrow> nat option option" where
  "find_item s [] = Some None"
| "find_item s (c # cs) =
     (case jstring c of
        None \<Rightarrow> None
      | Some n \<Rightarrow> if n = s then Some (Some 0) else map_option (map_option Suc) (find_item s cs))"

definition pc_JSON_GetObjectItem :: "pc_JSON \<Rightarrow> string \<Rightarrow> pc_JSON option option" where
  "pc_JSON_GetObjectItem ob s = map_option (map_option ((!) (child ob))) (find_item s (child ob))"

definition pc_JSON_AddItemToArray :: "pc_JSON \<Rightarrow> pc_JSON option \<Rightarrow> pc_JSON" where
  "pc_JSON_AddItemToArray a it = (case it of None \<Rightarrow> a | Some x \<Rightarrow> set_child (child a @ [x]) a)"

definition pc_JSON_AddItemToObject :: "pc_JSON \<Rightarrow> string \<Rightarrow> pc_JSON option \<Rightarrow> pc_JSON" where
  "pc_JSON_AddItemToObject ob s it =
     (case it of None \<Rightarrow> ob | Some x \<Rightarrow> pc_JSON_AddItemToArray ob (Some (set_jstring (Some s) x)))"

definition create_reference :: "pc_JSON \<Rightarrow> pc_JSON" where
  "create_reference it = set_jtype (jtype it OR pc_JSON_IsReference) (set_jstring None it)"

definition pc_JSON_AddItemReferenceToArray :: "pc_JSON \<Rightarrow> pc_JSON \<Rightarrow> pc_JSON" where
  "pc_JSON_AddItemReferenceToArray a it = pc_JSON_AddItemToArray a (Some (create_reference it))"

definition pc_JSON_AddItemReferenceToObject :: "pc_JSON \<Rightarrow> string \<Rightarrow> pc_JSON \<Rightarrow> pc_JSON" where
  "pc_JSON_AddItemReferenceToObject ob s it = pc_JSON_AddItemToObject ob s (Some (create_reference it))"

text \<open>Detaching returns the item taken out and what is left.\<close>

definition pc_JSON_DetachItemFromArray :: "pc_JSON \<Rightarrow> int \<Rightarrow> pc_JSON option \<times> pc_JSON" where
  "pc_JSON_DetachItemFromArray a i =
     (case pc_JSON_GetArrayItem a i of
        None \<Rightarrow> (None, a)
      | Some c \<Rightarrow> (Some c, set_child (take (nat i) (child a) @ drop (Suc (nat i)) (child a)) a))"

definition pc_JSON_DeleteItemFromArray :: "pc_JSON \<Rightarrow> int \<Rightarrow> pc_JSON" where
  "pc_JSON_DeleteItemFromArray a i = snd (pc_JSON_DetachItemFromArray a i)"

definition pc_JSON_DetachItemFromObject :: "pc_JSON \<Rightarrow> string \<Rightarrow> (pc_JSON option \<times> pc_JSON) option" where
  "pc_JSON_DetachItemFromObject ob s =
     do { i \<leftarrow> find_item s (child ob);
          Some (case i of None \<Rightarrow> (None, ob) | Some k \<Rightarrow> pc_JSON_DetachItemFromArray ob (int k)) }"

definition pc_JSON_DeleteItemFromObject :: "pc_JSON \<Rightarrow> string \<Rightarrow> pc_JSON option" where
  "pc_JSON_DeleteItemFromObject ob s = map_option snd (pc_JSON_DetachItemFromObject ob s)"

definition pc_JSON_ReplaceItemInArray :: "pc_JSON \<Rightarrow> int \<Rightarrow> pc_JSON \<Rightarrow> pc_JSON" where
  "pc_JSON_ReplaceItemInArray a i x =
     (if nat i < length (child a) then set_child ((child a)[nat i := x]) a else a)"

definition pc_JSON_ReplaceItemInObject :: "pc_JSON \<Rightarrow> string \<Rightarrow> pc_JSON \<Rightarrow> pc_JSON option" where
  "pc_JSON_ReplaceItemInObject ob s x =
     do { i \<leftarrow> find_item s (child ob);
          Some (case i of None \<Rightarrow> ob
                | Some k \<Rightarrow> pc_JSON_ReplaceItemInArray ob (int k) (set_jstring (Some s) x)) }"

fun pc_JSON_Duplicate :: "pc_JSON \<Rightarrow> bool \<Rightarrow> pc_JSON" where
  "pc_JSON_Duplicate (Item t vs vi vd nm ch) recurse =
     Item (t AND NOT pc_JSON_IsReference) vs vi vd nm
       (if recurse then map (\<lambda>c. pc_JSON_Duplicate c True) ch else [])"

section \<open>Parsing\<close>

abbreviation nul :: char where "nul \<equiv> CHR 0x00"
abbreviation quot :: char where "quot \<equiv> CHR 0x22"
abbreviation bslash :: char where "bslash \<equiv> CHR 0x5C"

abbreviation code :: "char \<Rightarrow> nat" where "code c \<equiv> of_char c"

text \<open>
  A parser of a value returns null with the position it reports (\<open>ep\<close>), or the item it filled
  and the text after it.
\<close>

type_synonym 'a parsed = "(string + 'a \<times> string) option"

definition is_digit :: "char \<Rightarrow> bool" where
  "is_digit c \<longleftrightarrow> 48 \<le> code c \<and> code c \<le> 57"

definition digit_val :: "char \<Rightarrow> int" where
  "digit_val c = int (code c) - 48"

fun peek :: "string \<Rightarrow> char option" where
  "peek [] = None"
| "peek (c # s) = Some c"

fun skip :: "string \<Rightarrow> string option" where
  "skip [] = None"
| "skip (c # s) = (if c \<noteq> nul \<and> code c \<le> 32 then skip s else Some (c # s))"

text \<open>
  The digit loops: the value, the number of digits read and the text after them. The exponent is
  an \<open>int\<close> that wraps, as compiled for a two's complement machine.
\<close>

fun num_digits :: "double \<Rightarrow> int \<Rightarrow> string \<Rightarrow> (double \<times> int \<times> string) option" where
  "num_digits n k [] = None"
| "num_digits n k (c # s) =
     (if is_digit c then num_digits (dbl_add (dbl_mul n (dbl_of_int 10)) (dbl_of_int (digit_val c))) (k + 1) s
      else Some (n, k, c # s))"

fun exp_digits :: "int \<Rightarrow> string \<Rightarrow> (int \<times> string) option" where
  "exp_digits n [] = None"
| "exp_digits n (c # s) =
     (if is_digit c
      then exp_digits (signed_take_bit 31 (n * 10 + digit_val c)) s
      else Some (n, c # s))"

definition num_sign :: "string \<Rightarrow> (double \<times> string) option" where
  "num_sign s = do { c \<leftarrow> peek s;
     Some (if c = CHR ''-'' then (dbl_of_int (-1), tl s) else (dbl_of_int 1, s)) }"

definition num_zero :: "string \<Rightarrow> string option" where
  "num_zero s = do { c \<leftarrow> peek s; Some (if c = CHR ''0'' then tl s else s) }"

definition num_int :: "string \<Rightarrow> (double \<times> string) option" where
  "num_int s = do { c \<leftarrow> peek s;
     if is_digit c \<and> c \<noteq> CHR ''0''
     then do { (n, _, s) \<leftarrow> num_digits 0 0 s; Some (n, s) } else Some (0, s) }"

definition num_frac :: "double \<Rightarrow> string \<Rightarrow> (double \<times> int \<times> string) option" where
  "num_frac n s = do { c \<leftarrow> peek s;
     if c = CHR ''.''
     then do { d \<leftarrow> peek (tl s);
               if is_digit d then do { (n, k, s) \<leftarrow> num_digits n 0 (tl s); Some (n, - k, s) }
               else Some (n, 0, s) }
     else Some (n, 0, s) }"

definition num_exp :: "string \<Rightarrow> (int \<times> string) option" where
  "num_exp s = do { c \<leftarrow> peek s;
     if c = CHR ''e'' \<or> c = CHR ''E''
     then do { d \<leftarrow> peek (tl s);
               let (sg, s) = (if d = CHR ''+'' then (1, tl (tl s))
                              else if d = CHR ''-'' then (-1, tl (tl s)) else (1, tl s));
               (n, s) \<leftarrow> exp_digits 0 s; Some (n * sg, s) }
     else Some (0, s) }"

definition parse_number :: "pc_JSON \<Rightarrow> string \<Rightarrow> pc_JSON parsed" where
  "parse_number it s =
     do { (sign, s) \<leftarrow> num_sign s;
          s \<leftarrow> num_zero s;
          (n, s) \<leftarrow> num_int s;
          (n, scale, s) \<leftarrow> num_frac n s;
          (ex, s) \<leftarrow> num_exp s;
          let n = dbl_mul (dbl_mul sign n) (dbl_pow10 (scale + ex));
          Some (Inr (set_jtype pc_JSON_Number (set_valueint (dbl_to_int n) (set_valuedouble n it)), s)) }"


subsection \<open>Strings\<close>

definition hex_val :: "char \<Rightarrow> u32 option" where
  "hex_val c =
     (if is_digit c then Some (of_nat (code c - 48))
      else if 65 \<le> code c \<and> code c \<le> 70 then Some (10 + of_nat (code c - 65))
      else if 97 \<le> code c \<and> code c \<le> 102 then Some (10 + of_nat (code c - 97)) else None)"

fun hex_loop :: "nat \<Rightarrow> u32 \<Rightarrow> string \<Rightarrow> u32 option" where
  "hex_loop 0 h s = Some h"
| "hex_loop (Suc k) h s =
     do { c \<leftarrow> peek s;
          case hex_val c of None \<Rightarrow> Some 0 | Some d \<Rightarrow> hex_loop k (push_bit 4 h + d) (tl s) }"

definition parse_hex4 :: "string \<Rightarrow> u32 option" where
  "parse_hex4 s = hex_loop 4 0 s"

definition firstByteMark :: "nat \<Rightarrow> u32" where
  "firstByteMark n = [0x00, 0x00, 0xC0, 0xE0, 0xF0, 0xF8, 0xFC] ! n"

definition utf8_len :: "u32 \<Rightarrow> nat" where
  "utf8_len uc = (if uc < 0x80 then 1 else if uc < 0x800 then 2 else if uc < 0x10000 then 3 else 4)"

definition to_char :: "u32 \<Rightarrow> char" where
  "to_char w = chr_of (ucast w)"

text \<open>The bytes of one code point, last to first, as the fall-through switch writes them.\<close>

fun utf8_tail :: "nat \<Rightarrow> u32 \<Rightarrow> string \<times> u32" where
  "utf8_tail 0 uc = ([], uc)"
| "utf8_tail (Suc n) uc =
     (let c = to_char ((uc OR 0x80) AND 0xBF); (r, uc') = utf8_tail n (drop_bit 6 uc) in (r @ [c], uc'))"

definition utf8_bytes :: "u32 \<Rightarrow> string" where
  "utf8_bytes uc =
     (let n = utf8_len uc; (r, uc') = utf8_tail (n - 1) uc in to_char (uc' OR firstByteMark n) # r)"

text \<open>
  The first pass: the length that is allocated for, counting an escape as one character. The
  character after a backslash is not looked at.
\<close>

fun string_len :: "string \<Rightarrow> nat option" where
  "string_len [] = None"
| "string_len (c # s) =
     (if c = quot \<or> c = nul then Some 0
      else if c = bslash then (case s of [] \<Rightarrow> None | d # s \<Rightarrow> map_option Suc (string_len s))
      else map_option Suc (string_len s))"

text \<open>
  An escape after its backslash: the bytes it writes, and the text from its last character
  (\<open>ptr\<close> at the \<open>ptr++\<close> that follows the switch).
\<close>

definition surrogate :: "u32 \<Rightarrow> string \<Rightarrow> (u32 option \<times> string) option" where
  "surrogate uc s =
     do { c1 \<leftarrow> peek (drop 1 s);
          if c1 \<noteq> bslash then Some (None, s)
          else do { c2 \<leftarrow> peek (drop 2 s);
            if c2 \<noteq> CHR ''u'' then Some (None, s)
            else do { uc2 \<leftarrow> parse_hex4 (drop 3 s);
              if uc2 < 0xDC00 \<or> uc2 > 0xDFFF then Some (None, drop 6 s)
              else Some (Some (0x10000 + ((push_bit 10 (uc AND 0x3FF)) OR (uc2 AND 0x3FF))), drop 6 s) } } }"

definition unicode_escape :: "string \<Rightarrow> (string \<times> string) option" where
  "unicode_escape s =
     do { uc \<leftarrow> parse_hex4 (tl s);
          let s = drop 4 s;
          if (uc \<ge> 0xDC00 \<and> uc \<le> 0xDFFF) \<or> uc = 0 then Some ([], s)
          else if uc \<ge> 0xD800 \<and> uc \<le> 0xDBFF
          then do { (u, s) \<leftarrow> surrogate uc s;
                    Some (case u of None \<Rightarrow> [] | Some uc \<Rightarrow> utf8_bytes uc, s) }
          else Some (utf8_bytes uc, s) }"

definition string_escape :: "string \<Rightarrow> (string \<times> string) option" where
  "string_escape s =
     do { c \<leftarrow> peek s;
          if c = CHR ''b'' then Some ([CHR 0x08], s)
          else if c = CHR ''f'' then Some ([CHR 0x0C], s)
          else if c = CHR ''n'' then Some ([CHR 0x0A], s)
          else if c = CHR ''r'' then Some ([CHR 0x0D], s)
          else if c = CHR ''t'' then Some ([CHR 0x09], s)
          else if c = CHR ''u'' then unicode_escape s
          else Some ([c], s) }"

lemma surrogate_shorter: "surrogate uc s = Some (u, s') \<Longrightarrow> length s' \<le> length s"
  by (auto simp: surrogate_def split: if_splits bind_splits)

lemma string_escape_shorter: "string_escape s = Some (b, s') \<Longrightarrow> length s' \<le> length s"
  by (auto simp: string_escape_def unicode_escape_def Let_def dest!: surrogate_shorter
      split: if_splits bind_splits)

text \<open>
  The second pass writes into the allocation; \<open>room\<close> is what is left of it, one byte being for
  the terminator.
\<close>

function string_copy :: "nat \<Rightarrow> string \<Rightarrow> (string \<times> string) option" where
  "string_copy room s =
     (case s of [] \<Rightarrow> None
      | c # s' \<Rightarrow>
        if c = quot \<or> c = nul then (if room = 0 then None else Some ([], s))
        else if c \<noteq> bslash
        then (if room = 0 then None
              else map_option (apfst ((#) c)) (string_copy (room - 1) s'))
        else (case string_escape s' of
                None \<Rightarrow> None
              | Some (b, s'') \<Rightarrow>
                  if length b > room then None
                  else map_option (apfst ((@) b)) (string_copy (room - length b) (tl s''))))"
  by pat_completeness auto
termination
  by (relation "measure (\<lambda>(room, s). length s)") (auto dest: string_escape_shorter)

declare string_copy.simps [simp del]

text \<open>What a \<open>char *\<close> to the copied bytes denotes: they may contain a NUL.\<close>

definition c_str :: "string \<Rightarrow> string" where
  "c_str s = takeWhile (\<lambda>c. c \<noteq> nul) s"

definition parse_string :: "pc_JSON \<Rightarrow> string \<Rightarrow> pc_JSON parsed" where
  "parse_string it s =
     do { c \<leftarrow> peek s;
          if c \<noteq> quot then Some (Inl s)
          else do { len \<leftarrow> string_len (tl s);
                    (out, s) \<leftarrow> string_copy (len + 1) (tl s);
                    c \<leftarrow> peek s;
                    let s = (if c = quot then tl s else s);
                    Some (Inr (set_jtype pc_JSON_String (set_valuestring (Some (c_str out)) it), s)) } }"

section \<open>Values\<close>

text \<open>\<open>!strncmp(value, lit, strlen(lit))\<close>: reads up to the first difference.\<close>

fun has_prefix :: "string \<Rightarrow> string \<Rightarrow> bool option" where
  "has_prefix [] s = Some True"
| "has_prefix (l # ls) s = do { c \<leftarrow> peek s; if c = l then has_prefix ls (tl s) else Some False }"

text \<open>
  The mutually recursive parsers. Each call takes one unit of fuel, of which one per remaining
  character is enough (\<open>parse_value_fuel\<close>). \<open>parse_array\<close> and \<open>parse_object\<close> are given the
  value parser; \<open>more\<close> is the loop over \<open>,\<close>.
\<close>

definition parse_element ::
    "(pc_JSON \<Rightarrow> string \<Rightarrow> pc_JSON parsed) \<Rightarrow> string \<Rightarrow> pc_JSON parsed" where
  "parse_element pv s =
     do { s \<leftarrow> skip s;
          r \<leftarrow> pv pc_JSON_New_Item s;
          case r of Inl e \<Rightarrow> Some (Inl e)
          | Inr (it, s) \<Rightarrow> do { s \<leftarrow> skip s; Some (Inr (it, s)) } }"

definition parse_member ::
    "(pc_JSON \<Rightarrow> string \<Rightarrow> pc_JSON parsed) \<Rightarrow> string \<Rightarrow> pc_JSON parsed" where
  "parse_member pv s =
     do { s \<leftarrow> skip s;
          r \<leftarrow> parse_string pc_JSON_New_Item s;
          case r of Inl e \<Rightarrow> Some (Inl e)
          | Inr (it, s) \<Rightarrow>
            do { s \<leftarrow> skip s;
                 let it = set_valuestring None (set_jstring (valuestring it) it);
                 c \<leftarrow> peek s;
                 if c \<noteq> CHR '':'' then Some (Inl s)
                 else do { s \<leftarrow> skip (tl s);
                           r \<leftarrow> pv it s;
                           case r of Inl e \<Rightarrow> Some (Inl e)
                           | Inr (it, s) \<Rightarrow> do { s \<leftarrow> skip s; Some (Inr (it, s)) } } } }"

text \<open>
  The loop over the entries and the recursion over the values carry fuel. \<open>z\<close> is what a parse
  that runs out of it returns, so that running out is told apart from every other outcome: a
  result that is the same for every \<open>z\<close> is that of a parse that returned.
\<close>

fun parse_more ::
    "string option \<Rightarrow> nat \<Rightarrow> (string \<Rightarrow> pc_JSON parsed) \<Rightarrow> pc_JSON list \<Rightarrow> string \<Rightarrow> pc_JSON list parsed" where
  "parse_more z 0 pe cs s = map_option Inl z"
| "parse_more z (Suc k) pe cs s =
     do { c \<leftarrow> peek s;
          if c = CHR '',''
          then do { r \<leftarrow> pe (tl s);
                    case r of Inl e \<Rightarrow> Some (Inl e)
                    | Inr (it, s) \<Rightarrow> parse_more z k pe (cs @ [it]) s }
          else Some (Inr (cs, s)) }"

definition parse_children ::
    "string option \<Rightarrow> nat \<Rightarrow> char \<Rightarrow> (string \<Rightarrow> pc_JSON parsed) \<Rightarrow> u32 \<Rightarrow> pc_JSON \<Rightarrow> string \<Rightarrow> pc_JSON parsed" where
  "parse_children z k close pe ty it s =
     (let it = set_jtype ty it in
      do { s \<leftarrow> skip (tl s);
           c \<leftarrow> peek s;
           if c = close then Some (Inr (it, tl s))
           else do {
             r \<leftarrow> pe s;
             case r of Inl e \<Rightarrow> Some (Inl e)
             | Inr (x, s) \<Rightarrow>
               do { r \<leftarrow> parse_more z k pe [x] s;
                    case r of Inl e \<Rightarrow> Some (Inl e)
                    | Inr (cs, s) \<Rightarrow>
                      do { c \<leftarrow> peek s;
                           if c = close then Some (Inr (set_child cs it, tl s)) else Some (Inl s) } } } })"

definition parse_array where
  "parse_array z k pv it s = do { c \<leftarrow> peek s;
     if c \<noteq> CHR ''['' then Some (Inl s)
     else parse_children z k (CHR '']'') (parse_element pv) pc_JSON_Array it s }"

definition parse_object where
  "parse_object z k pv it s = do { c \<leftarrow> peek s;
     if c \<noteq> CHR ''{'' then Some (Inl s)
     else parse_children z k (CHR ''}'') (parse_member pv) pc_JSON_Object it s }"

fun parse_value :: "string option \<Rightarrow> nat \<Rightarrow> pc_JSON \<Rightarrow> string \<Rightarrow> pc_JSON parsed" where
  "parse_value z 0 it s = map_option Inl z"
| "parse_value z (Suc k) it s =
     do { n \<leftarrow> has_prefix ''null'' s;
          if n then Some (Inr (set_jtype pc_JSON_NULL it, drop 4 s)) else do {
          f \<leftarrow> has_prefix ''false'' s;
          if f then Some (Inr (set_jtype pc_JSON_False it, drop 5 s)) else do {
          t \<leftarrow> has_prefix ''true'' s;
          if t then Some (Inr (set_valueint 1 (set_jtype pc_JSON_True it), drop 4 s)) else do {
          c \<leftarrow> peek s;
          if c = quot then parse_string it s
          else if c = CHR ''-'' \<or> is_digit c then parse_number it s
          else if c = CHR ''['' then parse_array z k (parse_value z k) it s
          else if c = CHR ''{'' then parse_object z k (parse_value z k) it s
          else Some (Inl s) } } } }"

text \<open>
  The result, the end of what was parsed and, on failure, the error position. A parse without
  the terminator requirement accepts anything after the value.
\<close>

definition pc_JSON_ParseWithOpts :: "string \<Rightarrow> bool \<Rightarrow> pc_JSON parsed" where
  "pc_JSON_ParseWithOpts value require_null_terminated =
     do { s \<leftarrow> skip value;
          r \<leftarrow> parse_value None (Suc (length s)) pc_JSON_New_Item s;
          case r of Inl e \<Rightarrow> Some (Inl e)
          | Inr (it, s) \<Rightarrow>
              if require_null_terminated
              then do { s \<leftarrow> skip s; c \<leftarrow> peek s; if c \<noteq> nul then Some (Inl s) else Some (Inr (it, s)) }
              else Some (Inr (it, s)) }"

definition pc_JSON_Parse :: "string \<Rightarrow> pc_JSON option option" where
  "pc_JSON_Parse value =
     map_option (\<lambda>r. case r of Inl _ \<Rightarrow> None | Inr (it, _) \<Rightarrow> Some it) (pc_JSON_ParseWithOpts value False)"


section \<open>Printing\<close>

text \<open>
  A printed text with its terminator is written into an allocation of \<open>n\<close> bytes. A printer
  returns \<open>Some None\<close> where the C function returns null.
\<close>

definition into_buf :: "nat \<Rightarrow> string \<Rightarrow> string option option" where
  "into_buf n s = (if length s + 1 \<le> n then Some (Some s) else None)"

definition print_number :: "pc_JSON \<Rightarrow> string option option" where
  "print_number it =
     (let d = valuedouble it
      in if dbl_le (dbl_abs (dbl_sub (dbl_of_int (valueint it)) d)) DBL_EPSILON \<and>
            dbl_le d (dbl_of_int INT_MAX) \<and> dbl_le (dbl_of_int INT_MIN) d
         then into_buf 21 (sprintf_d (valueint it))
         else into_buf 64
           (if dbl_le (dbl_abs (dbl_sub (dbl_floor d) d)) DBL_EPSILON \<and>
               dbl_lt (dbl_abs d) (dbl_round False (10 ^ 60)) then sprintf_f 0 d
            else if dbl_lt (dbl_abs d) (dbl_round False (1 / 10 ^ 6)) \<or>
                    dbl_lt (dbl_round False (10 ^ 9)) (dbl_abs d) then sprintf_e d
            else sprintf_f 6 d))"

text \<open>\<open>%04x\<close> of a character below 256.\<close>

definition hex_char :: "nat \<Rightarrow> char" where
  "hex_char n = char_of (if n < 10 then 48 + n else 87 + n)"

definition sprintf_04x :: "char \<Rightarrow> string" where
  "sprintf_04x c = [CHR ''0'', CHR ''0'', hex_char (code c div 16), hex_char (code c mod 16)]"

definition plain_char :: "char \<Rightarrow> bool" where
  "plain_char c \<longleftrightarrow> code c > 31 \<and> c \<noteq> quot \<and> c \<noteq> bslash"

definition escaped :: "char \<Rightarrow> string" where
  "escaped c =
     (if plain_char c then [c]
      else bslash #
        (if c = bslash then [bslash] else if c = quot then [quot]
         else if c = CHR 0x08 then ''b'' else if c = CHR 0x0C then ''f''
         else if c = CHR 0x0A then ''n'' else if c = CHR 0x0D then ''r''
         else if c = CHR 0x09 then ''t'' else CHR ''u'' # sprintf_04x c))"

definition escaped_len :: "char \<Rightarrow> nat" where
  "escaped_len c =
     (if c \<in> {quot, bslash, CHR 0x08, CHR 0x0C, CHR 0x0A, CHR 0x0D, CHR 0x09} then 2
      else if code c < 32 then 6 else 1)"

definition print_string_ptr :: "string option \<Rightarrow> string option option" where
  "print_string_ptr s =
     (case s of
        None \<Rightarrow> Some (Some [])
      | Some s \<Rightarrow> into_buf (sum_list (map escaped_len s) + 3) (quot # concat (map escaped s) @ [quot]))"

definition print_string :: "pc_JSON \<Rightarrow> string option option" where
  "print_string it = print_string_ptr (valuestring it)"

text \<open>
  The entries of a list, printed one by one until one fails, and the list of all; a null entry
  makes the whole null.
\<close>

fun print_entries :: "('a \<Rightarrow> string option option) \<Rightarrow> 'a list \<Rightarrow> string list option option" where
  "print_entries f [] = Some (Some [])"
| "print_entries f (x # xs) =
     do { r \<leftarrow> f x;
          case r of None \<Rightarrow> Some None
          | Some s \<Rightarrow> map_option (map_option ((#) s)) (print_entries f xs) }"

fun join :: "string \<Rightarrow> string list \<Rightarrow> string" where
  "join sep [] = []"
| "join sep [x] = x"
| "join sep (x # y # xs) = x @ sep @ join sep (y # xs)"

abbreviation tab :: char where "tab \<equiv> CHR 0x09"
abbreviation newline :: char where "newline \<equiv> CHR 0x0A"

definition print_array :: "(pc_JSON \<Rightarrow> string option option) \<Rightarrow> bool \<Rightarrow> pc_JSON list \<Rightarrow> string option option" where
  "print_array pv fmt ch =
     (if ch = [] then into_buf 3 ''[]''
      else do { r \<leftarrow> print_entries pv ch;
                case r of None \<Rightarrow> Some None
                | Some es \<Rightarrow>
                  into_buf (5 + sum_list (map (\<lambda>e. length e + 2 + (if fmt then 1 else 0)) es))
                    (CHR ''['' # join (if fmt then '', '' else '','') es @ '']'') })"

text \<open>
  An object's members are indented by \<open>depth\<close> tabs (already incremented); an empty object
  formatted at depth 0 has no tab before its closing brace.
\<close>

definition print_member :: "(pc_JSON \<Rightarrow> string option option) \<Rightarrow> pc_JSON \<Rightarrow> (string \<times> string) option option" where
  "print_member pv c =
     do { str \<leftarrow> print_string_ptr (jstring c);
          ret \<leftarrow> pv c;
          Some (case (str, ret) of (Some n, Some e) \<Rightarrow> Some (n, e) | _ \<Rightarrow> None) }"

fun print_members :: "(pc_JSON \<Rightarrow> string option option) \<Rightarrow> pc_JSON list \<Rightarrow> (string \<times> string) list option option" where
  "print_members pv [] = Some (Some [])"
| "print_members pv (c # cs) =
     do { r \<leftarrow> print_member pv c;
          case r of None \<Rightarrow> Some None
          | Some m \<Rightarrow> map_option (map_option ((#) m)) (print_members pv cs) }"

definition member_text :: "nat \<Rightarrow> bool \<Rightarrow> string \<times> string \<Rightarrow> string" where
  "member_text depth fmt m =
     (if fmt then replicate depth tab else []) @ fst m @ '':'' @ (if fmt then [tab] else []) @ snd m"

definition print_object ::
    "(nat \<Rightarrow> pc_JSON \<Rightarrow> string option option) \<Rightarrow> nat \<Rightarrow> bool \<Rightarrow> pc_JSON list \<Rightarrow> string option option" where
  "print_object pv depth fmt ch =
     (if ch = []
      then into_buf (if fmt then depth + 4 else 3)
             (CHR ''{'' # (if fmt then newline # replicate (depth - 1) tab else []) @ ''}'')
      else do { r \<leftarrow> print_members (pv (depth + 1)) ch;
                case r of None \<Rightarrow> Some None
                | Some ms \<Rightarrow>
                  into_buf (7 + (if fmt then depth + 1 else 0) +
                     sum_list (map (\<lambda>(n, e). length e + length n + 2 + (if fmt then 2 + (depth + 1) else 0)) ms))
                    (CHR ''{'' # (if fmt then [newline] else []) @
                     join (CHR '','' # (if fmt then [newline] else [])) (map (member_text (depth + 1) fmt) ms) @
                     (if fmt then newline # replicate depth tab else []) @ ''}'') })"

text \<open>The recursion is on the depth of the tree, with \<open>k\<close> levels of it (\<open>height\<close> is enough).\<close>

fun height :: "pc_JSON \<Rightarrow> nat" where
  "height (Item t vs vi vd nm ch) = Suc (Max (insert 0 (set (map height ch))))"

fun print_value :: "nat \<Rightarrow> nat \<Rightarrow> bool \<Rightarrow> pc_JSON \<Rightarrow> string option option" where
  "print_value 0 depth fmt it = None"
| "print_value (Suc k) depth fmt it =
     (let t = jtype it AND 255
      in if t = pc_JSON_NULL then Some (Some ''null'')
         else if t = pc_JSON_False then Some (Some ''false'')
         else if t = pc_JSON_True then Some (Some ''true'')
         else if t = pc_JSON_Number then print_number it
         else if t = pc_JSON_String then print_string it
         else if t = pc_JSON_Array then print_array (print_value k (depth + 1) fmt) fmt (child it)
         else if t = pc_JSON_Object then print_object (\<lambda>d. print_value k d fmt) depth fmt (child it)
         else Some None)"

definition pc_JSON_Print :: "pc_JSON \<Rightarrow> string option option" where
  "pc_JSON_Print it = print_value (height it) 0 True it"

definition pc_JSON_PrintUnformatted :: "pc_JSON \<Rightarrow> string option option" where
  "pc_JSON_PrintUnformatted it = print_value (height it) 0 False it"

section \<open>Minifying\<close>

text \<open>
  \<open>pc_JSON_Minify\<close> copies in place: the output never overtakes the input. The text is cut at
  its NUL; a comment or a string that runs to the end reads past it.
\<close>

fun line_comment :: "string \<Rightarrow> string option" where
  "line_comment [] = None"
| "line_comment (c # s) = (if c = nul \<or> c = newline then Some (c # s) else line_comment s)"

fun block_comment :: "string \<Rightarrow> string option" where
  "block_comment [] = None"
| "block_comment (c # s) =
     (if c = nul then Some (tl s)
      else if c = CHR ''*'' then do { d \<leftarrow> peek s; if d = CHR ''/'' then Some (tl s) else block_comment s }
      else block_comment s)"

fun minify_string :: "string \<Rightarrow> (string \<times> string) option" where
  "minify_string [] = None"
| "minify_string (c # s) =
     (if c = nul \<or> c = quot then Some ([c], s)
      else if c = bslash then
        (case s of [] \<Rightarrow> None | d # s \<Rightarrow> map_option (apfst (\<lambda>r. c # d # r)) (minify_string s))
      else map_option (apfst ((#) c)) (minify_string s))"


lemma line_comment_shorter: "line_comment s = Some s' \<Longrightarrow> length s' \<le> length s"
  by (induction s) (auto split: if_splits)

lemma block_comment_shorter: "block_comment s = Some s' \<Longrightarrow> length s' < length s \<or> s = []"
  by (induction s) (auto split: if_splits bind_splits)

lemma minify_string_shorter: "minify_string s = Some (r, s') \<Longrightarrow> length s' < length s"
  by (induction s arbitrary: r rule: minify_string.induct)
    (auto split: if_splits list.splits intro: less_SucI)

function minify :: "string \<Rightarrow> string option" where
  "minify s =
     (case s of [] \<Rightarrow> None
      | c # t \<Rightarrow>
        if c = nul then Some []
        else if c \<in> {CHR '' '', tab, CHR 0x0D, newline} then minify t
        else if c = CHR ''/'' \<and> t = [] then None
        else if c = CHR ''/'' \<and> t ! 0 = CHR ''/''
        then (case line_comment t of None \<Rightarrow> None | Some u \<Rightarrow> minify u)
        else if c = CHR ''/'' \<and> t ! 0 = CHR ''*''
        then (case block_comment t of None \<Rightarrow> None | Some u \<Rightarrow> minify u)
        else if c = quot
        then (case minify_string t of None \<Rightarrow> None | Some (r, u) \<Rightarrow> map_option (\<lambda>m. c # r @ m) (minify u))
        else map_option ((#) c) (minify t))"
  by pat_completeness auto
termination
  by (relation "measure length")
    (auto dest!: line_comment_shorter block_comment_shorter minify_string_shorter)

definition pc_JSON_Minify :: "string \<Rightarrow> string option" where
  "pc_JSON_Minify json = map_option c_str (minify json)"

end
