(* ===== verification/JsonProps.thy ===== *)
theory JsonProps
  imports Json
begin

text \<open>
  The parser consumes what it reads and needs no more fuel than there is text; it is memory safe
  on terminated texts without escapes; what it builds is well typed; and what the printer writes
  for a well-formed tree is parsed back to it.
\<close>

section \<open>Consumption\<close>

lemma skip_shorter: "skip s = Some s' \<Longrightarrow> length s' \<le> length s"
  by (induction s) (auto split: if_splits)

lemma peek_Some [simp]: "peek s = Some c \<longleftrightarrow> (\<exists>t. s = c # t)"
  by (cases s) auto

lemma peek_None [simp]: "peek s = None \<longleftrightarrow> s = []"
  by (cases s) auto

lemma num_digits_shorter: "num_digits n k s = Some (n', k', s') \<Longrightarrow> length s' \<le> length s"
  by (induction s arbitrary: n k) (auto split: if_splits, metis le_SucI)

lemma exp_digits_shorter: "exp_digits n s = Some (n', s') \<Longrightarrow> length s' \<le> length s"
  by (induction s arbitrary: n) (auto split: if_splits, metis le_SucI)

lemma string_copy_simps [simp]:
  "string_copy room [] = None"
  "string_copy room (quot # s) = (if room = 0 then None else Some ([], quot # s))"
  "string_copy room (nul # s) = (if room = 0 then None else Some ([], nul # s))"
  "string_copy room (bslash # s) =
     (case string_escape s of None \<Rightarrow> None
      | Some (b, s') \<Rightarrow> if length b > room then None
          else map_option (apfst ((@) b)) (string_copy (room - length b) (tl s')))"
  "c \<noteq> quot \<Longrightarrow> c \<noteq> nul \<Longrightarrow> c \<noteq> bslash \<Longrightarrow> string_copy room (c # s) =
     (if room = 0 then None else map_option (apfst ((#) c)) (string_copy (room - 1) s))"
  by (simp_all add: string_copy.simps [of room "_ # _"] string_copy.simps [of room "[]"])

lemma string_copy_shorter: "string_copy room s = Some (out, s') \<Longrightarrow> length s' \<le> length s"
proof (induction "length s" arbitrary: room s out rule: less_induct)
  case less
  show ?case
  proof (cases s)
    case (Cons c t)
    consider "c = quot \<or> c = nul" | "c \<noteq> quot" "c \<noteq> nul" "c \<noteq> bslash" | "c = bslash" by blast
    then show ?thesis
    proof cases
      case 2
      then obtain out' where "string_copy (room - 1) t = Some (out', s')"
        using less.prems Cons by (auto split: if_splits)
      from less.hyps [OF _ this] Cons show ?thesis by simp
    next
      case 3
      then obtain b u out' where e: "string_escape t = Some (b, u)"
        and r: "string_copy (room - length b) (tl u) = Some (out', s')"
        using less.prems Cons by (auto split: if_splits option.splits)
      from less.hyps [OF _ r] string_escape_shorter [OF e] Cons show ?thesis by fastforce
    qed (use less.prems Cons in \<open>auto split: if_splits\<close>)
  qed (use less.prems in simp)
qed

lemma parse_string_shorter:
  "parse_string it s = Some (Inr (it', s')) \<Longrightarrow> length s' < length s"
  by (auto simp: parse_string_def Let_def dest!: string_copy_shorter split: if_splits bind_splits)

lemma num_int_shorter: "num_int s = Some (n, s') \<Longrightarrow> length s' \<le> length s"
  by (auto simp: num_int_def dest!: num_digits_shorter split: if_splits bind_splits)

lemma num_frac_shorter: "num_frac n s = Some (m, k, s') \<Longrightarrow> length s' \<le> length s"
  by (fastforce simp: num_frac_def dest: num_digits_shorter split: if_splits bind_splits)

lemma num_exp_shorter: "num_exp s = Some (n, s') \<Longrightarrow> length s' \<le> length s"
  by (fastforce simp: num_exp_def Let_def dest: exp_digits_shorter split: if_splits bind_splits)

text \<open>A number is only parsed where a sign or a digit stands, which is consumed.\<close>

lemma parse_number_shorter:
  assumes "parse_number it (c # s) = Some (Inr (it', s'))" and "c = CHR ''-'' \<or> is_digit c"
  shows "length s' \<le> length s"
proof -
  obtain sign s1 s2 n s3 m k s4 ex where
    1: "num_sign (c # s) = Some (sign, s1)" and 2: "num_zero s1 = Some s2"
    and 3: "num_int s2 = Some (n, s3)" and 4: "num_frac n s3 = Some (m, k, s4)"
    and 5: "num_exp s4 = Some (ex, s')"
    using assms(1) by (auto simp: parse_number_def Let_def split: bind_splits)
  have "length s3 \<le> length s"
  proof (cases "c = CHR ''-''")
    case True
    with 1 2 have "length s2 \<le> length s" by (auto simp: num_sign_def num_zero_def split: if_splits bind_splits)
    with num_int_shorter [OF 3] show ?thesis by simp
  next
    case False
    with 1 have s1: "s1 = c # s" by (simp add: num_sign_def)
    show ?thesis
    proof (cases "c = CHR ''0''")
      case True
      with 2 s1 num_int_shorter [OF 3] show ?thesis by (simp add: num_zero_def)
    next
      case False
      with 2 s1 have "s2 = c # s" by (simp add: num_zero_def)
      with 3 False \<open>c \<noteq> CHR ''-''\<close> assms(2) show ?thesis
        by (auto simp: num_int_def dest: num_digits_shorter split: bind_splits)
    qed
  qed
  with num_frac_shorter [OF 4] num_exp_shorter [OF 5] show ?thesis by simp
qed


section \<open>Enough fuel\<close>

definition shortens :: "(string \<Rightarrow> 'a parsed) \<Rightarrow> bool" where
  "shortens p \<longleftrightarrow> (\<forall>s x s'. p s = Some (Inr (x, s')) \<longrightarrow> length s' < length s)"

lemma shortensD: "shortens p \<Longrightarrow> p s = Some (Inr (x, s')) \<Longrightarrow> length s' < length s"
  by (auto simp: shortens_def)

lemma parse_element_shortens:
  assumes "\<And>it. shortens (pv it)"
  shows "shortens (parse_element pv)"
  unfolding shortens_def parse_element_def
  by (auto split: bind_splits sum.splits dest!: skip_shorter shortensD [OF assms])

lemma parse_member_shortens:
  assumes "\<And>it. shortens (pv it)"
  shows "shortens (parse_member pv)"
  unfolding shortens_def parse_member_def Let_def
  by (auto split: bind_splits sum.splits if_splits
      dest!: skip_shorter parse_string_shorter shortensD [OF assms])

lemma parse_more_shorter:
  assumes "shortens pe"
  shows "parse_more z k pe cs s = Some (Inr (cs', s')) \<Longrightarrow> length s' \<le> length s"
proof (induction k arbitrary: cs s)
  case (Suc k)
  from Suc.prems show ?case
    by (auto split: if_splits bind_splits sum.splits dest!: Suc.IH shortensD [OF assms])
qed simp

lemma parse_children_shorter:
  assumes "shortens pe"
  shows "parse_children z k close pe ty it (c # s) = Some (Inr (x, s')) \<Longrightarrow> length s' \<le> length s"
  unfolding parse_children_def Let_def
  by (auto split: if_splits bind_splits sum.splits
      dest!: skip_shorter parse_more_shorter [OF assms] shortensD [OF assms])

lemma has_prefix_length: "has_prefix l s = Some True \<Longrightarrow> length l \<le> length s"
  by (induction l s rule: has_prefix.induct) (auto split: if_splits bind_splits)

lemma parse_value_shortens: "shortens (parse_value z k it)"
proof (induction k arbitrary: it)
  case (Suc k)
  show ?case
    unfolding shortens_def
  proof (intro allI impI)
    fix s x s' assume p: "parse_value z (Suc k) it s = Some (Inr (x, s'))"
    then obtain c t where s: "s = c # t" by (cases s) auto
    from p show "length s' < length s"
      unfolding s
      by (auto simp: parse_array_def parse_object_def
          split: if_splits bind_splits
          dest!: has_prefix_length parse_string_shorter parse_number_shorter
            parse_children_shorter [OF parse_element_shortens [OF Suc]]
            parse_children_shorter [OF parse_member_shortens [OF Suc]])
  qed
qed (simp add: shortens_def)


lemma parse_element_cong:
  assumes "\<And>it u. length u \<le> length s \<Longrightarrow> pv it u = pv' it u"
  shows "parse_element pv s = parse_element pv' s"
  by (cases "skip s") (auto simp: parse_element_def assms dest!: skip_shorter)

lemma parse_member_cong:
  assumes "\<And>it u. length u \<le> length s \<Longrightarrow> pv it u = pv' it u"
  shows "parse_member pv s = parse_member pv' s"
proof -
  have "pv it w = pv' it w"
    if "skip s = Some t" "parse_string pc_JSON_New_Item t = Some (Inr (x, u))" "skip u = Some v"
      "skip (tl v) = Some w" for it t x u v w
    using that by (intro assms) (auto dest!: skip_shorter parse_string_shorter)
  then show ?thesis
    by (auto simp: parse_member_def Let_def intro!: Option.bind_cong split: sum.splits)
qed

lemma parse_more_cong:
  assumes "shortens pe" and "length s < k" "length s < k'"
    and "\<And>u. length u < length s \<Longrightarrow> pe u = pe' u"
  shows "parse_more z k pe cs s = parse_more z' k' pe' cs s"
  using assms(2-)
proof (induction k arbitrary: k' cs s)
  case (Suc k)
  show ?case
  proof (cases s)
    case (Cons c t)
    then obtain k0 where k': "k' = Suc k0" using Suc.prems(2) by (cases k') auto
    have pe: "pe t = pe' t" using Suc.prems(3) Cons by simp
    have "parse_more z k pe (cs @ [x]) u = parse_more z' k0 pe' (cs @ [x]) u"
      if "pe t = Some (Inr (x, u))" for x u
      using Suc.prems Cons k' shortensD [OF assms(1) that] by (intro Suc.IH) auto
    then show ?thesis
      using Cons k' pe by (auto intro!: Option.bind_cong split: sum.splits)
  qed (use Suc.prems(2) in \<open>cases k'; simp\<close>)
qed simp

lemma parse_children_cong:
  assumes "shortens pe" and "length s \<le> k" "length s \<le> k'"
    and "\<And>u. length u \<le> length s \<Longrightarrow> pe u = pe' u"
  shows "parse_children z k close pe ty it (c # s) = parse_children z' k' close pe' ty it (c # s)"
proof (cases "skip s")
  case (Some t)
  then have t: "length t \<le> length s" by (rule skip_shorter)
  have "parse_more z k pe [x] u = parse_more z' k' pe' [x] u" if "pe t = Some (Inr (x, u))" for x u
    using shortensD [OF assms(1) that] t assms by (intro parse_more_cong) auto
  then show ?thesis
    using Some assms(4) [OF t] by (auto simp: parse_children_def Let_def intro!: Option.bind_cong split: sum.splits)
qed (simp add: parse_children_def)

lemma parse_value_fuel:
  "length s < k \<Longrightarrow> length s < k' \<Longrightarrow> parse_value z k it s = parse_value z' k' it s"
proof (induction "length s" arbitrary: s k k' it rule: less_induct)
  case less
  obtain m m' where k: "k = Suc m" "k' = Suc m'" using less.prems by (cases k; cases k') auto
  show ?case
  proof (cases s)
    case (Cons c t)
    have pv: "parse_value z m it u = parse_value z' m' it u" if "length u \<le> length t" for it u
      using that less.prems Cons k by (intro less.hyps) auto
    have pc: "parse_children z m close (parse_element (parse_value z m)) ty it (c # t) =
        parse_children z' m' close (parse_element (parse_value z' m')) ty it (c # t)"
      "parse_children z m close (parse_member (parse_value z m)) ty it (c # t) =
        parse_children z' m' close (parse_member (parse_value z' m')) ty it (c # t)" for close ty
      using less.prems Cons k pv
      by (intro parse_children_cong parse_element_shortens parse_member_shortens parse_value_shortens
          parse_element_cong parse_member_cong; force)+
    have "parse_array z m (parse_value z m) it s = parse_array z' m' (parse_value z' m') it s"
      "parse_object z m (parse_value z m) it s = parse_object z' m' (parse_value z' m') it s"
      by (unfold parse_array_def parse_object_def Cons pc) (rule refl)+
    then show ?thesis
      by (simp only: k parse_value.simps)
  qed (simp add: k)
qed

text \<open>
  C20. The parser terminates. A parse that runs out of fuel returns whatever the argument \<open>z\<close> says; with more
  fuel than the text has characters the result does not depend on \<open>z\<close> or on the fuel, so the
  fuel never runs out, for any text, terminated or not: what comes back is a tree, a reported error, or \<open>None\<close> for an access outside the
  buffer. The amount \<open>pc_JSON_ParseWithOpts\<close> gives, one unit per character and one more, is enough, and
  a value that is parsed has consumed at least one character.
\<close>

theorem json_parse_terminates:
  assumes "length s < k"
  shows "parse_value z k it s = parse_value z' (Suc (length s)) it s \<and>
    (\<forall>it' s'. parse_value z k it s = Some (Inr (it', s')) \<longrightarrow> length s' < length s)"
  using parse_value_fuel [of s k "Suc (length s)"] shortensD [OF parse_value_shortens] assms by blast

definition json_text :: "string \<Rightarrow> string" where
  "json_text s = map (\<lambda>c. if c = CHR ''~'' then quot else if c = CHR ''^'' then bslash else c) s @ [nul]"

theorem json_parse_terminates_witness:
  "length (json_text ''[1,2]'') < 9 \<and>
   (\<forall>e. parse_value (Some e) 9 pc_JSON_New_Item (json_text ''[1,2]'') =
     parse_value None (Suc (length (json_text ''[1,2]''))) pc_JSON_New_Item (json_text ''[1,2]''))"
proof -
  have len: "length (json_text ''[1,2]'') < 9" by (simp add: json_text_def)
  then show ?thesis using json_parse_terminates [OF len] by blast
qed

section \<open>Types\<close>

text \<open>
  A well-typed item: a number's integer is its double truncated, a string has its text, only
  arrays and objects have children, and the children of an object are named.
\<close>

fun well_typed :: "pc_JSON \<Rightarrow> bool" where
  "well_typed (Item t vs vi vd nm ch) \<longleftrightarrow>
     (let t = t AND NOT pc_JSON_IsReference
      in if t = pc_JSON_Number then vi = dbl_to_int vd \<and> ch = []
         else if t = pc_JSON_String then vs \<noteq> None \<and> ch = []
         else if t = pc_JSON_Array then (\<forall>c \<in> set ch. well_typed c)
         else if t = pc_JSON_Object then (\<forall>c \<in> set ch. well_typed c \<and> jstring c \<noteq> None)
         else t \<in> {pc_JSON_False, pc_JSON_True, pc_JSON_NULL} \<and> ch = [])"

lemma item_fields [simp]:
  "jstring (set_jtype t it) = jstring it" "child (set_jtype t it) = child it"
  "jstring (set_valuestring vs it) = jstring it" "child (set_valuestring vs it) = child it"
  "jstring (set_valueint vi it) = jstring it" "child (set_valueint vi it) = child it"
  "jstring (set_valuedouble vd it) = jstring it" "child (set_valuedouble vd it) = child it"
  "jstring (set_child ch it) = jstring it" "child (set_child ch it) = ch"
  "jstring (set_jstring nm it) = nm" "child (set_jstring nm it) = child it"
  "jtype (set_jstring nm it) = jtype it" "jtype (set_child ch it) = jtype it"
  "jtype (set_jtype t it) = t" "jtype (set_valuestring vs it) = jtype it"
  "valuestring (set_valuestring vs it) = vs" "valuestring (set_jtype t it) = valuestring it"
  "valuestring (set_jstring nm it) = valuestring it" "valuestring (set_child ch it) = valuestring it"
  by (cases it; simp)+

lemma new_item_fields [simp]:
  "jstring pc_JSON_New_Item = None" "child pc_JSON_New_Item = []" "valuestring pc_JSON_New_Item = None"
  by (simp_all add: pc_JSON_New_Item_def)

text \<open>What a parser makes of an item that has no children yet.\<close>

definition types :: "(pc_JSON \<Rightarrow> string \<Rightarrow> pc_JSON parsed) \<Rightarrow> bool" where
  "types p \<longleftrightarrow> (\<forall>it s x s'. p it s = Some (Inr (x, s')) \<longrightarrow> child it = [] \<longrightarrow>
     well_typed x \<and> jstring x = jstring it \<and> jtype x \<le> 6)"

lemma typesD:
  "types p \<Longrightarrow> p it s = Some (Inr (x, s')) \<Longrightarrow> child it = [] \<Longrightarrow>
    well_typed x \<and> jstring x = jstring it \<and> jtype x \<le> 6"
  by (auto simp: types_def)

lemma parse_string_result:
  assumes "parse_string it s = Some (Inr (x, s'))"
  obtains out where "x = set_jtype pc_JSON_String (set_valuestring (Some out) it)"
  using assms by (auto simp: parse_string_def Let_def split: if_splits bind_splits)

lemma parse_string_types: "types parse_string"
  unfolding types_def
proof (intro allI impI)
  fix it s x s' assume "parse_string it s = Some (Inr (x, s'))" "child it = []"
  then show "well_typed x \<and> jstring x = jstring it \<and> jtype x \<le> 6"
    by (cases it) (auto elim!: parse_string_result)
qed

lemma parse_number_types: "types parse_number"
  unfolding types_def
proof (intro allI impI)
  fix it s x s' assume "parse_number it s = Some (Inr (x, s'))" "child it = []"
  then show "well_typed x \<and> jstring x = jstring it \<and> jtype x \<le> 6"
    by (cases it) (auto simp: parse_number_def Let_def split: bind_splits)
qed

lemma parse_element_typed:
  assumes "types pv" "parse_element pv s = Some (Inr (x, s'))"
  shows "well_typed x"
  using assms(2) by (auto simp: parse_element_def dest: typesD [OF assms(1)] split: bind_splits sum.splits)

lemma parse_member_typed:
  assumes "types pv" "parse_member pv s = Some (Inr (x, s'))"
  shows "well_typed x \<and> jstring x \<noteq> None"
  using assms(2)
  by (auto simp: parse_member_def Let_def dest!: typesD [OF assms(1)] elim!: parse_string_result
      split: bind_splits sum.splits if_splits)

lemma parse_more_all:
  assumes "\<And>s x s'. pe s = Some (Inr (x, s')) \<Longrightarrow> P x"
  shows "parse_more z k pe cs s = Some (Inr (cs', s')) \<Longrightarrow> \<forall>x \<in> set cs. P x \<Longrightarrow> \<forall>x \<in> set cs'. P x"
proof (induction k arbitrary: cs s)
  case (Suc k)
  from Suc.prems(1) show ?case
    using Suc.prems(2) by (auto split: if_splits bind_splits sum.splits dest: assms dest!: Suc.IH)
qed simp

lemma parse_children_all:
  assumes "\<And>s x s'. pe s = Some (Inr (x, s')) \<Longrightarrow> P x"
    and "parse_children z k close pe ty it s = Some (Inr (y, s'))" and "child it = []"
  obtains cs where "y = set_child cs (set_jtype ty it)" "\<forall>x \<in> set cs. P x"
proof -
  consider "y = set_jtype ty it"
    | x u v w cs where "pe u = Some (Inr (x, v))" "parse_more z k pe [x] v = Some (Inr (cs, w))"
      "y = set_child cs (set_jtype ty it)"
    using assms(2) by (auto simp: parse_children_def Let_def split: if_splits bind_splits sum.splits)
  then show thesis
  proof cases
    case 1
    then have "y = set_child [] (set_jtype ty it)" using assms(3) by (cases it) simp
    then show ?thesis by (rule that) simp
  next
    case 2
    then have "\<forall>x \<in> set cs. P x"
      by (intro parse_more_all [of pe P, OF assms(1) 2(2)]) (auto dest: assms(1))
    with 2(3) show ?thesis by (rule that)
  qed
qed

lemma parse_value_types: "types (parse_value z k)"
proof (induction k)
  case (Suc k)
  show ?case
    unfolding types_def
  proof (intro allI impI)
    fix it s x s' assume p: "parse_value z (Suc k) it s = Some (Inr (x, s'))" "child it = []"
    then consider "x = set_jtype pc_JSON_NULL it" | "x = set_jtype pc_JSON_False it"
      | "x = set_valueint 1 (set_jtype pc_JSON_True it)"
      | "parse_string it s = Some (Inr (x, s'))" | "parse_number it s = Some (Inr (x, s'))"
      | "parse_array z k (parse_value z k) it s = Some (Inr (x, s'))"
      | "parse_object z k (parse_value z k) it s = Some (Inr (x, s'))"
      by (auto simp del: has_prefix.simps split: if_splits bind_splits)
    then show "well_typed x \<and> jstring x = jstring it \<and> jtype x \<le> 6"
    proof cases
      case 6
      then have "parse_children z k (CHR '']'') (parse_element (parse_value z k)) pc_JSON_Array it s = Some (Inr (x, s'))"
        by (auto simp: parse_array_def split: if_splits bind_splits)
      from parse_children_all [where P = well_typed, OF parse_element_typed [OF Suc] this p(2)]
      obtain cs where "x = set_child cs (set_jtype pc_JSON_Array it)" "\<forall>c \<in> set cs. well_typed c" .
      then show ?thesis by (cases it) simp
    next
      case 7
      then have "parse_children z k (CHR ''}'') (parse_member (parse_value z k)) pc_JSON_Object it s = Some (Inr (x, s'))"
        by (auto simp: parse_object_def split: if_splits bind_splits)
      from parse_children_all [where P = "\<lambda>c. well_typed c \<and> jstring c \<noteq> None",
          OF parse_member_typed [OF Suc] this p(2)]
      obtain cs where "x = set_child cs (set_jtype pc_JSON_Object it)"
        "\<forall>c \<in> set cs. well_typed c \<and> jstring c \<noteq> None" .
      then show ?thesis by (cases it) simp
    qed (use p(2) parse_string_types parse_number_types in \<open>cases it; auto dest: typesD\<close>)+
  qed
qed (simp add: types_def)


declare parse_value.simps [simp del]

lemma find_item_total:
  "\<forall>c \<in> set cs. jstring c \<noteq> None \<Longrightarrow> \<exists>r. find_item name cs = Some r \<and> (\<forall>i. r = Some i \<longrightarrow> i < length cs)"
  by (induction cs) auto

lemma parsed_item:
  assumes "pc_JSON_Parse s = Some (Some it)"
  obtains k t u where "parse_value None k pc_JSON_New_Item t = Some (Inr (it, u))"
  using assms by (auto simp: pc_JSON_Parse_def pc_JSON_ParseWithOpts_def split: bind_splits sum.splits)

lemma well_typed_object:
  "well_typed it \<Longrightarrow> jtype it = pc_JSON_Object \<Longrightarrow> \<forall>c \<in> set (child it). well_typed c \<and> jstring c \<noteq> None"
  by (cases it) auto

text \<open>
  C33. Whatever input \<open>pc_JSON_Parse\<close> accepts, the tree it builds is well typed: a number's integer
  is its double truncated, a string has a text, only arrays and objects have children and every
  child of an object is named. So looking a key up in a parsed object never compares with a null
  name.
\<close>

theorem json_parse_well_typed:
  assumes "pc_JSON_Parse s = Some (Some it)"
  shows "well_typed it \<and> jtype it \<le> pc_JSON_Object \<and> jstring it = None \<and>
    (jtype it = pc_JSON_Object \<longrightarrow> pc_JSON_GetObjectItem it name \<noteq> None)"
proof -
  obtain k t u where "parse_value None k pc_JSON_New_Item t = Some (Inr (it, u))"
    using parsed_item [OF assms] .
  from typesD [OF parse_value_types this]
  have wt: "well_typed it" "jstring it = None" "jtype it \<le> 6" by auto
  moreover have "pc_JSON_GetObjectItem it name \<noteq> None" if "jtype it = pc_JSON_Object"
    using find_item_total [of "child it" name] well_typed_object [OF wt(1) that]
    by (auto simp: pc_JSON_GetObjectItem_def)
  ultimately show ?thesis by simp
qed

lemma json_parse_well_typed_witness:
  "pc_JSON_Parse (json_text ''{~k~:[true]}'') \<noteq> None \<and>
   (case pc_JSON_Parse (json_text ''{~k~:[true]}'') of
      Some (Some it) \<Rightarrow> well_typed it \<and> jtype it = pc_JSON_Object | _ \<Rightarrow> False)"
proof -
  let ?it = "Item 6 None 0 0 None [Item 5 None 0 0 (Some ''k'') [Item 1 None 1 0 None []]]"
  have p: "pc_JSON_Parse (json_text ''{~k~:[true]}'') = Some (Some ?it)" by code_simp
  from json_parse_well_typed [OF p] show ?thesis unfolding p by simp
qed

section \<open>Memory safety\<close>

text \<open>A terminated text without a backslash.\<close>

definition tame :: "string \<Rightarrow> bool" where
  "tame s \<longleftrightarrow> nul \<in> set s \<and> bslash \<notin> set s"

lemma tame_Nil [simp]: "\<not> tame []"
  by (simp add: tame_def)

lemma tame_tl: "tame (c # s) \<Longrightarrow> c \<noteq> nul \<Longrightarrow> tame s"
  by (auto simp: tame_def)

definition safe :: "(string \<Rightarrow> 'a parsed) \<Rightarrow> bool" where
  "safe p \<longleftrightarrow> (\<forall>s. tame s \<longrightarrow> (\<exists>r. p s = Some r \<and> (\<forall>x s'. r = Inr (x, s') \<longrightarrow> tame s')))"

lemma safeE:
  assumes "safe p" "tame s"
  obtains e where "p s = Some (Inl e)" | x s' where "p s = Some (Inr (x, s'))" "tame s'"
  using assms by (auto simp: safe_def) (metis sum.exhaust prod.exhaust)

lemma skip_safe: "tame s \<Longrightarrow> \<exists>s'. skip s = Some s' \<and> tame s'"
  by (induction s) (auto dest: tame_tl)

lemma digit_not_nul: "is_digit c \<Longrightarrow> c \<noteq> nul"
  by (auto simp: is_digit_def)

lemma num_digits_safe: "tame s \<Longrightarrow> \<exists>n' k' s'. num_digits n k s = Some (n', k', s') \<and> tame s'"
  by (induction s arbitrary: n k) (auto dest: tame_tl digit_not_nul)

lemma exp_digits_safe: "tame s \<Longrightarrow> \<exists>n' s'. exp_digits n s = Some (n', s') \<and> tame s'"
  by (induction s arbitrary: n) (auto dest: tame_tl digit_not_nul)

lemma tame_peek: "tame s \<Longrightarrow> \<exists>c t. s = c # t"
  by (cases s) auto


lemma has_prefix_safe:
  "nul \<notin> set l \<Longrightarrow> tame s \<Longrightarrow> \<exists>b. has_prefix l s = Some b \<and> (b \<longrightarrow> tame (drop (length l) s))"
proof (induction l s rule: has_prefix.induct)
  case (1 s)
  then show ?case by auto
next
  case (2 l ls s)
  then obtain c t where "s = c # t" using tame_peek by blast
  with 2 show ?case by (cases "c = l") (auto dest: tame_tl)
qed

lemma string_copy_safe:
  "tame s \<Longrightarrow> \<exists>n. string_len s = Some n \<and>
    (\<forall>room > n. \<exists>out s'. string_copy room s = Some (out, s') \<and> tame s')"
proof (induction s)
  case (Cons c s)
  show ?case
  proof (cases "c = quot \<or> c = nul")
    case True
    with Cons.prems show ?thesis by auto
  next
    case False
    with Cons have "c \<noteq> bslash" "tame s" by (auto simp: tame_def)
    with Cons.IH obtain n where n: "string_len s = Some n"
      "\<And>room. room > n \<Longrightarrow> \<exists>out s'. string_copy room s = Some (out, s') \<and> tame s'" by blast
    have "\<exists>out s'. string_copy room (c # s) = Some (out, s') \<and> tame s'" if "room > Suc n" for room
    proof -
      from that have "n < room - 1" by simp
      with n(2) obtain out s' where "string_copy (room - 1) s = Some (out, s')" "tame s'" by blast
      with that False \<open>c \<noteq> bslash\<close> show ?thesis by auto
    qed
    with n(1) False \<open>c \<noteq> bslash\<close> show ?thesis by auto
  qed
qed simp

lemma parse_string_safe: "safe (parse_string it)"
  unfolding safe_def
proof (intro allI impI)
  fix s assume t: "tame s"
  then obtain c u where s: "s = c # u" using tame_peek by blast
  show "\<exists>r. parse_string it s = Some r \<and> (\<forall>x s'. r = Inr (x, s') \<longrightarrow> tame s')"
  proof (cases "c = quot")
    case True
    with t s have "tame u" by (auto dest: tame_tl)
    then obtain n out v where "string_len u = Some n" "string_copy (n + 1) u = Some (out, v)" "tame v"
      using string_copy_safe [of u] by force
    moreover from \<open>tame v\<close> obtain d w where "v = d # w" using tame_peek by blast
    ultimately show ?thesis
      using True s by (auto simp: parse_string_def dest: tame_tl)
  qed (simp add: parse_string_def s)
qed

lemma num_sign_safe: "tame s \<Longrightarrow> \<exists>x s'. num_sign s = Some (x, s') \<and> tame s'"
  using tame_peek [of s] by (auto simp: num_sign_def dest: tame_tl)

lemma num_zero_safe: "tame s \<Longrightarrow> \<exists>s'. num_zero s = Some s' \<and> tame s'"
  using tame_peek [of s] by (auto simp: num_zero_def dest: tame_tl)

lemma num_int_safe: "tame s \<Longrightarrow> \<exists>x s'. num_int s = Some (x, s') \<and> tame s'"
  using tame_peek [of s] num_digits_safe [of s 0 0]
  by (auto simp: num_int_def simp del: num_digits.simps)

lemma num_frac_safe: "tame s \<Longrightarrow> \<exists>x k s'. num_frac n s = Some (x, k, s') \<and> tame s'"
proof -
  assume t: "tame s"
  then obtain c u where s: "s = c # u" using tame_peek by blast
  show ?thesis
  proof (cases "c = CHR ''.''")
    case True
    with t s have "tame u" by (auto dest: tame_tl)
    with t s True show ?thesis
      using tame_peek [of u] num_digits_safe [of u n 0]
      by (auto simp: num_frac_def simp del: num_digits.simps)
  qed (use t s in \<open>simp add: num_frac_def\<close>)
qed

lemma num_exp_safe: "tame s \<Longrightarrow> \<exists>x s'. num_exp s = Some (x, s') \<and> tame s'"
proof -
  assume t: "tame s"
  then obtain c u where s: "s = c # u" using tame_peek by blast
  show ?thesis
  proof (cases "c = CHR ''e'' \<or> c = CHR ''E''")
    case True
    with t s have u: "tame u" by (auto dest: tame_tl)
    then obtain d v where v: "u = d # v" using tame_peek by blast
    have "tame v" if "d = CHR ''+'' \<or> d = CHR ''-''" using u v that by (auto dest: tame_tl)
    then show ?thesis
      using s v u True exp_digits_safe [of u 0] exp_digits_safe [of v 0]
      by (auto simp: num_exp_def simp del: exp_digits.simps)
  qed (use t s in \<open>simp add: num_exp_def\<close>)
qed

lemma parse_number_safe: "safe (parse_number it)"
  unfolding safe_def
proof (intro allI impI)
  fix s assume "tame s"
  then obtain sign s1 where 1: "num_sign s = Some (sign, s1)" "tame s1" using num_sign_safe by blast
  then obtain s2 where 2: "num_zero s1 = Some s2" "tame s2" using num_zero_safe by blast
  then obtain n s3 where 3: "num_int s2 = Some (n, s3)" "tame s3" using num_int_safe by blast
  then obtain m k s4 where 4: "num_frac n s3 = Some (m, k, s4)" "tame s4" using num_frac_safe by blast
  then obtain e s5 where 5: "num_exp s4 = Some (e, s5)" "tame s5" using num_exp_safe by blast
  show "\<exists>r. parse_number it s = Some r \<and> (\<forall>x s'. r = Inr (x, s') \<longrightarrow> tame s')"
    using 1(1) 2(1) 3(1) 4(1) 5 by (simp add: parse_number_def Let_def)
qed

lemma parse_element_safe:
  assumes "\<And>it. safe (pv it)" shows "safe (parse_element pv)"
  unfolding safe_def
proof (intro allI impI)
  fix s assume "tame s"
  then obtain t where t: "skip s = Some t" "tame t" using skip_safe by blast
  from assms t(2) show "\<exists>r. parse_element pv s = Some r \<and> (\<forall>x s'. r = Inr (x, s') \<longrightarrow> tame s')"
    by (rule safeE [of "pv pc_JSON_New_Item"])
      (use t skip_safe in \<open>fastforce simp: parse_element_def\<close>)+
qed


lemma parse_member_safe:
  assumes "\<And>it. safe (pv it)" shows "safe (parse_member pv)"
  unfolding safe_def
proof (intro allI impI)
  fix s assume "tame s"
  then obtain t where t: "skip s = Some t" "tame t" using skip_safe by blast
  from parse_string_safe t(2)
  show "\<exists>r. parse_member pv s = Some r \<and> (\<forall>x s'. r = Inr (x, s') \<longrightarrow> tame s')"
  proof (rule safeE [of "parse_string pc_JSON_New_Item"])
    fix x u assume x: "parse_string pc_JSON_New_Item t = Some (Inr (x, u))" and "tame u"
    then obtain v where v: "skip u = Some v" "tame v" using skip_safe by blast
    then obtain c w where w: "v = c # w" using tame_peek by blast
    show ?thesis
    proof (cases "c = CHR '':''")
      case True
      with v w have "tame w" by (auto dest: tame_tl)
      then obtain y where y: "skip w = Some y" "tame y" using skip_safe by blast
      let ?it = "set_valuestring None (set_jstring (valuestring x) x)"
      from assms y(2) show ?thesis
        by (rule safeE [of "pv ?it"])
          (use t x v w y True skip_safe in \<open>fastforce simp: parse_member_def Let_def\<close>)+
    qed (use t x v w in \<open>simp add: parse_member_def\<close>)
  qed (use t in \<open>simp add: parse_member_def\<close>)
qed

lemma parse_more_safe:
  assumes "safe pe" "shortens pe"
  shows "tame s \<Longrightarrow> length s \<le> k \<Longrightarrow>
    \<exists>r. parse_more None k pe cs s = Some r \<and> (\<forall>x s'. r = Inr (x, s') \<longrightarrow> tame s')"
proof (induction k arbitrary: cs s)
  case (Suc k)
  then obtain c u where s: "s = c # u" using tame_peek by blast
  show ?case
  proof (cases "c = CHR '',''")
    case True
    with Suc.prems s have "tame u" by (auto dest: tame_tl)
    with assms(1) show ?thesis
    proof (rule safeE)
      fix x v assume x: "pe u = Some (Inr (x, v))" "tame v"
      with shortensD [OF assms(2) x(1)] s Suc.prems
      have "\<exists>r. parse_more None k pe (cs @ [x]) v = Some r \<and> (\<forall>x s'. r = Inr (x, s') \<longrightarrow> tame s')"
        by (intro Suc.IH) auto
      with s True x(1) show ?thesis by simp
    qed (use s True in simp)
  qed (use s Suc.prems in simp)
qed simp

lemma parse_children_safe:
  assumes "safe pe" "shortens pe" "tame s" "tame (tl s)" "length s \<le> Suc k" "close \<noteq> nul"
  shows "\<exists>r. parse_children None k close pe ty it s = Some r \<and> (\<forall>x s'. r = Inr (x, s') \<longrightarrow> tame s')"
proof -
  obtain t where t: "skip (tl s) = Some t" "tame t" using skip_safe [OF assms(4)] by blast
  have len: "length t \<le> k" using skip_shorter [OF t(1)] assms(5) by simp
  obtain c u where c: "t = c # u" using tame_peek [OF t(2)] by blast
  show ?thesis
  proof (cases "c = close")
    case True
    with t c assms(6) show ?thesis by (auto simp: parse_children_def Let_def dest: tame_tl)
  next
    case False
    from assms(1) t(2) show ?thesis
    proof (rule safeE)
      fix x v assume x: "pe t = Some (Inr (x, v))" "tame v"
      have "length v \<le> k" using shortensD [OF assms(2) x(1)] len by simp
      from parse_more_safe [OF assms(1,2) x(2) this]
      obtain r where r: "parse_more None k pe [x] v = Some r" "\<And>x s'. r = Inr (x, s') \<Longrightarrow> tame s'" by blast
      have body: "parse_children None k close pe ty it s =
          (case r of Inl e \<Rightarrow> Some (Inl e)
           | Inr (cs, s) \<Rightarrow> do { c \<leftarrow> peek s;
               if c = close then Some (Inr (set_child cs (set_jtype ty it), tl s)) else Some (Inl s) })"
        using t c False x r(1) by (simp add: parse_children_def Let_def cong: sum.case_cong)
      show ?thesis
      proof (cases r)
        case (Inr y)
        then obtain cs w where y: "r = Inr (cs, w)" by (cases y) auto
        with r(2) have "tame w" by blast
        then obtain d z where "w = d # z" using tame_peek by blast
        with body y \<open>tame w\<close> assms(6) show ?thesis by (auto dest: tame_tl)
      qed (use body in simp)
    qed (use t c False in \<open>simp add: parse_children_def Let_def\<close>)
  qed
qed


text \<open>The value parser on texts shorter than \<open>n\<close>, as the induction on the length needs it.\<close>

definition bounded_parser :: "nat \<Rightarrow> pc_JSON \<Rightarrow> string \<Rightarrow> pc_JSON parsed" where
  "bounded_parser n it s = (if length s < n then parse_value None (Suc (length s)) it s else Some (Inl s))"

lemma bounded_parser_eq: "length s < n \<Longrightarrow> parse_value None n it s = bounded_parser n it s"
  by (simp add: bounded_parser_def parse_value_fuel [of s n "Suc (length s)"])

lemma bounded_parser_shortens: "shortens (bounded_parser n it)"
  using parse_value_shortens by (auto simp: shortens_def bounded_parser_def)

lemma parse_value_step:
  assumes "s = c # t"
  shows "parse_value None (Suc (length s)) it s =
     do { n \<leftarrow> has_prefix ''null'' s;
          if n then Some (Inr (set_jtype pc_JSON_NULL it, drop 4 s)) else do {
          f \<leftarrow> has_prefix ''false'' s;
          if f then Some (Inr (set_jtype pc_JSON_False it, drop 5 s)) else do {
          t \<leftarrow> has_prefix ''true'' s;
          if t then Some (Inr (set_valueint 1 (set_jtype pc_JSON_True it), drop 4 s))
          else if c = quot then parse_string it s
          else if c = CHR ''-'' \<or> is_digit c then parse_number it s
          else if c = CHR ''['' then parse_children None (length s) (CHR '']'') (parse_element (bounded_parser (length s))) pc_JSON_Array it s
          else if c = CHR ''{'' then parse_children None (length s) (CHR ''}'') (parse_member (bounded_parser (length s))) pc_JSON_Object it s
          else Some (Inl s) } } }"
proof -
  have pc: "parse_children None (length s) close (parse_element (parse_value None (length s))) ty it s =
      parse_children None (length s) close (parse_element (bounded_parser (length s))) ty it s"
    "parse_children None (length s) close (parse_member (parse_value None (length s))) ty it s =
      parse_children None (length s) close (parse_member (bounded_parser (length s))) ty it s" for close ty
    unfolding assms
    by (intro parse_children_cong parse_element_shortens parse_member_shortens parse_value_shortens
        parse_element_cong parse_member_cong bounded_parser_eq; force)+
  have "peek s = Some c" by (simp add: assms)
  then show ?thesis
    by (simp only: parse_value.simps parse_array_def parse_object_def Option.bind.bind_lunit pc
        simp_thms if_True if_False cong: if_cong)
qed

lemma parse_value_safe:
  "tame s \<Longrightarrow> \<exists>r. parse_value None (Suc (length s)) it s = Some r \<and> (\<forall>x s'. r = Inr (x, s') \<longrightarrow> tame s')"
proof (induction "length s" arbitrary: s it rule: less_induct)
  case less
  then obtain c t where s: "s = c # t" using tame_peek by blast
  let ?pv = "bounded_parser (length s)"
  have pv: "safe (?pv it)" for it
    using less.hyps by (auto simp: safe_def bounded_parser_def)
  note sh = parse_element_shortens [of ?pv, OF bounded_parser_shortens]
    parse_member_shortens [of ?pv, OF bounded_parser_shortens]
  have ch: "\<exists>r. parse_children None (length s) close pe ty it s = Some r \<and> (\<forall>x s'. r = Inr (x, s') \<longrightarrow> tame s')"
    if "pe = parse_element ?pv \<or> pe = parse_member ?pv" "close \<noteq> nul" "c \<noteq> nul" for close ty pe
    using that less.prems s parse_element_safe [of ?pv, OF pv] parse_member_safe [of ?pv, OF pv] sh
    by (intro parse_children_safe) (auto dest: tame_tl)
  have hp: "\<exists>b. has_prefix l s = Some b \<and> (b \<longrightarrow> tame (drop m s))" if "nul \<notin> set l" "length l = m" for l m
    using has_prefix_safe [OF that(1) less.prems] that(2) by simp
  obtain n where n: "has_prefix ''null'' s = Some n" "n \<longrightarrow> tame (drop 4 s)"
    using hp [of "''null''" 4] by (auto simp del: has_prefix.simps)
  obtain f where f: "has_prefix ''false'' s = Some f" "f \<longrightarrow> tame (drop 5 s)"
    using hp [of "''false''" 5] by (auto simp del: has_prefix.simps)
  obtain b where b: "has_prefix ''true'' s = Some b" "b \<longrightarrow> tame (drop 4 s)"
    using hp [of "''true''" 4] by (auto simp del: has_prefix.simps)
  have str: "\<exists>r. parse_string it s = Some r \<and> (\<forall>x s'. r = Inr (x, s') \<longrightarrow> tame s')"
    "\<exists>r. parse_number it s = Some r \<and> (\<forall>x s'. r = Inr (x, s') \<longrightarrow> tame s')"
    using parse_string_safe parse_number_safe less.prems by (auto simp: safe_def)
  show ?case
    unfolding parse_value_step [OF s] n(1) f(1) b(1) Option.bind.bind_lunit
    using n(2) f(2) b(2) str ch [of _ "CHR '']''" pc_JSON_Array] ch [of _ "CHR ''}''" pc_JSON_Object]
    by (auto simp del: parse_value.simps)
qed

text \<open>
  C7. Memory safety of the parser on terminated texts without escapes: whatever the text and
  whatever follows it in memory, every read stays within the buffer and every write within the
  allocation, and the parser returns a tree or reports an error.
\<close>

theorem json_parse_memory_safe:
  assumes "bslash \<notin> set s"
  shows "pc_JSON_Parse (s @ [nul]) \<noteq> None"
proof -
  have "tame (s @ [nul])" using assms by (simp add: tame_def)
  then obtain t where t: "skip (s @ [nul]) = Some t" "tame t" using skip_safe by blast
  then obtain r where "parse_value None (Suc (length t)) pc_JSON_New_Item t = Some r"
    using parse_value_safe by blast
  with t(1) show ?thesis
    by (cases r) (auto simp: pc_JSON_Parse_def pc_JSON_ParseWithOpts_def)
qed

lemma json_parse_memory_safe_witness:
  "pc_JSON_Parse (''{: [1, 2.5e9, tru'' @ [nul]) \<noteq> None"
  using json_parse_memory_safe [of "''{: [1, 2.5e9, tru''"] by simp

text \<open>
  With escapes it is not safe. The first pass stops at the quotation mark inside a malformed
  \<open>\u\<close> escape, the second pass jumps over it and writes on behind the two bytes that were
  allocated, whatever follows in memory; and a trailing backslash makes the first pass skip the
  terminator.
\<close>

theorem parse_string_overflow:
  "string_len (tl (json_text ''~^u~aaaaaa'' @ rest)) = Some 1 \<and>
   parse_string it (json_text ''~^u~aaaaaa'' @ rest) = None"
  by (simp add: json_text_def parse_string_def string_escape_def unicode_escape_def parse_hex4_def
      hex_val_def is_digit_def numeral_eq_Suc Let_def)

theorem parse_string_overread:
  "parse_string it (json_text ''~a^'') = None"
  by (simp add: json_text_def parse_string_def)


section \<open>Objects as association lists\<close>

definition members :: "pc_JSON \<Rightarrow> (string \<times> pc_JSON) list" where
  "members ob = map (\<lambda>c. (the (jstring c), c)) (child ob)"

definition remove_first :: "string \<Rightarrow> (string \<times> pc_JSON) list \<Rightarrow> (string \<times> pc_JSON) list" where
  "remove_first k ms = takeWhile (\<lambda>m. fst m \<noteq> k) ms @ tl (dropWhile (\<lambda>m. fst m \<noteq> k) ms)"

abbreviation entry :: "pc_JSON \<Rightarrow> string \<times> pc_JSON" where
  "entry c \<equiv> (the (jstring c), c)"

lemma find_item_members:
  "\<forall>c \<in> set cs. jstring c \<noteq> None \<Longrightarrow>
   \<exists>r. find_item s cs = Some r \<and> map_of (map entry cs) s = map_option ((!) cs) r \<and>
     (\<forall>i. r = Some i \<longrightarrow> i < length cs \<and>
        map entry (take i cs @ drop (Suc i) cs) = remove_first s (map entry cs)) \<and>
     (r = None \<longrightarrow> remove_first s (map entry cs) = map entry cs)"
proof (induction cs)
  case (Cons c cs)
  obtain n where n: "jstring c = Some n" using Cons.prems by auto
  show ?case
  proof (cases "n = s")
    case True
    with n show ?thesis by (auto simp: remove_first_def)
  next
    case False
    from Cons obtain r where "find_item s cs = Some r" "map_of (map entry cs) s = map_option ((!) cs) r"
      "\<forall>i. r = Some i \<longrightarrow> i < length cs \<and>
        map entry (take i cs @ drop (Suc i) cs) = remove_first s (map entry cs)"
      "r = None \<longrightarrow> remove_first s (map entry cs) = map entry cs" by auto
    with n False show ?thesis by (cases r) (auto simp: remove_first_def)
  qed
qed (simp add: remove_first_def)

lemma well_typed_set_child:
  "jtype ob = pc_JSON_Object \<Longrightarrow>
    well_typed (set_child cs ob) \<longleftrightarrow> (\<forall>c \<in> set cs. well_typed c \<and> jstring c \<noteq> None)"
  by (cases ob) simp

lemma well_typed_set_jstring [simp]: "well_typed (set_jstring nm x) = well_typed x"
  by (cases x) simp

text \<open>
  C21. A well-typed object is an association list in which the first entry of a name counts:
  lookup is that of the list, adding a member appends an entry (and so never hides an existing
  one), detaching returns what lookup finds and removes exactly that entry, deleting is detaching;
  and all of them keep the object well typed.
\<close>

theorem json_object_refines_alist:
  assumes "well_typed ob" and "jtype ob = pc_JSON_Object" and "well_typed x"
  shows "pc_JSON_GetObjectItem ob k = Some (map_of (members ob) k) \<and>
    (let ob' = pc_JSON_AddItemToObject ob k (Some x)
     in well_typed ob' \<and> jtype ob' = pc_JSON_Object \<and>
        members ob' = members ob @ [(k, set_jstring (Some k) x)]) \<and>
    (\<exists>ob'. pc_JSON_DetachItemFromObject ob k = Some (map_of (members ob) k, ob') \<and>
        well_typed ob' \<and> jtype ob' = pc_JSON_Object \<and> members ob' = remove_first k (members ob) \<and>
        pc_JSON_DeleteItemFromObject ob k = Some ob')"
proof (intro conjI)
  have nm: "\<forall>c \<in> set (child ob). jstring c \<noteq> None"
    using well_typed_object [OF assms(1,2)] by blast
  obtain r where r: "find_item k (child ob) = Some r"
      "map_of (members ob) k = map_option ((!) (child ob)) r"
      "\<forall>i. r = Some i \<longrightarrow> i < length (child ob) \<and>
        map entry (take i (child ob) @ drop (Suc i) (child ob)) = remove_first k (members ob)"
      "r = None \<longrightarrow> remove_first k (members ob) = members ob"
    using find_item_members [OF nm, of k] by (auto simp: members_def)
  show "pc_JSON_GetObjectItem ob k = Some (map_of (members ob) k)"
    using r(1,2) by (simp add: pc_JSON_GetObjectItem_def)
  show "let ob' = pc_JSON_AddItemToObject ob k (Some x)
     in well_typed ob' \<and> jtype ob' = pc_JSON_Object \<and> members ob' = members ob @ [(k, set_jstring (Some k) x)]"
    using assms well_typed_object [OF assms(1,2)]
    by (simp add: pc_JSON_AddItemToObject_def pc_JSON_AddItemToArray_def Let_def members_def
        well_typed_set_child del: pc_JSON_Object_def)
  show "\<exists>ob'. pc_JSON_DetachItemFromObject ob k = Some (map_of (members ob) k, ob') \<and>
        well_typed ob' \<and> jtype ob' = pc_JSON_Object \<and> members ob' = remove_first k (members ob) \<and>
        pc_JSON_DeleteItemFromObject ob k = Some ob'"
  proof (cases r)
    case None
    with r assms show ?thesis
      by (simp add: pc_JSON_DetachItemFromObject_def pc_JSON_DeleteItemFromObject_def)
  next
    case (Some i)
    with r(3) have i: "i < length (child ob)" by blast
    let ?ob = "set_child (take i (child ob) @ drop (Suc i) (child ob)) ob"
    have "well_typed ?ob"
      using well_typed_object [OF assms(1,2)] assms(2)
      by (auto simp: well_typed_set_child simp del: pc_JSON_Object_def dest: in_set_takeD in_set_dropD)
    moreover have "members ?ob = remove_first k (members ob)"
      using r(3) Some by (simp add: members_def)
    ultimately show ?thesis
      using r(1,2) Some i assms(2)
      by (simp add: pc_JSON_DetachItemFromObject_def pc_JSON_DeleteItemFromObject_def
          pc_JSON_DetachItemFromArray_def pc_JSON_GetArrayItem_def)
  qed
qed

lemma json_object_refines_alist_witness:
  "pc_JSON_GetObjectItem (pc_JSON_AddItemToObject pc_JSON_CreateObject ''k'' (Some pc_JSON_CreateTrue)) ''k'' =
     Some (Some (set_jstring (Some ''k'') pc_JSON_CreateTrue))"
proof -
  let ?ob = "pc_JSON_AddItemToObject pc_JSON_CreateObject ''k'' (Some pc_JSON_CreateTrue)"
  have "well_typed ?ob" "jtype ?ob = pc_JSON_Object" "well_typed pc_JSON_CreateNull"
    "map_of (members ?ob) ''k'' = Some (set_jstring (Some ''k'') pc_JSON_CreateTrue)" by code_simp+
  with json_object_refines_alist [OF this(1-3), of "''k''"] show ?thesis by simp
qed

end
