(* ===== verification/JsonRoundtrip.thy ===== *)
theory JsonRoundtrip
  imports JsonProps
begin

text \<open>
  Printing a tree whose numbers are integers and parsing the text gives the tree back, for both print
  formats, whatever follows the text.
\<close>

section \<open>Integers\<close>

lemma digit_char_0: "digit_char 0 = CHR ''0''"
  by code_simp

lemma digit_char_props:
  assumes "0 \<le> i" "i < 10"
  shows "is_digit (digit_char i)" "digit_val (digit_char i) = i" "code (digit_char i) = nat (48 + i)"
  using assms by (auto simp: digit_char_def is_digit_def digit_val_def of_char_of)

text \<open>A text that does not continue a number.\<close>

definition stops :: "string \<Rightarrow> bool" where
  "stops s \<longleftrightarrow> s \<noteq> [] \<and> \<not> is_digit (hd s) \<and> hd s \<notin> {CHR ''.'', CHR ''e'', CHR ''E''}"

lemma dbl_0 [simp]: "dbl_of_int 0 = 0"
  by (simp add: dbl_of_int_def dbl_round_def dbl_pack_def)

lemma push_digit:
  assumes "0 \<le> i" "0 \<le> d" "d < 10" "10 * i + d < 2 ^ 52"
  shows "dbl_add (dbl_mul (dbl_of_int i) (dbl_of_int 10)) (dbl_of_int d) = dbl_of_int (10 * i + d)"
proof -
  have "dbl_mul (dbl_of_int i) (dbl_of_int 10) = dbl_of_int (i * 10)"
    using assms by (subst dbl_mul_of_int) (auto simp: dbl_of_int_def)
  moreover have "dbl_add (dbl_of_int (i * 10)) (dbl_of_int d) = dbl_of_int (i * 10 + d)"
    using assms by (intro dbl_add_of_int) auto
  ultimately show ?thesis by (simp add: mult.commute)
qed

lemma num_digits_digits:
  "0 \<le> i \<Longrightarrow> i < 2 ^ 52 \<Longrightarrow>
    num_digits 0 k (digits i @ s) = num_digits (dbl_of_int i) (k + int (length (digits i))) s"
proof (induction i arbitrary: k s rule: digits.induct)
  case (1 i)
  show ?case
  proof (cases "i < 10")
    case True
    with 1(2) push_digit [of 0 i] show ?thesis by (simp add: digit_char_props)
  next
    case False
    have "num_digits 0 k (digits (i div 10) @ digit_char (i mod 10) # s) =
        num_digits (dbl_of_int (i div 10)) (k + int (length (digits (i div 10)))) (digit_char (i mod 10) # s)"
      using 1 False by (intro "1.IH") auto
    also have "\<dots> = num_digits (dbl_of_int (10 * (i div 10) + i mod 10)) (k + int (length (digits i))) s"
      using 1(2,3) False by (simp add: digit_char_props push_digit digits_big add_ac)
    finally show ?thesis
      using False by (simp add: digits_big)
  qed
qed

lemma digits_first:
  "0 < i \<Longrightarrow> \<exists>c ds. digits i = c # ds \<and> is_digit c \<and> c \<noteq> CHR ''0''"
proof (induction i rule: digits.induct)
  case (1 i)
  show ?case
  proof (cases "i < 10")
    case True
    have "digit_char i \<noteq> CHR ''0''"
    proof
      assume "digit_char i = CHR ''0''"
      then have "digit_val (digit_char i) = 0" by (simp add: digit_val_def)
      with 1(2) True show False by (simp add: digit_char_props)
    qed
    with True 1(2) show ?thesis by (simp add: digit_char_props)
  next
    case False
    then have "0 < i div 10" by simp
    with 1 False show ?thesis by (auto simp: digits_big)
  qed
qed

lemma parse_natural:
  assumes "0 \<le> i" "i < 2 ^ 52" "stops s"
  obtains s' where "num_zero (digits i @ s) = Some s'" "num_int s' = Some (dbl_of_int i, s)"
proof (cases "i = 0")
  case True
  obtain c t where s: "s = c # t" "\<not> is_digit c" using assms(3) by (cases s) (auto simp: stops_def)
  have "digits 0 = ''0''" by (simp add: digit_char_0)
  with True s show ?thesis by (intro that [of s]) (auto simp: num_zero_def num_int_def)
next
  case False
  then obtain c ds where c: "digits i = c # ds" "is_digit c" "c \<noteq> CHR ''0''"
    using digits_first [of i] assms(1) by auto
  obtain d t where s: "s = d # t" "\<not> is_digit d" using assms(3) by (cases s) (auto simp: stops_def)
  have "num_digits 0 0 (c # ds @ s) = Some (dbl_of_int i, int (length (digits i)), s)"
    using num_digits_digits [OF assms(1,2), of 0 s] c(1) s by simp
  with c show ?thesis
    by (intro that [of "c # ds @ s"]) (auto simp: num_zero_def num_int_def simp del: num_digits.simps)
qed

lemma parse_sprintf_d:
  assumes "INT_MIN \<le> i" "i \<le> INT_MAX" "stops s"
  shows "parse_number it (sprintf_d i @ s) =
    Some (Inr (set_jtype pc_JSON_Number (set_valueint i (set_valuedouble (dbl_of_int i) it)), s))"
proof -
  obtain s' where s': "num_zero (digits \<bar>i\<bar> @ s) = Some s'" "num_int s' = Some (dbl_of_int \<bar>i\<bar>, s)"
  proof (rule parse_natural [of "\<bar>i\<bar>" s])
    show "\<bar>i\<bar> < 2 ^ 52" using assms(1,2) by simp
  qed (use assms(3) in auto)
  have sign: "num_sign (sprintf_d i @ s) = Some (if i < 0 then (dbl_of_int (-1), digits \<bar>i\<bar> @ s)
      else (dbl_of_int 1, digits \<bar>i\<bar> @ s))"
  proof (cases "i < 0")
    case False
    obtain c ds where c: "digits i = c # ds" "is_digit c"
      using digits_first [of i] False by (cases "i = 0") (auto simp: digit_char_def is_digit_def)
    have "c \<noteq> CHR ''-''" using c(2) by (auto simp: is_digit_def)
    with False c show ?thesis by (simp add: sprintf_d_def num_sign_def)
  qed (simp add: sprintf_d_def num_sign_def)
  have rest: "num_frac n s = Some (n, 0, s)" "num_exp s = Some (0, s)" for n
    using assms(3) by (cases s; auto simp: stops_def num_frac_def num_exp_def)+
  have "dbl_mul (dbl_mul (dbl_of_int (if i < 0 then -1 else 1)) (dbl_of_int \<bar>i\<bar>)) (dbl_of_int 1) = dbl_of_int i"
  proof -
    have "dbl_mul (dbl_of_int (if i < 0 then -1 else 1)) (dbl_of_int \<bar>i\<bar>) = dbl_of_int i"
      using assms by (subst dbl_mul_of_int) (auto simp: dbl_of_int_def dbl_round_def)
    then show ?thesis
      using assms by (simp, subst dbl_mul_of_int) (auto simp: dbl_of_int_def dbl_round_def)
  qed
  with sign s' rest show ?thesis
    using dbl_to_int_of_int [OF assms(1,2)]
    by (cases "i < 0") (simp_all add: parse_number_def Let_def)
qed


section \<open>Strings\<close>

lemma hex_char_val:
  assumes "n < 16"
  shows "hex_val (hex_char n) = Some (of_nat n)"
proof (cases "n < 10")
  case True
  then show ?thesis by (simp add: hex_char_def hex_val_def is_digit_def of_char_of)
next
  case False
  then obtain m where m: "n = 10 + m" using le_Suc_ex not_less by blast
  with assms show ?thesis by (simp add: hex_char_def hex_val_def is_digit_def of_char_of)
qed

lemma parse_hex4_digits:
  assumes "hex_val a = Some va" "hex_val b = Some vb" "hex_val c = Some vc" "hex_val d = Some vd"
  shows "parse_hex4 (a # b # c # d # s) =
    Some (push_bit 4 (push_bit 4 (push_bit 4 va + vb) + vc) + vd)"
proof -
  have "hex_loop (Suc (Suc (Suc (Suc 0)))) 0 (a # b # c # d # s) =
      Some (push_bit 4 (push_bit 4 (push_bit 4 va + vb) + vc) + vd)"
    using assms by simp
  moreover have "Suc (Suc (Suc (Suc 0))) = 4" by simp
  ultimately show ?thesis unfolding parse_hex4_def by (simp only:)
qed

lemma hex_pair: "push_bit 4 (of_nat a :: u32) + of_nat b = of_nat (16 * a + b)"
  by (simp add: push_bit_eq_mult)

lemma parse_hex4_print:
  "parse_hex4 (sprintf_04x c @ s) = Some (of_nat (code c))"
proof -
  have "code c div 16 < 16" using nat_of_char_less_256 [of c] by (intro less_mult_imp_div_less) simp
  then have "hex_val (hex_char (code c div 16)) = Some (of_nat (code c div 16))"
    "hex_val (hex_char (code c mod 16)) = Some (of_nat (code c mod 16))"
    by (auto intro: hex_char_val)
  moreover have "hex_val (CHR ''0'') = Some 0" by code_simp
  moreover have "push_bit 4 (of_nat (code c div 16) :: u32) + of_nat (code c mod 16) = of_nat (code c)"
    using hex_pair [of "code c div 16" "code c mod 16"] by (simp only: mult_div_mod_eq)
  ultimately show ?thesis
    by (simp add: sprintf_04x_def parse_hex4_digits)
qed

lemma utf8_ascii: "c \<noteq> nul \<Longrightarrow> code c < 32 \<Longrightarrow> utf8_bytes (of_nat (code c)) = [c]"
proof -
  assume c: "code c < 32"
  have "(of_nat (code c) :: u32) < 0x80"
    using c by (simp add: word_less_nat_alt unat_of_nat)
  moreover have "unat (ucast (of_nat (code c) :: u32) :: u8) = code c"
    using c by (simp add: unsigned_ucast_eq unsigned_of_nat take_bit_nat_eq_self)
  ultimately show ?thesis
    by (simp add: utf8_bytes_def utf8_len_def to_char_def firstByteMark_def chr_of_def Let_def)
qed

lemma ctrl_code: "code c < 32 \<Longrightarrow> c \<noteq> nul \<Longrightarrow>
    (of_nat (code c) :: u32) \<noteq> 0 \<and> (of_nat (code c) :: u32) < 0xD800"
proof -
  assume c: "code c < 32" "c \<noteq> nul"
  then have "code c \<noteq> 0" using of_char_eq_iff [of c nul, where ?'a = nat] by simp
  moreover have "unat (of_nat (code c) :: u32) = code c"
    using c(1) by (simp add: unat_of_nat)
  ultimately show ?thesis
    using c(1) by (auto simp: word_less_nat_alt)
qed


text \<open>One printed character, followed by more of the string.\<close>

lemma plain_char_parse:
  "plain_char c \<Longrightarrow> c \<noteq> quot \<and> c \<noteq> nul \<and> c \<noteq> bslash"
  by (auto simp: plain_char_def)

lemma string_escape_escaped:
  assumes "\<not> plain_char c" "c \<noteq> nul"
  shows "\<exists>d ds. escaped c = bslash # d # ds \<and> bslash \<notin> set ds \<and> quot \<notin> set ds \<and> nul \<notin> set ds \<and>
    (\<exists>u. string_escape (d # ds @ s) = Some ([c], u) \<and> tl u = s)"
proof (cases "c \<in> {bslash, quot, CHR 0x08, CHR 0x0C, CHR 0x0A, CHR 0x0D, CHR 0x09}")
  case True
  then show ?thesis
    using assms by (auto simp: escaped_def string_escape_def)
next
  case False
  then have c: "code c < 32" using assms(1) by (auto simp: plain_char_def)
  have e: "escaped c = bslash # CHR ''u'' # sprintf_04x c"
    using assms(1) False by (simp add: escaped_def)
  have hex: "hex_char n \<notin> {bslash, quot, nul}" if "n < 16" for n
  proof
    assume "hex_char n \<in> {bslash, quot, nul}"
    then have "code (hex_char n) \<in> {code bslash, code quot, code nul}" by auto
    with that show False by (simp add: hex_char_def of_char_of split: if_splits)
  qed
  have "code c div 16 < 16" "code c mod 16 < 16" using c by auto
  then have d: "bslash \<notin> set (sprintf_04x c)" "quot \<notin> set (sprintf_04x c)" "nul \<notin> set (sprintf_04x c)"
    using hex [of "code c div 16"] hex [of "code c mod 16"] by (auto simp: sprintf_04x_def)
  have "string_escape (CHR ''u'' # sprintf_04x c @ s) = Some ([c], hex_char (code c mod 16) # s)"
  proof -
    have l: "drop 3 (sprintf_04x c @ s) = hex_char (code c mod 16) # s"
      by (simp add: sprintf_04x_def)
    have r: "(of_nat (code c) :: u32) \<noteq> 0" "(of_nat (code c) :: u32) < 0xD800"
      using ctrl_code [OF c assms(2)] by auto
    have "\<not> (of_nat (code c) :: u32) \<ge> 0xD800" using r(2) by (simp only: not_le)
    moreover have "\<not> (of_nat (code c) :: u32) \<ge> 0xDC00"
      unfolding not_le by (rule less_trans [OF r(2)]) simp
    ultimately show ?thesis
      using r l utf8_ascii [OF assms(2) c]
      by (simp add: string_escape_def unicode_escape_def parse_hex4_print Let_def del: drop_append)
  qed
  with e d show ?thesis by auto
qed

lemma string_printed:
  "nul \<notin> set cs \<Longrightarrow> \<exists>n \<ge> length cs.
     string_len (concat (map escaped cs) @ quot # s) = Some n \<and>
     (\<forall>room > length cs. string_copy room (concat (map escaped cs) @ quot # s) = Some (cs, quot # s))"
proof (induction cs)
  case (Cons c cs)
  let ?t = "concat (map escaped cs) @ quot # s"
  obtain n where n: "length cs \<le> n" "string_len ?t = Some n"
    "\<And>room. room > length cs \<Longrightarrow> string_copy room ?t = Some (cs, quot # s)"
    using Cons by auto
  show ?case
  proof (cases "plain_char c")
    case True
    have "string_copy room (c # ?t) = Some (c # cs, quot # s)" if "room > Suc (length cs)" for room
      using that n(3) [of "room - 1"] plain_char_parse [OF True] by simp
    moreover have "escaped c = [c]" using True by (simp add: escaped_def)
    ultimately show ?thesis
      using n plain_char_parse [OF True] by (intro exI [of _ "Suc n"]) auto
  next
    case False
    have "c \<noteq> nul" using Cons.prems by auto
    from string_escape_escaped [OF False this, of ?t]
    obtain d ds u where d: "escaped c = bslash # d # ds" "bslash \<notin> set ds" "quot \<notin> set ds" "nul \<notin> set ds"
      "string_escape (d # ds @ ?t) = Some ([c], u)" "tl u = ?t" by blast
    have len: "string_len (ds @ ?t) = Some (length ds + n)"
      using d(2-4) n(2) by (induction ds) auto
    have "string_copy room (bslash # d # ds @ ?t) = Some (c # cs, quot # s)" if "room > Suc (length cs)" for room
      using that n(3) [of "room - 1"] d(5,6) by simp
    with d(1) len n(1) show ?thesis
      by (auto intro!: exI [of _ "Suc (length ds + n)"])
  qed
qed simp

lemma parse_printed_string:
  assumes "nul \<notin> set cs"
  shows "parse_string it (quot # concat (map escaped cs) @ quot # s) =
    Some (Inr (set_jtype pc_JSON_String (set_valuestring (Some cs) it), s))"
proof -
  obtain n where n: "length cs \<le> n" "string_len (concat (map escaped cs) @ quot # s) = Some n"
    "string_copy (n + 1) (concat (map escaped cs) @ quot # s) = Some (cs, quot # s)"
    using string_printed [OF assms, of s] by fastforce
  have "c_str cs = cs" using assms by (auto simp: c_str_def takeWhile_eq_all_conv)
  with n show ?thesis by (simp add: parse_string_def Let_def)
qed


section \<open>Lists of values\<close>

definition blanks :: "string \<Rightarrow> bool" where
  "blanks w \<longleftrightarrow> (\<forall>c \<in> set w. c \<noteq> nul \<and> code c \<le> 32)"

lemma skip_blanks [simp]: "blanks w \<Longrightarrow> skip (w @ s) = skip s"
  by (induction w) (auto simp: blanks_def)

lemma blanks_simps [simp]: "blanks []" "blanks (c # w) \<longleftrightarrow> c \<noteq> nul \<and> code c \<le> 32 \<and> blanks w"
  "blanks (replicate n tab)"
  by (auto simp: blanks_def)

lemma skip_idem: "skip u = Some v \<Longrightarrow> skip v = Some v"
  by (induction u) (auto split: if_splits)

text \<open>
  \<open>reads\<close>: the parser of an entry reads the text \<open>e\<close> as \<open>x\<close>, whatever follows, as long as it
  does not continue a number, and leaves what comes after the blanks.
\<close>

definition reads :: "nat \<Rightarrow> (string \<Rightarrow> pc_JSON parsed) \<Rightarrow> string \<Rightarrow> pc_JSON \<Rightarrow> bool" where
  "reads f pe e x \<longleftrightarrow>
     (\<forall>t t'. stops t \<longrightarrow> skip t = Some t' \<longrightarrow> length (e @ t) < f \<longrightarrow> pe (e @ t) = Some (Inr (x, t')) \<and>
        (\<exists>c u. skip (e @ t) = Some (c # u) \<and> c \<notin> {CHR '']'', CHR ''}''}))"

definition skips :: "(string \<Rightarrow> pc_JSON parsed) \<Rightarrow> bool" where
  "skips pe \<longleftrightarrow> (\<forall>u v. skip u = Some v \<longrightarrow> pe u = pe v)"

lemma parse_element_skips: "skips (parse_element pv)"
  by (auto simp: skips_def parse_element_def skip_idem)

lemma parse_member_skips: "skips (parse_member pv)"
  by (auto simp: skips_def parse_member_def skip_idem)

definition list_text :: "string \<Rightarrow> string \<Rightarrow> char \<Rightarrow> string \<Rightarrow> string list \<Rightarrow> string" where
  "list_text sep w close rest es = concat (map (\<lambda>e. CHR '','' # sep @ e) es) @ w @ close # rest"

lemma list_text_skip:
  assumes "blanks w" "close \<in> {CHR '']'', CHR ''}''}"
  obtains t where "skip (list_text sep w close rest es) = Some t" "stops (list_text sep w close rest es)"
    "es = [] \<Longrightarrow> t = close # rest" "es \<noteq> [] \<Longrightarrow> t = list_text sep w close rest es"
proof (cases es)
  case Nil
  have "stops (w @ close # rest)"
  proof (cases w)
    case (Cons c u)
    with assms(1) show ?thesis by (auto simp: stops_def is_digit_def)
  qed (use assms(2) in \<open>auto simp: stops_def is_digit_def\<close>)
  with Nil assms show ?thesis by (intro that [of "close # rest"]) (auto simp: list_text_def)
next
  case (Cons e es')
  then show ?thesis
    by (intro that [of "list_text sep w close rest es"]) (auto simp: list_text_def stops_def is_digit_def)
qed

lemma parse_more_reads:
  assumes "skips pe" "blanks sep" "blanks w" "close \<in> {CHR '']'', CHR ''}''}"
  shows "list_all2 (reads f pe) es cs \<Longrightarrow> length (list_text sep w close rest es) < f \<Longrightarrow> length es < k \<Longrightarrow>
    skip (list_text sep w close rest es) = Some t \<Longrightarrow>
    parse_more None k pe acc t = Some (Inr (acc @ cs, close # rest))"
proof (induction es cs arbitrary: k acc t rule: list_all2_induct)
  case Nil
  then show ?case using assms(3,4) by (cases k) (auto simp: list_text_def)
next
  case (Cons e es c cs)
  obtain j where k: "k = Suc j" using Cons.prems(2) by (cases k) auto
  let ?u = "list_text sep w close rest es"
  have t: "t = CHR '','' # sep @ e @ ?u"
    using Cons.prems(3) by (simp add: list_text_def)
  obtain u' where u': "skip ?u = Some u'" "stops ?u" using list_text_skip [OF assms(3,4)] by blast
  have len: "length (e @ ?u) < f" "length ?u < f"
    using Cons.prems(1) by (simp_all add: list_text_def)
  then obtain d v where v: "pe (e @ ?u) = Some (Inr (c, u'))" "skip (e @ ?u) = Some (d # v)"
    using Cons.hyps(1) u' unfolding reads_def by blast
  have "pe (sep @ e @ ?u) = pe (e @ ?u)"
    using assms(1,2) v(2) unfolding skips_def by (metis skip_blanks)
  with t v(1) have "parse_more None k pe acc t = parse_more None j pe (acc @ [c]) u'"
    by (simp add: k)
  also have "\<dots> = Some (Inr ((acc @ [c]) @ cs, close # rest))"
    using Cons.prems(2) k len(2) u'(1) by (intro Cons.IH) auto
  finally show ?case by simp
qed

lemma join_list_text:
  "es \<noteq> [] \<Longrightarrow> join (CHR '','' # sep) es @ w @ close # rest = hd es @ list_text sep w close rest (tl es)"
proof (induction es rule: induct_list012)
  case (3 x y zs)
  then show ?case by (simp add: list_text_def)
qed (simp_all add: list_text_def)

lemma parse_children_reads:
  assumes "skips pe" "blanks w0" "blanks sep" "blanks w" "close \<in> {CHR '']'', CHR ''}''}"
    and "list_all2 (reads f pe) es cs" "es \<noteq> []"
    and "length (join (CHR '','' # sep) es @ w @ close # rest) < f" "length es \<le> k"
  shows "parse_children None k close pe ty it (opn # w0 @ join (CHR '','' # sep) es @ w @ close # rest) =
    Some (Inr (set_child cs (set_jtype ty it), rest))"
proof -
  obtain e es' where es: "es = e # es'" using assms(7) by (cases es) auto
  then obtain c cs' where cs: "cs = c # cs'" "reads f pe e c" "list_all2 (reads f pe) es' cs'"
    using assms(6) by (auto simp: list_all2_Cons1)
  let ?u = "list_text sep w close rest es'"
  have jt: "join (CHR '','' # sep) es @ w @ close # rest = e @ ?u"
    using join_list_text [OF assms(7)] by (simp add: es)
  obtain u' where u': "skip ?u = Some u'" "stops ?u" using list_text_skip [OF assms(4,5)] by blast
  have len: "length (e @ ?u) < f" using assms(8) unfolding jt .
  then obtain d v where v: "pe (e @ ?u) = Some (Inr (c, u'))" "skip (e @ ?u) = Some (d # v)" "d \<noteq> close"
    using cs(2) u' assms(5) unfolding reads_def by blast
  have "pe (d # v) = Some (Inr (c, u'))"
    using assms(1) v(1,2) unfolding skips_def by metis
  moreover have "parse_more None k pe [c] u' = Some (Inr ([c] @ cs', close # rest))"
    using cs(3) len assms(9) u'(1) es
    by (intro parse_more_reads [OF assms(1,3,4,5)]) auto
  ultimately show ?thesis
    using v(2,3) assms(2) by (simp add: parse_children_def jt cs(1) Let_def)
qed


section \<open>Trees\<close>

text \<open>
  The trees whose text denotes them: as the parser builds them, numbers integral and in the range
  of \<open>int\<close>, no reference bits, strings and names without a NUL, names on the members of objects
  only.
\<close>

definition is_name :: "string option \<Rightarrow> bool" where
  "is_name nm \<longleftrightarrow> (\<exists>n. nm = Some n \<and> nul \<notin> set n)"

fun printable :: "pc_JSON \<Rightarrow> bool" where
  "printable (Item t vs vi vd nm ch) \<longleftrightarrow>
     (if t = pc_JSON_Number then vs = None \<and> INT_MIN \<le> vi \<and> vi \<le> INT_MAX \<and> vd = dbl_of_int vi \<and> ch = []
      else if t = pc_JSON_String then is_name vs \<and> vi = 0 \<and> vd = 0 \<and> ch = []
      else vs = None \<and> vd = 0 \<and> vi = (if t = pc_JSON_True then 1 else 0) \<and>
        (if t = pc_JSON_Array then (\<forall>c \<in> set ch. printable c \<and> jstring c = None)
         else if t = pc_JSON_Object then (\<forall>c \<in> set ch. printable c \<and> is_name (jstring c))
         else t \<in> {pc_JSON_False, pc_JSON_True, pc_JSON_NULL} \<and> ch = []))"

lemma print_entries_Some:
  "print_entries f xs = Some (Some es) \<longleftrightarrow> list_all2 (\<lambda>e x. f x = Some (Some e)) es xs"
proof (induction xs arbitrary: es)
  case (Cons x xs)
  then show ?case
    by (cases es) (auto simp: Option.bind_eq_Some_conv split: option.splits bind_splits)
qed auto

lemma print_members_Some:
  "print_members f xs = Some (Some es) \<longleftrightarrow> list_all2 (\<lambda>e x. print_member f x = Some (Some e)) es xs"
proof (induction xs arbitrary: es)
  case (Cons x xs)
  then show ?case
    by (cases es) (auto simp: Option.bind_eq_Some_conv split: option.splits bind_splits)
qed auto

lemma into_buf_Some [simp]: "into_buf n s = Some (Some t) \<longleftrightarrow> t = s \<and> length s < n"
  by (auto simp: into_buf_def)

lemma print_number_int:
  assumes "INT_MIN \<le> i" "i \<le> INT_MAX"
  shows "print_number (Item t vs i (dbl_of_int i) nm ch) = into_buf 21 (sprintf_d i)"
proof -
  have b: "\<bar>i\<bar> < 2 ^ 53" using assms by simp
  note ex = dbl_of_int_exact [OF b]
  have "dbl_mag (dbl_minus d) = dbl_mag d" "dbl_neg (dbl_minus d) = (\<not> dbl_neg d)" for d
  proof -
    have "take_bit 63 (flip_bit 63 d) = take_bit 63 d"
      by (rule bit_eqI) (auto simp: bit_take_bit_iff bit_flip_bit_iff)
    then show "dbl_mag (dbl_minus d) = dbl_mag d" by (simp add: dbl_mag_def dbl_minus_def)
    show "dbl_neg (dbl_minus d) = (\<not> dbl_neg d)" by (simp add: dbl_neg_def dbl_minus_def bit_flip_bit_iff)
  qed
  then have m: "dbl_val (dbl_minus (dbl_of_int i)) = - of_int i" "dbl_finite (dbl_minus (dbl_of_int i))"
    "dbl_neg (dbl_minus (dbl_of_int i)) = (\<not> i < 0)"
    using ex by (auto simp: dbl_val_def dbl_finite_def Let_def)
  have "dbl_sub (dbl_of_int i) (dbl_of_int i) = 0"
    using ex m dbl_finite_cases by (auto simp: dbl_sub_def dbl_add_def dbl_round_def dbl_pack_def)
  moreover have "dbl_le (dbl_abs 0) DBL_EPSILON"
    by (simp add: DBL_EPSILON_def dbl_abs_def dbl_le_zero_round)
  moreover have "dbl_le (dbl_of_int i) (dbl_of_int j)" if "i \<le> j" "\<bar>i\<bar> < 2 ^ 53" "\<bar>j\<bar> < 2 ^ 53" for i j
    using that dbl_of_int_exact [of i] dbl_of_int_exact [of j] dbl_finite_cases
    by (simp add: dbl_le_def dbl_lt_def)
  ultimately show ?thesis
    using assms by (simp add: print_number_def)
qed

lemma quoted_not_blank: "code quot > 32" by simp

lemma sprintf_d_first:
  obtains c u where "sprintf_d i = c # u" "c = CHR ''-'' \<or> is_digit c"
proof (cases "i \<le> 0")
  case True
  then show ?thesis by (cases "i = 0") (auto simp: sprintf_d_def digit_char_0 is_digit_def intro: that)
next
  case False
  then show ?thesis using digits_first [of i] that by (auto simp: sprintf_d_def)
qed

text \<open>The first character of a printed value, and the value parser on it.\<close>

lemma parse_value_first:
  assumes "s = c # t" "c \<notin> {CHR ''n'', CHR ''f'', CHR ''t''}"
  shows "parse_value None (Suc k) it s =
     (if c = quot then parse_string it s
      else if c = CHR ''-'' \<or> is_digit c then parse_number it s
      else if c = CHR ''['' then parse_children None k (CHR '']'') (parse_element (parse_value None k)) pc_JSON_Array it s
      else if c = CHR ''{'' then parse_children None k (CHR ''}'') (parse_member (parse_value None k)) pc_JSON_Object it s
      else Some (Inl s))"
  using assms by (simp add: parse_value.simps parse_array_def parse_object_def)


definition value_start :: "string \<Rightarrow> bool" where
  "value_start s \<longleftrightarrow> (\<exists>c u. s = c # u \<and> code c > 32 \<and> c \<notin> {CHR '']'', CHR ''}''})"

text \<open>The induction hypothesis: the text \<open>s\<close> of \<open>x\<close> is parsed as \<open>x\<close> with fewer than \<open>f\<close> characters.\<close>

definition denotes :: "nat \<Rightarrow> string \<Rightarrow> pc_JSON \<Rightarrow> bool" where
  "denotes f s x \<longleftrightarrow> value_start s \<and>
     (\<forall>rest t. stops rest \<longrightarrow> length (s @ rest) < f \<longrightarrow>
        parse_value None f (Item t None 0 0 (jstring x) []) (s @ rest) = Some (Inr (x, rest)))"

text \<open>Arrays and objects end with their bracket, so that nothing depends on what follows.\<close>

definition delimits :: "nat \<Rightarrow> string \<Rightarrow> pc_JSON \<Rightarrow> bool" where
  "delimits f s x \<longleftrightarrow> value_start s \<and>
     (\<forall>rest t. length (s @ rest) < f \<longrightarrow>
        parse_value None f (Item t None 0 0 (jstring x) []) (s @ rest) = Some (Inr (x, rest)))"

lemma delimits_denotes: "delimits f s x \<Longrightarrow> denotes f s x"
  by (simp add: delimits_def denotes_def)

lemma value_start_skip: "value_start s \<Longrightarrow> skip (s @ t) = Some (s @ t)"
  by (auto simp: value_start_def)

lemma element_reads:
  assumes "denotes f e x" "jstring x = None"
  shows "reads f (parse_element (parse_value None f)) e x"
  unfolding reads_def
proof (intro allI impI conjI)
  fix t t' assume t: "stops t" "skip t = Some t'" "length (e @ t) < f"
  have "parse_value None f pc_JSON_New_Item (e @ t) = Some (Inr (x, t))"
    using assms t(1,3) by (simp add: denotes_def pc_JSON_New_Item_def)
  with assms(1) t(2) show "parse_element (parse_value None f) (e @ t) = Some (Inr (x, t'))"
    by (simp add: parse_element_def denotes_def value_start_skip)
  show "\<exists>c u. skip (e @ t) = Some (c # u) \<and> c \<notin> {CHR '']'', CHR ''}''}"
    using assms(1) by (auto simp: denotes_def value_start_def)
qed

lemma member_reads:
  assumes "denotes f e x" "jstring x = Some nm" "nul \<notin> set nm" "blanks w0" "blanks w"
  shows "reads f (parse_member (parse_value None f)) (w0 @ (quot # concat (map escaped nm) @ [quot]) @ CHR '':'' # w @ e) x"
    (is "reads f _ ?m x")
  unfolding reads_def
proof (intro allI impI conjI)
  fix t t' assume t: "stops t" "skip t = Some t'" "length (?m @ t) < f"
  have "parse_value None f (Item 4 None 0 0 (Some nm) []) (e @ t) = Some (Inr (x, t))"
    using assms(1,2) t(1,3) by (simp add: denotes_def)
  moreover have "parse_string pc_JSON_New_Item (quot # concat (map escaped nm) @ quot # CHR '':'' # w @ e @ t) =
      Some (Inr (Item 4 (Some nm) 0 0 None [], CHR '':'' # w @ e @ t))"
    using parse_printed_string [OF assms(3)] by (simp add: pc_JSON_New_Item_def)
  ultimately show "parse_member (parse_value None f) (?m @ t) = Some (Inr (x, t'))"
    using assms(1,4,5) t(2) by (simp add: parse_member_def denotes_def value_start_skip Let_def)
  show "\<exists>c u. skip (?m @ t) = Some (c # u) \<and> c \<notin> {CHR '']'', CHR ''}''}"
    using assms(4) by auto
qed

lemma length_join: "length es \<le> Suc (length (join (c # w) es))"
  by (induction es rule: induct_list012) simp_all

lemma array_delimits:
  assumes "list_all2 (denotes f) es ch" "\<forall>c \<in> set ch. jstring c = None" "es \<noteq> []" "blanks w"
  shows "delimits (Suc f) (CHR ''['' # join (CHR '','' # w) es @ '']'') (Item pc_JSON_Array None 0 0 nm ch)"
proof -
  have rd: "list_all2 (reads f (parse_element (parse_value None f))) es ch"
    using assms(1,2) by (auto simp: list_all2_conv_all_nth intro!: element_reads)
  have "parse_value None (Suc f) (Item t None 0 0 nm []) (CHR ''['' # join (CHR '','' # w) es @ CHR '']'' # rest) =
      Some (Inr (Item pc_JSON_Array None 0 0 nm ch, rest))"
    if "length (CHR ''['' # join (CHR '','' # w) es @ CHR '']'' # rest) < Suc f" for t rest
    using that length_join [of es "CHR '',''" w] assms(4)
      parse_children_reads [OF parse_element_skips, of "[]" w "[]" "CHR '']''" f "parse_value None f" es ch rest
        f pc_JSON_Array "Item t None 0 0 nm []" "CHR ''[''", OF _ _ _ _ rd assms(3)]
    by (simp add: parse_value_first is_digit_def)
  then show ?thesis by (simp add: delimits_def value_start_def)
qed

lemma object_delimits:
  assumes "list_all2 (reads f (parse_member (parse_value None f))) es ch" "es \<noteq> []" "blanks w0" "blanks w" "blanks w1"
  shows "delimits (Suc f) (CHR ''{'' # w0 @ join (CHR '','' # w) es @ w1 @ ''}'') (Item pc_JSON_Object None 0 0 nm ch)"
proof -
  have "parse_value None (Suc f) (Item t None 0 0 nm []) (CHR ''{'' # w0 @ join (CHR '','' # w) es @ w1 @ CHR ''}'' # rest) =
      Some (Inr (Item pc_JSON_Object None 0 0 nm ch, rest))"
    if "length (CHR ''{'' # w0 @ join (CHR '','' # w) es @ w1 @ CHR ''}'' # rest) < Suc f" for t rest
    using that length_join [of es "CHR '',''" w] assms(3-5)
      parse_children_reads [OF parse_member_skips, of w0 w w1 "CHR ''}''" f "parse_value None f" es ch rest
        f pc_JSON_Object "Item t None 0 0 nm []" "CHR ''{''", OF _ _ _ _ assms(1,2)]
    by (simp add: parse_value_first is_digit_def)
  then show ?thesis by (simp add: delimits_def value_start_def)
qed


lemma print_string_ptr_Some:
  "print_string_ptr (Some s) = Some (Some t) \<Longrightarrow> t = quot # concat (map escaped s) @ [quot]"
  by (simp add: print_string_ptr_def)

lemma leaf_denotes:
  assumes "printable (Item t vs vi vd nm [])" "print_value (Suc k) d fmt (Item t vs vi vd nm []) = Some (Some s)"
    and "t \<noteq> pc_JSON_Array" "t \<noteq> pc_JSON_Object"
  shows "denotes (Suc f) s (Item t vs vi vd nm [])"
proof -
  consider (lit) "t \<in> {pc_JSON_False, pc_JSON_True, pc_JSON_NULL}" | (num) "t = pc_JSON_Number"
    | (str) "t = pc_JSON_String"
    using assms by (auto split: if_splits)
  then show ?thesis
  proof cases
    case lit
    have "parse_value None (Suc f) (Item t' None 0 0 nm []) (s @ rest) = Some (Inr (Item t vs vi vd nm [], rest))" for t' rest
      using lit assms by (auto simp: parse_value.simps)
    moreover have "value_start s" using lit assms(2) by (auto simp: value_start_def)
    ultimately show ?thesis by (simp add: denotes_def)
  next
    case num
    with assms have i: "INT_MIN \<le> vi" "vi \<le> INT_MAX" "vd = dbl_of_int vi" "vs = None" by auto
    with num assms(2) have s: "s = sprintf_d vi" by (auto simp: print_number_int simp del: INT_MIN_def INT_MAX_def)
    obtain c u where c: "sprintf_d vi = c # u" "c = CHR ''-'' \<or> is_digit c" using sprintf_d_first .
    have cc: "c \<noteq> quot" "c \<notin> {CHR ''n'', CHR ''f'', CHR ''t''}" "code c > 32" "c \<notin> {CHR '']'', CHR ''}''}"
      using c(2) by (auto simp: is_digit_def)
    then show ?thesis
      using parse_sprintf_d [OF i(1,2)] c num i(3,4)
      by (auto simp: denotes_def value_start_def s parse_value_first)
  next
    case str
    with assms obtain cs where cs: "vs = Some cs" "nul \<notin> set cs" "vi = 0" "vd = 0" by (auto simp: is_name_def)
    with str assms(2) have "s = quot # concat (map escaped cs) @ [quot]"
      by (auto simp: print_string_def dest: print_string_ptr_Some)
    with cs str show ?thesis
      by (auto simp: denotes_def value_start_def parse_value_first parse_printed_string)
  qed
qed

lemma empty_delimits:
  assumes "printable (Item t vs vi vd nm [])" "print_value (Suc k) d fmt (Item t vs vi vd nm []) = Some (Some s)"
    and "t = pc_JSON_Array \<or> t = pc_JSON_Object"
  shows "delimits (Suc f) s (Item t vs vi vd nm [])"
  using assms(3)
proof
  assume t: "t = pc_JSON_Array"
  with assms have "s = ''[]''" "vs = None" "vi = 0" "vd = 0" by (auto simp: print_array_def)
  with t show ?thesis
    by (simp add: delimits_def value_start_def parse_value_first parse_children_def is_digit_def)
next
  assume t: "t = pc_JSON_Object"
  with assms obtain w where "s = CHR ''{'' # w @ ''}''" "blanks w" "vs = None" "vi = 0" "vd = 0"
    by (cases fmt) (auto simp: print_object_def)
  with t show ?thesis
    by (simp add: delimits_def value_start_def parse_value_first parse_children_def is_digit_def)
qed

lemma denotes_mono: "(\<And>f. denotes (Suc f) s x) \<Longrightarrow> denotes f s x"
  by (cases f) (auto simp: denotes_def)

lemma printed_member_reads:
  assumes "\<And>s. printable c \<Longrightarrow> pv c = Some (Some s) \<Longrightarrow> denotes f s c"
    and "printable c" "is_name (jstring c)" "print_member pv c = Some (Some m)"
  shows "reads f (parse_member (parse_value None f)) (member_text d fmt m) c"
proof -
  obtain nm where nm: "jstring c = Some nm" "nul \<notin> set nm" using assms(3) by (auto simp: is_name_def)
  obtain n e where m: "m = (n, e)" by (cases m)
  from assms(4) nm m have n: "n = quot # concat (map escaped nm) @ [quot]" and e: "pv c = Some (Some e)"
    by (auto simp: print_member_def dest: print_string_ptr_Some split: bind_splits option.splits)
  have "denotes f e c" using assms(1,2) e by blast
  from member_reads [OF this nm, of "if fmt then replicate d tab else []" "if fmt then [tab] else []"]
  show ?thesis by (simp add: member_text_def m n)
qed

lemma print_delimits_step:
  assumes IH: "\<And>x d s f. printable x \<Longrightarrow> print_value k d fmt x = Some (Some s) \<Longrightarrow> denotes f s x"
    and x: "printable x" "print_value (Suc k) d fmt x = Some (Some s)"
      "jtype x = pc_JSON_Array \<or> jtype x = pc_JSON_Object"
  shows "delimits (Suc f) s x"
proof -
  obtain t vs vi vd nm ch where it: "x = Item t vs vi vd nm ch" by (cases x)
  show ?thesis
  proof (cases "ch = []")
    case True
    show ?thesis using x unfolding it True by (intro empty_delimits) auto
  next
    case False
    with x(1,3) it have f: "vs = None" "vd = 0" "vi = 0" by (auto split: if_splits)
    from x(3) show ?thesis
    proof
      assume "jtype x = pc_JSON_Array"
      then have t: "t = pc_JSON_Array" by (simp add: it)
      let ?w = "if fmt then '' '' else []"
      from x(2) False obtain es where
        es: "list_all2 (\<lambda>e c. print_value k (Suc d) fmt c = Some (Some e)) es ch"
        and s: "s = CHR ''['' # join (CHR '','' # ?w) es @ '']''"
        by (auto simp: it t print_array_def print_entries_Some split: bind_splits option.splits if_splits)
      have "list_all2 (denotes f) es ch"
        using es IH x(1) by (auto simp: it t list_all2_conv_all_nth)
      with es x(1) False show ?thesis
        unfolding it t s f by (intro array_delimits) (auto simp: it t list_all2_Nil)
    next
      assume "jtype x = pc_JSON_Object"
      then have t: "t = pc_JSON_Object" by (simp add: it)
      let ?w = "if fmt then [newline] else []"
      let ?w1 = "if fmt then newline # replicate d tab else []"
      let ?m = "member_text (Suc d) fmt"
      from x(2) False obtain ms where
        ms: "list_all2 (\<lambda>m c. print_member (print_value k (Suc d) fmt) c = Some (Some m)) ms ch"
        and s: "s = CHR ''{'' # ?w @ join (CHR '','' # ?w) (map ?m ms) @ ?w1 @ ''}''"
        by (auto simp: it t print_object_def print_members_Some split: bind_splits option.splits if_splits)
      have "reads f (parse_member (parse_value None f)) (?m m) c"
        if "c \<in> set ch" "print_member (print_value k (Suc d) fmt) c = Some (Some m)" for m c
        using that x(1) by (intro printed_member_reads [OF IH]) (auto simp: it t)
      with ms have "list_all2 (reads f (parse_member (parse_value None f))) (map ?m ms) ch"
        by (auto simp: list_all2_conv_all_nth)
      with ms False show ?thesis
        unfolding it t s f by (intro object_delimits) auto
    qed
  qed
qed

lemma print_denotes:
  "printable x \<Longrightarrow> print_value k d fmt x = Some (Some s) \<Longrightarrow> denotes f s x"
proof (induction k arbitrary: x d s f)
  case (Suc k)
  show ?case
  proof (cases "jtype x = pc_JSON_Array \<or> jtype x = pc_JSON_Object")
    case True
    show ?thesis
      by (rule denotes_mono) (rule delimits_denotes [OF print_delimits_step [OF Suc.IH Suc.prems True]])
  next
    case False
    obtain t vs vi vd nm ch where it: "x = Item t vs vi vd nm ch" by (cases x)
    with Suc.prems(1) False have ch: "ch = []" by (auto split: if_splits)
    have "t \<noteq> pc_JSON_Array" "t \<noteq> pc_JSON_Object" using False by (simp_all add: it)
    with Suc.prems have "denotes (Suc f) s x" for f unfolding it ch by (rule leaf_denotes)
    then show ?thesis by (rule denotes_mono)
  qed
qed simp

lemma print_delimits:
  assumes "printable x" "print_value k d fmt x = Some (Some s)" "jtype x = pc_JSON_Array \<or> jtype x = pc_JSON_Object"
  shows "delimits (Suc f) s x"
proof (cases k)
  case (Suc j)
  with assms show ?thesis by (intro print_delimits_step [OF print_denotes]) auto
qed (use assms in simp)

text \<open>Every printable tree is printed: no buffer is too small and no printer returns null.\<close>

lemma digits_length: "0 \<le> i \<Longrightarrow> i < 10 ^ n \<Longrightarrow> length (digits i) \<le> max 1 n"
proof (induction i arbitrary: n rule: digits.induct)
  case (1 i)
  show ?case
  proof (cases "i < 10")
    case False
    with 1(3) obtain m where n: "n = Suc m" by (cases n) auto
    with 1 False have "length (digits (i div 10)) \<le> max 1 m"
      by (intro "1.IH") auto
    moreover have "m \<noteq> 0" using 1(3) n False by (cases m) auto
    ultimately show ?thesis using False n by (simp add: digits_big)
  qed simp
qed


lemma length_join_le: "length (join sep es) \<le> sum_list (map (\<lambda>e. length e + length sep) es)"
  by (induction es rule: induct_list012) simp_all

lemma escaped_length: "length (escaped c) = escaped_len c"
  by (auto simp: escaped_def escaped_len_def plain_char_def sprintf_04x_def)

lemma print_string_total: "\<exists>s. print_string_ptr nm = Some (Some s)"
proof (cases nm)
  case (Some s)
  have "length (concat (map escaped s)) = sum_list (map escaped_len s)"
    by (simp add: length_concat comp_def escaped_length)
  with Some show ?thesis by (simp add: print_string_ptr_def into_buf_def)
qed (simp add: print_string_ptr_def)

lemma print_entries_total: "\<forall>x \<in> set xs. \<exists>s. f x = Some (Some s) \<Longrightarrow> \<exists>es. print_entries f xs = Some (Some es)"
  by (induction xs) auto

lemma print_members_total:
  "\<forall>x \<in> set xs. \<exists>s. f x = Some (Some s) \<Longrightarrow> \<exists>ms. print_members f xs = Some (Some ms)"
proof (induction xs)
  case (Cons x xs)
  then obtain n e ms where "print_string_ptr (jstring x) = Some (Some n)" "f x = Some (Some e)"
    "print_members f xs = Some (Some ms)" using print_string_total by fastforce
  then show ?case by (simp add: print_member_def)
qed simp

lemma print_array_total:
  assumes "\<forall>x \<in> set ch. \<exists>s. pv x = Some (Some s)"
  shows "\<exists>s. print_array pv fmt ch = Some (Some s)"
proof -
  obtain es where es: "print_entries pv ch = Some (Some es)" using print_entries_total [OF assms] by blast
  have "length (join (if fmt then '', '' else '','') es) \<le>
      sum_list (map (\<lambda>e. length e + 2 + (if fmt then 1 else 0)) es)"
    by (rule order_trans [OF length_join_le]) (auto intro: sum_list_mono)
  with es show ?thesis
    by (cases "ch = []") (auto simp: print_array_def into_buf_def)
qed

lemma print_object_total:
  assumes "\<forall>x \<in> set ch. \<exists>s. pv (d + 1) x = Some (Some s)"
  shows "\<exists>s. print_object pv d fmt ch = Some (Some s)"
proof -
  obtain ms where ms: "print_members (pv (d + 1)) ch = Some (Some ms)"
    using print_members_total [OF assms] by blast
  let ?sep = "CHR '','' # (if fmt then [newline] else [])"
  have "length (join ?sep (map (member_text (d + 1) fmt) ms)) \<le>
      sum_list (map (\<lambda>(n, e). length e + length n + 2 + (if fmt then 2 + (d + 1) else 0)) ms)"
    by (rule order_trans [OF length_join_le])
      (auto simp: comp_def member_text_def intro!: sum_list_mono)
  with ms show ?thesis
    by (cases "ch = []") (auto simp: print_object_def into_buf_def)
qed

lemma height_child: "c \<in> set ch \<Longrightarrow> height (Item t vs vi vd nm ch) \<le> Suc k \<Longrightarrow> height c \<le> k"
  by (auto intro: order_trans [OF Max_ge])

lemma print_total:
  "printable x \<Longrightarrow> height x \<le> k \<Longrightarrow> \<exists>s. print_value k d fmt x = Some (Some s)"
proof (induction k arbitrary: x d)
  case 0
  then show ?case by (cases x) simp
next
  case (Suc k)
  obtain t vs vi vd nm ch where x: "x = Item t vs vi vd nm ch" by (cases x)
  have ch: "\<forall>c \<in> set ch. \<exists>s. print_value k d fmt c = Some (Some s)"
    if "t = pc_JSON_Array \<or> t = pc_JSON_Object" for d
    using that Suc.prems Suc.IH height_child unfolding x by fastforce
  have num: "\<exists>s. print_number x = Some (Some s)" if t: "t = pc_JSON_Number"
  proof -
    have i: "INT_MIN \<le> vi" "vi \<le> INT_MAX" "vd = dbl_of_int vi" using Suc.prems(1) t by (auto simp: x)
    have "length (digits \<bar>vi\<bar>) \<le> max 1 10" using i(1,2) by (intro digits_length) auto
    then have "length (sprintf_d vi) < 21" by (auto simp: sprintf_d_def)
    with i show ?thesis by (simp add: x print_number_int del: INT_MIN_def INT_MAX_def)
  qed
  have t: "t \<in> {pc_JSON_NULL, pc_JSON_False, pc_JSON_True, pc_JSON_Number, pc_JSON_String, pc_JSON_Array, pc_JSON_Object}"
    using Suc.prems(1) by (auto simp: x split: if_splits)
  show ?case
    using t ch num print_string_total print_array_total [of ch] print_object_total [of ch]
    by (auto simp: x print_string_def)
qed

text \<open>
  C14. Round trip: a printable tree of any size, one whose numbers are integral and in the range of \<open>int\<close>,
  whose names and strings have no NUL and which has no reference items, is printed, within the buffers that the printer
  allocates, in both formats; and the parser turns the text back into exactly the tree, whatever
  follows it in memory that does not continue a number, and leaves the position right after it.
  Other numbers are printed with at most six digits behind the point and do not come back in general.
\<close>

theorem json_print_parse_roundtrip:
  assumes "printable it" and "jstring it = None" and "stops rest"
  shows "(\<exists>s. pc_JSON_PrintUnformatted it = Some (Some s) \<and>
      pc_JSON_ParseWithOpts (s @ rest) False = Some (Inr (it, rest))) \<and>
    (\<exists>s. pc_JSON_Print it = Some (Some s) \<and>
      pc_JSON_ParseWithOpts (s @ rest) False = Some (Inr (it, rest)))"
proof -
  have "\<exists>s. print_value (height it) 0 fmt it = Some (Some s) \<and>
      pc_JSON_ParseWithOpts (s @ rest) False = Some (Inr (it, rest))" for fmt
  proof -
    obtain s where s: "print_value (height it) 0 fmt it = Some (Some s)"
      using print_total [OF assms(1) le_refl] by blast
    have d: "denotes (Suc (length (s @ rest))) s it" using print_denotes [OF assms(1) s] .
    then have "skip (s @ rest) = Some (s @ rest)" by (simp add: denotes_def value_start_skip)
    moreover have "parse_value None (Suc (length (s @ rest))) pc_JSON_New_Item (s @ rest) = Some (Inr (it, rest))"
      using d assms(2,3) by (simp add: denotes_def pc_JSON_New_Item_def)
    ultimately show ?thesis using s by (simp add: pc_JSON_ParseWithOpts_def)
  qed
  then show ?thesis by (simp add: pc_JSON_PrintUnformatted_def pc_JSON_Print_def)
qed

lemma json_print_parse_roundtrip_witness:
  "\<exists>s. pc_JSON_Print (Item 6 None 0 0 None [Item 4 (Some [CHR 0x0A, CHR ''x'']) 0 0 (Some ''k'') []]) = Some (Some s) \<and>
    pc_JSON_ParseWithOpts (s @ [nul]) False =
      Some (Inr (Item 6 None 0 0 None [Item 4 (Some [CHR 0x0A, CHR ''x'']) 0 0 (Some ''k'') []], [nul]))"
  using json_print_parse_roundtrip
    [of "Item 6 None 0 0 None [Item 4 (Some [CHR 0x0A, CHR ''x'']) 0 0 (Some ''k'') []]" "[nul]"]
  by (simp add: is_name_def stops_def is_digit_def)

end
