(* ===== verification/Pb.thy ===== *)
theory Pb
  imports Json
begin

text \<open>
  \<open>pb_i.c\<close>, \<open>pb_encode.c\<close> and \<open>pb_decode.c\<close>: messages as protobuf wire format, driven by field
  definitions that are themselves JSON trees.

  A function that returns 0 yields \<open>Some None\<close>; \<open>None\<close> is a null dereference, a \<open>strcmp\<close> with a
  null pointer or an access outside a buffer. The machine is little endian and sizes do not
  reach \<open>2 ^ 64\<close>. Encoding recurses along the message, with fuel for its height; decoding
  consumes a byte of the stream in each step, with fuel for the bytes.
\<close>

section \<open>Field types\<close>

definition PB_uInt32 :: int where [simp]: "PB_uInt32 = 1"
definition PB_int32 :: int where [simp]: "PB_int32 = 2"
definition PB_sInt32 :: int where [simp]: "PB_sInt32 = 3"
definition PB_float :: int where [simp]: "PB_float = 4"
definition PB_double :: int where [simp]: "PB_double = 5"
definition PB_string :: int where [simp]: "PB_string = 6"

definition pb_get_type :: "string \<Rightarrow> int" where
  "pb_get_type ty =
     (if ty = ''uInt32'' then PB_uInt32
      else if ty = ''int32'' then PB_int32
      else if ty = ''sInt32'' then PB_sInt32
      else if ty = ''float'' then PB_float
      else if ty = ''double'' then PB_double
      else if ty = ''string'' then PB_string else 0)"

definition pb_get_constant_type :: "string \<Rightarrow> u32" where
  "pb_get_constant_type ty =
     (if ty = ''uInt32'' \<or> ty = ''sInt32'' \<or> ty = ''int32'' then 0
      else if ty = ''double'' then 1
      else if ty = ''string'' then 2
      else if ty = ''float'' then 5 else 2)"

text \<open>\<open>pc_JSON_GetObjectItem(o, key)->...\<close>: dereferencing a missing member is undefined.\<close>

definition get_member :: "pc_JSON \<Rightarrow> string \<Rightarrow> pc_JSON option" where
  "get_member ob key = do { r \<leftarrow> pc_JSON_GetObjectItem ob key; r }"

definition get_text :: "pc_JSON \<Rightarrow> string \<Rightarrow> string option" where
  "get_text ob key = do { it \<leftarrow> get_member ob key; valuestring it }"

text \<open>Sequencing of functions that return 0 on failure.\<close>

definition and_then :: "'a option option \<Rightarrow> ('a \<Rightarrow> 'b option option) \<Rightarrow> 'b option option" where
  "and_then m f = do { r \<leftarrow> m; case r of None \<Rightarrow> Some None | Some x \<Rightarrow> f x }"

lemma and_then_simps [simp]:
  "and_then None f = None" "and_then (Some None) f = Some None" "and_then (Some (Some x)) f = f x"
  by (simp_all add: and_then_def)

lemma and_then_Some_Some:
  "and_then m f = Some (Some y) \<longleftrightarrow> (\<exists>x. m = Some (Some x) \<and> f x = Some (Some y))"
  by (auto simp: and_then_def split: bind_splits option.splits)

text \<open>The definition of a message type: in the local table, or as a root message.\<close>

definition sub_message :: "pc_JSON \<Rightarrow> pc_JSON \<Rightarrow> string \<Rightarrow> pc_JSON option option" where
  "sub_message gprotos messages ty =
     do { m \<leftarrow> pc_JSON_GetObjectItem messages ty;
          case m of Some d \<Rightarrow> Some (Some d) | None \<Rightarrow> pc_JSON_GetObjectItem gprotos (''message '' @ ty) }"

section \<open>Output streams\<close>

text \<open>
  \<open>out\<close> is what has been written through the stream's pointer into a buffer of \<open>cap\<close> bytes, or
  \<open>None\<close> for a stream that only counts (null callback).
\<close>

record pb_ostream =
  out :: "bytes option"
  cap :: nat
  max_size :: nat
  bytes_written :: nat

definition pb_ostream_from_buffer :: "nat \<Rightarrow> pb_ostream" where
  "pb_ostream_from_buffer bufsize = \<lparr>out = Some [], cap = bufsize, max_size = bufsize, bytes_written = 0\<rparr>"

definition buf_write :: "pb_ostream \<Rightarrow> bytes \<Rightarrow> bytes \<Rightarrow> pb_ostream option" where
  "buf_write s dest buf =
     (if length dest + length buf \<le> cap s then Some (s\<lparr>out := Some (dest @ buf)\<rparr>) else None)"

definition pb_write :: "pb_ostream \<Rightarrow> bytes \<Rightarrow> pb_ostream option option" where
  "pb_write s buf =
     (case out s of
        None \<Rightarrow> Some (Some (s\<lparr>bytes_written := bytes_written s + length buf\<rparr>))
      | Some dest \<Rightarrow>
          if bytes_written s + length buf > max_size s then Some None
          else do { s \<leftarrow> buf_write s dest buf;
                    Some (Some (s\<lparr>bytes_written := bytes_written s + length buf\<rparr>)) })"

text \<open>\<open>pb_write(stream, NULL, size)\<close> on a counting stream.\<close>

definition pb_count :: "pb_ostream \<Rightarrow> nat \<Rightarrow> pb_ostream option option" where
  "pb_count s n = Some (Some (s\<lparr>bytes_written := bytes_written s + n\<rparr>))"

section \<open>Encoding\<close>

function varint_loop :: "u64 \<Rightarrow> bytes" where
  "varint_loop v = (if v = 0 then [] else ucast ((v AND 0x7F) OR 0x80) # varint_loop (drop_bit 7 v))"
  by pat_completeness auto
termination
proof (relation "measure unat")
  fix v :: u64 assume "v \<noteq> 0"
  then have "0 < unat v" by (simp add: unat_gt_0)
  then have "unat v div 128 < unat v" by (rule div_less_dividend [rotated]) simp
  then show "(drop_bit 7 v, v) \<in> measure unat"
    by (simp add: drop_bit_eq_div unat_div)
qed simp

declare varint_loop.simps [simp del]

text \<open>The bytes are collected in a buffer of ten.\<close>

definition pb_encode_varint :: "pb_ostream \<Rightarrow> u64 \<Rightarrow> pb_ostream option option" where
  "pb_encode_varint s v =
     (if v = 0 then pb_write s [0]
      else let buffer = varint_loop v
           in if length buffer > 10 then None
              else pb_write s (butlast buffer @ [last buffer AND 0x7F]))"

definition zigzag :: "u64 \<Rightarrow> u64" where
  "zigzag v = (if v <s 0 then NOT (push_bit 1 v) else push_bit 1 v)"

definition pb_encode_svarint :: "pb_ostream \<Rightarrow> u64 \<Rightarrow> pb_ostream option option" where
  "pb_encode_svarint s v = pb_encode_varint s (zigzag v)"

definition le_bytes :: "nat \<Rightarrow> 'a::len word \<Rightarrow> bytes" where
  "le_bytes n v = map (\<lambda>i. ucast (drop_bit (8 * i) v)) [0..<n]"

definition pb_encode_fixed32 :: "pb_ostream \<Rightarrow> u32 \<Rightarrow> pb_ostream option option" where
  "pb_encode_fixed32 s v = pb_write s (le_bytes 4 v)"

definition pb_encode_fixed64 :: "pb_ostream \<Rightarrow> u64 \<Rightarrow> pb_ostream option option" where
  "pb_encode_fixed64 s v = pb_write s (le_bytes 8 v)"

definition pb_encode_tag :: "pb_ostream \<Rightarrow> u32 \<Rightarrow> u32 \<Rightarrow> pb_ostream option option" where
  "pb_encode_tag s wiretype field_number =
     pb_encode_varint s (ucast (wiretype OR push_bit 3 field_number))"

definition pb_encode_tag_for_field :: "pb_ostream \<Rightarrow> pc_JSON \<Rightarrow> pb_ostream option option" where
  "pb_encode_tag_for_field s field =
     do { ty \<leftarrow> pc_JSON_GetObjectItem field ''type'';
          tag \<leftarrow> pc_JSON_GetObjectItem field ''tag'';
          ty \<leftarrow> ty;
          ty_text \<leftarrow> valuestring ty;
          tag \<leftarrow> tag;
          pb_encode_tag s (pb_get_constant_type ty_text) (of_int (valueint tag)) }"

definition pb_encode_string :: "pb_ostream \<Rightarrow> string \<Rightarrow> pb_ostream option option" where
  "pb_encode_string s str =
     and_then (pb_encode_varint s (of_nat (length str))) (\<lambda>s. pb_write s (to_bytes str))"

text \<open>
  The encoders of composite values, with the message encoder \<open>enc\<close> (stream, definitions of the
  message's fields, message).
\<close>

type_synonym msg_encoder = "pb_ostream \<Rightarrow> pc_JSON \<Rightarrow> pc_JSON \<Rightarrow> pb_ostream option option"

definition pb_encode_submessage :: "msg_encoder \<Rightarrow> pb_ostream \<Rightarrow> pc_JSON \<Rightarrow> pc_JSON \<Rightarrow> pb_ostream option option" where
  "pb_encode_submessage enc s protos v =
     and_then (enc \<lparr>out = None, cap = 0, max_size = 0, bytes_written = 0\<rparr> protos v) (\<lambda>sub.
       let n = bytes_written sub in
       and_then (pb_encode_varint s (of_nat n)) (\<lambda>s.
         if out s = None then pb_count s n
         else if bytes_written s + n > max_size s then Some None
         else and_then (enc (s\<lparr>max_size := n, bytes_written := 0\<rparr>) protos v) (\<lambda>sub.
           if bytes_written sub \<noteq> n then Some None
           else Some (Some (s\<lparr>out := out sub, bytes_written := bytes_written s + bytes_written sub\<rparr>)))))"

definition pb_encode_proto ::
    "msg_encoder \<Rightarrow> pb_ostream \<Rightarrow> pc_JSON \<Rightarrow> pc_JSON \<Rightarrow> pc_JSON \<Rightarrow> pc_JSON \<Rightarrow> pb_ostream option option" where
  "pb_encode_proto enc s gprotos protos proto v =
     do { ty \<leftarrow> get_text proto ''type'';
          messages \<leftarrow> pc_JSON_GetObjectItem protos ''__messages'';
          let t = pb_get_type ty;
          if t = PB_uInt32 then pb_encode_varint s (of_int (valueint v))
          else if t = PB_int32 \<or> t = PB_sInt32 then pb_encode_svarint s (of_int (valueint v))
          else if t = PB_float then pb_encode_fixed32 s (float_of_double (valuedouble v))
          else if t = PB_double then pb_encode_fixed64 s (valuedouble v)
          else if t = PB_string then do { str \<leftarrow> valuestring v; pb_encode_string s str }
          else case messages of
            None \<Rightarrow> Some (Some s)
          | Some messages \<Rightarrow>
              do { sub \<leftarrow> sub_message gprotos messages ty;
                   case sub of None \<Rightarrow> Some None | Some sub \<Rightarrow> pb_encode_submessage enc s sub v } }"

fun encode_items ::
    "(pb_ostream \<Rightarrow> pc_JSON \<Rightarrow> pb_ostream option option) \<Rightarrow> pb_ostream \<Rightarrow> pc_JSON list \<Rightarrow> pb_ostream option option" where
  "encode_items f s [] = Some (Some s)"
| "encode_items f s (v # vs) = and_then (f s v) (\<lambda>s. encode_items f s vs)"

definition pb_encode_array ::
    "msg_encoder \<Rightarrow> pb_ostream \<Rightarrow> pc_JSON \<Rightarrow> pc_JSON \<Rightarrow> pc_JSON \<Rightarrow> pc_JSON \<Rightarrow> pb_ostream option option" where
  "pb_encode_array enc s gprotos protos proto array =
     do { ty \<leftarrow> get_text proto ''type'';
          if pb_get_type ty \<noteq> 0 \<and> pb_get_type ty \<noteq> PB_string
          then and_then (pb_encode_tag_for_field s proto) (\<lambda>s.
                 and_then (pb_encode_varint s (of_nat (pc_JSON_GetArraySize array))) (\<lambda>s.
                   encode_items (\<lambda>s v. pb_encode_proto enc s gprotos protos proto v) s (child array)))
          else encode_items (\<lambda>s v. and_then (pb_encode_tag_for_field s proto) (\<lambda>s.
                 pb_encode_proto enc s gprotos protos proto v)) s (child array) }"

definition encode_field ::
    "msg_encoder \<Rightarrow> pc_JSON \<Rightarrow> pc_JSON \<Rightarrow> pb_ostream \<Rightarrow> pc_JSON \<Rightarrow> pb_ostream option option" where
  "encode_field enc gprotos protos s v =
     do { proto \<leftarrow> (case jstring v of
              None \<Rightarrow> if child protos = [] then Some None else None
            | Some key \<Rightarrow> pc_JSON_GetObjectItem protos key);
          case proto of None \<Rightarrow> Some None
          | Some proto \<Rightarrow>
            do { opt \<leftarrow> get_text proto ''option'';
                 if opt = ''required'' \<or> opt = ''optional''
                 then and_then (pb_encode_tag_for_field s proto) (\<lambda>s.
                        pb_encode_proto enc s gprotos protos proto v)
                 else if opt = ''repeated'' \<and> jtype v = pc_JSON_Array
                 then pb_encode_array enc s gprotos protos proto v
                 else Some (Some s) } }"

fun pb_encode :: "nat \<Rightarrow> pc_JSON \<Rightarrow> pb_ostream \<Rightarrow> pc_JSON \<Rightarrow> pc_JSON \<Rightarrow> pb_ostream option option" where
  "pb_encode 0 gprotos s protos msg = None"
| "pb_encode (Suc k) gprotos s protos msg =
     encode_items (encode_field (pb_encode k gprotos) gprotos protos) s (child msg)"

text \<open>The bytes written into the buffer of \<open>len\<close> bytes.\<close>

definition pc_pb_encode :: "nat \<Rightarrow> pc_JSON \<Rightarrow> pc_JSON \<Rightarrow> pc_JSON \<Rightarrow> bytes option option" where
  "pc_pb_encode len gprotos protos msg =
     do { r \<leftarrow> pb_encode (height msg) gprotos (pb_ostream_from_buffer len) protos msg;
          case r of None \<Rightarrow> Some None | Some s \<Rightarrow> Some (out s) }"


section \<open>Input streams\<close>

text \<open>\<open>dat\<close> is the memory from the stream's pointer to the end of the buffer.\<close>

record pb_istream =
  dat :: bytes
  bytes_left :: nat

definition pb_istream_from_buffer :: "bytes \<Rightarrow> nat \<Rightarrow> pb_istream" where
  "pb_istream_from_buffer buf bufsize = \<lparr>dat = buf, bytes_left = bufsize\<rparr>"

definition buf_read :: "pb_istream \<Rightarrow> nat \<Rightarrow> (bytes \<times> pb_istream) option" where
  "buf_read s count =
     (if count \<le> length (dat s) then Some (take count (dat s), s\<lparr>dat := drop count (dat s)\<rparr>) else None)"

definition pb_read :: "pb_istream \<Rightarrow> nat \<Rightarrow> (bytes \<times> pb_istream) option option" where
  "pb_read s count =
     (if bytes_left s < count then Some None
      else do { (bs, s) \<leftarrow> buf_read s count; Some (Some (bs, s\<lparr>bytes_left := bytes_left s - count\<rparr>)) })"

section \<open>Decoding\<close>

text \<open>
  A failed read of a varint leaves the stream behind the bytes that were read: the result has
  the value, or no value, and the stream.
\<close>

function varint_read :: "nat \<Rightarrow> u64 \<Rightarrow> pb_istream \<Rightarrow> (u64 option \<times> pb_istream) option" where
  "varint_read bitpos dest s =
     (if bitpos < 64
      then (case pb_read s 1 of
              None \<Rightarrow> None
            | Some None \<Rightarrow> Some (None, s)
            | Some (Some (bs, s')) \<Rightarrow>
                let byte = bs ! 0; dest' = dest OR push_bit bitpos (ucast (byte AND 0x7F))
                in if byte AND 0x80 = 0 then Some (Some dest', s') else varint_read (bitpos + 7) dest' s')
      else Some (None, s))"
  by pat_completeness auto
termination
  by (relation "measure (\<lambda>(b, _, _). 64 - b)") auto

declare varint_read.simps [simp del]

definition pb_decode_varint :: "pb_istream \<Rightarrow> (u64 option \<times> pb_istream) option" where
  "pb_decode_varint s = varint_read 0 0 s"

definition pb_decode_varint32 :: "pb_istream \<Rightarrow> (u32 option \<times> pb_istream) option" where
  "pb_decode_varint32 s = map_option (apfst (map_option ucast)) (pb_decode_varint s)"

definition zagzig :: "u64 \<Rightarrow> u64" where
  "zagzig v = (if v AND 1 \<noteq> 0 then NOT (drop_bit 1 v) else drop_bit 1 v)"

definition pb_decode_svarint :: "pb_istream \<Rightarrow> (u64 option \<times> pb_istream) option" where
  "pb_decode_svarint s = map_option (apfst (map_option zagzig)) (pb_decode_varint s)"

definition from_le :: "bytes \<Rightarrow> 'a::len word" where
  "from_le bs = foldr (\<lambda>b v. push_bit 8 v OR ucast b) bs 0"

definition pb_decode_fixed32 :: "pb_istream \<Rightarrow> (u32 \<times> pb_istream) option option" where
  "pb_decode_fixed32 s = map_option (map_option (apfst from_le)) (pb_read s 4)"

definition pb_decode_fixed64 :: "pb_istream \<Rightarrow> (u64 \<times> pb_istream) option option" where
  "pb_decode_fixed64 s = map_option (map_option (apfst from_le)) (pb_read s 8)"

text \<open>
  The text is read into \<open>malloc(size + 1)\<close>, where \<open>size + 1\<close> is a 32-bit sum, and terminated at
  \<open>size\<close> whether the read succeeded or not.
\<close>

definition pb_decode_string :: "pb_istream \<Rightarrow> u32 \<Rightarrow> (string \<times> pb_istream) option option" where
  "pb_decode_string s n =
     do { r \<leftarrow> pb_read s (unat n);
          _ \<leftarrow> assert_c (unat n < unat (n + 1));
          Some (map_option (apfst (\<lambda>bs. c_str (to_string bs))) r) }"

datatype tag_result = Tag u32 | Eof | Bad

definition pb_decode_tag :: "pb_istream \<Rightarrow> (tag_result \<times> pb_istream) option" where
  "pb_decode_tag s =
     do { (temp, s) \<leftarrow> pb_decode_varint32 s;
          case temp of
            None \<Rightarrow> Some (if bytes_left s = 0 then Eof else Bad, s)
          | Some temp \<Rightarrow> Some (if temp = 0 then Eof else Tag (drop_bit 3 temp), s) }"

text \<open>The substream of a length-delimited field, and the stream without it.\<close>

definition pb_make_string_substream :: "pb_istream \<Rightarrow> (pb_istream \<times> pb_istream) option option" where
  "pb_make_string_substream s =
     do { (sz, s) \<leftarrow> pb_decode_varint32 s;
          case sz of None \<Rightarrow> Some None
          | Some sz \<Rightarrow>
              if bytes_left s < unat sz then Some None
              else Some (Some (s\<lparr>bytes_left := unat sz\<rparr>, s\<lparr>bytes_left := bytes_left s - unat sz\<rparr>)) }"

definition pb_close_string_substream :: "pb_istream \<Rightarrow> pb_istream \<Rightarrow> pb_istream" where
  "pb_close_string_substream s sub = s\<lparr>dat := dat sub\<rparr>"

text \<open>Message decoders take the stream, the definitions of the fields and the object to fill.\<close>

type_synonym msg_decoder = "pb_istream \<Rightarrow> pc_JSON \<Rightarrow> pc_JSON \<Rightarrow> (pb_istream \<times> pc_JSON) option option"

definition pb_decode_submessage :: "msg_decoder \<Rightarrow> msg_decoder" where
  "pb_decode_submessage dec s protos dest =
     and_then (pb_make_string_substream s) (\<lambda>(sub, s).
       and_then (dec sub protos dest) (\<lambda>(sub, dest).
         Some (Some (pb_close_string_substream s sub, dest))))"

text \<open>Adding a decoded value to an object under the key, or to an array.\<close>

definition add_value :: "pc_JSON \<Rightarrow> string option \<Rightarrow> pc_JSON \<Rightarrow> pc_JSON option" where
  "add_value result key v =
     (if jtype result = pc_JSON_Object
      then do { key \<leftarrow> key; Some (pc_JSON_AddItemToObject result key (Some v)) }
      else Some (pc_JSON_AddItemToArray result (Some v)))"

definition add_decoded ::
    "pc_JSON \<Rightarrow> string option \<Rightarrow> pc_JSON \<Rightarrow> pb_istream \<Rightarrow> (pb_istream \<times> pc_JSON) option option" where
  "add_decoded result key v s = do { r \<leftarrow> add_value result key v; Some (Some (s, r)) }"

definition pb_decode_proto ::
    "msg_decoder \<Rightarrow> pb_istream \<Rightarrow> pc_JSON \<Rightarrow> pc_JSON \<Rightarrow> pc_JSON \<Rightarrow> string option \<Rightarrow> pc_JSON \<Rightarrow>
      (pb_istream \<times> pc_JSON) option option" where
  "pb_decode_proto dec s gprotos proto protos key result =
     do { ty \<leftarrow> get_text proto ''type'';
          messages \<leftarrow> pc_JSON_GetObjectItem protos ''__messages'';
          let t = pb_get_type ty;
          if t = PB_uInt32 then
            do { (v, s) \<leftarrow> pb_decode_varint s;
                 case v of None \<Rightarrow> Some None
                 | Some v \<Rightarrow> add_decoded result key (pc_JSON_CreateNumber (dbl_of_int (uint v))) s }
          else if t = PB_int32 \<or> t = PB_sInt32 then
            do { (v, s) \<leftarrow> pb_decode_svarint s;
                 case v of None \<Rightarrow> Some None
                 | Some v \<Rightarrow> add_decoded result key (pc_JSON_CreateNumber (dbl_of_int (sint v))) s }
          else if t = PB_float then
            and_then (pb_decode_fixed32 s) (\<lambda>(v, s).
              add_decoded result key (pc_JSON_CreateNumber (double_of_float v)) s)
          else if t = PB_double then
            and_then (pb_decode_fixed64 s) (\<lambda>(v, s). add_decoded result key (pc_JSON_CreateNumber v) s)
          else if t = PB_string then
            do { (len, s) \<leftarrow> pb_decode_varint32 s;
                 case len of None \<Rightarrow> Some None
                 | Some len \<Rightarrow>
                     and_then (pb_decode_string s len) (\<lambda>(str, s).
                       add_decoded result key (pc_JSON_CreateString str) s) }
          else case messages of
            None \<Rightarrow> Some (Some (s, result))
          | Some messages \<Rightarrow>
              do { sub \<leftarrow> sub_message gprotos messages ty;
                   case sub of None \<Rightarrow> Some None
                   | Some sub \<Rightarrow>
                     (case key of
                        None \<Rightarrow> pb_decode_submessage dec s sub result
                      | Some k \<Rightarrow>
                          and_then (pb_decode_submessage dec s sub pc_JSON_CreateObject) (\<lambda>(s, v).
                            Some (Some (s, pc_JSON_AddItemToObject result k (Some v))))) } }"

text \<open>\<open>for (i = 0; i < size; i++)\<close> over the items of a packed array.\<close>

function decode_packed ::
    "(pb_istream \<Rightarrow> pc_JSON \<Rightarrow> (pb_istream \<times> pc_JSON) option option) \<Rightarrow> int \<Rightarrow> pb_istream \<Rightarrow> pc_JSON \<Rightarrow>
      (pb_istream \<times> pc_JSON) option option" where
  "decode_packed f n s array =
     (if n \<le> 0 then Some (Some (s, array))
      else and_then (f s array) (\<lambda>(s, array). decode_packed f (n - 1) s array))"
  by pat_completeness auto
termination
  by (relation "measure (\<lambda>(_, n, _, _). nat n)") auto

declare decode_packed.simps [simp del]

text \<open>The array of a repeated field: the one already in the result, or a new one added at the end.\<close>

definition pb_decode_array ::
    "msg_decoder \<Rightarrow> pb_istream \<Rightarrow> pc_JSON \<Rightarrow> pc_JSON \<Rightarrow> pc_JSON \<Rightarrow> string \<Rightarrow> pc_JSON \<Rightarrow>
      (pb_istream \<times> pc_JSON) option option" where
  "pb_decode_array dec s gprotos proto protos key result =
     do { ty \<leftarrow> get_text proto ''type'';
          old \<leftarrow> find_item key (child result);
          let array = (case old of None \<Rightarrow> pc_JSON_CreateArray | Some i \<Rightarrow> child result ! i);
          and_then
            (if pb_get_type ty \<noteq> 0 \<and> pb_get_type ty \<noteq> PB_string
             then do { (sz, s) \<leftarrow> pb_decode_varint32 s;
                       case sz of None \<Rightarrow> Some None
                       | Some sz \<Rightarrow> decode_packed
                           (\<lambda>s a. pb_decode_proto dec s gprotos proto protos (Some key) a) (uint sz) s array }
             else if pb_get_type ty \<noteq> 0
             then pb_decode_proto dec s gprotos proto protos (Some key) array
             else and_then (pb_decode_proto dec s gprotos proto protos None pc_JSON_CreateObject) (\<lambda>(s, v).
                    Some (Some (s, pc_JSON_AddItemToArray array (Some v)))))
            (\<lambda>(s, array).
              Some (Some (s, case old of
                  None \<Rightarrow> pc_JSON_AddItemToObject result key (Some array)
                | Some i \<Rightarrow> set_child ((child result)[i := array]) result))) }"

text \<open>One field after its tag.\<close>

definition decode_field ::
    "msg_decoder \<Rightarrow> pc_JSON \<Rightarrow> pc_JSON \<Rightarrow> u32 \<Rightarrow> pb_istream \<Rightarrow> pc_JSON \<Rightarrow> (pb_istream \<times> pc_JSON) option option" where
  "decode_field dec gprotos protos tag s result =
     do { tags \<leftarrow> pc_JSON_GetObjectItem protos ''__tags'';
          case tags of None \<Rightarrow> Some None
          | Some tags \<Rightarrow>
            do { t \<leftarrow> pc_JSON_GetObjectItem tags (sprintf_d (uint tag));
                 case t of None \<Rightarrow> Some None
                 | Some t \<Rightarrow>
                   do { name \<leftarrow> valuestring t;
                        proto \<leftarrow> pc_JSON_GetObjectItem protos name;
                        case proto of None \<Rightarrow> Some None
                        | Some proto \<Rightarrow>
                          do { opt \<leftarrow> get_text proto ''option'';
                               if opt = ''optional'' \<or> opt = ''required''
                               then pb_decode_proto dec s gprotos proto protos (Some name) result
                               else if opt = ''repeated''
                               then pb_decode_array dec s gprotos proto protos name result
                               else Some (Some (s, result)) } } } }"

fun pb_decode :: "nat \<Rightarrow> pc_JSON \<Rightarrow> msg_decoder" where
  "pb_decode 0 gprotos s protos result = None"
| "pb_decode (Suc k) gprotos s protos result =
     (if bytes_left s = 0 then Some (Some (s, result))
      else do { (tag, s) \<leftarrow> pb_decode_tag s;
                case tag of
                  Eof \<Rightarrow> Some (Some (s, result))
                | Bad \<Rightarrow> Some None
                | Tag tag \<Rightarrow>
                    and_then (decode_field (pb_decode k gprotos) gprotos protos tag s result) (\<lambda>(s, result).
                      pb_decode k gprotos s protos result) })"

definition pc_pb_decode :: "bytes \<Rightarrow> nat \<Rightarrow> pc_JSON \<Rightarrow> pc_JSON \<Rightarrow> pc_JSON \<Rightarrow> pc_JSON option option" where
  "pc_pb_decode buf len gprotos protos result =
     map_option (map_option snd) (pb_decode (Suc len) gprotos (pb_istream_from_buffer buf len) protos result)"

end
