(* ===== verification/PbProps.thy ===== *)
theory PbProps
  imports Pb JsonRoundtrip
begin

text \<open>
  The scalar encodings are exact inverses and fit their buffers; the encoder writes exactly the
  wire format of the message, as a function of the message alone, or nothing.
\<close>

section \<open>Varints\<close>

definition wire_varint :: "u64 \<Rightarrow> bytes" where
  "wire_varint v = (if v = 0 then [0] else butlast (varint_loop v) @ [last (varint_loop v) AND 0x7F])"

lemma drop_bit_less:
  "unat (v :: u64) < 2 ^ (7 * Suc n) \<Longrightarrow> unat (drop_bit 7 v) < 2 ^ (7 * n)"
proof -
  assume "unat v < 2 ^ (7 * Suc n)"
  then have "unat v < 2 ^ (7 * n) * 2 ^ 7" by (simp add: power_add)
  then have "unat v div 2 ^ 7 < 2 ^ (7 * n)" by (rule less_mult_imp_div_less)
  then show ?thesis by (simp add: drop_bit_eq_div unat_div)
qed

lemma varint_loop_length: "unat v < 2 ^ (7 * n) \<Longrightarrow> length (varint_loop v) \<le> n"
proof (induction n arbitrary: v)
  case 0
  then show ?case by (simp add: varint_loop.simps unat_eq_0)
next
  case (Suc n)
  then show ?case
    using Suc.IH [OF drop_bit_less [OF Suc.prems]] by (subst varint_loop.simps) simp
qed

lemma varint_loop_10: "length (varint_loop v) \<le> 10"
proof (rule varint_loop_length)
  have "unat v < 2 ^ 64" using unsigned_less [of v] by simp
  also have "(2::nat) ^ 64 \<le> 2 ^ (7 * 10)" by simp
  finally show "unat v < 2 ^ (7 * 10)" .
qed

lemma pb_encode_varint_eq: "pb_encode_varint s v = pb_write s (wire_varint v)"
  using varint_loop_10 [of v] by (simp add: pb_encode_varint_def wire_varint_def Let_def not_less)

lemma wire_varint_rec:
  "wire_varint v = (if drop_bit 7 v = 0 then [ucast (v AND 0x7F)]
     else ucast ((v AND 0x7F) OR 0x80) # wire_varint (drop_bit 7 v))"
proof (cases "v = 0")
  case True
  then show ?thesis by (simp add: wire_varint_def)
next
  case v: False
  have low: "ucast ((v AND 0x7F) OR 0x80) AND (0x7F :: u8) = ucast (v AND 0x7F)"
    by (rule bit_eqI) (auto simp: bit_simps bits_7F)
  show ?thesis
  proof (cases "drop_bit 7 v = 0")
    case True
    then have "varint_loop v = [ucast ((v AND 0x7F) OR 0x80)]"
      using v by (simp add: varint_loop.simps [of v] varint_loop.simps [of 0])
    with v True low show ?thesis by (simp add: wire_varint_def)
  next
    case False
    then have "varint_loop (drop_bit 7 v) \<noteq> []" by (simp add: varint_loop.simps [of "drop_bit 7 v"])
    with v False show ?thesis
      by (simp add: wire_varint_def varint_loop.simps [of v])
  qed
qed

lemma wire_varint_length: "1 \<le> length (wire_varint v)" "length (wire_varint v) \<le> 10"
proof -
  show "length (wire_varint v) \<le> 10"
    using varint_loop_10 [of v] by (cases "varint_loop v = []") (auto simp: wire_varint_def)
  show "1 \<le> length (wire_varint v)" by (simp add: wire_varint_def)
qed


definition feed :: "bytes \<Rightarrow> bytes \<Rightarrow> nat \<Rightarrow> pb_istream" where
  "feed bs rest m = \<lparr>dat = bs @ rest, bytes_left = length bs + m\<rparr>"

lemma feed_Nil: "feed [] rest m = \<lparr>dat = rest, bytes_left = m\<rparr>"
  by (simp add: feed_def)

lemma feed_append: "feed (as @ bs) rest m = feed as (bs @ rest) (length bs + m)"
  by (simp add: feed_def)

lemma pb_read_feed: "pb_read (feed bs rest m) (length bs) = Some (Some (bs, feed [] rest m))"
  by (simp add: pb_read_def buf_read_def feed_def)

lemma varint_read_cons:
  assumes "bitpos < 64"
  shows "varint_read bitpos dest (feed (b # bs) rest m) =
    (if b AND 0x80 = 0 then Some (Some (dest OR push_bit bitpos (ucast (b AND 0x7F))), feed bs rest m)
     else varint_read (bitpos + 7) (dest OR push_bit bitpos (ucast (b AND 0x7F))) (feed bs rest m))"
  using assms pb_read_feed [of "[b]" "bs @ rest" "length bs + m"]
  by (subst varint_read.simps) (simp add: feed_def)

lemma varint_read_wire:
  "bitpos < 64 \<Longrightarrow> unat v < 2 ^ (64 - bitpos) \<Longrightarrow>
    varint_read bitpos dest (feed (wire_varint v) rest m) = Some (Some (dest OR push_bit bitpos v), feed [] rest m)"
proof (induction "unat v" arbitrary: v bitpos dest rule: less_induct)
  case less
  show ?case
  proof (cases "drop_bit 7 v = 0")
    case True
    have "(ucast (v AND 0x7F) :: u8) AND 0x80 = 0"
      by (rule bit_eqI) (auto simp: bit_simps bits_7F)
    moreover have "ucast ((ucast (v AND 0x7F) :: u8) AND 0x7F) = v"
    proof (rule bit_eqI)
      fix n
      have "bit (drop_bit 7 v) (n - 7) = False" using True by simp
      then have "\<not> bit v n" if "7 \<le> n" using that by (simp add: bit_simps)
      then show "bit (ucast ((ucast (v AND 0x7F) :: u8) AND 0x7F) :: u64) n = bit v n"
        by (cases "n < 7") (auto simp: bit_simps bits_7F dest: bit_imp_le_length)
    qed
    ultimately show ?thesis
      using less.prems True by (simp add: wire_varint_rec [of v] varint_read_cons)
  next
    case False
    let ?b = "ucast ((v AND 0x7F) OR 0x80) :: u8"
    have hi: "?b AND 0x80 \<noteq> 0"
    proof
      assume "?b AND 0x80 = 0"
      then have "bit (?b AND 0x80) 7 = False" by simp
      then show False by (simp add: bit_simps bits_7F)
    qed
    have lo: "ucast (?b AND 0x7F) = v AND 0x7F"
      by (rule bit_eqI) (auto simp: bit_simps bits_7F)
    have "v \<noteq> 0" using False by auto
    then have "unat v div 128 < unat v" by (intro div_less_dividend) (simp_all add: unat_gt_0)
    then have smaller: "unat (drop_bit 7 v) < unat v" by (simp add: drop_bit_eq_div unat_div)
    have pos: "bitpos + 7 < 64" and bound: "unat (drop_bit 7 v) < 2 ^ (64 - (bitpos + 7))"
    proof -
      have d: "unat (drop_bit 7 v) = unat v div 2 ^ 7" by (simp add: drop_bit_eq_div unat_div)
      show "bitpos + 7 < 64"
      proof (rule ccontr)
        assume "\<not> bitpos + 7 < 64"
        then have "(2::nat) ^ (64 - bitpos) \<le> 2 ^ 7" by (intro power_increasing) auto
        with less.prems(2) d False show False by (simp add: unat_eq_0 [symmetric] del: unat_eq_0)
      qed
      then have "64 - bitpos = (64 - (bitpos + 7)) + 7" by simp
      with less.prems(2) have "unat v < 2 ^ (64 - (bitpos + 7)) * 2 ^ 7" by (metis power_add)
      then show "unat (drop_bit 7 v) < 2 ^ (64 - (bitpos + 7))"
        unfolding d by (rule less_mult_imp_div_less)
    qed
    have or: "dest OR push_bit bitpos (v AND 0x7F) OR push_bit (bitpos + 7) (drop_bit 7 v) = dest OR push_bit bitpos v"
    proof (rule bit_eqI)
      fix n
      have "7 + (n - (bitpos + 7)) = n - bitpos" if "bitpos + 7 \<le> n" using that by simp
      then show "bit (dest OR push_bit bitpos (v AND 0x7F) OR push_bit (bitpos + 7) (drop_bit 7 v)) n =
          bit (dest OR push_bit bitpos v) n"
        using pos by (cases "bitpos + 7 \<le> n") (auto simp: bit_simps bits_7F)
    qed
    show ?thesis
      using less.prems(1) False hi lo less.hyps [OF smaller pos bound]
      by (simp add: wire_varint_rec [of v] varint_read_cons or [symmetric] or.assoc)
  qed
qed

lemma decode_wire_varint:
  "pb_decode_varint (feed (wire_varint v) rest m) = Some (Some v, feed [] rest m)"
  using varint_read_wire [of 0 v 0] unsigned_less [of v] by (simp add: pb_decode_varint_def)


lemma bit_double: "bit (v * 2 :: u64) (Suc n) \<longleftrightarrow> n < 63 \<and> bit v n"
proof -
  have "bit (push_bit 1 v) (Suc n) \<longleftrightarrow> n < 63 \<and> bit v n"
    by (simp only: bit_push_bit_iff) (auto simp: possible_bit_def)
  then show ?thesis by (simp add: push_bit_eq_mult)
qed

lemma zagzig_zigzag: "zagzig (zigzag v) = v"
proof -
  have neg: "v <s 0 \<longleftrightarrow> bit v 63"
    using bit_last_iff [of v] by (simp add: word_sless_alt)
  show ?thesis
  proof (cases "bit v 63")
    case True
    have odd: "NOT (push_bit 1 v) AND 1 \<noteq> 0"
    proof
      assume z: "NOT (push_bit 1 v) AND 1 = 0"
      have "bit (NOT (push_bit 1 v) AND 1) 0"
        by (simp only: bit_and_iff bit_not_iff bit_push_bit_iff bit_1_iff) (simp add: possible_bit_def)
      then show False unfolding z by simp
    qed
    have "NOT (drop_bit 1 (NOT (push_bit 1 v))) = v"
    proof (rule bit_word_eqI)
      fix n assume "n < LENGTH(64)"
      with True show "bit (NOT (drop_bit 1 (NOT (push_bit 1 v)))) n = bit v n"
        by (cases "n = 63") (auto simp: bit_simps bit_double dest: bit_imp_le_length)
    qed
    with True neg odd show ?thesis by (simp add: zagzig_def zigzag_def)
  next
    case False
    have even: "push_bit 1 v AND 1 = 0"
    proof (rule bit_word_eqI)
      fix n assume "n < LENGTH(64)"
      have "\<not> bit (push_bit 1 v) 0" by (simp only: bit_push_bit_iff) simp
      then show "bit (push_bit 1 v AND 1) n = bit 0 n"
        by (cases "n = 0") (auto simp: bit_and_iff bit_1_iff)
    qed
    have "drop_bit 1 (push_bit 1 v) = v"
    proof (rule bit_word_eqI)
      fix n assume "n < LENGTH(64)"
      with False show "bit (drop_bit 1 (push_bit 1 v)) n = bit v n"
        by (cases "n = 63") (auto simp: bit_simps bit_double dest: bit_imp_le_length)
    qed
    with False neg even show ?thesis by (simp add: zagzig_def zigzag_def)
  qed
qed

section \<open>Fixed width\<close>

lemma from_le_bytes:
  "from_le (map (\<lambda>i. ucast (drop_bit (8 * i) (v :: 'a::len word))) [k..<k + n]) = take_bit (8 * n) (drop_bit (8 * k) v)"
proof (induction n arbitrary: k)
  case 0
  then show ?case by (simp add: from_le_def)
next
  case (Suc n)
  have "[k..<k + Suc n] = k # [Suc k..<Suc k + n]" by (simp add: upt_conv_Cons del: upt_Suc)
  then have "from_le (map (\<lambda>i. ucast (drop_bit (8 * i) v)) [k..<k + Suc n]) =
      push_bit 8 (take_bit (8 * n) (drop_bit (8 * Suc k) v)) OR ucast (ucast (drop_bit (8 * k) v) :: u8)"
    using Suc [of "Suc k"] by (simp add: from_le_def del: upt_Suc)
  also have "\<dots> = take_bit (8 * Suc n) (drop_bit (8 * k) v)"
  proof (rule bit_eqI)
    fix i
    have "8 + 8 * k + (i - 8) = 8 * k + i" if "8 \<le> i" using that by simp
    then show "bit (push_bit 8 (take_bit (8 * n) (drop_bit (8 * Suc k) v)) OR ucast (ucast (drop_bit (8 * k) v) :: u8)) i =
        bit (take_bit (8 * Suc n) (drop_bit (8 * k) v)) i"
      by (cases "8 \<le> i") (auto simp: bit_simps dest: bit_imp_le_length)
  qed
  finally show ?case .
qed

lemma from_le_le_bytes: "LENGTH('a) \<le> 8 * n \<Longrightarrow> from_le (le_bytes n (v :: 'a::len word)) = v"
  using from_le_bytes [of v 0 n] by (simp add: le_bytes_def take_bit_word_eq_self)

text \<open>
  C34. The scalar encodings of the wire format. A varint takes one to ten bytes, so the buffer of
  \<open>pb_encode_varint\<close> is never overrun, and decoding it gives the value back for all 64-bit values,
  with the stream right behind it; the zig-zag map is injective with \<open>pb_decode_svarint\<close>'s as its
  inverse; and the fixed-width encodings of floats and doubles are little-endian inverses.
\<close>

theorem pb_scalars_roundtrip:
  "1 \<le> length (wire_varint v) \<and> length (wire_varint v) \<le> 10 \<and>
   pb_encode_varint s v = pb_write s (wire_varint v) \<and>
   pb_decode_varint (feed (wire_varint v) rest m) = Some (Some v, feed [] rest m) \<and>
   pb_encode_svarint s v = pb_write s (wire_varint (zigzag v)) \<and>
   pb_decode_svarint (feed (wire_varint (zigzag v)) rest m) = Some (Some v, feed [] rest m) \<and>
   pb_encode_fixed64 s v = pb_write s (le_bytes 8 v) \<and>
   pb_decode_fixed64 (feed (le_bytes 8 v) rest m) = Some (Some (v, feed [] rest m)) \<and>
   pb_encode_fixed32 s w = pb_write s (le_bytes 4 w) \<and>
   pb_decode_fixed32 (feed (le_bytes 4 w) rest m) = Some (Some (w, feed [] rest m))"
proof -
  have len: "length (le_bytes 8 v) = 8" "length (le_bytes 4 w) = 4" by (simp_all add: le_bytes_def)
  show ?thesis
    using wire_varint_length [of v] pb_read_feed [of "le_bytes 8 v" rest m] pb_read_feed [of "le_bytes 4 w" rest m]
    unfolding len
    by (simp add: pb_encode_varint_eq decode_wire_varint pb_encode_svarint_def
        pb_decode_svarint_def zagzig_zigzag pb_encode_fixed64_def pb_decode_fixed64_def
        pb_encode_fixed32_def pb_decode_fixed32_def from_le_le_bytes)
qed

end
