(* ===== verification/PbWire.thy ===== *)
theory PbWire
  imports PbProps
begin

text \<open>
  The wire format as a function of the message alone, and the encoder as its implementation on
  streams: a counting stream measures it, a bounded stream receives all of it or the encoder
  returns 0, and the second pass over a submessage always writes what the first one measured.
\<close>

section \<open>The wire format\<close>

text \<open>
  As in the encoder, \<open>None\<close> is a crash and \<open>Some None\<close> a refusal. \<open>wire_seq\<close> concatenates.
\<close>

definition wire_seq :: "bytes option option \<Rightarrow> bytes option option \<Rightarrow> bytes option option" where
  "wire_seq a b = and_then a (\<lambda>x. map_option (map_option ((@) x)) b)"

fun wire_concat :: "('a \<Rightarrow> bytes option option) \<Rightarrow> 'a list \<Rightarrow> bytes option option" where
  "wire_concat f [] = Some (Some [])"
| "wire_concat f (x # xs) = wire_seq (f x) (wire_concat f xs)"

definition wire_tag :: "pc_JSON \<Rightarrow> bytes option option" where
  "wire_tag field =
     do { ty \<leftarrow> pc_JSON_GetObjectItem field ''type'';
          tag \<leftarrow> pc_JSON_GetObjectItem field ''tag'';
          ty \<leftarrow> ty;
          ty_text \<leftarrow> valuestring ty;
          tag \<leftarrow> tag;
          Some (Some (wire_varint (ucast (pb_get_constant_type ty_text OR push_bit 3 (of_int (valueint tag) :: u32))))) }"

definition wire_bytes :: "bytes \<Rightarrow> bytes" where
  "wire_bytes bs = wire_varint (of_nat (length bs)) @ bs"

type_synonym wire_message = "pc_JSON \<Rightarrow> pc_JSON \<Rightarrow> bytes option option"

definition wire_value :: "wire_message \<Rightarrow> pc_JSON \<Rightarrow> pc_JSON \<Rightarrow> pc_JSON \<Rightarrow> pc_JSON \<Rightarrow> bytes option option" where
  "wire_value w gprotos protos proto v =
     do { ty \<leftarrow> get_text proto ''type'';
          messages \<leftarrow> pc_JSON_GetObjectItem protos ''__messages'';
          let t = pb_get_type ty;
          if t = PB_uInt32 then Some (Some (wire_varint (of_int (valueint v))))
          else if t = PB_int32 \<or> t = PB_sInt32 then Some (Some (wire_varint (zigzag (of_int (valueint v)))))
          else if t = PB_float then Some (Some (le_bytes 4 (float_of_double (valuedouble v))))
          else if t = PB_double then Some (Some (le_bytes 8 (valuedouble v)))
          else if t = PB_string then do { str \<leftarrow> valuestring v; Some (Some (wire_bytes (to_bytes str))) }
          else case messages of
            None \<Rightarrow> Some (Some [])
          | Some messages \<Rightarrow>
              do { sub \<leftarrow> sub_message gprotos messages ty;
                   case sub of None \<Rightarrow> Some None
                   | Some sub \<Rightarrow> map_option (map_option wire_bytes) (w sub v) } }"

definition wire_array :: "wire_message \<Rightarrow> pc_JSON \<Rightarrow> pc_JSON \<Rightarrow> pc_JSON \<Rightarrow> pc_JSON \<Rightarrow> bytes option option" where
  "wire_array w gprotos protos proto array =
     do { ty \<leftarrow> get_text proto ''type'';
          if pb_get_type ty \<noteq> 0 \<and> pb_get_type ty \<noteq> PB_string
          then wire_seq (wire_tag proto) (wire_seq (Some (Some (wire_varint (of_nat (pc_JSON_GetArraySize array)))))
                 (wire_concat (wire_value w gprotos protos proto) (child array)))
          else wire_concat (\<lambda>v. wire_seq (wire_tag proto) (wire_value w gprotos protos proto v)) (child array) }"

definition wire_field :: "wire_message \<Rightarrow> pc_JSON \<Rightarrow> pc_JSON \<Rightarrow> pc_JSON \<Rightarrow> bytes option option" where
  "wire_field w gprotos protos v =
     do { proto \<leftarrow> (case jstring v of
              None \<Rightarrow> if child protos = [] then Some None else None
            | Some key \<Rightarrow> pc_JSON_GetObjectItem protos key);
          case proto of None \<Rightarrow> Some None
          | Some proto \<Rightarrow>
            do { opt \<leftarrow> get_text proto ''option'';
                 if opt = ''required'' \<or> opt = ''optional''
                 then wire_seq (wire_tag proto) (wire_value w gprotos protos proto v)
                 else if opt = ''repeated'' \<and> jtype v = pc_JSON_Array
                 then wire_array w gprotos protos proto v
                 else Some (Some []) } }"

fun wire :: "nat \<Rightarrow> pc_JSON \<Rightarrow> wire_message" where
  "wire 0 gprotos protos msg = None"
| "wire (Suc k) gprotos protos msg = wire_concat (wire_field (wire k gprotos) gprotos protos) (child msg)"

section \<open>Encoders that implement it\<close>

definition stream_ok :: "pb_ostream \<Rightarrow> bool" where
  "stream_ok s \<longleftrightarrow> (\<forall>dest. out s = Some dest \<longrightarrow>
     bytes_written s \<le> max_size s \<and> length dest + (max_size s - bytes_written s) \<le> cap s)"

text \<open>
  \<open>emits e d\<close>: on every stream the encoder \<open>e\<close> writes \<open>d\<close> as one write would, refuses where it
  does, and crashes only where \<open>d\<close> does (a full stream can make it refuse before).
\<close>

definition emits :: "(pb_ostream \<Rightarrow> pb_ostream option option) \<Rightarrow> bytes option option \<Rightarrow> bool" where
  "emits e d \<longleftrightarrow> (\<forall>s. stream_ok s \<longrightarrow>
     (case d of
        Some (Some bs) \<Rightarrow> e s = pb_write s bs
      | Some None \<Rightarrow> e s = Some None
      | None \<Rightarrow> e s = None \<or> out s \<noteq> None \<and> e s = Some None))"

lemma pb_write_counting:
  "out s = None \<Longrightarrow> pb_write s bs = Some (Some (s\<lparr>bytes_written := bytes_written s + length bs\<rparr>))"
  by (simp add: pb_write_def)

lemma pb_write_buffer:
  "stream_ok s \<Longrightarrow> out s = Some dest \<Longrightarrow> pb_write s bs =
     Some (if bytes_written s + length bs > max_size s then None
       else Some (s\<lparr>out := Some (dest @ bs), bytes_written := bytes_written s + length bs\<rparr>))"
  by (auto simp: pb_write_def buf_write_def stream_ok_def)

lemma pb_write_ok:
  assumes "stream_ok s" "pb_write s bs = Some (Some s')"
  shows "stream_ok s' \<and> (out s' = None \<longleftrightarrow> out s = None)"
proof (cases "out s")
  case None
  with assms show ?thesis by (auto simp: pb_write_counting stream_ok_def)
next
  case (Some dest)
  with assms show ?thesis
    by (auto simp: pb_write_buffer [OF assms(1) Some] stream_ok_def split: if_splits)
qed

lemma pb_write_append:
  assumes "stream_ok s"
  shows "and_then (pb_write s as) (\<lambda>s. pb_write s bs) = pb_write s (as @ bs)"
proof (cases "out s")
  case None
  then show ?thesis by (simp add: pb_write_counting add.assoc)
next
  case (Some dest)
  note w = pb_write_buffer [OF assms Some]
  show ?thesis
  proof (cases "bytes_written s + length as > max_size s")
    case False
    then have "pb_write s as = Some (Some (s\<lparr>out := Some (dest @ as), bytes_written := bytes_written s + length as\<rparr>))"
      (is "_ = Some (Some ?s)") by (simp add: w)
    moreover from pb_write_ok [OF assms this] have "stream_ok ?s" by simp
    ultimately show ?thesis by (simp add: w pb_write_buffer add.assoc)
  qed (simp add: w)
qed

lemma emits_write: "emits (\<lambda>s. pb_write s bs) (Some (Some bs))"
  by (simp add: emits_def)

lemma emits_skip: "emits (\<lambda>s. Some (Some s)) (Some (Some []))"
  unfolding emits_def by (auto simp: pb_write_def buf_write_def stream_ok_def split: option.splits)

lemma emits_refuse: "emits (\<lambda>s. Some None) (Some None)"
  by (simp add: emits_def)

lemma emits_seq:
  assumes "emits e d" "emits f d'"
  shows "emits (\<lambda>s. and_then (e s) f) (wire_seq d d')"
  unfolding emits_def
proof (intro allI impI)
  fix s assume ok: "stream_ok s"
  consider "d = None" | "d = Some None" | bs where "d = Some (Some bs)" by (cases d) auto
  then show "case wire_seq d d' of Some (Some bs) \<Rightarrow> and_then (e s) f = pb_write s bs
      | Some None \<Rightarrow> and_then (e s) f = Some None
      | None \<Rightarrow> and_then (e s) f = None \<or> out s \<noteq> None \<and> and_then (e s) f = Some None"
  proof cases
    case 3
    then have e: "e s = pb_write s bs" using assms(1) ok by (auto simp: emits_def)
    from ok consider (none) "pb_write s bs = Some None" "out s \<noteq> None"
      | (some) s' where "pb_write s bs = Some (Some s')" "stream_ok s'" "out s' = None \<longleftrightarrow> out s = None"
    proof (cases "pb_write s bs")
      case None
      with ok show ?thesis by (cases "out s") (simp_all add: pb_write_counting pb_write_buffer)
    next
      case (Some r)
      show ?thesis
      proof (cases r)
        case None
        with Some ok show ?thesis
          by (intro that(1); cases "out s"; auto simp: pb_write_counting)
      next
        case (Some s')
        with \<open>pb_write s bs = Some r\<close> pb_write_ok [OF ok] show ?thesis by (intro that(2) [of s']) auto
      qed
    qed
    then show ?thesis
    proof cases
      case none
      have "pb_write s (bs @ cs) = Some None" for cs
        using pb_write_append [OF ok, of bs cs] none by simp
      with 3 e none show ?thesis by (auto simp: wire_seq_def split: option.splits)
    next
      case some
      have w: "pb_write s (bs @ cs) = pb_write s' cs" for cs
        using pb_write_append [OF ok, of bs cs] some by simp
      show ?thesis
        using assms(2) some(2,3) by (auto simp: emits_def 3 e some(1) wire_seq_def w split: option.splits)
    qed
  qed (use assms(1) ok in \<open>auto simp: emits_def wire_seq_def\<close>)
qed

lemma emits_concat:
  "(\<And>v. v \<in> set vs \<Longrightarrow> emits (\<lambda>s. f s v) (d v)) \<Longrightarrow> emits (\<lambda>s. encode_items f s vs) (wire_concat d vs)"
proof (induction vs)
  case (Cons v vs)
  have "emits (\<lambda>s. and_then (f s v) (\<lambda>s. encode_items f s vs)) (wire_seq (d v) (wire_concat d vs))"
    using Cons by (intro emits_seq) auto
  then show ?case by simp
qed (simp add: emits_skip)

lemma emits_bind:
  assumes "\<And>x. m = Some x \<Longrightarrow> emits (\<lambda>s. e x s) (d x)"
  shows "emits (\<lambda>s. do { x \<leftarrow> m; e x s }) (do { x \<leftarrow> m; d x })"
  using assms by (cases m) (auto simp: emits_def)


lemma emits_varint: "emits (\<lambda>s. pb_encode_varint s v) (Some (Some (wire_varint v)))"
  by (simp add: emits_def pb_encode_varint_eq)

lemma emits_tag: "emits (\<lambda>s. pb_encode_tag_for_field s field) (wire_tag field)"
  unfolding pb_encode_tag_for_field_def wire_tag_def pb_encode_tag_def
  by (intro emits_bind emits_varint)

lemma wire_seq_append: "wire_seq (Some (Some a)) (Some (Some b)) = Some (Some (a @ b))"
  by (simp add: wire_seq_def)

lemma emits_string: "emits (\<lambda>s. pb_encode_string s str) (Some (Some (wire_bytes (to_bytes str))))"
  using emits_seq [OF emits_varint emits_write, of "of_nat (length str)" "to_bytes str"]
  by (simp add: pb_encode_string_def wire_seq_append wire_bytes_def)

lemma and_then_cong:
  "(\<And>x. m = Some (Some x) \<Longrightarrow> f x = g x) \<Longrightarrow> and_then m f = and_then m g"
  by (auto simp: and_then_def split: option.splits intro!: Option.bind_cong)

lemma emits_submessage:
  assumes "emits (\<lambda>s. enc s protos v) d"
  shows "emits (\<lambda>s. pb_encode_submessage enc s protos v) (map_option (map_option wire_bytes) d)"
  unfolding emits_def
proof (intro allI impI)
  fix s assume ok: "stream_ok s"
  let ?c = "\<lparr>out = None, cap = 0, max_size = 0, bytes_written = 0\<rparr>"
  have c: "stream_ok ?c" by (simp add: stream_ok_def)
  consider "d = None" | "d = Some None" | bs where "d = Some (Some bs)" by (cases d) auto
  then show "case map_option (map_option wire_bytes) d of
        Some (Some bs) \<Rightarrow> pb_encode_submessage enc s protos v = pb_write s bs
      | Some None \<Rightarrow> pb_encode_submessage enc s protos v = Some None
      | None \<Rightarrow> pb_encode_submessage enc s protos v = None \<or>
          out s \<noteq> None \<and> pb_encode_submessage enc s protos v = Some None"
  proof cases
    case (3 bs)
    have e: "enc s protos v = pb_write s bs" if "stream_ok s" for s
      using assms that 3 by (auto simp: emits_def)
    have measured: "enc ?c protos v = Some (Some (?c\<lparr>bytes_written := length bs\<rparr>))"
      using e [OF c] by (simp add: pb_write_counting)
    let ?f = "\<lambda>s. if out s = None then pb_count s (length bs)
        else if bytes_written s + length bs > max_size s then Some None
        else and_then (enc (s\<lparr>max_size := length bs, bytes_written := 0\<rparr>) protos v) (\<lambda>sub.
          if bytes_written sub \<noteq> length bs then Some None
          else Some (Some (s\<lparr>out := out sub, bytes_written := bytes_written s + bytes_written sub\<rparr>)))"
    have body: "?f t = pb_write t bs" if t: "stream_ok t" for t
    proof (cases "out t")
      case None
      then show ?thesis by (simp add: pb_count_def pb_write_counting)
    next
      case (Some dest)
      show ?thesis
      proof (cases "bytes_written t + length bs > max_size t")
        case True
        with Some t show ?thesis by (simp add: pb_write_buffer)
      next
        case False
        let ?u = "t\<lparr>max_size := length bs, bytes_written := 0\<rparr>"
        have u: "stream_ok ?u" using t False Some by (auto simp: stream_ok_def)
        have "enc ?u protos v = Some (Some (?u\<lparr>out := Some (dest @ bs), bytes_written := length bs\<rparr>))"
          using e [OF u] pb_write_buffer [OF u] Some by simp
        with False Some t show ?thesis by (simp add: pb_write_buffer)
      qed
    qed
    have "pb_encode_submessage enc s protos v =
        and_then (pb_write s (wire_varint (of_nat (length bs)))) ?f"
      by (simp add: pb_encode_submessage_def measured pb_encode_varint_eq Let_def cong: if_cong)
    also have "\<dots> = and_then (pb_write s (wire_varint (of_nat (length bs)))) (\<lambda>s. pb_write s bs)"
      by (intro and_then_cong body) (use pb_write_ok [OF ok] in blast)
    also have "\<dots> = pb_write s (wire_bytes bs)"
      unfolding wire_bytes_def by (rule pb_write_append [OF ok])
    finally show ?thesis by (simp add: 3)
  qed (use assms c in \<open>auto simp: emits_def pb_encode_submessage_def\<close>)
qed

lemma emits_value:
  assumes "\<And>protos. emits (\<lambda>s. enc s protos v) (w protos v)"
  shows "emits (\<lambda>s. pb_encode_proto enc s gprotos protos proto v) (wire_value w gprotos protos proto v)"
  unfolding pb_encode_proto_def wire_value_def Let_def pb_encode_svarint_def pb_encode_fixed32_def
    pb_encode_fixed64_def
  by (intro emits_bind)
    (auto simp: emits_varint emits_write emits_string emits_skip emits_refuse
      intro!: emits_bind emits_submessage assms split: option.splits)

lemma emits_array:
  assumes "\<And>protos v. v \<in> set (child array) \<Longrightarrow> emits (\<lambda>s. enc s protos v) (w protos v)"
  shows "emits (\<lambda>s. pb_encode_array enc s gprotos protos proto array) (wire_array w gprotos protos proto array)"
  unfolding pb_encode_array_def wire_array_def
  by (intro emits_bind)
    (auto intro!: emits_seq emits_concat emits_value emits_tag emits_varint assms)

lemma emits_field:
  assumes "\<And>protos. emits (\<lambda>s. enc s protos v) (w protos v)"
    and "\<And>protos c. c \<in> set (child v) \<Longrightarrow> emits (\<lambda>s. enc s protos c) (w protos c)"
  shows "emits (\<lambda>s. encode_field enc gprotos protos s v) (wire_field w gprotos protos v)"
  unfolding encode_field_def wire_field_def
  by (intro emits_bind)
    (auto simp: emits_refuse emits_skip split: option.splits
      intro!: emits_bind emits_seq emits_value emits_array emits_tag assms)

lemma emits_message: "emits (\<lambda>s. pb_encode k gprotos s protos msg) (wire k gprotos protos msg)"
proof (induction k arbitrary: protos msg)
  case 0
  then show ?case by (simp add: emits_def)
next
  case (Suc k)
  have "emits (\<lambda>s. encode_items (encode_field (pb_encode k gprotos) gprotos protos) s (child msg))
      (wire_concat (wire_field (wire k gprotos) gprotos protos) (child msg))"
    by (intro emits_concat emits_field Suc.IH)
  then show ?case by simp
qed

text \<open>The fuel: the height of the message is enough.\<close>

lemma wire_concat_cong: "(\<And>v. v \<in> set vs \<Longrightarrow> f v = g v) \<Longrightarrow> wire_concat f vs = wire_concat g vs"
  by (induction vs) auto

lemma wire_value_cong:
  "(\<And>protos. w protos v = w' protos v) \<Longrightarrow>
    wire_value w gprotos protos proto v = wire_value w' gprotos protos proto v"
  by (simp add: wire_value_def Let_def cong: if_cong option.case_cong)

lemma wire_field_cong:
  assumes "\<And>protos. w protos v = w' protos v"
    and "\<And>protos c. c \<in> set (child v) \<Longrightarrow> w protos c = w' protos c"
  shows "wire_field w gprotos protos v = wire_field w' gprotos protos v"
proof -
  have va: "wire_value w gprotos protos proto v = wire_value w' gprotos protos proto v" for proto
    by (rule wire_value_cong) (rule assms(1))
  have it: "wire_concat (wire_value w gprotos protos proto) (child v) = wire_concat (wire_value w' gprotos protos proto) (child v)"
    "wire_concat (\<lambda>c. wire_seq (wire_tag proto) (wire_value w gprotos protos proto c)) (child v) =
     wire_concat (\<lambda>c. wire_seq (wire_tag proto) (wire_value w' gprotos protos proto c)) (child v)" for proto
    using wire_value_cong [of w _ w'] assms(2) by (auto intro!: wire_concat_cong)
  have ar: "wire_array w gprotos protos proto v = wire_array w' gprotos protos proto v" for proto
    by (unfold wire_array_def it) (rule refl)
  show ?thesis
    by (unfold wire_field_def va ar) (rule refl)
qed

lemma child_height: "c \<in> set (child v) \<Longrightarrow> height c < height v"
  by (cases v) (auto intro: le_imp_less_Suc Max_ge)

lemma wire_fuel: "height msg \<le> k \<Longrightarrow> height msg \<le> j \<Longrightarrow> wire k gprotos protos msg = wire j gprotos protos msg"
proof (induction k arbitrary: j protos msg)
  case 0
  then show ?case by (cases msg) simp
next
  case (Suc k)
  obtain i where j: "j = Suc i" using Suc.prems(2) by (cases j; cases msg) auto
  have eq: "wire k gprotos p c = wire i gprotos p c" if "height c < height msg" for p c
    using that Suc.prems j by (intro Suc.IH) auto
  have "wire_field (wire k gprotos) gprotos protos v = wire_field (wire i gprotos) gprotos protos v"
    if v: "v \<in> set (child msg)" for v
  proof (rule wire_field_cong)
    show "wire k gprotos p v = wire i gprotos p v" for p
      using eq child_height [OF v] by blast
    show "wire k gprotos p c = wire i gprotos p c" if "c \<in> set (child v)" for p c
      using eq child_height [OF v] child_height [OF that] less_trans by blast
  qed
  then show ?case by (simp add: j cong: wire_concat_cong)
qed

text \<open>
  C13. The encoder implements the wire format, and the two passes over a submessage agree. If the
  format of the message is \<open>bs\<close>, encoding on a counting stream returns its length, and encoding
  into a buffer returns exactly \<open>bs\<close> when it fits the buffer and 0 when it does not; nothing is
  ever written outside the buffer, and the check that the second pass wrote as much as the first
  never fails. Where the format refuses the message (an unknown field or message type), so does
  the encoder. The height of the message is enough fuel for the format.
\<close>

theorem pb_encode_refines_wire:
  "(\<forall>k. height msg \<le> k \<longrightarrow> wire k gprotos protos msg = wire (height msg) gprotos protos msg) \<and>
   (\<forall>bs. wire (height msg) gprotos protos msg = Some (Some bs) \<longrightarrow>
      pb_encode (height msg) gprotos \<lparr>out = None, cap = 0, max_size = 0, bytes_written = 0\<rparr> protos msg =
        Some (Some \<lparr>out = None, cap = 0, max_size = 0, bytes_written = length bs\<rparr>) \<and>
      pc_pb_encode len gprotos protos msg = Some (if length bs \<le> len then Some bs else None)) \<and>
   (wire (height msg) gprotos protos msg = Some None \<longrightarrow> pc_pb_encode len gprotos protos msg = Some None)"
proof -
  have ok: "stream_ok (pb_ostream_from_buffer len)"
    "stream_ok \<lparr>out = None, cap = 0, max_size = 0, bytes_written = 0\<rparr>"
    by (auto simp: stream_ok_def pb_ostream_from_buffer_def)
  have o: "out (pb_ostream_from_buffer len) = Some []" by (simp add: pb_ostream_from_buffer_def)
  note em = emits_message [of "height msg" gprotos protos msg, unfolded emits_def, rule_format]
  show ?thesis
  proof (intro conjI allI impI)
    fix k assume "height msg \<le> k"
    then show "wire k gprotos protos msg = wire (height msg) gprotos protos msg"
      by (rule wire_fuel) simp
  next
    fix bs assume w: "wire (height msg) gprotos protos msg = Some (Some bs)"
    show "pb_encode (height msg) gprotos \<lparr>out = None, cap = 0, max_size = 0, bytes_written = 0\<rparr> protos msg =
        Some (Some \<lparr>out = None, cap = 0, max_size = 0, bytes_written = length bs\<rparr>)"
      using em [OF ok(2)] by (simp add: w pb_write_counting)
    show "pc_pb_encode len gprotos protos msg = Some (if length bs \<le> len then Some bs else None)"
      using em [OF ok(1)] by (simp add: w pc_pb_encode_def pb_write_buffer [OF ok(1) o])
        (simp add: pb_ostream_from_buffer_def)
  next
    assume "wire (height msg) gprotos protos msg = Some None"
    then show "pc_pb_encode len gprotos protos msg = Some None"
      using em [OF ok(1)] by (simp add: pc_pb_encode_def)
  qed
qed

lemma pb_encode_refines_wire_witness:
  "pc_pb_encode 0 pc_JSON_CreateObject pc_JSON_CreateObject pc_JSON_CreateObject = Some (Some [])"
proof -
  have "wire (height pc_JSON_CreateObject) pc_JSON_CreateObject pc_JSON_CreateObject pc_JSON_CreateObject = Some (Some [])"
    by code_simp
  with pb_encode_refines_wire [of pc_JSON_CreateObject pc_JSON_CreateObject pc_JSON_CreateObject 0]
  have "pc_pb_encode 0 pc_JSON_CreateObject pc_JSON_CreateObject pc_JSON_CreateObject =
      Some (if length ([] :: bytes) \<le> 0 then Some [] else None)" by blast
  then show ?thesis by simp
qed

end
