(* ===== verification/Msg.thy ===== *)
theory Msg
  imports Pb Lib
begin

text \<open>
  \<open>pr_msg.c\<close>, \<open>pr_msg_json.c\<close>, \<open>pr_msg_pb.c\<close>: a message is a flag byte (type and whether the route
  is compressed), a base-128 id for requests and responses, a route (two bytes of code, or a
  length byte and text) for all but responses, and a body in JSON or protobuf.

  A buffer is its bytes; \<open>base == NULL\<close> with length \<open>-1\<close> is \<open>Some None\<close>. \<open>char\<close> is signed and
  \<open>size_t\<close> has 64 bits. The body that is parsed as JSON is not terminated: it ends with the
  package buffer.
\<close>

section \<open>Constants and types\<close>

definition PC_MSG_FLAG_BYTES :: nat where [simp]: "PC_MSG_FLAG_BYTES = 1"
definition PC_MSG_ROUTE_LEN_BYTES :: nat where [simp]: "PC_MSG_ROUTE_LEN_BYTES = 1"
definition PC_MSG_ROUTE_CODE_BYTES :: nat where [simp]: "PC_MSG_ROUTE_CODE_BYTES = 2"

definition PC_MSG_REQUEST :: u8 where [simp]: "PC_MSG_REQUEST = 0"
definition PC_MSG_NOTIFY :: u8 where [simp]: "PC_MSG_NOTIFY = 1"
definition PC_MSG_RESPONSE :: u8 where [simp]: "PC_MSG_RESPONSE = 2"
definition PC_MSG_PUSH :: u8 where [simp]: "PC_MSG_PUSH = 3"

definition PC_MSG_HAS_ID :: "u8 \<Rightarrow> bool" where
  "PC_MSG_HAS_ID t \<longleftrightarrow> t = PC_MSG_REQUEST \<or> t = PC_MSG_RESPONSE"
definition PC_MSG_HAS_ROUTE :: "u8 \<Rightarrow> bool" where
  "PC_MSG_HAS_ROUTE t \<longleftrightarrow> t \<noteq> PC_MSG_RESPONSE"
definition PC_IS_VALID_TYPE :: "u8 \<Rightarrow> bool" where
  "PC_IS_VALID_TYPE t \<longleftrightarrow> t = PC_MSG_REQUEST \<or> t = PC_MSG_NOTIFY \<or> t = PC_MSG_RESPONSE \<or> t = PC_MSG_PUSH"

datatype raw_route = Route_code u16 | Route_str "bytes option"

record pc_msg_raw =
  raw_id :: u32
  raw_type :: u8
  is_route_compressed :: bool
  raw_route :: raw_route
  raw_body :: bytes

record pc_msg =
  msg_id :: u32
  msg_route :: "string option"
  msg_text :: "string option"

section \<open>Bodies\<close>

definition pc_body_json_encode :: "pc_JSON \<Rightarrow> bytes option option" where
  "pc_body_json_encode m = map_option (map_option to_bytes) (pc_JSON_PrintUnformatted m)"

definition pc_body_json_decode :: "bytes \<Rightarrow> pc_JSON option option" where
  "pc_body_json_decode ds =
     do { r \<leftarrow> pc_JSON_ParseWithOpts (to_string ds) False;
          Some (case r of Inl _ \<Rightarrow> None | Inr (it, rest) \<Rightarrow> if rest = [] then Some it else None) }"

definition PC_PB_EVAL_FACTOR :: nat where [simp]: "PC_PB_EVAL_FACTOR = 2"

definition pc_body_pb_encode :: "pc_JSON \<Rightarrow> pc_JSON \<Rightarrow> pc_JSON \<Rightarrow> bytes option option" where
  "pc_body_pb_encode m gprotos pb_def =
     and_then (pc_body_json_encode m) (\<lambda>json_buf.
       pc_pb_encode (length json_buf * PC_PB_EVAL_FACTOR) gprotos pb_def m)"

definition pc_body_pb_decode :: "bytes \<Rightarrow> pc_JSON \<Rightarrow> pc_JSON \<Rightarrow> pc_JSON option option" where
  "pc_body_pb_decode ds gprotos pb_def = pc_pb_decode ds (length ds) gprotos pb_def pc_JSON_CreateObject"

section \<open>Raw decoding\<close>

text \<open>
  The id loop. \<open>(m & 0x7f) << (7 * i)\<close> shifts an \<open>int\<close>: it is undefined by 32 or more, and when the
  result is no \<open>int\<close>. \<open>None\<close> inside is the invalid length.
\<close>

fun decode_id :: "nat \<Rightarrow> u32 \<Rightarrow> bytes \<Rightarrow> (u32 \<times> bytes) option option" where
  "decode_id i v [] = Some None"
| "decode_id i v (m # bs) =
     do { _ \<leftarrow> assert_c (7 * i < 32 \<and> int_fits (uint (m AND 0x7f) * 2 ^ (7 * i)));
          let v' = v + push_bit (7 * i) (ucast (m AND 0x7f));
          if m AND 0x80 \<noteq> 0 then decode_id (Suc i) v' bs else Some (Some (v', bs)) }"

text \<open>
  \<open>bs\<close> is what is left of the \<open>len\<close> bytes from \<open>offset\<close> on. The route length is a sign-extended
  \<open>char\<close>, and the bound is computed in \<open>size_t\<close>; the copy is undefined beyond the buffer.
\<close>

definition decode_route :: "nat \<Rightarrow> bool \<Rightarrow> bytes \<Rightarrow> (raw_route \<times> bytes) option option" where
  "decode_route len compressed bs =
     (if compressed
      then (case bs of
              a # b # bs \<Rightarrow> Some (Some (Route_code (push_bit 8 (ucast a) OR ucast b), bs))
            | _ \<Rightarrow> Some None)
      else (case bs of
              [] \<Rightarrow> Some None
            | a # bs \<Rightarrow>
                let route_len = (scast a :: u64); offset = (of_nat (len - length bs) :: u64)
                in if offset + route_len - 1 < of_nat len
                   then do { _ \<leftarrow> assert_c (unat route_len \<le> length bs);
                             Some (Some (Route_str (Some (take (unat route_len) bs)), drop (unat route_len) bs)) }
                   else Some None))"

definition pc_msg_decode_to_raw :: "bytes \<Rightarrow> pc_msg_raw option option" where
  "pc_msg_decode_to_raw buf =
     (case buf of
        [] \<Rightarrow> Some None
      | flag # bs \<Rightarrow>
          let ty = drop_bit 1 flag; compressed = (flag AND 1 \<noteq> 0)
          in if \<not> PC_IS_VALID_TYPE ty then Some None
             else and_then (if PC_MSG_HAS_ID ty then decode_id 0 0 bs
                            else Some (Some (PC_NOTIFY_PUSH_REQ_ID, bs))) (\<lambda>(rid, bs).
                  and_then (if PC_MSG_HAS_ROUTE ty then decode_route (length buf) compressed bs
                            else Some (Some (if compressed then Route_code 0 else Route_str None, bs))) (\<lambda>(route, bs).
                  do { _ \<leftarrow> assert_c (rid \<noteq> PC_INVALID_REQ_ID);
                       Some (Some \<lparr>raw_id = rid, raw_type = ty, is_route_compressed = compressed,
                                   raw_route = route, raw_body = bs\<rparr>) })))"

section \<open>Decoding\<close>

definition pc__resolve_dictionary :: "pc_JSON option \<Rightarrow> u16 \<Rightarrow> string option option" where
  "pc__resolve_dictionary code2route rc =
     do { d \<leftarrow> code2route;
          tmp \<leftarrow> pc_JSON_GetObjectItem d (sprintf_d (uint rc));
          it \<leftarrow> tmp;
          _ \<leftarrow> assert_c (jtype it = pc_JSON_String);
          Some (valuestring it) }"

definition invalid_msg :: pc_msg where
  "invalid_msg = \<lparr>msg_id = PC_INVALID_REQ_ID, msg_route = None, msg_text = None\<rparr>"

text \<open>\<open>server_protos && (pb_def = pc_JSON_GetObjectItem(server_protos, route))\<close>\<close>

definition find_proto :: "pc_JSON option \<Rightarrow> string \<Rightarrow> (pc_JSON \<times> pc_JSON) option option" where
  "find_proto protos route =
     (case protos of None \<Rightarrow> Some None
      | Some p \<Rightarrow> do { d \<leftarrow> pc_JSON_GetObjectItem p route; Some (map_option (Pair p) d) })"

definition decode_msg_route :: "pc_JSON option \<Rightarrow> pc_msg_raw \<Rightarrow> string option option" where
  "decode_msg_route code2route raw =
     (if PC_MSG_HAS_ROUTE (raw_type raw)
      then (case raw_route raw of
              Route_code rc \<Rightarrow> pc__resolve_dictionary code2route rc
            | Route_str s \<Rightarrow> Some (map_option (c_str \<circ> to_string) s))
      else Some None)"

definition decode_body :: "pc_JSON option \<Rightarrow> string option \<Rightarrow> bytes \<Rightarrow> pc_JSON option option" where
  "decode_body server_protos route body =
     (case route of
        None \<Rightarrow> pc_body_json_decode body
      | Some r \<Rightarrow>
          do { d \<leftarrow> find_proto server_protos r;
               case d of Some (protos, pb_def) \<Rightarrow> pc_body_pb_decode body protos pb_def
               | None \<Rightarrow> pc_body_json_decode body })"

definition pc_default_msg_decode :: "pc_JSON option \<Rightarrow> pc_JSON option \<Rightarrow> bytes \<Rightarrow> pc_msg option" where
  "pc_default_msg_decode code2route server_protos buf =
     do { raw \<leftarrow> pc_msg_decode_to_raw buf;
          case raw of None \<Rightarrow> Some invalid_msg
          | Some raw \<Rightarrow>
            do { route \<leftarrow> decode_msg_route code2route raw;
                 let m = \<lparr>msg_id = raw_id raw, msg_route = route, msg_text = None\<rparr>;
                 if PC_MSG_HAS_ROUTE (raw_type raw) \<and> route = None then Some invalid_msg
                 else if raw_body raw = [] then Some m
                 else do { json \<leftarrow> decode_body server_protos route (raw_body raw);
                           case json of None \<Rightarrow> Some invalid_msg
                           | Some json \<Rightarrow>
                             do { ds \<leftarrow> pc_JSON_PrintUnformatted json;
                                  ds \<leftarrow> ds;
                                  Some (m\<lparr>msg_text := Some ds\<rparr>) } } } }"

section \<open>Encoding\<close>

function id_bytes :: "u32 \<Rightarrow> bytes" where
  "id_bytes v =
     (let tmp = v AND 0x7f; next = drop_bit 7 v
      in if next = 0 then [ucast tmp] else ucast (tmp + 128) # id_bytes next)"
  by pat_completeness auto

lemma drop_7_less: "drop_bit 7 (v :: u32) \<noteq> 0 \<Longrightarrow> unat (drop_bit 7 v) < unat v"
proof -
  assume "drop_bit 7 v \<noteq> 0"
  then have "v \<noteq> 0" by auto
  then have "unat v div 128 < unat v" by (intro div_less_dividend) (simp_all add: unat_gt_0)
  then show ?thesis by (simp add: drop_bit_eq_div unat_div)
qed

termination id_bytes
  by (relation "measure unat") (use drop_7_less in auto)

declare id_bytes.simps [simp del]

function pc__msg_id_length :: "u32 \<Rightarrow> nat" where
  "pc__msg_id_length v = (if drop_bit 7 v = 0 then 1 else Suc (pc__msg_id_length (drop_bit 7 v)))"
  by pat_completeness auto
termination
  by (relation "measure unat") (use drop_7_less in auto)

declare pc__msg_id_length.simps [simp del]

definition pc__msg_encode_flag :: "u8 \<Rightarrow> bool \<Rightarrow> bytes \<Rightarrow> nat \<Rightarrow> (bytes \<times> nat) option" where
  "pc__msg_encode_flag ty compress base offset =
     do { base \<leftarrow> put_at base offset [push_bit 1 ty OR (if compress then 1 else 0)]; Some (base, offset + 1) }"

definition pc__msg_encode_id :: "u32 \<Rightarrow> bytes \<Rightarrow> nat \<Rightarrow> (bytes \<times> nat) option" where
  "pc__msg_encode_id rid base offset =
     do { base \<leftarrow> put_at base offset (id_bytes rid); Some (base, offset + length (id_bytes rid)) }"

definition pc__msg_encode_route :: "bytes \<Rightarrow> u16 \<Rightarrow> bytes \<Rightarrow> nat \<Rightarrow> (bytes \<times> nat) option" where
  "pc__msg_encode_route route route_len base offset =
     do { base \<leftarrow> put_at base offset [ucast (route_len AND 0xff)];
          src \<leftarrow> get_at route 0 (unat route_len);
          base \<leftarrow> put_at base (offset + 1) src;
          Some (base, offset + 1 + unat route_len) }"

definition pc_msg_encode_route :: "u32 \<Rightarrow> u8 \<Rightarrow> string \<Rightarrow> bytes \<Rightarrow> bytes option" where
  "pc_msg_encode_route rid ty route body =
     (let id_len = (if PC_MSG_HAS_ID ty then pc__msg_id_length rid else 0);
          route_len = (if PC_MSG_HAS_ROUTE ty then of_nat (length route) else 0 :: u16);
          msg_len = PC_MSG_FLAG_BYTES + id_len + PC_MSG_ROUTE_LEN_BYTES + unat route_len + length body
      in do { (base, offset) \<leftarrow> pc__msg_encode_flag ty False (replicate msg_len 0) 0;
              (base, offset) \<leftarrow> (if PC_MSG_HAS_ID ty then pc__msg_encode_id rid base offset else Some (base, offset));
              (base, offset) \<leftarrow> (if PC_MSG_HAS_ROUTE ty
                 then pc__msg_encode_route (to_bytes route) route_len base offset else Some (base, offset));
              put_at base offset body })"

definition pc_msg_encode_code :: "u32 \<Rightarrow> u8 \<Rightarrow> int \<Rightarrow> bytes \<Rightarrow> bytes option" where
  "pc_msg_encode_code rid ty route_code body =
     (let id_len = (if PC_MSG_HAS_ID ty then pc__msg_id_length rid else 0);
          route_len = (if PC_MSG_HAS_ROUTE ty then PC_MSG_ROUTE_CODE_BYTES else 0);
          msg_len = PC_MSG_FLAG_BYTES + id_len + route_len + length body
      in do { (base, offset) \<leftarrow> pc__msg_encode_flag ty True (replicate msg_len 0) 0;
              (base, offset) \<leftarrow> (if PC_MSG_HAS_ID ty then pc__msg_encode_id rid base offset else Some (base, offset));
              (base, offset) \<leftarrow> (if PC_MSG_HAS_ROUTE ty
                 then do { base \<leftarrow> put_at base offset [of_int (drop_bit 8 route_code), of_int route_code];
                           Some (base, offset + 2) }
                 else Some (base, offset));
              put_at base offset body })"

definition encode_body :: "pc_JSON option \<Rightarrow> string \<Rightarrow> pc_JSON \<Rightarrow> bytes option option" where
  "encode_body client_protos route json =
     do { d \<leftarrow> find_proto client_protos route;
          case d of Some (protos, pb_def) \<Rightarrow> pc_body_pb_encode json protos pb_def
          | None \<Rightarrow> pc_body_json_encode json }"

definition find_route_code :: "pc_JSON option \<Rightarrow> string \<Rightarrow> int option" where
  "find_route_code route2code route =
     (case route2code of None \<Rightarrow> Some (- 1)
      | Some d \<Rightarrow>
          do { entry \<leftarrow> pc_JSON_GetObjectItem d route;
               Some (case entry of None \<Rightarrow> - 1 | Some c \<Rightarrow> if jtype c = pc_JSON_Number then valueint c else - 1) })"

definition pc_default_msg_encode :: "pc_JSON option \<Rightarrow> pc_JSON option \<Rightarrow> pc_msg \<Rightarrow> bytes option option" where
  "pc_default_msg_encode route2code client_protos m =
     do { txt \<leftarrow> msg_text m;
          route \<leftarrow> msg_route m;
          json \<leftarrow> pc_JSON_ParseWithOpts (txt @ [nul]) True;
          case json of Inl _ \<Rightarrow> Some None
          | Inr (json, _) \<Rightarrow>
            and_then (encode_body client_protos route json) (\<lambda>body.
              do { let ty = (if msg_id m = PC_NOTIFY_PUSH_REQ_ID then PC_MSG_NOTIFY else PC_MSG_REQUEST);
                   route_code \<leftarrow> find_route_code route2code route;
                   map_option Some
                     (if route_code > 0 then pc_msg_encode_code (msg_id m) ty route_code body
                      else pc_msg_encode_route (msg_id m) ty route body) }) }"

end
