(* ===== verification/MsgProps.thy ===== *)
theory MsgProps
  imports Msg JsonRoundtrip
begin

text \<open>
  What the message encoder writes, the message decoder reads back: the id, the route as text or
  through the dictionaries, and the body.
\<close>

declare parse_value.simps [simp del]

section \<open>Ids\<close>

lemma continued: "(v AND 0x7f) + 128 = (v AND 0x7f) OR (128 :: u32)"
  by (rule disjunctive_add) (auto simp: bit_simps bits_7F)

lemma digit_bits:
  "(ucast (ucast (v AND 0x7f :: u32) :: u8) :: u32) = v AND 0x7f"
  "(ucast (v AND 0x7f :: u32) :: u8) AND 0x80 = 0"
  "(ucast (v AND 0x7f :: u32) :: u8) AND 0x7f = ucast (v AND 0x7f)"
  "(ucast ((v AND 0x7f) OR 128 :: u32) :: u8) AND 0x7f = ucast (v AND 0x7f)"
  by (rule bit_eqI; auto simp: bit_simps bits_7F)+

lemma continued_bit: "(ucast ((v AND 0x7f) OR 128 :: u32) :: u8) AND 0x80 \<noteq> 0"
proof
  assume z: "(ucast ((v AND 0x7f) OR 128 :: u32) :: u8) AND 0x80 = 0"
  have "bit ((ucast ((v AND 0x7f) OR 128 :: u32) :: u8) AND 0x80) 7" by (simp add: bit_simps bits_7F)
  then show False unfolding z by simp
qed

lemma split_digit: "(v :: u32) = (v AND 0x7f) + push_bit 7 (drop_bit 7 v)"
proof -
  have "(v AND 0x7f) + push_bit 7 (drop_bit 7 v) = (v AND 0x7f) OR push_bit 7 (drop_bit 7 v)"
    by (rule disjunctive_add) (auto simp: bit_simps bits_7F)
  also have "\<dots> = v"
    by (rule bit_eqI) (auto simp: bit_simps bits_7F, metis le_add_diff_inverse not_le)
  finally show ?thesis by simp
qed

lemma id_bytes_length: "length (id_bytes v) = pc__msg_id_length v"
proof (induction v rule: id_bytes.induct)
  case (1 v)
  then show ?case
    by (subst id_bytes.simps, subst pc__msg_id_length.simps) (simp add: Let_def)
qed

lemma id_length_le: "unat v < 2 ^ (7 * Suc n) \<Longrightarrow> pc__msg_id_length v \<le> Suc n"
proof (induction n arbitrary: v)
  case 0
  then have "drop_bit 7 v = 0" by (simp add: drop_bit_eq_div unat_div unat_eq_0 [symmetric] del: unat_eq_0)
  then show ?case by (simp add: pc__msg_id_length.simps)
next
  case (Suc n)
  have "unat v < 2 ^ (7 * Suc n) * 2 ^ 7" using Suc.prems by (simp add: power_add)
  then have "unat v div 2 ^ 7 < 2 ^ (7 * Suc n)" by (rule less_mult_imp_div_less)
  then have "pc__msg_id_length (drop_bit 7 v) \<le> Suc n"
    by (intro Suc.IH) (simp add: drop_bit_eq_div unat_div)
  then show ?case by (simp add: pc__msg_id_length.simps [of v])
qed

lemma id_length_5: "pc__msg_id_length v \<le> 5"
proof -
  have "unat v < 2 ^ 32" using unsigned_less [of v] by simp
  also have "(2::nat) ^ 32 \<le> 2 ^ (7 * Suc 4)" by simp
  finally show ?thesis using id_length_le [of v 4] by simp
qed

lemma shift_fits:
  assumes "7 * i < 32"
  shows "int_fits (uint (b :: u8) * 2 ^ (7 * i)) \<longleftrightarrow> unat b < 2 ^ (31 - 7 * i)"
proof -
  have "(2::int) ^ 31 = 2 ^ (31 - 7 * i) * 2 ^ (7 * i)"
    using assms by (simp flip: power_add)
  then have "uint b * 2 ^ (7 * i) < 2 ^ 31 \<longleftrightarrow> uint b < 2 ^ (31 - 7 * i)"
    by (simp only: mult_less_cancel_right) simp
  also have "\<dots> \<longleftrightarrow> unat b < 2 ^ (31 - 7 * i)"
    using of_nat_less_iff [where 'a = int, of "unat b" "2 ^ (31 - 7 * i)"] by simp
  finally have "uint b * 2 ^ (7 * i) < 2 ^ 31 \<longleftrightarrow> unat b < 2 ^ (31 - 7 * i)" .
  moreover have "- (2 ^ 31) \<le> uint b * 2 ^ (7 * i)"
    by (rule order_trans [of _ 0]) simp_all
  ultimately show ?thesis
    unfolding int_fits_def by blast
qed

lemma unat_byte: "unat (ucast (b :: u8) :: u32) = unat b"
proof -
  have "unat b < 2 ^ 8" using unsigned_less [of b] by simp
  then show ?thesis by (simp add: unsigned_ucast_eq take_bit_nat_eq_self)
qed

text \<open>The bytes of an id are read back, unless the last of them is shifted into the sign bit.\<close>

lemma decode_id_bytes:
  "7 * i < 32 \<Longrightarrow> unat v < 2 ^ (32 - 7 * i) \<Longrightarrow>
    decode_id i acc (id_bytes v @ bs) =
      (if unat v < 2 ^ (31 - 7 * i) then Some (Some (acc + push_bit (7 * i) v, bs)) else None)"
proof (induction v arbitrary: i acc rule: id_bytes.induct)
  case (1 v)
  show ?case
  proof (cases "drop_bit 7 v = 0")
    case True
    then have v: "v AND 0x7f = v" using split_digit [of v] by simp
    have "unat ((ucast v :: u8) AND 0x7f) = unat v"
      using digit_bits(1,3) [of v] unat_byte [of "ucast v"] unfolding v by simp
    then show ?thesis
      using True 1(2) digit_bits [of v] v shift_fits [OF 1(2), of "(ucast v :: u8) AND 0x7f"]
      by (subst id_bytes.simps) (simp add: Let_def)
  next
    case False
    have d: "unat (drop_bit 7 v) = unat v div 2 ^ 7" by (simp add: drop_bit_eq_div unat_div)
    have i: "7 * Suc i < 32"
    proof (rule ccontr)
      assume "\<not> 7 * Suc i < 32"
      then have "(2::nat) ^ (32 - 7 * i) \<le> 2 ^ 7" by (intro power_increasing) auto
      with 1(3) d False show False by (simp add: unat_eq_0 [symmetric] del: unat_eq_0)
    qed
    then have "32 - 7 * i = (32 - 7 * Suc i) + 7" by simp
    with 1(3) have "unat v < 2 ^ (32 - 7 * Suc i) * 2 ^ 7" by (metis power_add)
    then have b: "unat (drop_bit 7 v) < 2 ^ (32 - 7 * Suc i)"
      unfolding d by (rule less_mult_imp_div_less)
    have "31 - 7 * i = (31 - 7 * Suc i) + 7" using i by simp
    then have "(2::nat) ^ (31 - 7 * i) = 2 ^ (31 - 7 * Suc i) * 2 ^ 7" by (simp only: power_add)
    then have range: "unat (drop_bit 7 v) < 2 ^ (31 - 7 * Suc i) \<longleftrightarrow> unat v < 2 ^ (31 - 7 * i)"
      unfolding d by (simp only: div_less_iff_less_mult zero_less_power zero_less_numeral)
    have "push_bit (7 * i) v = push_bit (7 * i) (v AND 0x7f) + push_bit (7 * i) (push_bit 7 (drop_bit 7 v))"
      by (subst split_digit [of v]) (simp only: push_bit_add)
    then have sum: "push_bit (7 * i) (v AND 0x7f) + push_bit (7 * Suc i) (drop_bit 7 v) = push_bit (7 * i) v"
      by (simp only: push_bit_push_bit) (simp add: add.commute)
    have "unat (ucast (v AND 0x7f) :: u8) < 2 ^ 8" using unsigned_less [of "ucast (v AND 0x7f) :: u8"] by simp
    also have "i \<le> 3" using i by simp
    then have "(2::nat) ^ 8 \<le> 2 ^ (31 - 7 * i)" by (intro power_increasing) auto
    finally have fits: "int_fits (uint (ucast (v AND 0x7f) :: u8) * 2 ^ (7 * i))"
      using shift_fits [OF 1(2)] by simp
    have "decode_id i acc (id_bytes v @ bs) =
        decode_id (Suc i) (acc + push_bit (7 * i) (v AND 0x7f)) (id_bytes (drop_bit 7 v) @ bs)"
      using False 1(2) fits digit_bits [of v] continued_bit [of v]
      by (subst id_bytes.simps) (simp add: Let_def continued del: id_bytes.simps)
    also have "\<dots> = (if unat v < 2 ^ (31 - 7 * i)
        then Some (Some (acc + push_bit (7 * i) (v AND 0x7f) + push_bit (7 * Suc i) (drop_bit 7 v), bs)) else None)"
      using 1(1) [OF refl refl False i b] by (simp only: range)
    finally show ?thesis by (simp only: add.assoc sum)
  qed
qed


section \<open>Raw messages\<close>

definition id_part :: "u8 \<Rightarrow> u32 \<Rightarrow> bytes" where
  "id_part ty rid = (if PC_MSG_HAS_ID ty then id_bytes rid else [])"

lemma has_id_route [simp]:
  "ty = PC_MSG_REQUEST \<or> ty = PC_MSG_NOTIFY \<Longrightarrow> PC_MSG_HAS_ROUTE ty"
  "PC_MSG_HAS_ID PC_MSG_REQUEST" "\<not> PC_MSG_HAS_ID PC_MSG_NOTIFY"
  by (auto simp: PC_MSG_HAS_ID_def PC_MSG_HAS_ROUTE_def)

lemma low_byte: "(ucast ((of_nat n :: u16) AND 0xff) :: u8) = of_nat n"
proof (rule bit_word_eqI)
  fix k assume k: "k < LENGTH(8)"
  have m: "(0xff :: u16) = mask 8" by (simp add: mask_eq_decr_exp)
  have "bit (ucast ((of_nat n :: u16) AND 0xff) :: u8) k = bit n k"
    unfolding m using k
    by (simp only: bit_ucast_iff bit_and_iff bit_mask_iff bit_of_nat_iff) (simp add: possible_bit_def)
  moreover have "bit (of_nat n :: u8) k = bit n k"
    using k by (simp only: bit_of_nat_iff) (simp add: possible_bit_def)
  ultimately show "bit (ucast ((of_nat n :: u16) AND 0xff) :: u8) k = bit (of_nat n :: u8) k" by simp
qed

lemma encode_route_bytes:
  assumes "ty = PC_MSG_REQUEST \<or> ty = PC_MSG_NOTIFY" and "length route < 2 ^ 16"
  shows "pc_msg_encode_route rid ty route body =
    Some ([push_bit 1 ty] @ id_part ty rid @ [of_nat (length route)] @ to_bytes route @ body)"
proof -
  have l: "unat (of_nat (length route) :: u16) = length route"
    using assms(2) by (simp add: unat_of_nat)
  note c = low_byte [of "length route"]
  obtain m where m: "length ([push_bit 1 ty] @ id_part ty rid @ [of_nat (length route) :: u8] @ to_bytes route @ body) = m"
    by blast
  have flag: "pc__msg_encode_flag ty False (replicate m 0) 0 = Some ([push_bit 1 ty] @ replicate (m - 1) 0, 1)"
    using put_at_fill [of 0 "[]" "[push_bit 1 ty]" m 0] m by (auto simp: pc__msg_encode_flag_def)
  have ids: "(if PC_MSG_HAS_ID ty then pc__msg_encode_id rid ([push_bit 1 ty] @ replicate (m - 1) 0) 1
      else Some ([push_bit 1 ty] @ replicate (m - 1) 0, 1)) =
      Some (([push_bit 1 ty] @ id_part ty rid) @ replicate (m - 1 - length (id_part ty rid)) 0, 1 + length (id_part ty rid))"
    using put_at_fill [of 1 "[push_bit 1 ty]" "id_part ty rid" "m - 1" 0] m
    by (auto simp: pc__msg_encode_id_def id_part_def)
  let ?p = "[push_bit 1 ty] @ id_part ty rid"
  let ?k = "m - 1 - length (id_part ty rid)"
  have rt: "pc__msg_encode_route (to_bytes route) (of_nat (length route)) (?p @ replicate ?k 0) (1 + length (id_part ty rid)) =
      Some ((?p @ [of_nat (length route)] @ to_bytes route) @ replicate (length body) 0,
        1 + length (id_part ty rid) + 1 + length route)"
  proof -
    have "put_at (?p @ replicate ?k 0) (1 + length (id_part ty rid)) [of_nat (length route) :: u8] =
        Some ((?p @ [of_nat (length route)]) @ replicate (?k - 1) 0)"
      using put_at_fill [of "1 + length (id_part ty rid)" ?p "[of_nat (length route) :: u8]" ?k 0] m by auto
    moreover have "put_at ((?p @ [of_nat (length route)]) @ replicate (?k - 1) 0) (1 + length (id_part ty rid) + 1) (to_bytes route) =
        Some ((?p @ [of_nat (length route)]) @ to_bytes route @ replicate (?k - 1 - length route) 0)"
      using put_at_fill [of "1 + length (id_part ty rid) + 1" "?p @ [of_nat (length route)]" "to_bytes route" "?k - 1" 0] m by auto
    moreover have "?k - 1 - length route = length body" using m by auto
    ultimately show ?thesis
      using get_at_all [of "to_bytes route"] by (simp add: pc__msg_encode_route_def l c)
  qed
  have bd: "put_at ((?p @ [of_nat (length route)] @ to_bytes route) @ replicate (length body) 0)
      (1 + length (id_part ty rid) + 1 + length route) body = Some ((?p @ [of_nat (length route)] @ to_bytes route) @ body)"
    using put_at_fill [of "1 + length (id_part ty rid) + 1 + length route" "?p @ [of_nat (length route)] @ to_bytes route" body "length body" 0]
    by simp
  have len: "PC_MSG_FLAG_BYTES + (if PC_MSG_HAS_ID ty then pc__msg_id_length rid else 0) + PC_MSG_ROUTE_LEN_BYTES +
      unat (of_nat (length route) :: u16) + length body = m"
    using m by (auto simp: l id_part_def id_bytes_length)
  have hr: "PC_MSG_HAS_ROUTE ty" using assms(1) by simp
  show ?thesis
    by (simp only: pc_msg_encode_route_def Let_def hr if_True len flag ids rt bd Option.bind.bind_lunit prod.case)
      simp
qed


lemma encode_code_bytes:
  assumes "ty = PC_MSG_REQUEST \<or> ty = PC_MSG_NOTIFY"
  shows "pc_msg_encode_code rid ty rc body =
    Some ([push_bit 1 ty OR 1] @ id_part ty rid @ [of_int (drop_bit 8 rc), of_int rc] @ body)"
proof -
  let ?f = "push_bit 1 ty OR 1 :: u8"
  let ?c = "[of_int (drop_bit 8 rc), of_int rc] :: bytes"
  obtain m where m: "length ([?f] @ id_part ty rid @ ?c @ body) = m" by blast
  have flag: "pc__msg_encode_flag ty True (replicate m 0) 0 = Some ([?f] @ replicate (m - 1) 0, 1)"
    using put_at_fill [of 0 "[]" "[?f]" m 0] m by (auto simp: pc__msg_encode_flag_def)
  have ids: "(if PC_MSG_HAS_ID ty then pc__msg_encode_id rid ([?f] @ replicate (m - 1) 0) 1
      else Some ([?f] @ replicate (m - 1) 0, 1)) =
      Some (([?f] @ id_part ty rid) @ replicate (m - 1 - length (id_part ty rid)) 0, 1 + length (id_part ty rid))"
    using put_at_fill [of 1 "[?f]" "id_part ty rid" "m - 1" 0] m
    by (auto simp: pc__msg_encode_id_def id_part_def)
  let ?p = "[?f] @ id_part ty rid"
  let ?k = "m - 1 - length (id_part ty rid)"
  have k: "?k = length body + 2" using m by auto
  have rt: "put_at (?p @ replicate ?k 0) (1 + length (id_part ty rid)) ?c = Some ((?p @ ?c) @ replicate (length body) 0)"
    unfolding k using put_at_fill [of "1 + length (id_part ty rid)" ?p ?c "length body + 2" 0] by simp
  have bd: "put_at ((?p @ ?c) @ replicate (length body) 0) (1 + length (id_part ty rid) + 2) body = Some ((?p @ ?c) @ body)"
    using put_at_fill [of "1 + length (id_part ty rid) + 2" "?p @ ?c" body "length body" 0] by simp
  have len: "PC_MSG_FLAG_BYTES + (if PC_MSG_HAS_ID ty then pc__msg_id_length rid else 0) + PC_MSG_ROUTE_CODE_BYTES + length body = m"
    using m by (auto simp: id_part_def id_bytes_length)
  have hr: "PC_MSG_HAS_ROUTE ty" using assms by simp
  show ?thesis
    by (simp only: pc_msg_encode_code_def Let_def hr if_True len flag ids rt bd Option.bind.bind_lunit prod.case)
      simp
qed

text \<open>Decoding: the id that comes out is that of the message, or that of all notifies.\<close>

definition seen_id :: "u8 \<Rightarrow> u32 \<Rightarrow> u32" where
  "seen_id ty rid = (if PC_MSG_HAS_ID ty then rid else PC_NOTIFY_PUSH_REQ_ID)"

text \<open>The ids that the decoder can shift into place.\<close>

definition id_fits :: "u8 \<Rightarrow> u32 \<Rightarrow> bool" where
  "id_fits ty rid \<longleftrightarrow> PC_MSG_HAS_ID ty \<longrightarrow> unat rid < 2 ^ 31"

lemma decode_id_part:
  "(if PC_MSG_HAS_ID ty then decode_id 0 0 (id_part ty rid @ bs) else Some (Some (PC_NOTIFY_PUSH_REQ_ID, id_part ty rid @ bs))) =
    (if id_fits ty rid then Some (Some (seen_id ty rid, bs)) else None)"
proof -
  have "unat rid < 2 ^ 32" using unsigned_less [of rid] by simp
  then show ?thesis using decode_id_bytes [of 0 rid 0 bs] by (auto simp: id_part_def seen_id_def id_fits_def)
qed

lemma id_fits_valid: "id_fits ty rid \<Longrightarrow> seen_id ty rid \<noteq> PC_INVALID_REQ_ID"
  by (auto simp: id_fits_def seen_id_def unsigned_minus_1_eq_mask mask_eq_exp_minus_1)

lemma decode_route_text:
  assumes "length route \<le> 127" "length bs = Suc (length route + length body)" "length bs < len" "len < 2 ^ 63"
    and "bs = of_nat (length route) # to_bytes route @ body"
  shows "decode_route len False bs = Some (Some (Route_str (Some (to_bytes route)), body))"
proof -
  let ?n = "length route"
  have sc: "(scast (of_nat ?n :: u8) :: u64) = of_nat ?n"
  proof -
    have "sint (of_nat ?n :: u8) = int ?n"
      using assms(1) by (simp add: sint_uint uint_nat unat_of_nat signed_take_bit_int_eq_self)
    then show ?thesis by (metis of_int_of_nat_eq of_int_sint)
  qed
  define off where "off = len - (length route + length body)"
  have off: "1 \<le> off" "off + ?n - 1 < len" "off + ?n + length body = len" using assms(2,3) by (auto simp: off_def)
  have "(of_nat off :: u64) + of_nat ?n - 1 = of_nat (off + ?n - 1)"
    using off(1) by (simp add: of_nat_diff)
  moreover have "(of_nat (off + ?n - 1) :: u64) < of_nat len"
    using off(2) assms(4) by (simp add: word_less_nat_alt unat_of_nat)
  moreover have "unat (of_nat ?n :: u64) = ?n" using assms(1) by (simp add: unat_of_nat)
  ultimately show ?thesis
    unfolding assms(5) by (simp add: decode_route_def sc Let_def flip: off_def)
qed


lemma decode_route_code:
  assumes "0 < rc" "rc < 65536"
  shows "decode_route len True ([of_int (drop_bit 8 rc), of_int rc] @ body) = Some (Some (Route_code (of_int rc), body))"
proof -
  have "push_bit 8 (ucast (of_int (drop_bit 8 rc) :: u8)) OR ucast (of_int rc :: u8) = (of_int rc :: u16)"
  proof (rule bit_word_eqI)
    fix k assume k: "k < LENGTH(16)"
    have "8 + (k - 8) = k" if "8 \<le> k" using that by simp
    with k show "bit (push_bit 8 (ucast (of_int (drop_bit 8 rc) :: u8)) OR ucast (of_int rc :: u8) :: u16) k = bit (of_int rc :: u16) k"
      by (cases "8 \<le> k") (auto simp: bit_simps)
  qed
  then show ?thesis by (simp add: decode_route_def)
qed

lemma flag_bits:
  "ty = PC_MSG_REQUEST \<or> ty = PC_MSG_NOTIFY \<Longrightarrow>
    drop_bit 1 (push_bit 1 ty) = ty \<and> push_bit 1 ty AND 1 = 0 \<and>
    drop_bit 1 (push_bit 1 ty OR 1) = ty \<and> (push_bit 1 ty OR 1) AND 1 \<noteq> 0 \<and> PC_IS_VALID_TYPE ty"
  by (auto simp: PC_IS_VALID_TYPE_def)

lemma raw_text_roundtrip:
  assumes "ty = PC_MSG_REQUEST \<or> ty = PC_MSG_NOTIFY" "length route \<le> 127" "length body < 2 ^ 62"
  shows "\<exists>bs. pc_msg_encode_route rid ty route body = Some bs \<and>
    pc_msg_decode_to_raw bs = (if id_fits ty rid then Some (Some \<lparr>raw_id = seen_id ty rid, raw_type = ty,
      is_route_compressed = False, raw_route = Route_str (Some (to_bytes route)), raw_body = body\<rparr>) else None)"
proof -
  let ?t = "of_nat (length route) # to_bytes route @ body"
  let ?bs = "push_bit 1 ty # id_part ty rid @ ?t"
  have il: "length (id_part ty rid) \<le> 5"
    using id_length_5 [of rid] by (simp add: id_part_def id_bytes_length)
  have "pc_msg_encode_route rid ty route body = Some ?bs"
    using assms(1,2) encode_route_bytes [of ty route rid body] by simp
  moreover have "decode_route (length ?bs) False ?t = Some (Some (Route_str (Some (to_bytes route)), body))"
    using assms(2,3) il by (intro decode_route_text) auto
  moreover have hr: "PC_MSG_HAS_ROUTE ty" using assms(1) by simp
  ultimately show ?thesis
    using flag_bits [OF assms(1)] decode_id_part [of ty rid ?t] id_fits_valid [of ty rid]
    by (cases "id_fits ty rid"; intro exI [of _ ?bs] conjI) (simp_all only: pc_msg_decode_to_raw_def list.case Let_def not_True_eq_False
        if_False if_True and_then_simps prod.case bind_assert_c not_False_eq_True simp_thms)
qed

lemma raw_code_roundtrip:
  assumes "ty = PC_MSG_REQUEST \<or> ty = PC_MSG_NOTIFY" "0 < rc" "rc < 65536"
  shows "\<exists>bs. pc_msg_encode_code rid ty rc body = Some bs \<and>
    pc_msg_decode_to_raw bs = (if id_fits ty rid then Some (Some \<lparr>raw_id = seen_id ty rid, raw_type = ty,
      is_route_compressed = True, raw_route = Route_code (of_int rc), raw_body = body\<rparr>) else None)"
proof -
  let ?t = "[of_int (drop_bit 8 rc), of_int rc] @ body"
  let ?bs = "(push_bit 1 ty OR 1) # id_part ty rid @ ?t"
  have "pc_msg_encode_code rid ty rc body = Some ?bs"
    using encode_code_bytes [OF assms(1)] by simp
  moreover have "decode_route (length ?bs) True ?t = Some (Some (Route_code (of_int rc), body))"
    using assms(2,3) by (rule decode_route_code)
  moreover have hr: "PC_MSG_HAS_ROUTE ty" using assms(1) by simp
  ultimately show ?thesis
    using flag_bits [OF assms(1)] decode_id_part [of ty rid ?t] id_fits_valid [of ty rid]
    by (cases "id_fits ty rid"; intro exI [of _ ?bs] conjI) (simp_all only: pc_msg_decode_to_raw_def list.case Let_def not_True_eq_False
        if_False if_True and_then_simps prod.case bind_assert_c not_False_eq_True simp_thms)
qed


section \<open>Messages\<close>

text \<open>
  The two dictionaries agree on a route: it has a 16-bit code that the other side resolves to
  it, or no code and a length that fits the length byte.
\<close>

definition dict_ok :: "pc_JSON option \<Rightarrow> pc_JSON option \<Rightarrow> string \<Rightarrow> bool" where
  "dict_ok route2code code2route route \<longleftrightarrow>
     (case find_route_code route2code route of
        None \<Rightarrow> False
      | Some rc \<Rightarrow>
          if rc > 0
          then rc < 65536 \<and>
            (case code2route of None \<Rightarrow> False
             | Some d \<Rightarrow> (case pc_JSON_GetObjectItem d (sprintf_d rc) of
                 Some (Some it) \<Rightarrow> jtype it = pc_JSON_String \<and> valuestring it = Some route | _ \<Rightarrow> False))
          else length route \<le> 127 \<and> nul \<notin> set route)"

lemma printed_container:
  assumes "printable it" "jstring it = None" "jtype it = pc_JSON_Array \<or> jtype it = pc_JSON_Object"
    "pc_JSON_PrintUnformatted it = Some (Some s)"
  shows "pc_JSON_ParseWithOpts (s @ rest) False = Some (Inr (it, rest))" and "s \<noteq> []"
proof -
  have d: "delimits (Suc (length (s @ rest))) s it"
    using print_delimits [OF assms(1) _ assms(3)] assms(4) by (simp add: pc_JSON_PrintUnformatted_def)
  then show "pc_JSON_ParseWithOpts (s @ rest) False = Some (Inr (it, rest))"
    using assms(2) by (simp add: pc_JSON_ParseWithOpts_def delimits_def value_start_skip pc_JSON_New_Item_def)
  show "s \<noteq> []" using d by (auto simp: delimits_def value_start_def)
qed

text \<open>
  C11. A request or notify survives the wire. Let the text to send parse to an array or object \<open>it\<close> that is
  printable: every number in it is an integer in the range of \<open>int\<close>, every name and string without a
  NUL. Then the encoder succeeds, writes inside its buffers, and the decoder of a peer whose dictionary agrees
  and that has no protocol buffer definition for the route gives back the id, the route and
  the unformatted print of \<open>it\<close>, also when the route travels as a code; white space of the text is lost.
  The route must be shorter than 128 bytes to travel as text, because its length byte is read as a signed character. A
  request id of \<open>2 ^ 31\<close> or more makes the decoder shift into the sign bit of an \<open>int\<close>, which is undefined.
\<close>

theorem msg_roundtrip:
  assumes "msg_route m = Some route" and "msg_text m = Some sent"
    and "dict_ok route2code code2route route"
    and "find_proto client_protos route = Some None" and "find_proto server_protos route = Some None"
    and "pc_JSON_ParseWithOpts (sent @ [nul]) True = Some (Inr (it, end))"
    and "printable it" and "jtype it = pc_JSON_Array \<or> jtype it = pc_JSON_Object"
    and "\<And>s. pc_JSON_PrintUnformatted it = Some (Some s) \<Longrightarrow> length s < 2 ^ 62"
  shows "\<exists>bs s. pc_JSON_PrintUnformatted it = Some (Some s) \<and>
    pc_default_msg_encode route2code client_protos m = Some (Some bs) \<and>
    pc_default_msg_decode code2route server_protos bs =
      (if unat (msg_id m) < 2 ^ 31
       then Some (\<lparr>msg_id = msg_id m, msg_route = Some route, msg_text = Some s\<rparr>) else None)"
proof -
  define ty where "ty = (if msg_id m = PC_NOTIFY_PUSH_REQ_ID then PC_MSG_NOTIFY else PC_MSG_REQUEST)"
  have ty: "ty = PC_MSG_REQUEST \<or> ty = PC_MSG_NOTIFY" by (simp add: ty_def)
  have rid: "seen_id ty (msg_id m) = msg_id m" "id_fits ty (msg_id m) \<longleftrightarrow> unat (msg_id m) < 2 ^ 31"
    by (auto simp: seen_id_def ty_def PC_MSG_HAS_ID_def id_fits_def)
  obtain rc where rc: "find_route_code route2code route = Some rc"
    using assms(3) by (auto simp: dict_ok_def split: option.splits)
  obtain s where s: "pc_JSON_PrintUnformatted it = Some (Some s)"
    using print_total [OF assms(7) le_refl] by (auto simp: pc_JSON_PrintUnformatted_def)
  have "jstring it = None"
    using assms(6) typesD [OF parse_value_types]
    by (auto simp: pc_JSON_ParseWithOpts_def pc_JSON_New_Item_def split: bind_splits sum.splits if_splits)
  note parsed = printed_container [OF assms(7) this assms(8) s]
  have body: "encode_body client_protos route it = Some (Some (to_bytes s))"
    using assms(4) s by (simp add: encode_body_def pc_body_json_encode_def)
  have body_back: "decode_body server_protos (Some route) (to_bytes s) = Some (Some it)"
    using assms(5) parsed(1) [of "[]"] by (simp add: decode_body_def pc_body_json_decode_def)
  have ne: "to_bytes s \<noteq> []" using parsed(2) by (simp add: to_bytes_def)
  have enc: "pc_default_msg_encode route2code client_protos m = map_option Some
      (if rc > 0 then pc_msg_encode_code (msg_id m) ty rc (to_bytes s)
       else pc_msg_encode_route (msg_id m) ty route (to_bytes s))"
    using assms(1,2,6) body rc by (simp add: pc_default_msg_encode_def ty_def Let_def)
  have dec: "pc_default_msg_decode code2route server_protos bs =
      (if unat (msg_id m) < 2 ^ 31
       then Some (\<lparr>msg_id = msg_id m, msg_route = Some route, msg_text = Some s\<rparr>) else None)"
    if "pc_msg_decode_to_raw bs = (if id_fits ty (msg_id m) then Some (Some raw) else None)" "raw_id raw = msg_id m"
      "raw_type raw = ty" "raw_body raw = to_bytes s" "decode_msg_route code2route raw = Some (Some route)" for bs raw
    using that body_back ne s rid(2) by (simp add: pc_default_msg_decode_def Let_def)
  show ?thesis
  proof (cases "rc > 0")
    case True
    then have rc_ok: "rc < 65536" and lookup: "pc__resolve_dictionary code2route (of_int rc) = Some (Some route)"
      using assms(3) rc
      by (auto simp: dict_ok_def pc__resolve_dictionary_def unsigned_of_int take_bit_int_eq_self split: option.splits)
    obtain bs where bs: "pc_msg_encode_code (msg_id m) ty rc (to_bytes s) = Some bs"
      "pc_msg_decode_to_raw bs = (if id_fits ty (msg_id m) then Some (Some \<lparr>raw_id = seen_id ty (msg_id m), raw_type = ty,
        is_route_compressed = True, raw_route = Route_code (of_int rc), raw_body = to_bytes s\<rparr>) else None)"
      using raw_code_roundtrip [OF ty True rc_ok] by blast
    have "decode_msg_route code2route \<lparr>raw_id = seen_id ty (msg_id m), raw_type = ty, is_route_compressed = True,
        raw_route = Route_code (of_int rc), raw_body = to_bytes s\<rparr> = Some (Some route)"
      using lookup ty by (simp add: decode_msg_route_def)
    from dec [OF bs(2) _ _ _ this] show ?thesis
      using enc True bs(1) rid(1) s by (intro exI [of _ bs] exI [of _ s]) simp
  next
    case False
    then have len: "length route \<le> 127" and str: "nul \<notin> set route"
      using assms(3) rc by (simp_all add: dict_ok_def)
    obtain bs where bs: "pc_msg_encode_route (msg_id m) ty route (to_bytes s) = Some bs"
      "pc_msg_decode_to_raw bs = (if id_fits ty (msg_id m) then Some (Some \<lparr>raw_id = seen_id ty (msg_id m), raw_type = ty,
        is_route_compressed = False, raw_route = Route_str (Some (to_bytes route)), raw_body = to_bytes s\<rparr>) else None)"
      using raw_text_roundtrip [OF ty len, of "to_bytes s"] assms(9) [OF s] by (metis length_to_bytes)
    have "c_str route = route" using str by (auto simp: c_str_def takeWhile_eq_all_conv)
    then have "decode_msg_route code2route \<lparr>raw_id = seen_id ty (msg_id m), raw_type = ty, is_route_compressed = False,
        raw_route = Route_str (Some (to_bytes route)), raw_body = to_bytes s\<rparr> = Some (Some route)"
      using ty by (simp add: decode_msg_route_def)
    from dec [OF bs(2) _ _ _ this] show ?thesis
      using enc False bs(1) rid(1) s by (intro exI [of _ bs] exI [of _ s]) simp
  qed
qed

theorem msg_roundtrip_witness:
  "let txt = butlast (json_text ''{~name~: ~test~}''); back = butlast (json_text ''{~name~:~test~}'') in
    \<exists>bs bs'. pc_default_msg_encode None None \<lparr>msg_id = 300, msg_route = Some ''a.b'', msg_text = Some txt\<rparr> = Some (Some bs) \<and>
    pc_default_msg_decode None None bs = Some \<lparr>msg_id = 300, msg_route = Some ''a.b'', msg_text = Some back\<rparr> \<and>
    pc_default_msg_encode None None \<lparr>msg_id = 0x80000000, msg_route = Some ''a.b'', msg_text = Some txt\<rparr> = Some (Some bs') \<and>
    pc_default_msg_decode None None bs' = None"
proof -
  let ?txt = "butlast (json_text ''{~name~: ~test~}'')"
  let ?it = "Item 6 None 0 0 None [Item 4 (Some ''test'') 0 0 (Some ''name'') []]"
  have it: "pc_JSON_ParseWithOpts (?txt @ [nul]) True = Some (Inr (?it, [nul]))"
    by code_simp
  have print: "pc_JSON_PrintUnformatted ?it = Some (Some (butlast (json_text ''{~name~:~test~}'')))"
    by code_simp
  have ok: "printable ?it" "jtype ?it = pc_JSON_Object" "find_proto None ''a.b'' = Some None"
    "dict_ok None None ''a.b''"
    by (simp_all add: find_proto_def dict_ok_def find_route_code_def is_name_def)
  have short: "length s < 2 ^ 62" if "pc_JSON_PrintUnformatted ?it = Some (Some s)" for s
    using that unfolding print by (auto simp: json_text_def)
  note out = msg_roundtrip [where sent = "?txt" and it = "?it" and route = "''a.b''" and route2code = None
      and code2route = None and client_protos = None and server_protos = None, OF _ _ ok(4,3,3) it ok(1) disjI2 [OF ok(2)] short]
  show ?thesis
    unfolding Let_def
    using out [of "\<lparr>msg_id = 300, msg_route = Some ''a.b'', msg_text = Some ?txt\<rparr>"]
      out [of "\<lparr>msg_id = 0x80000000, msg_route = Some ''a.b'', msg_text = Some ?txt\<rparr>"] print
    by auto
qed

end
