(* ===== verification/Tcp.thy ===== *)
theory Tcp
  imports Api Pkg Msg "HOL-Library.Signed_Division"
begin

text \<open>
  The TCP transport: \<open>src/tr/uv/tr_uv_tcp_i.c\<close> and \<open>tr_uv_tcp_aux.c\<close>. The transport is the state
  \<open>'t\<close> of the client that \<open>Client\<close> leaves open; its operations and the callbacks that the event
  loop runs are transformers of the client, so a callback of the user may call the entry
  points, which change the transport again.

  libuv is vendored code. Of it the state has what the transport reads back: which timers run
  and when they are due (\<open>uv_timer_start\<close> with its clamping), which async handles are signalled,
  whether the socket is closing or being read. What libuv, the system and the storage callback
  of the user answer in a step is the record \<open>uv_env\<close>. The calls that only reach the outside
  (\<open>uv_tcp_keepalive\<close>, \<open>uv_loop_close\<close>, logging) have no counterpart.

  The transport's functions call each other through the fields \<open>reset_fn\<close> and \<open>reconn_fn\<close>,
  which the TLS transport overrides; they are the argument \<open>K\<close> here.
\<close>

section \<open>libuv\<close>

datatype uv_timer = conn_timeout_timer | reconn_delay_timer | handshake_timer | check_timeout
  | hb_timer | hb_timeout_timer

datatype uv_async = conn_async | write_async | disconnect_async | cleanup_async

datatype addr_family = AF_INET | AF_INET6 | AF_OTHER

text \<open>
  \<open>ls_read_len\<close> and \<open>ls_read_data\<close> are the two calls of the storage callback that read:
  return code with the length, return code with the data.
\<close>

record uv_env =
  loop_time :: nat
  time_now :: int
  rand_value :: nat
  uv_loop_init_rc :: int
  getaddrinfo :: "string \<Rightarrow> addr_family list option"
  uv_tcp_connect_rc :: int
  uv_read_start_rc :: int
  uv_write_rc :: int
  in_loop_thread :: bool
  uv_thread_join_rc :: int
  ls_read_len :: "int \<times> nat"
  ls_read_data :: "int \<times> string"
  ls_write_rc :: int
  lib_platform :: string

definition UV_ECANCELED :: int where [simp]: "UV_ECANCELED = -125"

text \<open>A buffer of libuv: \<open>size_t\<close> has 64 bits.\<close>

record uv_buf =
  buf_base :: "bytes option"
  buf_len :: u64

text \<open>What \<open>pc_pkg_encode\<close> and the message encoder return: a failure is NULL with length -1.\<close>

definition uv_buf_of :: "bytes option \<Rightarrow> uv_buf" where
  "uv_buf_of b = (case b of None \<Rightarrow> \<lparr>buf_base = None, buf_len = - 1\<rparr>
     | Some bs \<Rightarrow> \<lparr>buf_base = Some bs, buf_len = of_nat (length bs)\<rparr>)"

text \<open>The comparison of a length with \<open>(unsigned int)-1\<close>, a value of 32 bits.\<close>

definition is_failed_buf :: "uv_buf \<Rightarrow> bool" where
  "is_failed_buf b \<longleftrightarrow> buf_len b = 0xFFFFFFFF"

section \<open>The state\<close>

record tr_uv_wi =
  wi_type :: u32
  wi_buf :: uv_buf
  wi_seq_num :: u32
  wi_req_id :: u32
  wi_ts :: int
  wi_timeout :: int

datatype tr_uv_tcp_state = TR_UV_TCP_NOT_CONN | TR_UV_TCP_CONNECTING | TR_UV_TCP_HANDSHAKEING | TR_UV_TCP_DONE

datatype wi_queue = conn_pending_queue | write_wait_queue | writing_queue | resp_pending_queue

definition TR_UV_PRE_ALLOC_WI_SLOT_COUNT :: nat where
  "TR_UV_PRE_ALLOC_WI_SLOT_COUNT = PC_PRE_ALLOC_NOTIFY_SLOT_COUNT + PC_PRE_ALLOC_REQUEST_SLOT_COUNT + 1"

text \<open>
  \<open>written\<close> and \<open>ls_written\<close> are history variables: the buffers given to \<open>uv_write\<close> and the
  texts given to the storage callback. \<open>wq_mutex\<close> counts how often the running thread holds the
  (recursive) mutex.
\<close>

record tr_uv_tcp =
  tt_state :: tr_uv_tcp_state
  timer_active :: "uv_timer \<Rightarrow> bool"
  timer_due :: "uv_timer \<Rightarrow> u64"
  signalled :: "uv_async \<Rightarrow> bool"
  sock_closing :: bool
  sock_reading :: bool
  reconn_times :: int
  is_connecting :: bool
  max_reconn_incr :: int
  tt_host :: "string option"
  tt_port :: int
  handshake_opts :: "pc_JSON option"
  wq_mutex :: nat
  wi_queues :: "wi_queue \<Rightarrow> ref list"
  pre_wis :: "tr_uv_wi pool"
  is_writing :: bool
  hb_interval :: int
  hb_timeout :: int
  is_waiting_hb :: bool
  hb_rtt :: int
  pkg_parser :: pc_pkg_parser
  route_to_code :: "pc_JSON option"
  code_to_route :: "pc_JSON option"
  dict_ver :: "pc_JSON option"
  server_protos :: "pc_JSON option"
  client_protos :: "pc_JSON option"
  proto_ver :: "pc_JSON option"
  written :: "uv_buf list"
  ls_written :: "string list"

type_synonym 'z tt_client = "'z tr_uv_tcp_scheme pc_client"
type_synonym 'z tt_op = "'z tt_client \<Rightarrow> 'z tt_client option"

record 'z tt_hooks =
  reset_fn :: "'z tt_op"
  reconn_fn :: "uv_env \<Rightarrow> 'z tt_op"

definition with_tt :: "('z tr_uv_tcp_scheme \<Rightarrow> 'z tr_uv_tcp_scheme) \<Rightarrow> 'z tt_op" where
  "with_tt f c = map_option (\<lambda>tt. c\<lparr>tran := Some (f tt)\<rparr>) (tran c)"

text \<open>The conversion to \<open>int\<close>.\<close>

definition to_int :: "u64 \<Rightarrow> int" where
  "to_int x = sint (ucast x :: u32)"

definition uv_timer_start :: "uv_env \<Rightarrow> uv_timer \<Rightarrow> u64 \<Rightarrow> 'z tr_uv_tcp_scheme \<Rightarrow> 'z tr_uv_tcp_scheme" where
  "uv_timer_start E t tmo tt =
     (let clamped = of_nat (loop_time E) + tmo
      in tt\<lparr>timer_active := (timer_active tt)(t := True),
            timer_due := (timer_due tt)(t := (if clamped < tmo then - 1 else clamped))\<rparr>)"

definition uv_timer_stop :: "uv_timer \<Rightarrow> 'z tr_uv_tcp_scheme \<Rightarrow> 'z tr_uv_tcp_scheme" where
  "uv_timer_stop t tt = tt\<lparr>timer_active := (timer_active tt)(t := False)\<rparr>"

definition uv_async_send :: "uv_async \<Rightarrow> 'z tr_uv_tcp_scheme \<Rightarrow> 'z tr_uv_tcp_scheme" where
  "uv_async_send a tt = tt\<lparr>signalled := (signalled tt)(a := True)\<rparr>"

text \<open>Starting a timer with a time in seconds.\<close>

definition start_secs :: "uv_env \<Rightarrow> uv_timer \<Rightarrow> int \<Rightarrow> 'z tt_op" where
  "start_secs E t s c = do { ms \<leftarrow> int_mult s 1000; with_tt (uv_timer_start E t (of_int ms)) c }"

definition tt_lock :: "'z tt_op" where
  "tt_lock = with_tt (\<lambda>tt. tt\<lparr>wq_mutex := Suc (wq_mutex tt)\<rparr>)"

definition tt_unlock :: "'z tt_op" where
  "tt_unlock c = do { tt \<leftarrow> tran c; assert_c (wq_mutex tt > 0); with_tt (\<lambda>tt. tt\<lparr>wq_mutex := wq_mutex tt - 1\<rparr>) c }"

section \<open>Write items\<close>

definition wi_upd :: "(u32 \<Rightarrow> u32) \<Rightarrow> tr_uv_wi \<Rightarrow> tr_uv_wi" where
  "wi_upd f w = w\<lparr>wi_type := f (wi_type w)\<rparr>"

definition zero_wi :: tr_uv_wi where
  "zero_wi = \<lparr>wi_type = 0, wi_buf = \<lparr>buf_base = None, buf_len = 0\<rparr>, wi_seq_num = 0, wi_req_id = 0,
     wi_ts = 0, wi_timeout = 0\<rparr>"

definition dyn_wi :: tr_uv_wi where
  "dyn_wi = wi_upd (\<lambda>_. PC_DYN_ALLOC) zero_wi"

interpretation wi_pool: slot_pool wi_type wi_upd dyn_wi
  by unfold_locales (simp_all add: wi_upd_def dyn_wi_def zero_wi_def flag_defs)

definition set_queue :: "wi_queue \<Rightarrow> ref list \<Rightarrow> 'z tr_uv_tcp_scheme \<Rightarrow> 'z tr_uv_tcp_scheme" where
  "set_queue q rs tt = tt\<lparr>wi_queues := (wi_queues tt)(q := rs)\<rparr>"

definition get_wi :: "ref \<Rightarrow> 'z tt_client \<Rightarrow> tr_uv_wi option" where
  "get_wi r c = do { tt \<leftarrow> tran c; pool_get (pre_wis tt) r }"

definition put_wi :: "ref \<Rightarrow> (tr_uv_wi \<Rightarrow> tr_uv_wi) \<Rightarrow> 'z tt_op" where
  "put_wi r f c = do { tt \<leftarrow> tran c; p \<leftarrow> pool_upd r f (pre_wis tt); with_tt (\<lambda>tt. tt\<lparr>pre_wis := p\<rparr>) c }"

definition alloc_wi :: "'z tt_client \<Rightarrow> (ref \<times> 'z tt_client) option" where
  "alloc_wi c =
     do { tt \<leftarrow> tran c;
          let (r, p) = pool_alloc wi_type wi_upd dyn_wi (pre_wis tt);
          c1 \<leftarrow> with_tt (\<lambda>tt. tt\<lparr>pre_wis := p\<rparr>) c;
          Some (r, c1) }"

definition free_wi_buf :: "ref \<Rightarrow> 'z tt_op" where
  "free_wi_buf r = put_wi r (\<lambda>w. w\<lparr>wi_buf := \<lparr>buf_base = None, buf_len = 0\<rparr>\<rparr>)"

definition release_wi :: "ref \<Rightarrow> 'z tt_op" where
  "release_wi r c =
     do { tt \<leftarrow> tran c; p \<leftarrow> pool_release wi_type wi_upd r (pre_wis tt); with_tt (\<lambda>tt. tt\<lparr>pre_wis := p\<rparr>) c }"

text \<open>\<open>QUEUE_HEAD\<close>, \<open>QUEUE_REMOVE\<close>, \<open>QUEUE_INIT\<close>: the loops below run until the queue is empty.\<close>

definition pop_wi :: "wi_queue \<Rightarrow> 'z tt_client \<Rightarrow> (ref \<times> 'z tt_client) option option" where
  "pop_wi q c =
     do { tt \<leftarrow> tran c;
          case wi_queues tt q of
            [] \<Rightarrow> Some None
          | r # rs \<Rightarrow> do { c1 \<leftarrow> with_tt (set_queue q rs) c; Some (Some (r, c1)) } }"

definition push_wi :: "wi_queue \<Rightarrow> ref \<Rightarrow> 'z tr_uv_tcp_scheme \<Rightarrow> 'z tr_uv_tcp_scheme" where
  "push_wi q r tt = set_queue q (wi_queues tt q @ [r]) tt"

definition move_queue :: "wi_queue \<Rightarrow> wi_queue \<Rightarrow> 'z tr_uv_tcp_scheme \<Rightarrow> 'z tr_uv_tcp_scheme" where
  "move_queue from_q to_q tt = set_queue from_q [] (set_queue to_q (wi_queues tt to_q @ wi_queues tt from_q) tt)"

section \<open>Reset and reconnection\<close>

definition tcp__reset_wi :: "'z tr_uv_tcp_scheme user \<Rightarrow> ref \<Rightarrow> 'z tt_op" where
  "tcp__reset_wi U r c =
     do { wi \<leftarrow> get_wi r c;
          c1 \<leftarrow> (if TR_UV_WI_IS_RESP (wi_type wi) then pc_trans_resp U (wi_req_id wi) PC_RC_RESET None c
                else if TR_UV_WI_IS_NOTIFY (wi_type wi) then pc_trans_sent U (wi_seq_num wi) PC_RC_RESET c
                else Some c);
          c2 \<leftarrow> free_wi_buf r c1;
          release_wi r c2 }"

partial_function (option) reset_queue :: "'z tr_uv_tcp_scheme user \<Rightarrow> wi_queue \<Rightarrow> 'z tt_op" where
  "reset_queue U q c =
     do { p \<leftarrow> pop_wi q c;
          case p of None \<Rightarrow> Some c
          | Some (r, c1) \<Rightarrow> do { c2 \<leftarrow> tcp__reset_wi U r c1; reset_queue U q c2 } }"

declare reset_queue.simps [code]

text \<open>Everything before the write items are given back.\<close>

definition reset_fields :: "pc_state \<Rightarrow> 'z tr_uv_tcp_scheme \<Rightarrow> 'z tr_uv_tcp_scheme" where
  "reset_fields st tt =
     (let tt1 = tt\<lparr>tt_state := TR_UV_TCP_NOT_CONN, pkg_parser := pc_pkg_parser_reset (pkg_parser tt)\<rparr>;
          tt2 = fold uv_timer_stop [hb_timeout_timer, hb_timer, check_timeout, reconn_delay_timer,
                                    conn_timeout_timer] tt1;
          tt3 = tt2\<lparr>is_waiting_hb := False, hb_rtt := - 1, sock_reading := False\<rparr>
      in if st \<noteq> PC_ST_INITED \<and> \<not> sock_closing tt3 then tt3\<lparr>sock_closing := True\<rparr> else tt3)"

definition tcp__reset :: "'z tr_uv_tcp_scheme user \<Rightarrow> 'z tt_op" where
  "tcp__reset U c =
     do { c1 \<leftarrow> with_tt (reset_fields (state c)) c;
          c2 \<leftarrow> tt_lock c1;
          c3 \<leftarrow> with_tt (move_queue conn_pending_queue writing_queue) c2;
          c4 \<leftarrow> with_tt (move_queue write_wait_queue writing_queue) c3;
          c5 \<leftarrow> reset_queue U writing_queue c4;
          c6 \<leftarrow> reset_queue U resp_pending_queue c5;
          tt_unlock c6 }"

definition tcp__reconn_delay_timer_cb :: "'z tt_op" where
  "tcp__reconn_delay_timer_cb = with_tt (\<lambda>tt. uv_async_send conn_async (uv_timer_stop reconn_delay_timer tt))"

text \<open>\<open>for (i = 1; ; ++i) if (!(factor >> i)) break;\<close>\<close>

function backoff_steps :: "nat \<Rightarrow> nat \<Rightarrow> nat" where
  "backoff_steps factor i = (if factor div 2 ^ i = 0 then i else backoff_steps factor (Suc i))"
  by pat_completeness auto
termination
proof (relation "measure (\<lambda>(factor, i). factor - i)", goal_cases)
  case (2 factor i)
  then have "2 ^ i \<le> factor"
    by (simp add: div_eq_0_iff)
  with less_exp [of i] have "i < factor" by (rule less_le_trans)
  then show ?case by simp
qed simp

declare backoff_steps.simps [simp del]

definition reconn_incr :: "pc_client_config \<Rightarrow> int" where
  "reconn_incr k =
     (let factor = (if reconn_delay k = 0 then 1
                    else let f = reconn_delay_max k sdiv reconn_delay k in if f \<le> 0 then 1 else f)
      in if \<not> reconn_exp_backoff k then factor + 1 else int (backoff_steps (nat factor) 1) + 1)"

definition reconn_timeout :: "pc_client_config \<Rightarrow> int \<Rightarrow> int \<Rightarrow> int" where
  "reconn_timeout k max_incr tries =
     (if tries \<ge> max_incr then reconn_delay_max k
      else if \<not> reconn_exp_backoff k then reconn_delay k * tries
      else push_bit (nat (tries - 1)) (reconn_delay k))"

text \<open>\<open>(rand() % timeout) + timeout / 2\<close>; a remainder by zero traps.\<close>

definition jitter :: "nat \<Rightarrow> int \<Rightarrow> int option" where
  "jitter rnd tmo = do { assert_c (tmo \<noteq> 0); Some (int rnd smod tmo + tmo sdiv 2) }"

definition give_up :: "'z tr_uv_tcp_scheme user \<Rightarrow> string \<Rightarrow> 'z tt_op" where
  "give_up U why c =
     do { c1 \<leftarrow> pc_trans_fire_event U PC_EV_CONNECT_FAILED (Some why) None c;
          with_tt (\<lambda>tt. tt\<lparr>reconn_times := 0, tt_state := TR_UV_TCP_NOT_CONN\<rparr>) c1 }"

definition tcp__reconn :: "'z tr_uv_tcp_scheme user \<Rightarrow> 'z tt_op \<Rightarrow> uv_env \<Rightarrow> 'z tt_op" where
  "tcp__reconn U reset E c =
     do { c1 \<leftarrow> reset c;
          c2 \<leftarrow> with_tt (\<lambda>tt. tt\<lparr>tt_state := TR_UV_TCP_CONNECTING\<rparr>) c1;
          let k = config c2;
          if \<not> enable_reconn k then give_up U ''Reconn Disabled'' c2
          else do {
            c3 \<leftarrow> with_tt (\<lambda>tt. tt\<lparr>reconn_times := reconn_times tt + 1\<rparr>) c2;
            tt \<leftarrow> tran c3;
            if reconn_max_retry k \<noteq> PC_ALWAYS_RETRY \<and> reconn_max_retry k < reconn_times tt
            then give_up U ''Exceed Max Retry'' c3
            else do {
              c4 \<leftarrow> with_tt (\<lambda>tt. if max_reconn_incr tt = 0 then tt\<lparr>max_reconn_incr := reconn_incr k\<rparr> else tt) c3;
              tt \<leftarrow> tran c4;
              timeout \<leftarrow> jitter (rand_value E) (reconn_timeout k (max_reconn_incr tt) (reconn_times tt));
              start_secs E reconn_delay_timer timeout c4 } } }"

section \<open>Connecting\<close>

text \<open>Both failures of the name resolution report the same event.\<close>

definition connect_error :: "'z tr_uv_tcp_scheme user \<Rightarrow> 'z tt_hooks \<Rightarrow> uv_env \<Rightarrow> string \<Rightarrow> 'z tt_op" where
  "connect_error U K E why c =
     do { c1 \<leftarrow> pc_trans_fire_event U PC_EV_CONNECT_ERROR (Some why) None c; reconn_fn K E c1 }"

definition tcp__conn_async_cb :: "'z tr_uv_tcp_scheme user \<Rightarrow> 'z tt_hooks \<Rightarrow> uv_env \<Rightarrow> 'z tt_op" where
  "tcp__conn_async_cb U K E c =
     do { tt \<leftarrow> tran c;
          if is_connecting tt then Some c
          else do {
            c1 \<leftarrow> with_tt (\<lambda>tt. tt\<lparr>tt_state := TR_UV_TCP_CONNECTING\<rparr>) c;
            host \<leftarrow> tt_host tt;
            c2 \<leftarrow> with_tt (\<lambda>tt. tt\<lparr>sock_closing := False, sock_reading := False\<rparr>) c1;
            case getaddrinfo E host of
              None \<Rightarrow> connect_error U K E ''DNS Resolve Error'' c2
            | Some ainfo \<Rightarrow>
                (case List.find (\<lambda>f. f = AF_INET \<or> f = AF_INET6) ainfo of
                   None \<Rightarrow> connect_error U K E ''DNS Resolve Error'' c2
                 | Some _ \<Rightarrow>
                     if uv_tcp_connect_rc E \<noteq> 0 then connect_error U K E ''UV Conn Error'' c2
                     else do {
                       c3 \<leftarrow> with_tt (\<lambda>tt. tt\<lparr>is_connecting := True\<rparr>) c2;
                       if conn_timeout (config c3) \<noteq> PC_WITHOUT_TIMEOUT
                       then start_secs E conn_timeout_timer (conn_timeout (config c3)) c3
                       else Some c3 }) } }"

definition tcp__conn_timeout_cb :: "'z tt_op" where
  "tcp__conn_timeout_cb c =
     do { tt \<leftarrow> tran c;
          assert_c (is_connecting tt);
          with_tt (\<lambda>tt. (uv_timer_stop conn_timeout_timer tt)\<lparr>sock_closing := True\<rparr>) c }"

section \<open>Writing\<close>

text \<open>Starting the timeout check unless it runs.\<close>

definition start_check :: "uv_env \<Rightarrow> 'z tt_op" where
  "start_check E c =
     do { tt \<leftarrow> tran c;
          if \<not> timer_active tt check_timeout then start_secs E check_timeout PC_TIMEOUT_CHECK_INTERVAL c
          else Some c }"

text \<open>An item of the writing queue reported as failed and given back.\<close>

definition report_wi :: "'z tr_uv_tcp_scheme user \<Rightarrow> int \<Rightarrow> ref \<Rightarrow> 'z tt_op" where
  "report_wi U rc r c =
     do { c1 \<leftarrow> free_wi_buf r c;
          wi \<leftarrow> get_wi r c1;
          c2 \<leftarrow> (if TR_UV_WI_IS_NOTIFY (wi_type wi) then pc_trans_sent U (wi_seq_num wi) rc c1 else Some c1);
          wi \<leftarrow> get_wi r c2;
          c3 \<leftarrow> (if TR_UV_WI_IS_RESP (wi_type wi) then pc_trans_resp U (wi_req_id wi) rc None c2 else Some c2);
          release_wi r c3 }"

partial_function (option) fail_writing :: "'z tr_uv_tcp_scheme user \<Rightarrow> int \<Rightarrow> 'z tt_op" where
  "fail_writing U rc c =
     do { p \<leftarrow> pop_wi writing_queue c;
          case p of None \<Rightarrow> Some c
          | Some (r, c1) \<Rightarrow> do { c2 \<leftarrow> report_wi U rc r c1; fail_writing U rc c2 } }"

declare fail_writing.simps [code]

text \<open>Whether an item of the queue has a timeout, and the items by reference.\<close>

fun any_timeout :: "tr_uv_wi pool \<Rightarrow> ref list \<Rightarrow> bool option" where
  "any_timeout p [] = Some False"
| "any_timeout p (r # rs) =
     do { wi \<leftarrow> pool_get p r;
          b \<leftarrow> any_timeout p rs;
          Some (\<not> TR_UV_WI_IS_INTERNAL (wi_type wi) \<and> wi_timeout wi \<noteq> PC_WITHOUT_TIMEOUT \<or> b) }"

fun wi_bufs :: "tr_uv_wi pool \<Rightarrow> ref list \<Rightarrow> uv_buf list option" where
  "wi_bufs p [] = Some []"
| "wi_bufs p (r # rs) = do { wi \<leftarrow> pool_get p r; bs \<leftarrow> wi_bufs p rs; Some (wi_buf wi # bs) }"

definition tcp__write_async_cb :: "'z tr_uv_tcp_scheme user \<Rightarrow> uv_env \<Rightarrow> 'z tt_op" where
  "tcp__write_async_cb U E c =
     do { tt \<leftarrow> tran c;
          if tt_state tt = TR_UV_TCP_NOT_CONN \<or> is_writing tt then Some c
          else do {
            c1 \<leftarrow> tt_lock c;
            c2 \<leftarrow> (if tt_state tt = TR_UV_TCP_DONE
                  then with_tt (move_queue conn_pending_queue write_wait_queue) c1 else Some c1);
            let pending = (tt_state tt \<noteq> TR_UV_TCP_DONE \<and> wi_queues tt conn_pending_queue \<noteq> []);
            tt \<leftarrow> tran c2;
            timed \<leftarrow> any_timeout (pre_wis tt) (wi_queues tt write_wait_queue);
            let need_check = (pending \<or> timed);
            if wi_queues tt write_wait_queue = [] then do {
              c3 \<leftarrow> tt_unlock c2;
              if need_check then start_check E c3 else Some c3 }
            else do {
              bufs \<leftarrow> wi_bufs (pre_wis tt) (wi_queues tt write_wait_queue);
              c3 \<leftarrow> with_tt (move_queue write_wait_queue writing_queue) c2;
              c4 \<leftarrow> tt_unlock c3;
              c5 \<leftarrow> with_tt (\<lambda>tt. tt\<lparr>written := written tt @ bufs\<rparr>) c4;
              if uv_write_rc E \<noteq> 0 then do {
                c6 \<leftarrow> tt_lock c5;
                c7 \<leftarrow> fail_writing U (uv_write_rc E) c6;
                tt_unlock c7 }
              else do {
                c6 \<leftarrow> with_tt (\<lambda>tt. tt\<lparr>is_writing := True\<rparr>) c5;
                if need_check then start_check E c6 else Some c6 } } } }"

partial_function (option) written_loop :: "'z tr_uv_tcp_scheme user \<Rightarrow> int \<Rightarrow> 'z tt_op" where
  "written_loop U status c =
     do { p \<leftarrow> pop_wi writing_queue c;
          case p of None \<Rightarrow> Some c
          | Some (r, c1) \<Rightarrow>
              do { wi \<leftarrow> get_wi r c1;
                   c2 \<leftarrow> (if status = 0 \<and> TR_UV_WI_IS_RESP (wi_type wi)
                         then with_tt (push_wi resp_pending_queue r) c1
                         else report_wi U status r c1);
                   written_loop U status c2 } }"

declare written_loop.simps [code]

definition tcp__write_done_cb :: "'z tr_uv_tcp_scheme user \<Rightarrow> int \<Rightarrow> 'z tt_op" where
  "tcp__write_done_cb U status c =
     do { tt \<leftarrow> tran c;
          assert_c (is_writing tt);
          c1 \<leftarrow> with_tt (\<lambda>tt. tt\<lparr>is_writing := False\<rparr>) c;
          c2 \<leftarrow> tt_lock c1;
          c3 \<leftarrow> written_loop U (if status = 0 then PC_RC_OK else PC_RC_ERROR) c2;
          c4 \<leftarrow> tt_unlock c3;
          with_tt (uv_async_send write_async) c4 }"

section \<open>Timeouts\<close>

text \<open>The local queue \<open>tmp\<close> and the flag \<open>cont\<close> are arguments of the loop.\<close>

definition expire_wi :: "'z tr_uv_tcp_scheme user \<Rightarrow> ref \<Rightarrow> tr_uv_wi \<Rightarrow> 'z tt_op" where
  "expire_wi U r wi c =
     do { c1 \<leftarrow> (if TR_UV_WI_IS_NOTIFY (wi_type wi) then pc_trans_sent U (wi_seq_num wi) PC_RC_TIMEOUT c
                else if TR_UV_WI_IS_RESP (wi_type wi) then pc_trans_resp U (wi_req_id wi) PC_RC_TIMEOUT None c
                else Some c);
          c2 \<leftarrow> free_wi_buf r c1;
          release_wi r c2 }"

partial_function (option) check_loop :: "'z tr_uv_tcp_scheme user \<Rightarrow> int \<Rightarrow> wi_queue \<Rightarrow> ref list \<Rightarrow> bool \<Rightarrow>
    'z tt_client \<Rightarrow> (ref list \<times> bool \<times> 'z tt_client) option" where
  "check_loop U ct q tmp cont c =
     do { p \<leftarrow> pop_wi q c;
          case p of None \<Rightarrow> Some (tmp, cont, c)
          | Some (r, c1) \<Rightarrow>
              do { wi \<leftarrow> get_wi r c1;
                   if wi_timeout wi \<noteq> PC_WITHOUT_TIMEOUT \<and> ct > wi_ts wi + wi_timeout wi
                   then do { c2 \<leftarrow> expire_wi U r wi c1; check_loop U ct q tmp cont c2 }
                   else check_loop U ct q (tmp @ [r]) (wi_timeout wi \<noteq> PC_WITHOUT_TIMEOUT \<or> cont) c1 } }"

declare check_loop.simps [code]

definition tcp__check_queue_timeout :: "'z tr_uv_tcp_scheme user \<Rightarrow> uv_env \<Rightarrow> wi_queue \<Rightarrow> bool \<Rightarrow>
    'z tt_client \<Rightarrow> (bool \<times> 'z tt_client) option" where
  "tcp__check_queue_timeout U E q cont c =
     do { (tmp, cont, c1) \<leftarrow> check_loop U (time_now E) q [] cont c;
          c2 \<leftarrow> with_tt (\<lambda>tt. set_queue q (wi_queues tt q @ tmp) tt) c1;
          Some (cont, c2) }"

definition tcp__write_check_timeout_cb :: "'z tr_uv_tcp_scheme user \<Rightarrow> uv_env \<Rightarrow> 'z tt_op" where
  "tcp__write_check_timeout_cb U E c =
     do { c1 \<leftarrow> tt_lock c;
          (cont, c2) \<leftarrow> tcp__check_queue_timeout U E conn_pending_queue False c1;
          (cont, c3) \<leftarrow> tcp__check_queue_timeout U E write_wait_queue cont c2;
          (cont, c4) \<leftarrow> tcp__check_queue_timeout U E resp_pending_queue cont c3;
          c5 \<leftarrow> tt_unlock c4;
          if cont then start_check E c5 else Some c5 }"

section \<open>Cleaning up and disconnecting\<close>

definition tcp__cleanup_async_cb :: "'z tt_hooks \<Rightarrow> 'z tt_op" where
  "tcp__cleanup_async_cb K c =
     do { c1 \<leftarrow> reset_fn K c;
          with_tt (\<lambda>tt. tt\<lparr>tt_host := None, handshake_opts := None, reconn_times := 0,
                      timer_active := (\<lambda>_. False), signalled := (\<lambda>_. False),
                      route_to_code := None, code_to_route := None, dict_ver := None,
                      server_protos := None, client_protos := None, proto_ver := None\<rparr>) c1 }"

definition tcp__disconnect_async_cb :: "'z tr_uv_tcp_scheme user \<Rightarrow> 'z tt_hooks \<Rightarrow> 'z tt_op" where
  "tcp__disconnect_async_cb U K c =
     do { c1 \<leftarrow> reset_fn K c;
          c2 \<leftarrow> with_tt (\<lambda>tt. tt\<lparr>reconn_times := 0\<rparr>) c1;
          pc_trans_fire_event U PC_EV_DISCONNECT None None c2 }"

section \<open>Items of the transport itself\<close>

text \<open>
  A heartbeat goes to the tail of the write queue, a handshake and its acknowledgement to the
  head, before any application data.
\<close>

definition fill_internal :: "uv_env \<Rightarrow> uv_buf \<Rightarrow> tr_uv_wi \<Rightarrow> tr_uv_wi" where
  "fill_internal E buf w = w\<lparr>wi_type := TR_UV_WI_SET_INTERNAL (wi_type w), wi_buf := buf, wi_seq_num := - 1,
     wi_req_id := - 1, wi_timeout := PC_WITHOUT_TIMEOUT, wi_ts := time_now E\<rparr>"

definition queue_internal :: "uv_env \<Rightarrow> bool \<Rightarrow> uv_buf \<Rightarrow> 'z tt_op" where
  "queue_internal E at_head buf c =
     do { c1 \<leftarrow> tt_lock c;
          (r, c2) \<leftarrow> alloc_wi c1;
          c3 \<leftarrow> put_wi r (fill_internal E buf) c2;
          c4 \<leftarrow> with_tt (\<lambda>tt. set_queue write_wait_queue
                  (if at_head then r # wi_queues tt write_wait_queue else wi_queues tt write_wait_queue @ [r]) tt) c3;
          c5 \<leftarrow> tt_unlock c4;
          with_tt (uv_async_send write_async) c5 }"

definition tcp__send_heartbeat :: "uv_env \<Rightarrow> 'z tt_op" where
  "tcp__send_heartbeat E c =
     do { tt \<leftarrow> tran c;
          assert_c (tt_state tt = TR_UV_TCP_DONE);
          let buf = uv_buf_of (pc_pkg_encode PC_PKG_HEARBEAT []);
          assert_c (buf_len buf \<noteq> 0 \<and> buf_base buf \<noteq> None);
          queue_internal E False buf c }"

text \<open>\<open>(tt->hb_rtt * 2 + rtt) / 3\<close>, undefined when the product or the sum is no \<open>int\<close>.\<close>

definition smooth_rtt :: "int \<Rightarrow> int \<Rightarrow> int option" where
  "smooth_rtt old rtt =
     (if old = - 1 then Some rtt
      else do { twice \<leftarrow> int_mult old 2; total \<leftarrow> int_plus twice rtt; Some (total sdiv 3) })"

definition hb_round_trip :: "uv_env \<Rightarrow> u64 \<Rightarrow> int \<Rightarrow> int" where
  "hb_round_trip E due ms =
     (let start = to_int (due - of_int ms) in to_int (of_nat (loop_time E) - of_int start))"

definition tcp__on_heartbeat :: "uv_env \<Rightarrow> 'z tt_op" where
  "tcp__on_heartbeat E c =
     do { tt \<leftarrow> tran c;
          if \<not> is_waiting_hb tt then Some c
          else do {
            assert_c (tt_state tt = TR_UV_TCP_DONE);
            assert_c (timer_active tt hb_timeout_timer);
            ms \<leftarrow> int_mult (hb_timeout tt) 1000;
            let rtt = hb_round_trip E (timer_due tt hb_timeout_timer) ms;
            avg \<leftarrow> smooth_rtt (hb_rtt tt) rtt;
            c1 \<leftarrow> with_tt (\<lambda>tt. (uv_timer_stop hb_timeout_timer tt)
                    \<lparr>is_waiting_hb := False, hb_rtt := avg\<rparr>) c;
            start_secs E hb_timer (hb_interval tt) c1 } }"

definition tcp__heartbeat_timer_cb :: "uv_env \<Rightarrow> 'z tt_op" where
  "tcp__heartbeat_timer_cb E c =
     do { tt \<leftarrow> tran c;
          assert_c (\<not> is_waiting_hb tt);
          assert_c (tt_state tt = TR_UV_TCP_DONE);
          c1 \<leftarrow> tcp__send_heartbeat E c;
          c2 \<leftarrow> with_tt (\<lambda>tt. tt\<lparr>is_waiting_hb := True\<rparr>) c1;
          start_secs E hb_timeout_timer (hb_timeout tt) c2 }"

definition tcp__heartbeat_timeout_cb :: "'z tr_uv_tcp_scheme user \<Rightarrow> 'z tt_hooks \<Rightarrow> uv_env \<Rightarrow> 'z tt_op" where
  "tcp__heartbeat_timeout_cb U K E c =
     do { tt \<leftarrow> tran c;
          assert_c (is_waiting_hb tt);
          c1 \<leftarrow> pc_trans_fire_event U PC_EV_UNEXPECTED_DISCONNECT (Some ''HB Timeout'') None c;
          reconn_fn K E c1 }"

section \<open>The handshake\<close>

definition tcp__handshake_timer_cb :: "'z tr_uv_tcp_scheme user \<Rightarrow> 'z tt_hooks \<Rightarrow> uv_env \<Rightarrow> 'z tt_op" where
  "tcp__handshake_timer_cb U K E c = connect_error U K E ''Connect Timeout'' c"

definition add_ref :: "string \<Rightarrow> pc_JSON option \<Rightarrow> pc_JSON \<Rightarrow> pc_JSON" where
  "add_ref name it ob = (case it of None \<Rightarrow> ob | Some x \<Rightarrow> pc_JSON_AddItemReferenceToObject ob name x)"

text \<open>All three or none.\<close>

definition all_or_none :: "'a option \<Rightarrow> 'a option \<Rightarrow> 'a option \<Rightarrow> bool" where
  "all_or_none x y z \<longleftrightarrow> x \<noteq> None \<and> y \<noteq> None \<and> z \<noteq> None \<or> x = None \<and> y = None \<and> z = None"

definition pc_lib_version_str :: string where
  "pc_lib_version_str = ''0.3.5-release''"

definition handshake_body :: "string \<Rightarrow> 'z tr_uv_tcp_scheme \<Rightarrow> pc_JSON" where
  "handshake_body platform tt =
     (let sys = add_ref ''dictVersion'' (dict_ver tt) (add_ref ''protoVersion'' (proto_ver tt) pc_JSON_CreateObject);
          sys = pc_JSON_AddItemToObject sys ''type'' (Some (pc_JSON_CreateString platform));
          sys = pc_JSON_AddItemToObject sys ''version'' (Some (pc_JSON_CreateString pc_lib_version_str));
          body = pc_JSON_AddItemToObject pc_JSON_CreateObject ''sys'' (Some sys)
      in add_ref ''user'' (handshake_opts tt) body)"

definition tcp__send_handshake :: "uv_env \<Rightarrow> 'z tt_op" where
  "tcp__send_handshake E c =
     do { tt \<leftarrow> tran c;
          assert_c (tt_state tt = TR_UV_TCP_HANDSHAKEING);
          assert_c (all_or_none (proto_ver tt) (client_protos tt) (server_protos tt));
          assert_c (all_or_none (dict_ver tt) (route_to_code tt) (code_to_route tt));
          data \<leftarrow> pc_JSON_PrintUnformatted (handshake_body (lib_platform E) tt);
          data \<leftarrow> data;
          queue_internal E True (uv_buf_of (pc_pkg_encode PC_PKG_HANDSHAKE (to_bytes data))) c }"

definition tcp__send_handshake_ack :: "uv_env \<Rightarrow> 'z tt_op" where
  "tcp__send_handshake_ack E c =
     do { let buf = uv_buf_of (pc_pkg_encode PC_PKG_HANDSHAKE_ACK []);
          assert_c (buf_base buf \<noteq> None \<and> buf_len buf \<noteq> 0);
          queue_internal E True buf c }"

text \<open>
  \<open>(int)(tt->conn_timeout.timeout - tt->uv_loop.time)\<close>, read before the timer is stopped.
\<close>

definition tcp__conn_done_cb :: "'z tr_uv_tcp_scheme user \<Rightarrow> 'z tt_hooks \<Rightarrow> uv_env \<Rightarrow> int \<Rightarrow> 'z tt_op" where
  "tcp__conn_done_cb U K E status c =
     do { tt \<leftarrow> tran c;
          assert_c (is_connecting tt);
          let timed = (conn_timeout (config c) \<noteq> PC_WITHOUT_TIMEOUT);
          let hs_timeout = to_int (timer_due tt conn_timeout_timer - of_nat (loop_time E));
          c1 \<leftarrow> with_tt (\<lambda>tt. let tt1 = tt\<lparr>is_connecting := False\<rparr>
                  in if timed then uv_timer_stop conn_timeout_timer tt1 else tt1) c;
          if status = 0 then do {
            c2 \<leftarrow> with_tt (\<lambda>tt. tt\<lparr>tt_state := TR_UV_TCP_HANDSHAKEING\<rparr>) c1;
            if uv_read_start_rc E \<noteq> 0 then reconn_fn K E c2
            else do {
              c3 \<leftarrow> with_tt (\<lambda>tt. tt\<lparr>sock_reading := True\<rparr>) c2;
              c4 \<leftarrow> tcp__send_handshake E c3;
              if timed then with_tt (uv_timer_start E handshake_timer (of_int hs_timeout)) c4 else Some c4 } }
          else connect_error U K E (if status = UV_ECANCELED then ''Connect Timeout'' else ''Connect Error'') c1 }"

section \<open>Receiving\<close>

text \<open>\<open>QUEUE_FOREACH\<close> over the items that wait for a response, with its assert.\<close>

fun find_resp :: "tr_uv_wi pool \<Rightarrow> u32 \<Rightarrow> ref list \<Rightarrow> ref option option" where
  "find_resp p rid [] = Some None"
| "find_resp p rid (r # rs) =
     do { wi \<leftarrow> pool_get p r;
          assert_c (TR_UV_WI_IS_RESP (wi_type wi));
          if wi_req_id wi \<noteq> rid then find_resp p rid rs else Some (Some r) }"

definition drop_resp :: "u32 \<Rightarrow> 'z tt_op" where
  "drop_resp rid c =
     do { tt \<leftarrow> tran c;
          t \<leftarrow> find_resp (pre_wis tt) rid (wi_queues tt resp_pending_queue);
          case t of None \<Rightarrow> Some c
          | Some r \<Rightarrow>
              do { c1 \<leftarrow> with_tt (\<lambda>tt. set_queue resp_pending_queue (remove1 r (wi_queues tt resp_pending_queue)) tt) c;
                   c2 \<leftarrow> free_wi_buf r c1;
                   wi \<leftarrow> get_wi r c2;
                   if PC_IS_PRE_ALLOC (wi_type wi)
                   then do { c3 \<leftarrow> tt_lock c2; c4 \<leftarrow> release_wi r c3; tt_unlock c4 }
                   else release_wi r c2 } }"

definition pr_default_msg_encoder :: "'z tr_uv_tcp_scheme \<Rightarrow> pc_msg \<Rightarrow> bytes option option" where
  "pr_default_msg_encoder tt m = pc_default_msg_encode (route_to_code tt) (client_protos tt) m"

definition pr_default_msg_decoder :: "'z tr_uv_tcp_scheme \<Rightarrow> bytes \<Rightarrow> pc_msg option" where
  "pr_default_msg_decoder tt buf = pc_default_msg_decode (code_to_route tt) (server_protos tt) buf"

definition proto_error :: "'z tr_uv_tcp_scheme user \<Rightarrow> 'z tt_hooks \<Rightarrow> uv_env \<Rightarrow> string \<Rightarrow> 'z tt_op" where
  "proto_error U K E why c =
     do { c1 \<leftarrow> pc_trans_fire_event U PC_EV_PROTO_ERROR (Some why) None c; reconn_fn K E c1 }"

definition tcp__on_data_recieved :: "'z tr_uv_tcp_scheme user \<Rightarrow> 'z tt_hooks \<Rightarrow> uv_env \<Rightarrow> bytes \<Rightarrow> 'z tt_op" where
  "tcp__on_data_recieved U K E data c =
     do { tt \<leftarrow> tran c;
          m \<leftarrow> pr_default_msg_decoder tt data;
          if msg_id m = PC_INVALID_REQ_ID \<or> msg_text m = None then proto_error U K E ''Decode Error'' c
          else if msg_id m = PC_NOTIFY_PUSH_REQ_ID \<and> msg_route m = None
          then proto_error U K E ''No Route Specified'' c
          else do {
            assert_c (msg_id m = PC_NOTIFY_PUSH_REQ_ID \<and> msg_route m \<noteq> None
                      \<or> msg_id m \<noteq> PC_NOTIFY_PUSH_REQ_ID \<and> msg_route m = None);
            if msg_id m \<noteq> PC_NOTIFY_PUSH_REQ_ID then do {
              c1 \<leftarrow> pc_trans_resp U (msg_id m) PC_RC_OK (msg_text m) c;
              drop_resp (msg_id m) c1 }
            else pc_trans_fire_event U PC_EV_USER_DEFINED_PUSH (msg_route m) (msg_text m) c } }"

definition tcp__on_kick_recieved :: "'z tr_uv_tcp_scheme user \<Rightarrow> 'z tt_hooks \<Rightarrow> 'z tt_op" where
  "tcp__on_kick_recieved U K c =
     do { c1 \<leftarrow> pc_trans_fire_event U PC_EV_KICKED_BY_SERVER None None c; reset_fn K c1 }"

definition PC_HANDSHAKE_OK :: int where [simp]: "PC_HANDSHAKE_OK = 200"

definition handshake_failed :: "'z tr_uv_tcp_scheme user \<Rightarrow> 'z tt_hooks \<Rightarrow> 'z tt_op" where
  "handshake_failed U K c =
     do { c1 \<leftarrow> pc_trans_fire_event U PC_EV_CONNECT_FAILED (Some ''Handshake Error'') None c; reset_fn K c1 }"

definition number_or :: "int \<Rightarrow> pc_JSON option \<Rightarrow> int" where
  "number_or d it = (case it of None \<Rightarrow> d | Some x \<Rightarrow> if jtype x = pc_JSON_Number then valueint x else d)"

definition setup_heartbeat :: "pc_JSON \<Rightarrow> 'z tt_op" where
  "setup_heartbeat sys c =
     do { tmp \<leftarrow> pc_JSON_GetObjectItem sys ''heartbeat'';
          let i = number_or (- 1) tmp;
          if i \<le> 0 then with_tt (\<lambda>tt. tt\<lparr>hb_interval := - 1, hb_timeout := - 1\<rparr>) c
          else do {
            t \<leftarrow> int_mult i PC_HEARTBEAT_TIMEOUT_FACTOR;
            with_tt (\<lambda>tt. tt\<lparr>hb_interval := i, hb_timeout := t\<rparr>) c } }"

definition switched_off :: "pc_JSON option \<Rightarrow> bool" where
  "switched_off it = (case it of None \<Rightarrow> True | Some x \<Rightarrow> jtype x = pc_JSON_False)"

text \<open>Whether the storage has to be written, what is left of the response, and the transport.\<close>

definition setup_dict :: "pc_JSON \<Rightarrow> 'z tr_uv_tcp_scheme \<Rightarrow> (bool \<times> pc_JSON \<times> 'z tr_uv_tcp_scheme) option" where
  "setup_dict sys tt =
     do { tmp \<leftarrow> pc_JSON_GetObjectItem sys ''useDict'';
          if switched_off tmp then
            Some (if dict_ver tt \<noteq> None \<and> route_to_code tt \<noteq> None \<and> code_to_route tt \<noteq> None
                  then (True, sys, tt\<lparr>dict_ver := None, route_to_code := None, code_to_route := None\<rparr>)
                  else (False, sys, tt))
          else do {
            (r2c, sys) \<leftarrow> pc_JSON_DetachItemFromObject sys ''routeToCode'';
            (c2r, sys) \<leftarrow> pc_JSON_DetachItemFromObject sys ''codeToRoute'';
            (dv, sys) \<leftarrow> pc_JSON_DetachItemFromObject sys ''dictVersion'';
            assert_c (all_or_none dv r2c c2r);
            let tt1 = (if dv \<noteq> None then tt\<lparr>dict_ver := dv, route_to_code := r2c, code_to_route := c2r\<rparr> else tt);
            assert_c (dict_ver tt1 \<noteq> None \<and> route_to_code tt1 \<noteq> None \<and> code_to_route tt1 \<noteq> None);
            Some (dv \<noteq> None, sys, tt1) } }"

definition setup_proto :: "pc_JSON \<Rightarrow> 'z tr_uv_tcp_scheme \<Rightarrow> (bool \<times> 'z tr_uv_tcp_scheme) option" where
  "setup_proto sys tt =
     do { tmp \<leftarrow> pc_JSON_GetObjectItem sys ''useProto'';
          if switched_off tmp then
            Some (if client_protos tt \<noteq> None \<and> proto_ver tt \<noteq> None \<and> server_protos tt \<noteq> None
                  then (True, tt\<lparr>client_protos := None, proto_ver := None, server_protos := None\<rparr>)
                  else (False, tt))
          else do {
            protos \<leftarrow> pc_JSON_GetObjectItem sys ''protos'';
            (sp, cp, pv) \<leftarrow> (case protos of None \<Rightarrow> Some (None, None, None)
               | Some protos \<Rightarrow>
                   do { (sp, protos) \<leftarrow> pc_JSON_DetachItemFromObject protos ''server'';
                        (cp, protos) \<leftarrow> pc_JSON_DetachItemFromObject protos ''client'';
                        (pv, protos) \<leftarrow> pc_JSON_DetachItemFromObject protos ''version'';
                        Some (sp, cp, pv) });
            assert_c (all_or_none pv sp cp);
            let tt1 = (if pv \<noteq> None then tt\<lparr>client_protos := cp, server_protos := sp, proto_ver := pv\<rparr> else tt);
            assert_c (proto_ver tt1 \<noteq> None \<and> server_protos tt1 \<noteq> None \<and> client_protos tt1 \<noteq> None);
            Some (pv \<noteq> None, tt1) } }"

definition stored_json :: "'z tr_uv_tcp_scheme \<Rightarrow> pc_JSON" where
  "stored_json tt =
     add_ref ''ps'' (server_protos tt) (add_ref ''pc'' (client_protos tt) (add_ref ''pv'' (proto_ver tt)
     (add_ref ''c2r'' (code_to_route tt) (add_ref ''r2c'' (route_to_code tt) (add_ref ''dv'' (dict_ver tt)
       pc_JSON_CreateObject)))))"

definition store :: "'z tt_op" where
  "store c =
     do { tt \<leftarrow> tran c;
          data \<leftarrow> pc_JSON_PrintUnformatted (stored_json tt);
          case data of None \<Rightarrow> Some c
          | Some data \<Rightarrow> with_tt (\<lambda>tt. tt\<lparr>ls_written := ls_written tt @ [data]\<rparr>) c }"

definition handshake_ok :: "'z tr_uv_tcp_scheme user \<Rightarrow> uv_env \<Rightarrow> pc_JSON \<Rightarrow> 'z tt_op" where
  "handshake_ok U E sys c =
     do { c1 \<leftarrow> setup_heartbeat sys c;
          tt \<leftarrow> tran c1;
          (sync1, sys1, tt1) \<leftarrow> setup_dict sys tt;
          (sync2, tt2) \<leftarrow> setup_proto sys1 tt1;
          c2 \<leftarrow> with_tt (\<lambda>_. tt2) c1;
          c3 \<leftarrow> (if local_storage_cb (config c2) \<noteq> None \<and> (sync1 \<or> sync2) then store c2 else Some c2);
          c4 \<leftarrow> tcp__send_handshake_ack E c3;
          c5 \<leftarrow> (if hb_interval tt2 \<noteq> - 1 then start_secs E hb_timer (hb_interval tt2) c4 else Some c4);
          c6 \<leftarrow> with_tt (\<lambda>tt. tt\<lparr>tt_state := TR_UV_TCP_DONE\<rparr>) c5;
          c7 \<leftarrow> pc_trans_fire_event U PC_EV_CONNECTED None None c6;
          with_tt (uv_async_send write_async) c7 }"

text \<open>
  The text is the package buffer, which is not terminated. After a response that is not valid
  JSON the function goes on with \<open>res == NULL\<close>, which \<open>pc_JSON_GetObjectItem\<close> dereferences.
\<close>

definition tcp__on_handshake_resp :: "'z tr_uv_tcp_scheme user \<Rightarrow> 'z tt_hooks \<Rightarrow> uv_env \<Rightarrow> bytes option \<Rightarrow> 'z tt_op" where
  "tcp__on_handshake_resp U K E data c =
     do { tt \<leftarrow> tran c;
          assert_c (tt_state tt = TR_UV_TCP_HANDSHAKEING);
          c1 \<leftarrow> with_tt (\<lambda>tt. tt\<lparr>reconn_times := 0\<rparr>) c;
          res \<leftarrow> (case data of None \<Rightarrow> Some None | Some bs \<Rightarrow> pc_JSON_Parse (to_string bs));
          c2 \<leftarrow> (if conn_timeout (config c1) \<noteq> PC_WITHOUT_TIMEOUT
                then with_tt (uv_timer_stop handshake_timer) c1 else Some c1);
          case res of None \<Rightarrow> do { handshake_failed U K c2; None }
          | Some res \<Rightarrow>
              do { tmp \<leftarrow> pc_JSON_GetObjectItem res ''code'';
                   if number_or (- 1) tmp \<noteq> PC_HANDSHAKE_OK then handshake_failed U K c2
                   else do {
                     sys \<leftarrow> pc_JSON_GetObjectItem res ''sys'';
                     case sys of None \<Rightarrow> handshake_failed U K c2
                     | Some sys \<Rightarrow> handshake_ok U E sys c2 } } }"

section \<open>Packages and reads\<close>

text \<open>
  The parser is a field of the transport. While it runs it is the value that the feed loop
  passes on; the handler sees it in its field, where a reset writes it.
\<close>

definition tr_tcp_on_pkg_handler :: "'z tr_uv_tcp_scheme user \<Rightarrow> 'z tt_hooks \<Rightarrow> uv_env \<Rightarrow>
    'z tt_client pc_on_pkg_handler" where
  "tr_tcp_on_pkg_handler U K E ty data len p c =
     do { c1 \<leftarrow> with_tt (\<lambda>tt. tt\<lparr>pkg_parser := p\<rparr>) c;
          c2 \<leftarrow> (if ty = PC_PKG_HANDSHAKE then tcp__on_handshake_resp U K E data c1
                else if ty = PC_PKG_HEARBEAT then tcp__on_heartbeat E c1
                else if ty = PC_PKG_DATA then tcp__on_data_recieved U K E (buf_bytes data) c1
                else if ty = PC_PKG_KICK then tcp__on_kick_recieved U K c1
                else None);
          tt \<leftarrow> tran c2;
          Some (pkg_parser tt, c2) }"

definition tcp__on_tcp_read_cb :: "'z tr_uv_tcp_scheme user \<Rightarrow> 'z tt_hooks \<Rightarrow> uv_env \<Rightarrow> int \<Rightarrow> bytes \<Rightarrow> 'z tt_op" where
  "tcp__on_tcp_read_cb U K E nread buf c =
     (if nread < 0 then do {
        c1 \<leftarrow> pc_trans_fire_event U PC_EV_UNEXPECTED_DISCONNECT (Some ''Read Error Or Close'') None c;
        reconn_fn K E c1 }
      else do {
        tt \<leftarrow> tran c;
        (p, c1) \<leftarrow> pc_pkg_parser_feed (tr_tcp_on_pkg_handler U K E) (pkg_parser tt) c (take (nat nread) buf);
        with_tt (\<lambda>tt. tt\<lparr>pkg_parser := p\<rparr>) c1 })"

definition PC_TCP_READ_BUFFER_SIZE :: nat where
  "PC_TCP_READ_BUFFER_SIZE = 2 ^ 16"

definition tcp__alloc_cb :: "nat \<Rightarrow> nat" where
  "tcp__alloc_cb suggested = (if suggested < PC_TCP_READ_BUFFER_SIZE then suggested else PC_TCP_READ_BUFFER_SIZE)"

section \<open>Creation and initialisation\<close>

definition zero_tt :: tr_uv_tcp where
  "zero_tt = \<lparr>tt_state = TR_UV_TCP_NOT_CONN, timer_active = (\<lambda>_. False), timer_due = (\<lambda>_. 0),
     signalled = (\<lambda>_. False), sock_closing = False, sock_reading = False, reconn_times = 0,
     is_connecting = False, max_reconn_incr = 0, tt_host = None, tt_port = 0, handshake_opts = None,
     wq_mutex = 0, wi_queues = (\<lambda>_. []), pre_wis = new_pool TR_UV_PRE_ALLOC_WI_SLOT_COUNT zero_wi,
     is_writing = False, hb_interval = 0, hb_timeout = 0, is_waiting_hb = False, hb_rtt = 0,
     pkg_parser = zeroed_parser, route_to_code = None, code_to_route = None, dict_ver = None,
     server_protos = None, client_protos = None, proto_ver = None, written = [], ls_written = []\<rparr>"

definition tr_uv_tcp_create :: "tr_uv_tcp option" where
  "tr_uv_tcp_create = Some zero_tt"

definition idle_wi :: tr_uv_wi where
  "idle_wi = zero_wi\<lparr>wi_type := PC_PRE_ALLOC OR PC_PRE_ALLOC_ST_IDLE OR TR_UV_WI_TYPE_NONE\<rparr>"

definition init_tt :: "'z tr_uv_tcp_scheme \<Rightarrow> 'z tr_uv_tcp_scheme" where
  "init_tt tt = tt\<lparr>timer_active := (\<lambda>_. False), signalled := (\<lambda>_. False), reconn_times := 0, tt_host := None,
     tt_port := 0, handshake_opts := None, wq_mutex := 0, wi_queues := (\<lambda>_. []),
     pre_wis := new_pool TR_UV_PRE_ALLOC_WI_SLOT_COUNT idle_wi, is_writing := False, is_connecting := False,
     is_waiting_hb := False, hb_rtt := - 1, pkg_parser := pc_pkg_parser_init (pkg_parser tt),
     route_to_code := None, code_to_route := None, dict_ver := None,
     server_protos := None, client_protos := None, proto_ver := None\<rparr>"

text \<open>A dictionary or a protocol that the storage holds only in part is dropped.\<close>

definition load_dict :: "pc_JSON \<Rightarrow> 'z tr_uv_tcp_scheme \<Rightarrow> (pc_JSON \<times> 'z tr_uv_tcp_scheme) option" where
  "load_dict lc tt =
     do { (r2c, lc) \<leftarrow> pc_JSON_DetachItemFromObject lc ''r2c'';
          (c2r, lc) \<leftarrow> pc_JSON_DetachItemFromObject lc ''c2r'';
          (dv, lc) \<leftarrow> pc_JSON_DetachItemFromObject lc ''dv'';
          Some (lc, if dv = None \<or> c2r = None \<or> r2c = None
                    then tt\<lparr>dict_ver := None, code_to_route := None, route_to_code := None\<rparr>
                    else tt\<lparr>dict_ver := dv, code_to_route := c2r, route_to_code := r2c\<rparr>) }"

definition load_proto :: "pc_JSON \<Rightarrow> 'z tr_uv_tcp_scheme \<Rightarrow> 'z tr_uv_tcp_scheme option" where
  "load_proto lc tt =
     do { (cp, lc) \<leftarrow> pc_JSON_DetachItemFromObject lc ''pc'';
          (sp, lc) \<leftarrow> pc_JSON_DetachItemFromObject lc ''ps'';
          (pv, lc) \<leftarrow> pc_JSON_DetachItemFromObject lc ''pv'';
          Some (if pv = None \<or> cp = None \<or> sp = None
                then tt\<lparr>proto_ver := None, client_protos := None, server_protos := None\<rparr>
                else tt\<lparr>proto_ver := pv, client_protos := cp, server_protos := sp\<rparr>) }"

definition load_storage :: "uv_env \<Rightarrow> 'z tr_uv_tcp_scheme \<Rightarrow> 'z tr_uv_tcp_scheme option" where
  "load_storage E tt =
     (let (rc1, len) = ls_read_len E in
      if rc1 \<noteq> 0 then Some tt
      else do {
        assert_c (len > 0);
        let (rc2, buf) = ls_read_data E;
        assert_c (rc2 = 0);
        assert_c (len = length buf);
        lc \<leftarrow> pc_JSON_Parse buf;
        case lc of None \<Rightarrow> Some tt
        | Some lc \<Rightarrow> do { (lc, tt1) \<leftarrow> load_dict lc tt; load_proto lc tt1 } })"

definition tr_uv_tcp_init :: "uv_env \<Rightarrow> 'z tt_client \<Rightarrow> (int \<times> 'z tt_client) option" where
  "tr_uv_tcp_init E c =
     do { c1 \<leftarrow> with_tt (\<lambda>tt. tt\<lparr>tt_state := TR_UV_TCP_NOT_CONN\<rparr>) c;
          if uv_loop_init_rc E \<noteq> 0 then Some (PC_RC_ERROR, c1)
          else do {
            c2 \<leftarrow> with_tt init_tt c1;
            tt \<leftarrow> tran c2;
            tt1 \<leftarrow> (if local_storage_cb (config c2) \<noteq> None then load_storage E tt else Some tt);
            c3 \<leftarrow> with_tt (\<lambda>_. tt1) c2;
            Some (PC_RC_OK, c3) } }"

section \<open>The operations that the client calls\<close>

definition tr_uv_tcp_connect :: "string \<Rightarrow> int \<Rightarrow> string option \<Rightarrow> 'z tt_client \<Rightarrow> (int \<times> 'z tt_client) option" where
  "tr_uv_tcp_connect host port opts c =
     do { c1 \<leftarrow> with_tt (\<lambda>tt. tt\<lparr>handshake_opts := None\<rparr>) c;
          handshake \<leftarrow> (case opts of None \<Rightarrow> Some (Some None)
             | Some s \<Rightarrow> map_option (map_option Some) (pc_JSON_Parse (s @ [nul])));
          case handshake of None \<Rightarrow> Some (PC_RC_INVALID_JSON, c1)
          | Some hs \<Rightarrow>
              do { c2 \<leftarrow> with_tt (\<lambda>tt. uv_async_send conn_async
                     (tt\<lparr>handshake_opts := hs, tt_host := Some host, tt_port := port\<rparr>)) c1;
                   Some (PC_RC_OK, c2) } }"

definition fill_wi :: "uv_env \<Rightarrow> uv_buf \<Rightarrow> u32 \<Rightarrow> u32 \<Rightarrow> int \<Rightarrow> tr_uv_wi \<Rightarrow> tr_uv_wi" where
  "fill_wi E buf seq rid tmo w =
     w\<lparr>wi_type := (if PC_NOTIFY_PUSH_REQ_ID = rid then TR_UV_WI_SET_NOTIFY else TR_UV_WI_SET_RESP) (wi_type w),
       wi_buf := buf, wi_seq_num := seq, wi_req_id := rid, wi_timeout := tmo, wi_ts := time_now E\<rparr>"

definition tr_uv_tcp_send :: "uv_env \<Rightarrow> string option \<Rightarrow> u32 \<Rightarrow> string option \<Rightarrow> u32 \<Rightarrow> int \<Rightarrow>
    'z tt_client \<Rightarrow> (int \<times> 'z tt_client) option" where
  "tr_uv_tcp_send E rt seq m rid tmo c =
     do { tt \<leftarrow> tran c;
          if tt_state tt = TR_UV_TCP_NOT_CONN then Some (PC_RC_INVALID_STATE, c)
          else do {
            assert_c (rt \<noteq> None \<and> m \<noteq> None \<and> rid \<noteq> PC_INVALID_REQ_ID);
            enc \<leftarrow> pr_default_msg_encoder tt \<lparr>msg_id = rid, msg_route = rt, msg_text = m\<rparr>;
            if is_failed_buf (uv_buf_of enc) then Some (PC_RC_ERROR, c)
            else do {
              let pkg = uv_buf_of (case enc of None \<Rightarrow> None | Some bs \<Rightarrow> pc_pkg_encode PC_PKG_DATA bs);
              if is_failed_buf pkg then Some (PC_RC_ERROR, c)
              else do {
                c1 \<leftarrow> tt_lock c;
                (r, c2) \<leftarrow> alloc_wi c1;
                c3 \<leftarrow> with_tt (push_wi (if tt_state tt = TR_UV_TCP_DONE then write_wait_queue else conn_pending_queue) r) c2;
                c4 \<leftarrow> put_wi r (fill_wi E pkg seq rid tmo) c3;
                c5 \<leftarrow> tt_unlock c4;
                c6 \<leftarrow> with_tt (uv_async_send write_async) c5;
                Some (PC_RC_OK, c6) } } } }"

definition tr_uv_tcp_disconnect :: "'z tt_client \<Rightarrow> (int \<times> 'z tt_client) option" where
  "tr_uv_tcp_disconnect c = do { c1 \<leftarrow> with_tt (uv_async_send disconnect_async) c; Some (PC_RC_OK, c1) }"

text \<open>\<open>worker\<close> is what the loop's thread does until \<open>uv_thread_join\<close> returns.\<close>

definition tr_uv_tcp_cleanup :: "'z tt_op \<Rightarrow> uv_env \<Rightarrow> 'z tt_client \<Rightarrow> (int \<times> 'z tt_client) option" where
  "tr_uv_tcp_cleanup worker E c =
     (if in_loop_thread E then Some (PC_RC_INVALID_THREAD, c)
      else do {
        c1 \<leftarrow> with_tt (uv_async_send cleanup_async) c;
        c2 \<leftarrow> worker c1;
        if uv_thread_join_rc E \<noteq> 0 then Some (PC_RC_ERROR, c2)
        else do {
          tt \<leftarrow> tran c2;
          assert_c (wq_mutex tt = 0);
          Some (PC_RC_OK, c2) } })"

definition tr_uv_tcp_internal_data :: "'z tt_client \<Rightarrow> nat option" where
  "tr_uv_tcp_internal_data c = Some (self c)"

definition tr_uv_tcp_quality :: "'z tt_client \<Rightarrow> int" where
  "tr_uv_tcp_quality c = (case tran c of None \<Rightarrow> 0 | Some tt \<Rightarrow> hb_rtt tt)"

section \<open>The event loop\<close>

definition tcp_hooks :: "'z tr_uv_tcp_scheme user \<Rightarrow> 'z tt_hooks" where
  "tcp_hooks U = \<lparr>reset_fn = tcp__reset U, reconn_fn = tcp__reconn U (tcp__reset U)\<rparr>"

text \<open>
  What the loop can do: run the callback of a signalled handle, of a timer that is due, of the
  pending connection or write request, or deliver what was read. A one-shot timer is stopped
  before its callback runs.
\<close>

datatype loop_event = L_async uv_async | L_timer uv_timer | L_connected int | L_written int | L_read int bytes

fun enabled :: "uv_env \<Rightarrow> loop_event \<Rightarrow> 'z tr_uv_tcp_scheme \<Rightarrow> bool" where
  "enabled E (L_async a) tt = signalled tt a"
| "enabled E (L_timer t) tt = (timer_active tt t \<and> timer_due tt t \<le> of_nat (loop_time E))"
| "enabled E (L_connected status) tt = is_connecting tt"
| "enabled E (L_written status) tt = is_writing tt"
| "enabled E (L_read nread buf) tt = (sock_reading tt \<and> nread \<le> int (length buf))"

fun timer_cb :: "'z tr_uv_tcp_scheme user \<Rightarrow> 'z tt_hooks \<Rightarrow> uv_env \<Rightarrow> uv_timer \<Rightarrow> 'z tt_op" where
  "timer_cb U K E conn_timeout_timer = tcp__conn_timeout_cb"
| "timer_cb U K E reconn_delay_timer = tcp__reconn_delay_timer_cb"
| "timer_cb U K E handshake_timer = tcp__handshake_timer_cb U K E"
| "timer_cb U K E check_timeout = tcp__write_check_timeout_cb U E"
| "timer_cb U K E hb_timer = tcp__heartbeat_timer_cb E"
| "timer_cb U K E hb_timeout_timer = tcp__heartbeat_timeout_cb U K E"

fun async_cb :: "'z tr_uv_tcp_scheme user \<Rightarrow> 'z tt_hooks \<Rightarrow> uv_env \<Rightarrow> uv_async \<Rightarrow> 'z tt_op" where
  "async_cb U K E conn_async = tcp__conn_async_cb U K E"
| "async_cb U K E write_async = tcp__write_async_cb U E"
| "async_cb U K E disconnect_async = tcp__disconnect_async_cb U K"
| "async_cb U K E cleanup_async = tcp__cleanup_async_cb K"

fun dispatch :: "'z tr_uv_tcp_scheme user \<Rightarrow> 'z tt_hooks \<Rightarrow> uv_env \<Rightarrow> loop_event \<Rightarrow> 'z tt_op" where
  "dispatch U K E (L_async a) c =
     do { c1 \<leftarrow> with_tt (\<lambda>tt. tt\<lparr>signalled := (signalled tt)(a := False)\<rparr>) c; async_cb U K E a c1 }"
| "dispatch U K E (L_timer t) c = do { c1 \<leftarrow> with_tt (uv_timer_stop t) c; timer_cb U K E t c1 }"
| "dispatch U K E (L_connected status) c = tcp__conn_done_cb U K E status c"
| "dispatch U K E (L_written status) c = tcp__write_done_cb U status c"
| "dispatch U K E (L_read nread buf) c = tcp__on_tcp_read_cb U K E nread buf c"

definition loop_step :: "'z tr_uv_tcp_scheme user \<Rightarrow> 'z tt_hooks \<Rightarrow> uv_env \<times> loop_event \<Rightarrow> 'z tt_op" where
  "loop_step U K = (\<lambda>(E, ev) c. do { tt \<leftarrow> tran c; assert_c (enabled E ev tt); dispatch U K E ev c })"

fun run_loop :: "'z tr_uv_tcp_scheme user \<Rightarrow> 'z tt_hooks \<Rightarrow> (uv_env \<times> loop_event) list \<Rightarrow> 'z tt_op" where
  "run_loop U K [] c = Some c"
| "run_loop U K (e # es) c = do { c1 \<leftarrow> loop_step U K e c; run_loop U K es c1 }"

text \<open>The transport as the client sees it; \<open>es\<close> is what the loop does while it is being joined.\<close>

definition tcp_ops :: "uv_env \<Rightarrow> (uv_env \<times> loop_event) list \<Rightarrow> 'z tr_uv_tcp_scheme user \<Rightarrow>
    'z tr_uv_tcp_scheme trans_ops" where
  "tcp_ops E es U = \<lparr>t_connect = tr_uv_tcp_connect, t_send = tr_uv_tcp_send E,
     t_disconnect = tr_uv_tcp_disconnect, t_cleanup = tr_uv_tcp_cleanup (run_loop U (tcp_hooks U) es) E,
     t_internal_data = Some tr_uv_tcp_internal_data, t_quality = Some tr_uv_tcp_quality\<rparr>"

definition tcp_plugin_impl :: "uv_env \<Rightarrow> tr_uv_tcp plugin_impl" where
  "tcp_plugin_impl E = \<lparr>transport_create = tr_uv_tcp_create, transport_init = tr_uv_tcp_init E\<rparr>"

end
