(* ===== verification/TcpInv.thy ===== *)
theory TcpInv
  imports Tcp ClientRel
begin

text \<open>
  The write items of the TCP transport: every slot in use and every cell of the heap is in
  exactly one of the four queues or in the hands of a running callback, and what waits for a
  response is a request. Callbacks of the user, which reach the transport through the entry
  points, only append to two queues (\<open>tt_frame\<close>), so the loops over the queues are not disturbed;
  and they never leave a request or notify without a write item (\<open>user_rel\<close>).
\<close>

section \<open>Queues and items\<close>

definition all_wis :: "'z tr_uv_tcp_scheme \<Rightarrow> ref list" where
  "all_wis tt = wi_queues tt conn_pending_queue @ wi_queues tt write_wait_queue @
     wi_queues tt writing_queue @ wi_queues tt resp_pending_queue"

text \<open>Dictionary and protocol are there with their version and both directions, or not at all.\<close>

definition vers_ok :: "'z tr_uv_tcp_scheme \<Rightarrow> bool" where [simp]:
  "vers_ok tt \<longleftrightarrow> all_or_none (proto_ver tt) (client_protos tt) (server_protos tt) \<and>
     all_or_none (dict_ver tt) (route_to_code tt) (code_to_route tt)"

text \<open>\<open>F\<close> lists the items that are out of their queue.\<close>

definition tt_inv :: "ref list \<Rightarrow> 'z tr_uv_tcp_scheme \<Rightarrow> bool" where
  "tt_inv F tt \<longleftrightarrow> pool_inv wi_type (pre_wis tt) (all_wis tt @ F) {} \<and>
     (\<forall>r \<in> set (wi_queues tt resp_pending_queue). \<exists>w. pool_get (pre_wis tt) r = Some w \<and> TR_UV_WI_IS_RESP (wi_type w)) \<and>
     vers_ok tt"

text \<open>What an item stands for: a request by its id, a notify by its sequence number.\<close>

definition wi_key :: "tr_uv_wi \<Rightarrow> (u32 + u32) multiset" where
  "wi_key w = (if TR_UV_WI_IS_RESP (wi_type w) then {#Inl (wi_req_id w)#}
     else if TR_UV_WI_IS_NOTIFY (wi_type w) then {#Inr (wi_seq_num w)#} else {#})"

definition wi_keys :: "tr_uv_wi pool \<Rightarrow> ref list \<Rightarrow> (u32 + u32) multiset" where
  "wi_keys p rs = (\<Sum>r\<in>#mset rs. wi_key (the (pool_get p r)))"

definition accepted_keys :: "call list \<Rightarrow> (u32 + u32) multiset" where
  "accepted_keys h = image_mset (Inl \<circ> req_id) (mset (accepted_reqs h)) +
     image_mset (Inr \<circ> rq_seq_num \<circ> ntf_base) (mset (accepted_ntfs h))"

definition settled_keys :: "call list \<Rightarrow> (u32 + u32) multiset" where
  "settled_keys h = image_mset (Inl \<circ> req_id) (mset (settled_reqs h)) +
     image_mset (Inr \<circ> rq_seq_num \<circ> ntf_base) (mset (settled_ntfs h))"

lemma pool_inv_perm: "mset q = mset q' \<Longrightarrow> pool_inv ty p q F = pool_inv ty p q' F"
  unfolding pool_inv_def using mset_eq_setD mset_eq_imp_distinct_iff by metis

lemma wi_keys_simps [simp]:
  "wi_keys p [] = {#}" "wi_keys p (r # rs) = wi_key (the (pool_get p r)) + wi_keys p rs"
  "wi_keys p (xs @ ys) = wi_keys p xs + wi_keys p ys"
  by (simp_all add: wi_keys_def)

lemma wi_keys_cong: "(\<And>r. r \<in> set rs \<Longrightarrow> pool_get p' r = pool_get p r) \<Longrightarrow> wi_keys p' rs = wi_keys p rs"
  unfolding wi_keys_def by (auto intro!: arg_cong [where f = sum_mset] image_mset_cong)

lemma keys_note:
  "accepted_keys (h @ [e]) = accepted_keys h +
     (case e of Req_accepted r \<Rightarrow> {#Inl (req_id r)#} | Ntf_accepted n \<Rightarrow> {#Inr (rq_seq_num (ntf_base n))#} | _ \<Rightarrow> {#})"
  "settled_keys (h @ [e]) = settled_keys h +
     (case e of Req_answered r _ _ \<Rightarrow> {#Inl (req_id r)#} | Req_withdrawn r \<Rightarrow> {#Inl (req_id r)#}
      | Ntf_answered n _ \<Rightarrow> {#Inr (rq_seq_num (ntf_base n))#} | Ntf_withdrawn n \<Rightarrow> {#Inr (rq_seq_num (ntf_base n))#}
      | _ \<Rightarrow> {#})"
  by (auto simp: accepted_keys_def settled_keys_def split: call.splits)

lemma history_note [simp]: "history (note_call e c) = history c @ [e]" "tran (note_call e c) = tran c"
  "config (note_call e c) = config c"
  by (simp_all add: note_call_def)

section \<open>What callbacks do to the transport\<close>

definition tt_rest :: "'z tr_uv_tcp_scheme \<Rightarrow> 'z tr_uv_tcp_scheme" where
  "tt_rest tt = tt\<lparr>handshake_opts := None, tt_host := None, tt_port := 0, signalled := (\<lambda>_. False),
     wi_queues := (\<lambda>_. []), pre_wis := new_pool 0 zero_wi\<rparr>"

definition tt_frame :: "ref list \<Rightarrow> 'z tr_uv_tcp_scheme \<Rightarrow> 'z tr_uv_tcp_scheme \<Rightarrow> bool" where
  "tt_frame F tt tt' \<longleftrightarrow> tt_rest tt' = tt_rest tt \<and> (\<forall>a. signalled tt a \<longrightarrow> signalled tt' a) \<and>
     wi_queues tt' writing_queue = wi_queues tt writing_queue \<and>
     wi_queues tt' resp_pending_queue = wi_queues tt resp_pending_queue \<and>
     (\<exists>xs. wi_queues tt' conn_pending_queue = wi_queues tt conn_pending_queue @ xs) \<and>
     (\<exists>ys. wi_queues tt' write_wait_queue = wi_queues tt write_wait_queue @ ys) \<and>
     (\<forall>r \<in> set (all_wis tt) \<union> set F. pool_get (pre_wis tt') r = pool_get (pre_wis tt) r) \<and>
     (tt_state tt = TR_UV_TCP_NOT_CONN \<longrightarrow> wi_queues tt' = wi_queues tt \<and> pre_wis tt' = pre_wis tt)"

lemma tt_rest_fields:
  assumes "tt_rest tt' = tt_rest tt"
  shows "tt_state tt' = tt_state tt" "timer_active tt' = timer_active tt" "timer_due tt' = timer_due tt"
    "sock_closing tt' = sock_closing tt" "sock_reading tt' = sock_reading tt" "reconn_times tt' = reconn_times tt"
    "is_connecting tt' = is_connecting tt" "max_reconn_incr tt' = max_reconn_incr tt" "wq_mutex tt' = wq_mutex tt"
    "is_writing tt' = is_writing tt" "hb_interval tt' = hb_interval tt" "hb_timeout tt' = hb_timeout tt"
    "is_waiting_hb tt' = is_waiting_hb tt" "hb_rtt tt' = hb_rtt tt" "pkg_parser tt' = pkg_parser tt"
    "route_to_code tt' = route_to_code tt" "code_to_route tt' = code_to_route tt" "dict_ver tt' = dict_ver tt"
    "server_protos tt' = server_protos tt" "client_protos tt' = client_protos tt" "proto_ver tt' = proto_ver tt"
    "written tt' = written tt" "ls_written tt' = ls_written tt"
  using arg_cong [OF assms, of tt_state] arg_cong [OF assms, of timer_active] arg_cong [OF assms, of timer_due]
    arg_cong [OF assms, of sock_closing] arg_cong [OF assms, of sock_reading] arg_cong [OF assms, of reconn_times]
    arg_cong [OF assms, of is_connecting] arg_cong [OF assms, of max_reconn_incr] arg_cong [OF assms, of wq_mutex]
    arg_cong [OF assms, of is_writing] arg_cong [OF assms, of hb_interval] arg_cong [OF assms, of hb_timeout]
    arg_cong [OF assms, of is_waiting_hb] arg_cong [OF assms, of hb_rtt] arg_cong [OF assms, of pkg_parser]
    arg_cong [OF assms, of route_to_code] arg_cong [OF assms, of code_to_route] arg_cong [OF assms, of dict_ver]
    arg_cong [OF assms, of server_protos] arg_cong [OF assms, of client_protos] arg_cong [OF assms, of proto_ver]
    arg_cong [OF assms, of written] arg_cong [OF assms, of ls_written]
  by (simp_all add: tt_rest_def)

lemma tt_frame_refl [simp]: "tt_frame F tt tt"
  by (simp add: tt_frame_def)

lemma tt_frame_all_wis: "tt_frame F tt tt' \<Longrightarrow> set (all_wis tt) \<subseteq> set (all_wis tt')"
  by (auto simp: tt_frame_def all_wis_def)

lemma tt_frame_trans:
  assumes "tt_frame F a b" and "tt_frame F b d"
  shows "tt_frame F a d"
proof -
  have "tt_state b = tt_state a"
    using assms(1) tt_rest_fields by (auto simp: tt_frame_def)
  moreover have "pool_get (pre_wis d) r = pool_get (pre_wis a) r" if "r \<in> set (all_wis a) \<union> set F" for r
    using assms that tt_frame_all_wis [OF assms(1)] unfolding tt_frame_def by (metis UnE UnI1 UnI2 subsetD)
  ultimately show ?thesis
    using assms by (auto simp: tt_frame_def)
qed

definition tt_rel :: "'z tr_uv_tcp_scheme \<Rightarrow> 'z tr_uv_tcp_scheme \<Rightarrow> bool" where
  "tt_rel tt tt' \<longleftrightarrow> (\<forall>F. tt_inv F tt \<longrightarrow> tt_inv F tt' \<and> tt_frame F tt tt')"

lemma tt_rel_refl [simp]: "tt_rel tt tt"
  by (simp add: tt_rel_def)

lemma tt_rel_trans: "tt_rel a b \<Longrightarrow> tt_rel b d \<Longrightarrow> tt_rel a d"
  unfolding tt_rel_def using tt_frame_trans by blast

text \<open>On the transport and the configuration.\<close>

definition tran_core :: "'t pc_client \<Rightarrow> 't option \<times> pc_client_config" where
  "tran_core c = (tran c, config c)"

definition tran_rel :: "'z tr_uv_tcp_scheme option \<times> pc_client_config \<Rightarrow> 'z tr_uv_tcp_scheme option \<times> pc_client_config \<Rightarrow> bool" where
  "tran_rel = (\<lambda>(t, k) (t', k'). k' = k \<and> (\<forall>tt. t = Some tt \<longrightarrow> (\<exists>tt'. t' = Some tt' \<and> tt_rel tt tt')))"

text \<open>
  The account of requests and notifies as well: whatever is newly accepted and not settled has
  gained a write item. With polling the responses are pending events for a while; the account
  is stated without.
\<close>

definition account_core :: "'t pc_client \<Rightarrow> 't option \<times> pc_client_config \<times> call list" where
  "account_core c = (tran c, config c, history c)"

definition account_rel :: "'z tr_uv_tcp_scheme option \<times> pc_client_config \<times> call list \<Rightarrow>
    'z tr_uv_tcp_scheme option \<times> pc_client_config \<times> call list \<Rightarrow> bool" where
  "account_rel = (\<lambda>(t, k, h) (t', k', h'). tran_rel (t, k) (t', k') \<and>
     (\<not> enable_polling k \<longrightarrow> (\<forall>tt tt' F. t = Some tt \<longrightarrow> t' = Some tt' \<longrightarrow> tt_inv F tt \<longrightarrow>
        accepted_keys h' + (settled_keys h + wi_keys (pre_wis tt) (all_wis tt)) \<subseteq>#
        accepted_keys h + (settled_keys h' + wi_keys (pre_wis tt') (all_wis tt')))))"

lemma tran_rel_refl: "tran_rel k k"
  by (auto simp: tran_rel_def)

lemma tran_rel_trans: "tran_rel a b \<Longrightarrow> tran_rel b d \<Longrightarrow> tran_rel a d"
  unfolding tran_rel_def using tt_rel_trans by (fastforce split: prod.splits)

lemma account_cancel:
  fixes a :: "'x multiset"
  assumes "a1 + x0 \<subseteq># a0 + x1" and "a2 + x1 \<subseteq># a1 + x2"
  shows "a2 + x0 \<subseteq># a0 + x2"
proof (rule mset_subset_eqI)
  fix k
  from assms [THEN mset_subset_eq_count, of k] show "count (a2 + x0) k \<le> count (a0 + x2) k"
    by simp
qed

lemma account_rel_trans:
  assumes "account_rel a b" and "account_rel b d"
  shows "account_rel a d"
proof -
  obtain t0 k0 h0 where a: "a = (t0, k0, h0)" by (cases a) auto
  obtain t1 k1 h1 where b: "b = (t1, k1, h1)" by (cases b) auto
  obtain t2 k2 h2 where d: "d = (t2, k2, h2)" by (cases d) auto
  have rel: "tran_rel (t0, k0) (t1, k1)" "tran_rel (t1, k1) (t2, k2)"
    using assms by (auto simp: a b d account_rel_def)
  show ?thesis
    unfolding account_rel_def a d prod.case
  proof (intro conjI impI allI)
    show "tran_rel (t0, k0) (t2, k2)"
      by (rule tran_rel_trans [OF rel])
  next
    fix tt tt' F
    assume k: "\<not> enable_polling k0" and t: "t0 = Some tt" "t2 = Some tt'" and inv: "tt_inv F tt"
    obtain tt1 where t1: "t1 = Some tt1" "tt_inv F tt1" and k1: "k1 = k0"
      using rel(1) t inv by (auto simp: tran_rel_def tt_rel_def)
    have i: "\<forall>tt tt' F. t0 = Some tt \<longrightarrow> t1 = Some tt' \<longrightarrow> tt_inv F tt \<longrightarrow>
        accepted_keys h1 + (settled_keys h0 + wi_keys (pre_wis tt) (all_wis tt)) \<subseteq>#
        accepted_keys h0 + (settled_keys h1 + wi_keys (pre_wis tt') (all_wis tt'))"
      "\<forall>tt tt' F. t1 = Some tt \<longrightarrow> t2 = Some tt' \<longrightarrow> tt_inv F tt \<longrightarrow>
        accepted_keys h2 + (settled_keys h1 + wi_keys (pre_wis tt) (all_wis tt)) \<subseteq>#
        accepted_keys h1 + (settled_keys h2 + wi_keys (pre_wis tt') (all_wis tt'))"
      using assms k k1 unfolding a b d account_rel_def prod.case by blast+
    show "accepted_keys h2 + (settled_keys h0 + wi_keys (pre_wis tt) (all_wis tt)) \<subseteq>#
        accepted_keys h0 + (settled_keys h2 + wi_keys (pre_wis tt') (all_wis tt'))"
      by (rule account_cancel [OF i(1) [rule_format, OF t(1) t1(1) inv] i(2) [rule_format, OF t1(1) t(2) t1(2)]])
  qed
qed

lemma account_relI:
  assumes "tran c' = tran c" "config c' = config c" "history c' = history c @ es"
    and "accepted_keys (history c') + settled_keys (history c) \<subseteq># accepted_keys (history c) + settled_keys (history c')"
  shows "account_rel (account_core c) (account_core c')"
proof -
  have "accepted_keys (history c') + (settled_keys (history c) + W) \<subseteq>#
      accepted_keys (history c) + (settled_keys (history c') + W)" for W
    using assms(4) by (simp add: add.assoc [symmetric])
  then show ?thesis
    using assms(1-2) by (auto simp: account_rel_def account_core_def tran_rel_def)
qed

interpretation tran_core: client_core "tran_core :: 'z tr_uv_tcp_scheme pc_client \<Rightarrow> _" tran_rel
proof unfold_locales
  show "tran_rel a b \<Longrightarrow> tran_rel b d \<Longrightarrow> tran_rel a d" for a b d
    by (rule tran_rel_trans)
qed (auto simp: tran_core_def tran_rel_refl)

interpretation account_core: client_core "account_core :: 'z tr_uv_tcp_scheme pc_client \<Rightarrow> _" account_rel
proof unfold_locales
  fix e and c :: "'z tr_uv_tcp_scheme pc_client"
  assume "\<not> accepts e"
  then show "account_rel (account_core c) (account_core (note_call e c))"
    by (intro account_relI [where es = "[e]"]) (auto simp: keys_note split: call.splits)
next
  show "account_rel a b \<Longrightarrow> account_rel b d \<Longrightarrow> account_rel a d" for a b d
    by (rule account_rel_trans)
qed (auto simp: account_core_def account_rel_def tran_rel_refl)

section \<open>Adding an item\<close>

lemma with_tt_Some: "with_tt f c = Some c' \<longleftrightarrow> (\<exists>tt. tran c = Some tt \<and> c' = c\<lparr>tran := Some (f tt)\<rparr>)"
  by (auto simp: with_tt_def)

lemma with_tt_simp: "tran c = Some tt \<Longrightarrow> with_tt f c = Some (c\<lparr>tran := Some (f tt)\<rparr>)"
  by (simp add: with_tt_def)

lemma all_wis_set_queue:
  "mset (all_wis (set_queue q rs tt)) + mset (wi_queues tt q) = mset (all_wis tt) + mset rs"
  by (cases q) (simp_all add: all_wis_def set_queue_def)

lemma all_wis_pool [simp]: "all_wis (tt\<lparr>pre_wis := p\<rparr>) = all_wis tt"
  by (simp add: all_wis_def)

lemma set_queue_fields [simp]:
  "pre_wis (set_queue q rs tt) = pre_wis tt" "wi_queues (set_queue q rs tt) q' = (if q' = q then rs else wi_queues tt q')"
  "tt_rest (set_queue q rs tt) = tt_rest tt" "signalled (set_queue q rs tt) = signalled tt"
  by (simp_all add: set_queue_def tt_rest_def)

lemma set_queue_vers [simp]:
  "dict_ver (set_queue q rs tt) = dict_ver tt" "route_to_code (set_queue q rs tt) = route_to_code tt"
  "code_to_route (set_queue q rs tt) = code_to_route tt" "proto_ver (set_queue q rs tt) = proto_ver tt"
  "client_protos (set_queue q rs tt) = client_protos tt" "server_protos (set_queue q rs tt) = server_protos tt"
  by (simp_all add: set_queue_def)

lemma wi_keys_perm: "mset q = mset q' \<Longrightarrow> wi_keys p q = wi_keys p q'"
  by (simp add: wi_keys_def)

text \<open>A new item in a queue other than that of the responses, filled in by \<open>f\<close>.\<close>

lemma add_wi:
  assumes inv: "tt_inv F tt" and alloc: "pool_alloc wi_type wi_upd dyn_wi (pre_wis tt) = (r, p)"
    and upd: "pool_upd r f p = Some p2"
    and f: "\<And>w. PC_IS_PRE_ALLOC (wi_type (f w)) = PC_IS_PRE_ALLOC (wi_type w)"
      "\<And>w. PC_PRE_ALLOC_IS_IDLE (wi_type (f w)) = PC_PRE_ALLOC_IS_IDLE (wi_type w)"
    and q: "q \<noteq> resp_pending_queue" and rs: "mset rs = add_mset r (mset (wi_queues tt q))"
    and tt': "tt' = set_queue q rs (tt\<lparr>pre_wis := p2\<rparr>)"
  shows "tt_inv F tt'"
    and "\<And>s. s \<in> set (all_wis tt) \<union> set F \<Longrightarrow> pool_get p2 s = pool_get (pre_wis tt) s"
    and "\<exists>x. pool_get p r = Some x \<and> pool_get p2 r = Some (f x) \<and>
      wi_keys p2 (all_wis tt') = wi_keys (pre_wis tt) (all_wis tt) + wi_key (f x)"
proof -
  have p0: "pool_inv wi_type (pre_wis tt) (all_wis tt @ F) {}"
    using inv by (simp add: tt_inv_def)
  have p1: "pool_inv wi_type p ((all_wis tt @ F) @ [r]) {}"
    by (rule wi_pool.inv_enqueue [OF p0 alloc])
  obtain x where x: "pool_get p r = Some x" and put: "pool_put r (f x) p = Some p2"
    using upd by (auto simp: pool_upd_Some)
  have p2: "pool_inv wi_type p2 ((all_wis tt @ F) @ [r]) {}"
    by (rule wi_pool.inv_put [OF p1 put x f(1) f(2)])
  have fresh: "r \<notin> set (all_wis tt) \<union> set F"
    using p1 by (auto simp: pool_inv_def)
  have all: "mset (all_wis tt') = add_mset r (mset (all_wis tt))"
    using all_wis_set_queue [of q rs "tt\<lparr>pre_wis := p2\<rparr>"] rs by (simp add: tt')
  show same: "\<And>s. s \<in> set (all_wis tt) \<union> set F \<Longrightarrow> pool_get p2 s = pool_get (pre_wis tt) s"
    using wi_pool.alloc_other(1) [OF alloc] pool_get_put [OF put] fresh by metis
  have sub: "set (wi_queues tt resp_pending_queue) \<subseteq> set (all_wis tt)"
    by (auto simp: all_wis_def)
  have resp: "\<forall>s \<in> set (wi_queues tt' resp_pending_queue). \<exists>w. pool_get p2 s = Some w \<and> TR_UV_WI_IS_RESP (wi_type w)"
  proof
    fix s assume "s \<in> set (wi_queues tt' resp_pending_queue)"
    then have s: "s \<in> set (wi_queues tt resp_pending_queue)" using q by (simp add: tt')
    then have "pool_get p2 s = pool_get (pre_wis tt) s" using same sub by blast
    then show "\<exists>w. pool_get p2 s = Some w \<and> TR_UV_WI_IS_RESP (wi_type w)"
      using inv s by (auto simp: tt_inv_def)
  qed
  have "mset ((all_wis tt @ F) @ [r]) = mset (all_wis tt' @ F)"
    by (simp add: all)
  from pool_inv_perm [OF this] p2 have "pool_inv wi_type p2 (all_wis tt' @ F) {}" by blast
  with resp show "tt_inv F tt'"
    using inv by (simp add: tt_inv_def tt' set_queue_def)
  have fx: "pool_get p2 r = Some (f x)"
    by (simp add: pool_get_put [OF put])
  have "wi_keys p2 (all_wis tt') = wi_keys p2 (all_wis tt @ [r])"
    by (rule wi_keys_perm) (simp add: all)
  also have "\<dots> = wi_keys (pre_wis tt) (all_wis tt) + wi_key (f x)"
    using same wi_keys_cong [of "all_wis tt" p2 "pre_wis tt"] by (simp add: fx)
  finally show "\<exists>x. pool_get p r = Some x \<and> pool_get p2 r = Some (f x) \<and>
      wi_keys p2 (all_wis tt') = wi_keys (pre_wis tt) (all_wis tt) + wi_key (f x)"
    using x fx by blast
qed

lemma fill_wi_flags:
  "PC_IS_PRE_ALLOC (wi_type (fill_wi E b seq rid tmo w)) = PC_IS_PRE_ALLOC (wi_type w)"
  "PC_PRE_ALLOC_IS_IDLE (wi_type (fill_wi E b seq rid tmo w)) = PC_PRE_ALLOC_IS_IDLE (wi_type w)"
  "wi_key (fill_wi E b seq rid tmo w) = (if rid = PC_NOTIFY_PUSH_REQ_ID then {#Inr seq#} else {#Inl rid#})"
  by (simp_all add: fill_wi_def flag_simps wi_key_def)

lemma fill_internal_flags:
  "PC_IS_PRE_ALLOC (wi_type (fill_internal E b w)) = PC_IS_PRE_ALLOC (wi_type w)"
  "PC_PRE_ALLOC_IS_IDLE (wi_type (fill_internal E b w)) = PC_PRE_ALLOC_IS_IDLE (wi_type w)"
  "wi_key (fill_internal E b w) = {#}"
  by (simp_all add: fill_internal_def flag_simps wi_key_def)

section \<open>The operations that the client calls\<close>

lemma tcp_connect_effect:
  assumes "tr_uv_tcp_connect h port opts c = Some (rc, c')" and "tran c = Some tt"
  shows "\<exists>tt'. c' = c\<lparr>tran := Some tt'\<rparr> \<and> tt_rest tt' = tt_rest tt \<and> (\<forall>a. signalled tt a \<longrightarrow> signalled tt' a) \<and>
    wi_queues tt' = wi_queues tt \<and> pre_wis tt' = pre_wis tt"
  using assms by (auto simp: tr_uv_tcp_connect_def with_tt_Some Option.bind_eq_Some_conv uv_async_send_def
      tt_rest_def split: option.splits)

lemma tcp_disconnect_effect:
  assumes "tr_uv_tcp_disconnect c = Some (rc, c')" and "tran c = Some tt"
  shows "\<exists>tt'. c' = c\<lparr>tran := Some tt'\<rparr> \<and> tt_rest tt' = tt_rest tt \<and> (\<forall>a. signalled tt a \<longrightarrow> signalled tt' a) \<and>
    wi_queues tt' = wi_queues tt \<and> pre_wis tt' = pre_wis tt"
  using assms by (auto simp: tr_uv_tcp_disconnect_def with_tt_Some Option.bind_eq_Some_conv uv_async_send_def
      tt_rest_def)

lemma upd_order:
  "tt\<lparr>wi_queues := a, pre_wis := b\<rparr> = (tt :: 'z tr_uv_tcp_scheme)\<lparr>pre_wis := b, wi_queues := a\<rparr>"
  by simp

lemma enqueue_code:
  assumes tt: "tran c = Some tt" and alloc: "pool_alloc wi_type wi_upd dyn_wi (pre_wis tt) = (r, p)"
  shows "do { c1 \<leftarrow> tt_lock c; (r, c2) \<leftarrow> alloc_wi c1; c3 \<leftarrow> with_tt (push_wi q r) c2; c4 \<leftarrow> put_wi r f c3;
      c5 \<leftarrow> tt_unlock c4; c6 \<leftarrow> with_tt g c5; Some (x, c6) } =
    map_option (\<lambda>p2. (x, c\<lparr>tran := Some (g (set_queue q (wi_queues tt q @ [r]) (tt\<lparr>pre_wis := p2\<rparr>)))\<rparr>))
      (pool_upd r f p)"
  using tt alloc
  by (cases "pool_upd r f p") (simp_all add: tt_lock_def alloc_wi_def put_wi_def tt_unlock_def with_tt_def Let_def
        push_wi_def set_queue_def upd_order)

lemma tcp_send_effect:
  assumes run: "tr_uv_tcp_send E rt seq m rid tmo c = Some (rc, c')" and tt: "tran c = Some tt"
  shows "rc \<noteq> PC_RC_OK \<and> c' = c \<or> rc = PC_RC_OK \<and> tt_state tt \<noteq> TR_UV_TCP_NOT_CONN \<and>
    (\<exists>pkg r p p2 q. pool_alloc wi_type wi_upd dyn_wi (pre_wis tt) = (r, p) \<and>
       pool_upd r (fill_wi E pkg seq rid tmo) p = Some p2 \<and>
       q = (if tt_state tt = TR_UV_TCP_DONE then write_wait_queue else conn_pending_queue) \<and>
       c' = c\<lparr>tran := Some (uv_async_send write_async
              (set_queue q (wi_queues tt q @ [r]) (tt\<lparr>pre_wis := p2\<rparr>)))\<rparr>)"
proof (cases "c' = c \<and> rc \<noteq> PC_RC_OK")
  case False
  define q where "q = (if tt_state tt = TR_UV_TCP_DONE then write_wait_queue else conn_pending_queue)"
  obtain r p where alloc: "pool_alloc wi_type wi_upd dyn_wi (pre_wis tt) = (r, p)"
    by (cases "pool_alloc wi_type wi_upd dyn_wi (pre_wis tt)")
  let ?enc = "pr_default_msg_encoder tt \<lparr>msg_id = rid, msg_route = rt, msg_text = m\<rparr>"
  have st: "tt_state tt \<noteq> TR_UV_TCP_NOT_CONN"
    using run tt False by (auto simp: tr_uv_tcp_send_def)
  then obtain enc where enc: "?enc = Some enc"
    using run tt by (auto simp: tr_uv_tcp_send_def Option.bind_eq_Some_conv split: if_splits)
  let ?pkg = "uv_buf_of (case enc of None \<Rightarrow> None | Some bs \<Rightarrow> pc_pkg_encode PC_PKG_DATA bs)"
  have "rc = PC_RC_OK \<and> (\<exists>p2. pool_upd r (fill_wi E ?pkg seq rid tmo) p = Some p2 \<and>
        c' = c\<lparr>tran := Some (uv_async_send write_async (set_queue q (wi_queues tt q @ [r]) (tt\<lparr>pre_wis := p2\<rparr>)))\<rparr>)"
    using run False st unfolding tr_uv_tcp_send_def tt enc Option.bind.simps Let_def enqueue_code [OF tt alloc]
    by (auto simp: q_def split: if_splits)
  with st have "tt_state tt \<noteq> TR_UV_TCP_NOT_CONN \<and> rc = PC_RC_OK \<and>
      (\<exists>pkg p2. pool_upd r (fill_wi E pkg seq rid tmo) p = Some p2 \<and>
        c' = c\<lparr>tran := Some (uv_async_send write_async (set_queue q (wi_queues tt q @ [r]) (tt\<lparr>pre_wis := p2\<rparr>)))\<rparr>)"
    by blast
  then show ?thesis
    using alloc q_def by blast
qed auto

text \<open>Changes that leave queues and items alone, and the send.\<close>

lemma same_items_rel:
  assumes "tt_rest tt' = tt_rest tt" "\<forall>a. signalled tt a \<longrightarrow> signalled tt' a" "wi_queues tt' = wi_queues tt"
    "pre_wis tt' = pre_wis tt"
  shows "tt_rel tt tt'" and "wi_keys (pre_wis tt') (all_wis tt') = wi_keys (pre_wis tt) (all_wis tt)"
  using assms tt_rest_fields [OF assms(1)] by (auto simp: tt_rel_def tt_inv_def tt_frame_def all_wis_def)

lemma send_rel:
  assumes alloc: "pool_alloc wi_type wi_upd dyn_wi (pre_wis tt) = (r, p)"
    and upd: "pool_upd r (fill_wi E pkg seq rid tmo) p = Some p2" and st: "tt_state tt \<noteq> TR_UV_TCP_NOT_CONN"
    and q: "q = (if tt_state tt = TR_UV_TCP_DONE then write_wait_queue else conn_pending_queue)"
    and tt': "tt' = uv_async_send write_async (set_queue q (wi_queues tt q @ [r]) (tt\<lparr>pre_wis := p2\<rparr>))"
  shows "tt_rel tt tt'"
    and "tt_inv F tt \<Longrightarrow> wi_keys (pre_wis tt') (all_wis tt') = wi_keys (pre_wis tt) (all_wis tt) +
      (if rid = PC_NOTIFY_PUSH_REQ_ID then {#Inr seq#} else {#Inl rid#})"
proof -
  let ?s = "set_queue q (wi_queues tt q @ [r]) (tt\<lparr>pre_wis := p2\<rparr>)"
  have eq: "tt_inv F tt' = tt_inv F ?s" "all_wis tt' = all_wis ?s" "pre_wis tt' = p2" for F
    by (simp_all add: tt' uv_async_send_def tt_inv_def all_wis_def)
  have q': "q \<noteq> resp_pending_queue" "mset (wi_queues tt q @ [r]) = add_mset r (mset (wi_queues tt q))"
    using q by auto
  note add = add_wi [OF _ alloc upd fill_wi_flags(1,2) q' refl]
  have rest: "tt_rest tt' = tt_rest tt"
    by (simp add: tt' uv_async_send_def tt_rest_def set_queue_def)
  have "tt_frame F tt tt'" if inv: "tt_inv F tt" for F
  proof -
    have "\<forall>s \<in> set (all_wis tt) \<union> set F. pool_get p2 s = pool_get (pre_wis tt) s"
      using add(2) [OF inv] by blast
    then show ?thesis
      using rest st q by (auto simp: tt_frame_def eq tt' uv_async_send_def)
  qed
  then show "tt_rel tt tt'"
    using add(1) by (auto simp: tt_rel_def eq)
  show "wi_keys (pre_wis tt') (all_wis tt') = wi_keys (pre_wis tt) (all_wis tt) +
      (if rid = PC_NOTIFY_PUSH_REQ_ID then {#Inr seq#} else {#Inl rid#})" if "tt_inv F tt"
    using add(3) [OF that] by (auto simp: eq fill_wi_flags)
qed

lemma tran_relI:
  assumes "config c' = config c" and "\<And>tt. tran c = Some tt \<Longrightarrow> \<exists>tt'. tran c' = Some tt' \<and> tt_rel tt tt'"
  shows "tran_rel (tran_core c) (tran_core c')"
  using assms by (auto simp: tran_rel_def tran_core_def)

lemma account_of_tran:
  assumes "tran_rel (tran_core c) (tran_core c')"
    and "\<And>tt tt' F. tran c = Some tt \<Longrightarrow> tran c' = Some tt' \<Longrightarrow> tt_inv F tt \<Longrightarrow>
        accepted_keys (history c') + (settled_keys (history c) + wi_keys (pre_wis tt) (all_wis tt)) \<subseteq>#
        accepted_keys (history c) + (settled_keys (history c') + wi_keys (pre_wis tt') (all_wis tt'))"
  shows "account_rel (account_core c) (account_core c')"
  using assms by (auto simp: account_rel_def account_core_def tran_core_def)

lemma account_tran: "account_rel (account_core c) (account_core c') \<Longrightarrow> tran_rel (tran_core c) (tran_core c')"
  by (auto simp: account_rel_def account_core_def tran_core_def)

text \<open>Both relations hold for the operations of the transport.\<close>

lemma tcp_op_rel:
  assumes "tran c' = map_option (\<lambda>_. tt') (tran c)" "config c' = config c" "history c' = history c"
    and "\<And>tt. tran c = Some tt \<Longrightarrow> tt_rest tt' = tt_rest tt \<and> (\<forall>a. signalled tt a \<longrightarrow> signalled tt' a) \<and>
      wi_queues tt' = wi_queues tt \<and> pre_wis tt' = pre_wis tt"
  shows "account_rel (account_core c) (account_core c')"
proof (rule account_of_tran)
  show "tran_rel (tran_core c) (tran_core c')"
    using assms same_items_rel(1) by (intro tran_relI) auto
qed (use assms in \<open>auto simp: all_wis_def\<close>)

lemma tcp_connect_rel: "related_rc account_rel account_core (tr_uv_tcp_connect h port opts)"
proof
  fix c x c'
  assume run: "tr_uv_tcp_connect h port opts c = Some (x, c')"
  then obtain tt where tt: "tran c = Some tt"
    by (auto simp: tr_uv_tcp_connect_def with_tt_Some Option.bind_eq_Some_conv)
  from tcp_connect_effect [OF run tt] show "account_rel (account_core c) (account_core c')"
    by (auto simp: tt intro!: tcp_op_rel)
qed

lemma tcp_disconnect_rel: "related_rc account_rel account_core tr_uv_tcp_disconnect"
proof
  fix c x c'
  assume run: "tr_uv_tcp_disconnect c = Some (x, c')"
  then obtain tt where tt: "tran c = Some tt"
    by (auto simp: tr_uv_tcp_disconnect_def with_tt_Some Option.bind_eq_Some_conv)
  from tcp_disconnect_effect [OF run tt] show "account_rel (account_core c) (account_core c')"
    by (auto simp: tt intro!: tcp_op_rel)
qed

lemma tcp_send_rel:
  assumes run: "tr_uv_tcp_send E rt seq m rid tmo (note_call e c) = Some (PC_RC_OK, c')"
    and e: "accepted_keys (history c @ [e]) = accepted_keys (history c) +
        (if rid = PC_NOTIFY_PUSH_REQ_ID then {#Inr seq#} else {#Inl rid#})"
      "settled_keys (history c @ [e]) = settled_keys (history c)"
  shows "account_rel (account_core c) (account_core c')"
proof -
  obtain tt where tt: "tran (note_call e c) = Some tt"
    using run by (auto simp: tr_uv_tcp_send_def Option.bind_eq_Some_conv)
  then have tt0: "tran c = Some tt" by simp
  obtain pkg r p p2 q where *: "tt_state tt \<noteq> TR_UV_TCP_NOT_CONN" "pool_alloc wi_type wi_upd dyn_wi (pre_wis tt) = (r, p)"
    "pool_upd r (fill_wi E pkg seq rid tmo) p = Some p2"
    "q = (if tt_state tt = TR_UV_TCP_DONE then write_wait_queue else conn_pending_queue)"
    and c': "c' = (note_call e c)\<lparr>tran := Some (uv_async_send write_async
              (set_queue q (wi_queues tt q @ [r]) (tt\<lparr>pre_wis := p2\<rparr>)))\<rparr>"
    using tcp_send_effect [OF run tt] by blast
  note rel = send_rel [OF *(2,3,1,4) refl]
  show ?thesis
  proof (rule account_of_tran)
    show "tran_rel (tran_core c) (tran_core c')"
      using rel(1) tt0 by (intro tran_relI) (auto simp: c')
  next
    fix tt1 tt2 F
    assume "tran c = Some tt1" "tran c' = Some tt2" "tt_inv F tt1"
    then have "tt1 = tt" and "wi_keys (pre_wis tt2) (all_wis tt2) = wi_keys (pre_wis tt) (all_wis tt) +
      (if rid = PC_NOTIFY_PUSH_REQ_ID then {#Inr seq#} else {#Inl rid#})"
      using rel(2) tt0 by (auto simp: c')
    then show "accepted_keys (history c') + (settled_keys (history c) + wi_keys (pre_wis tt1) (all_wis tt1)) \<subseteq>#
        accepted_keys (history c) + (settled_keys (history c') + wi_keys (pre_wis tt2) (all_wis tt2))"
      using e by (simp add: c' ac_simps)
  qed
qed

section \<open>Users\<close>

text \<open>Callbacks that use the entry points over TCP keep both relations, to any depth of nesting.\<close>

definition tcp_user :: "'z tr_uv_tcp_scheme user \<Rightarrow> bool" where
  "tcp_user U \<longleftrightarrow> client_rel account_core account_rel U \<and> client_user U"

lemma account_user_tran:
  assumes "client_rel account_core account_rel U"
  shows "client_rel tran_core tran_rel U"
proof (intro client_rel.intro client_rel_axioms.intro tran_core.client_core_axioms)
  show "related tran_rel tran_core (u_req U cb q rc resp)" for cb q rc resp
    by (rule relatedI, rule account_tran, rule relatedD [OF client_rel.rel_req [OF assms]])
  show "related tran_rel tran_core (u_ntf U cb n rc)" for cb n rc
    by (rule relatedI, rule account_tran, rule relatedD [OF client_rel.rel_ntf [OF assms]])
  show "related tran_rel tran_core (u_ev U cb t x a1 a2)" for cb t x a1 a2
    by (rule relatedI, rule account_tran, rule relatedD [OF client_rel.rel_ev [OF assms]])
  show "related tran_rel tran_core (u_destroy U d x)" for d x
    by (rule relatedI, rule account_tran, rule relatedD [OF client_rel.rel_destroy [OF assms]])
qed

lemma account_user_poll:
  assumes "client_rel account_core account_rel U"
  shows "related_rc account_rel account_core (pc_client_poll U)"
proof -
  have "client_rel_free tran_core tran_rel U"
    using account_user_tran [OF assms] by (simp add: client_rel_free_def client_rel_free_axioms_def tran_core_def)
  note poll = related_rcD [OF client_rel_free.rel_client_poll [OF this]]
  show ?thesis
  proof
    fix c x c'
    assume run: "pc_client_poll U c = Some (x, c')"
    show "account_rel (account_core c) (account_core c')"
    proof (cases "enable_polling (config c)")
      case True
      then show ?thesis
        using poll [OF run] by (auto simp: account_rel_def account_core_def tran_core_def)
    next
      case False
      then have "c' = c"
        using run by (simp add: pc_client_poll_def)
      then show ?thesis by (simp add: account_core.R_refl)
    qed
  qed
qed

lemma tcp_rel_world:
  assumes "client_rel account_core account_rel U"
  shows "client_rel_world account_core account_rel U (tcp_ops E es U)"
proof -
  have refused: "c' = c" if "tr_uv_tcp_send E rt seq m rid tmo c = Some (rc, c')" "rc \<noteq> PC_RC_OK"
    for rt seq m rid tmo rc and c c' :: "'a tr_uv_tcp_scheme pc_client"
  proof -
    note send = that
    obtain tt where "tran c = Some tt"
      using send by (auto simp: tr_uv_tcp_send_def Option.bind_eq_Some_conv)
    from tcp_send_effect [OF send(1) this] send(2) show ?thesis by blast
  qed
  show ?thesis
    unfolding tcp_ops_def
  proof (intro client_rel_world.intro client_rel_world_axioms.intro, goal_cases)
    case 1 show ?case by (rule assms)
  next
    case 2 show ?case by (simp add: tcp_connect_rel)
  next
    case 3 show ?case by (simp add: tcp_disconnect_rel)
  next
    case 4 then show ?case by (auto intro: refused)
  next
    case (5 q rt seq m tmo c c')
    then show ?case by (auto simp: keys_note intro!: tcp_send_rel)
  next
    case (6 rt n m tmo c c')
    then show ?case by (auto simp: keys_note intro!: tcp_send_rel)
  next
    case (7 q' q c)
    then show ?case
      by (intro account_relI [where es = "[Req_accepted q, Req_withdrawn q']"])
        (simp_all only: history_note keys_note, simp_all)
  next
    case (8 n' n c)
    then show ?case
      by (intro account_relI [where es = "[Ntf_accepted n, Ntf_withdrawn n']"])
        (simp_all only: history_note keys_note, simp_all)
  next
    case 9 show ?case by (rule account_user_poll [OF assms])
  qed
qed

lemma keeps_rc_tran:
  assumes "\<And>c x c'. f c = Some (x, c') \<Longrightarrow> \<exists>t. c' = c\<lparr>tran := t\<rparr> \<and> (tran c \<noteq> None \<longrightarrow> t \<noteq> None)"
  shows "keeps_rc f"
proof
  fix F G H c x c'
  assume inv: "client_inv F G H c" and "f c = Some (x, c')"
  then obtain t where "c' = c\<lparr>tran := t\<rparr>" "tran c \<noteq> None \<longrightarrow> t \<noteq> None"
    using assms by blast
  then show "client_inv F G H c' \<and> frame c c'"
    using inv by (auto simp: frame_def)
qed

lemma tcp_world:
  assumes "client_user U"
  shows "client_world U (tcp_ops E es U)"
proof -
  have send: "\<exists>t. c' = c\<lparr>tran := Some t\<rparr>" if "tr_uv_tcp_send E rt seq m rid tmo c = Some (rc, c')"
    for rt seq m rid tmo rc and c c' :: "'a tr_uv_tcp_scheme pc_client"
  proof -
    note run = that
    obtain tt where tt: "tran c = Some tt"
      using run by (auto simp: tr_uv_tcp_send_def Option.bind_eq_Some_conv)
    then have "c = c\<lparr>tran := Some tt\<rparr>" by simp
    with tcp_send_effect [OF run tt] show ?thesis by metis
  qed
  have conn: "\<exists>t. c' = c\<lparr>tran := Some t\<rparr>" if "tr_uv_tcp_connect h port opts c = Some (rc, c')"
    for h port opts rc and c c' :: "'a tr_uv_tcp_scheme pc_client"
    using that by (auto simp: tr_uv_tcp_connect_def with_tt_Some Option.bind_eq_Some_conv split: option.splits)
  have disc: "\<exists>t. c' = c\<lparr>tran := Some t\<rparr>" if "tr_uv_tcp_disconnect c = Some (rc, c')"
    for rc and c c' :: "'a tr_uv_tcp_scheme pc_client"
    using that by (auto simp: tr_uv_tcp_disconnect_def with_tt_Some Option.bind_eq_Some_conv)
  show ?thesis
    unfolding tcp_ops_def
  proof (intro client_world.intro client_world_axioms.intro, goal_cases)
    case 1 show ?case by (rule assms)
  next
    case 2 show ?case using conn by (simp, intro keeps_rc_tran) blast
  next
    case 3 show ?case using send by (simp, intro keeps_rc_tran) blast
  next
    case 4 show ?case using disc by (simp, intro keeps_rc_tran) blast
  next
    case 5 then show ?case using send by simp
  qed
qed

lemma tcp_script_user: "tcp_user (script_user (tcp_ops E es) S n)"
proof -
  have "client_rel account_core account_rel (script_user (tcp_ops E es) S n)"
    by (rule script_user_rel [OF account_core.client_core_axioms tcp_rel_world])
  moreover have "client_user (script_user (tcp_ops E es) S n)"
    by (rule script_user_ok [OF tcp_world])
  ultimately show ?thesis by (simp add: tcp_user_def)
qed

interpretation scripted_tcp: client_rel_world account_core account_rel "script_user (tcp_ops E es) S n"
    "tcp_ops E' es' (script_user (tcp_ops E es) S n)" for E es S n E' es'
  by (rule tcp_rel_world, rule tcp_script_user [unfolded tcp_user_def, THEN conjunct1])

interpretation scripted_tran: client_rel_free tran_core tran_rel "script_user (tcp_ops E es) S n" for E es S n
proof (intro client_rel_free.intro client_rel_free_axioms.intro)
  show "client_rel tran_core tran_rel (script_user (tcp_ops E es) S n)"
    by (rule account_user_tran, rule tcp_script_user [unfolded tcp_user_def, THEN conjunct1])
qed (simp add: tran_core_def)

end
