(* ===== verification/TcpSteps.thy ===== *)
theory TcpSteps
  imports TcpInv
begin

text \<open>
  Every callback of the event loop keeps the write items in order and the account of open
  requests and notifies. \<open>world X F P\<close>: the client's invariant holds, the transport's items are in
  its queues or in \<open>F\<close>, and, without polling, every request and notify that is not settled has a
  write item in a queue or is one of \<open>P\<close>, which the running callback is about to report.
\<close>

definition account :: "'z tt_client \<Rightarrow> (u32 + u32) multiset \<Rightarrow> bool" where
  "account c X \<longleftrightarrow> (\<not> enable_polling (config c) \<longrightarrow>
     accepted_keys (history c) \<subseteq># settled_keys (history c) + X)"

text \<open>
  What is known of the rest of the transport: the items that it holds, whether it is in order while
  the socket is writing or not, and what the parser satisfies.
\<close>

type_synonym 'z keeping = "('z \<Rightarrow> ref list) \<times> (bool \<Rightarrow> 'z \<Rightarrow> bool) \<times> (pc_pkg_parser \<Rightarrow> bool)"

definition tinv :: "'z keeping \<Rightarrow> ref list \<Rightarrow> 'z tr_uv_tcp_scheme \<Rightarrow> bool" where
  "tinv X F tt \<longleftrightarrow> tt_inv (F @ fst X (tr_uv_tcp.more tt)) tt \<and> fst (snd X) (is_writing tt) (tr_uv_tcp.more tt) \<and>
     snd (snd X) (pkg_parser tt) \<and> (\<forall>p. snd (snd X) p \<longrightarrow> snd (snd X) (pc_pkg_parser_reset p))"

definition items :: "'z keeping \<Rightarrow> 'z tr_uv_tcp_scheme \<Rightarrow> (u32 + u32) multiset" where
  "items X tt = wi_keys (pre_wis tt) (all_wis tt @ fst X (tr_uv_tcp.more tt))"

definition world :: "'z keeping \<Rightarrow> ref list \<Rightarrow> (u32 + u32) multiset \<Rightarrow> 'z tt_client \<Rightarrow> bool" where
  "world X F P c \<longleftrightarrow> client_inv {} {} {} c \<and> (\<exists>tt. tran c = Some tt \<and> tinv X F tt \<and> account c (items X tt + P))"

text \<open>What a report does besides: the callbacks' changes of the transport.\<close>

definition passes :: "ref list \<Rightarrow> 'z tt_client \<Rightarrow> 'z tt_client \<Rightarrow> bool" where
  "passes F c c' \<longleftrightarrow> config c' = config c \<and> (\<exists>tt tt'. tran c = Some tt \<and> tran c' = Some tt' \<and> tt_frame F tt tt')"

definition wkeeps :: "'z keeping \<Rightarrow> 'z tt_op \<Rightarrow> bool" where
  "wkeeps X f \<longleftrightarrow> (\<forall>F P c c'. world X F P c \<longrightarrow> f c = Some c' \<longrightarrow> world X F P c')"

definition wkeeps_rc :: "'z keeping \<Rightarrow> ('z tt_client \<Rightarrow> ('x \<times> 'z tt_client) option) \<Rightarrow> bool" where
  "wkeeps_rc X f \<longleftrightarrow> (\<forall>F P c x c'. world X F P c \<longrightarrow> f c = Some (x, c') \<longrightarrow> world X F P c')"

lemma worldE:
  assumes "world X F P c"
  obtains tt where "tran c = Some tt" "tinv X F tt" "account c (items X tt + P)" "client_inv {} {} {} c"
  using assms by (auto simp: world_def)

lemma account_mono: "account c X \<Longrightarrow> X \<subseteq># Y \<Longrightarrow> account c Y"
  unfolding account_def by (meson subset_mset.add_left_mono subset_mset.order_trans)

lemma account_tran_upd [simp]: "account (c\<lparr>tran := t\<rparr>) X = account c X"
  by (simp add: account_def)

lemma wkeepsI [intro?]: "(\<And>F P c c'. world X F P c \<Longrightarrow> f c = Some c' \<Longrightarrow> world X F P c') \<Longrightarrow> wkeeps X f"
  by (simp add: wkeeps_def)

lemma wkeepsD: "wkeeps X f \<Longrightarrow> world X F P c \<Longrightarrow> f c = Some c' \<Longrightarrow> world X F P c'"
  by (simp add: wkeeps_def)

lemma wkeeps_rcI [intro?]: "(\<And>F P c x c'. world X F P c \<Longrightarrow> f c = Some (x, c') \<Longrightarrow> world X F P c') \<Longrightarrow> wkeeps_rc X f"
  unfolding wkeeps_rc_def by blast

lemma wkeeps_rcD: "wkeeps_rc X f \<Longrightarrow> world X F P c \<Longrightarrow> f c = Some (x, c') \<Longrightarrow> world X F P c'"
  unfolding wkeeps_rc_def by blast

section \<open>The account of the client\<close>

text \<open>What is accepted is settled or in a queue of the client.\<close>

lemma client_account:
  assumes "client_inv F G H c"
  shows "accepted_keys (history c) = settled_keys (history c) +
    (image_mset (Inl \<circ> req_id) (mset (queued (requests c) (req_queue c))) +
     image_mset (Inr \<circ> rq_seq_num \<circ> ntf_base) (mset (queued (notifies c) (notify_queue c))))"
  using assms by (simp add: client_inv_def queue_inv_def accepted_keys_def settled_keys_def ac_simps)

lemma queue_find_None_image:
  assumes "queue_find (pool_get p) (\<lambda>x. f x = k) q = Some None"
  shows "k \<notin> f ` set (queued p q)"
  using assms by (force simp: queue_find_None queued_def)

lemma not_found_key:
  assumes inv: "client_inv F G H c"
  shows "queue_find (pool_get (requests c)) (\<lambda>r. req_id r = rid) (req_queue c) = Some None \<Longrightarrow>
      count (accepted_keys (history c)) (Inl rid) = count (settled_keys (history c)) (Inl rid)"
    and "queue_find (pool_get (notifies c)) (\<lambda>n. rq_seq_num (ntf_base n) = seq) (notify_queue c) = Some None \<Longrightarrow>
      count (accepted_keys (history c)) (Inr seq) = count (settled_keys (history c)) (Inr seq)"
proof -
  let ?R = "image_mset (Inl \<circ> req_id) (mset (queued (requests c) (req_queue c)))"
  let ?N = "image_mset (Inr \<circ> rq_seq_num \<circ> ntf_base) (mset (queued (notifies c) (notify_queue c)))"
  have sum: "count (accepted_keys (history c)) k = count (settled_keys (history c)) k + count (?R + ?N) k" for k
    using client_account [OF inv] by simp
  assume "queue_find (pool_get (requests c)) (\<lambda>r. req_id r = rid) (req_queue c) = Some None"
  from queue_find_None_image [OF this] have "Inl rid \<notin># ?R + ?N" by auto
  then show "count (accepted_keys (history c)) (Inl rid) = count (settled_keys (history c)) (Inl rid)"
    unfolding sum by (metis add_cancel_left_right not_in_iff)
next
  let ?R = "image_mset (Inl \<circ> req_id) (mset (queued (requests c) (req_queue c)))"
  let ?N = "image_mset (Inr \<circ> rq_seq_num \<circ> ntf_base) (mset (queued (notifies c) (notify_queue c)))"
  have sum: "count (accepted_keys (history c)) k = count (settled_keys (history c)) k + count (?R + ?N) k" for k
    using client_account [OF inv] by simp
  assume "queue_find (pool_get (notifies c)) (\<lambda>n. rq_seq_num (ntf_base n) = seq) (notify_queue c) = Some None"
  from queue_find_None_image [OF this] have "Inr seq \<notin># ?R + ?N" by auto
  then show "count (accepted_keys (history c)) (Inr seq) = count (settled_keys (history c)) (Inr seq)"
    unfolding sum by (metis add_cancel_left_right not_in_iff)
qed

lemma account_drop:
  fixes A :: "'x multiset"
  assumes "A \<subseteq># S + X" and "count A k = count S k"
  shows "A \<subseteq># S + (X - {#k#})"
proof (rule mset_subset_eqI)
  fix a
  show "count A a \<le> count (S + (X - {#k#})) a"
    using mset_subset_eq_count [OF assms(1), of a] assms(2) by (cases "a = k") auto
qed

lemma account_settle:
  fixes A :: "'x multiset"
  assumes "A \<subseteq># S + (W + P)" and "A' + (add_mset k S + W) \<subseteq># A + (S' + W')"
  shows "A' \<subseteq># S' + (W' + P - {#k#})"
proof (rule mset_subset_eqI)
  fix a
  show "count A' a \<le> count (S' + (W' + P - {#k#})) a"
    using mset_subset_eq_count [OF assms(1), of a] mset_subset_eq_count [OF assms(2), of a] by (cases "a = k") auto
qed

section \<open>Changes of the transport alone\<close>

lemma world_tran:
  assumes "world X F P c" and "tran c = Some tt" and "tinv X F' tt'" and "items X tt + P \<subseteq># items X tt' + P'"
  shows "world X F' P' (c\<lparr>tran := Some tt'\<rparr>)"
  using assms account_mono by (auto simp: world_def)

definition calm :: "'z tr_uv_tcp_scheme \<Rightarrow> 'z tr_uv_tcp_scheme \<Rightarrow> bool" where [simp]:
  "calm tt tt' \<longleftrightarrow> wi_queues tt' = wi_queues tt \<and> pre_wis tt' = pre_wis tt \<and> (vers_ok tt \<longrightarrow> vers_ok tt') \<and>
     tr_uv_tcp.more tt' = tr_uv_tcp.more tt \<and> is_writing tt' = is_writing tt \<and>
     (pkg_parser tt' = pkg_parser tt \<or> pkg_parser tt' = pc_pkg_parser_reset (pkg_parser tt))"

lemma same_items:
  assumes "calm tt tt'"
  shows "tinv X F tt \<Longrightarrow> tinv X F tt'" and "items X tt' = items X tt"
  using assms by (auto simp: tinv_def tt_inv_def items_def all_wis_def)

text \<open>Rules for the combinators that the callbacks are written with.\<close>

named_theorems wk \<open>operations of the transport that keep its world\<close>

lemma wkeeps_with_tt:
  assumes "\<And>tt. calm tt (f tt)"
  shows "wkeeps X (with_tt f)"
proof
  fix F P c c'
  assume w: "world X F P c" and run: "with_tt f c = Some c'"
  then obtain tt where tt: "tran c = Some tt" "tinv X F tt" "c' = c\<lparr>tran := Some (f tt)\<rparr>"
    by (auto simp: with_tt_Some elim: worldE)
  from same_items [OF assms] have "tinv X F (f tt)" "items X (f tt) = items X tt"
    using tt(2) by blast+
  from world_tran [OF w tt(1) this(1)] this(2) tt(3) show "world X F P c'" by simp
qed

lemma wk_Some [wk]: "wkeeps X Some" "wkeeps X (\<lambda>c. Some c)"
  by (simp_all add: wkeeps_def)

lemma wk_None [wk]: "wkeeps X (\<lambda>c. None)"
  by (simp add: wkeeps_def)

lemma wk_if [wk]: "wkeeps X f \<Longrightarrow> wkeeps X g \<Longrightarrow> wkeeps X (\<lambda>c. if b c then f c else g c)"
  by (rule wkeepsI) (auto dest: wkeepsD split: if_splits)

lemma wk_option [wk]: "wkeeps X f \<Longrightarrow> (\<And>x. wkeeps X (g x)) \<Longrightarrow> wkeeps X (\<lambda>c. case y of None \<Rightarrow> f c | Some x \<Rightarrow> g x c)"
  by (cases y) simp_all

lemma wk_Let [wk]: "(\<And>x. wkeeps X (g x)) \<Longrightarrow> wkeeps X (\<lambda>c. let x = h c in g x c)"
  by (simp add: wkeeps_def Let_def)

lemma wk_const [wk]: "(\<And>x. wkeeps X (g x)) \<Longrightarrow> wkeeps X (\<lambda>c. Option.bind y (\<lambda>x. g x c))"
  by (cases y) (simp_all add: wkeeps_def)

lemma wk_const_pair [wk]: "(\<And>x z. wkeeps X (g x z)) \<Longrightarrow> wkeeps X (\<lambda>c. Option.bind y (\<lambda>(x, z). g x z c))"
  by (cases y) (auto simp: wkeeps_def)

lemma wk_tran [wk]: "(\<And>tt. wkeeps X (g tt)) \<Longrightarrow> wkeeps X (\<lambda>c. Option.bind (tran c) (\<lambda>tt. g tt c))"
  by (rule wkeepsI) (auto simp: Option.bind_eq_Some_conv dest: wkeepsD)

lemma wk_assert [wk]: "wkeeps X g \<Longrightarrow> wkeeps X (\<lambda>c. Option.bind (assert_c (b c)) (\<lambda>u. g c))"
  by (simp add: wkeeps_def)

lemma wk_bind [wk]: "wkeeps X f \<Longrightarrow> (\<And>c0. wkeeps X (g c0)) \<Longrightarrow> wkeeps X (\<lambda>c. Option.bind (f c) (\<lambda>c1. g c c1))"
  by (rule wkeepsI) (auto simp: Option.bind_eq_Some_conv dest: wkeepsD)

lemma wk_bind_rc [wk]:
  "wkeeps_rc X f \<Longrightarrow> (\<And>c0 x. wkeeps X (g c0 x)) \<Longrightarrow> wkeeps X (\<lambda>c. Option.bind (f c) (\<lambda>(x, c1). g c x c1))"
  by (rule wkeepsI) (auto simp: Option.bind_eq_Some_conv dest: wkeepsD wkeeps_rcD)

lemma wk_fields [wk]: "wkeeps X tt_lock" "wkeeps X tt_unlock" "wkeeps X (start_secs E t n)"
proof -
  show "wkeeps X tt_lock"
    unfolding tt_lock_def by (rule wkeeps_with_tt) simp
  show "wkeeps X tt_unlock"
    unfolding tt_unlock_def [abs_def] by (intro wk wkeeps_with_tt) simp
  show "wkeeps X (start_secs E t n)"
    unfolding start_secs_def [abs_def] by (intro wk wkeeps_with_tt) (simp add: uv_timer_start_def Let_def)
qed

lemma wk_start_secs [wk]: "wkeeps X (\<lambda>c. start_secs E t (n c) c)"
  by (rule wkeepsI) (rule wkeepsD [OF wk_fields(3)])

section \<open>Items on their way\<close>

lemma pool_inv_out:
  "tt_inv (r # F) tt \<Longrightarrow> pool_inv wi_type (pre_wis tt) (all_wis tt @ F) {r} \<and> r \<notin> set (all_wis tt) \<union> set F"
  by (auto simp: tt_inv_def pool_inv_def)

lemma get_wi_tran: "tran c = Some tt \<Longrightarrow> get_wi r c = pool_get (pre_wis tt) r"
  by (simp add: get_wi_def)

lemma tt_item_exists:
  assumes "tt_inv F tt" and "r \<in> set (all_wis tt) \<union> set F"
  obtains w where "pool_get (pre_wis tt) r = Some w"
  using assms inv_get [of wi_type "pre_wis tt" "all_wis tt @ F" "{}" r] by (auto simp: tt_inv_def)

text \<open>Moving an item between the queues and the running callback.\<close>

lemma tt_wi_out:
  assumes inv: "tt_inv F tt" and q: "mset (wi_queues tt q) = add_mset r (mset rs)" "set rs \<subseteq> set (wi_queues tt q)"
  shows "tt_inv (r # F) (set_queue q rs tt)"
    and "wi_keys (pre_wis tt) (all_wis tt) = wi_key (the (pool_get (pre_wis tt) r)) + wi_keys (pre_wis tt) (all_wis (set_queue q rs tt))"
proof -
  have "add_mset r (mset (all_wis (set_queue q rs tt))) = mset (all_wis tt)"
    using all_wis_set_queue [of q rs tt] q by simp
  then have all: "mset (all_wis tt) = mset (r # all_wis (set_queue q rs tt))" by simp
  then have perm: "mset (all_wis tt @ F) = mset (all_wis (set_queue q rs tt) @ r # F)" by simp
  have "\<forall>s \<in> set (wi_queues (set_queue q rs tt) resp_pending_queue). \<exists>w. pool_get (pre_wis tt) s = Some w \<and> TR_UV_WI_IS_RESP (wi_type w)"
    using inv q(2) by (auto simp: tt_inv_def split: if_splits)
  then show "tt_inv (r # F) (set_queue q rs tt)"
    using inv pool_inv_perm [OF perm, of wi_type "pre_wis tt" "{}"] by (simp add: tt_inv_def)
  show "wi_keys (pre_wis tt) (all_wis tt) = wi_key (the (pool_get (pre_wis tt) r)) + wi_keys (pre_wis tt) (all_wis (set_queue q rs tt))"
    using wi_keys_perm [OF all] by simp
qed

lemma tt_put_in:
  assumes inv: "tt_inv (rs' @ F) tt" and rs: "mset rs = mset rs' + mset (wi_queues tt q)"
    and resp: "q = resp_pending_queue \<Longrightarrow> \<forall>r \<in> set rs'. \<exists>w. pool_get (pre_wis tt) r = Some w \<and> TR_UV_WI_IS_RESP (wi_type w)"
  shows "tt_inv F (set_queue q rs tt)" and "wi_keys (pre_wis tt) (all_wis (set_queue q rs tt)) = wi_keys (pre_wis tt) rs' + wi_keys (pre_wis tt) (all_wis tt)"
proof -
  have "mset (all_wis (set_queue q rs tt)) = mset rs' + mset (all_wis tt)"
    using all_wis_set_queue [of q rs tt] rs by simp
  then have all: "mset (all_wis (set_queue q rs tt)) = mset (rs' @ all_wis tt)" by simp
  then have perm: "mset (all_wis (set_queue q rs tt) @ F) = mset (all_wis tt @ rs' @ F)" by simp
  have "set rs = set rs' \<union> set (wi_queues tt q)"
    using arg_cong [OF rs, of set_mset] by simp
  then have "\<forall>s \<in> set (wi_queues (set_queue q rs tt) resp_pending_queue). \<exists>w. pool_get (pre_wis tt) s = Some w \<and> TR_UV_WI_IS_RESP (wi_type w)"
    using inv resp by (auto simp: tt_inv_def split: if_splits)
  then show "tt_inv F (set_queue q rs tt)"
    using inv pool_inv_perm [OF perm, of wi_type "pre_wis tt" "{}"] by (simp add: tt_inv_def)
  show "wi_keys (pre_wis tt) (all_wis (set_queue q rs tt)) = wi_keys (pre_wis tt) rs' + wi_keys (pre_wis tt) (all_wis tt)"
    using wi_keys_perm [OF all] by simp
qed

text \<open>The same with the items that the rest of the transport holds.\<close>

lemma set_queue_more [simp]: "tr_uv_tcp.more (set_queue q rs tt) = tr_uv_tcp.more tt"
  "pkg_parser (set_queue q rs tt) = pkg_parser tt" "is_writing (set_queue q rs tt) = is_writing tt"
  by (simp_all add: set_queue_def)

lemma item_exists:
  assumes "tinv X F tt" and "r \<in> set (all_wis tt) \<union> set F \<union> set (fst X (tr_uv_tcp.more tt))"
  obtains w where "pool_get (pre_wis tt) r = Some w"
  using assms tt_item_exists [of "F @ fst X (tr_uv_tcp.more tt)" tt r] by (auto simp: tinv_def)

lemma wi_out:
  assumes "tinv X F tt" and q: "mset (wi_queues tt q) = add_mset r (mset rs)" "set rs \<subseteq> set (wi_queues tt q)"
  shows "tinv X (r # F) (set_queue q rs tt)"
    and "items X tt = wi_key (the (pool_get (pre_wis tt) r)) + items X (set_queue q rs tt)"
  using assms(1) tt_wi_out [OF _ q] by (auto simp: tinv_def items_def)

lemma put_in:
  assumes "tinv X (rs' @ F) tt" and rs: "mset rs = mset rs' + mset (wi_queues tt q)"
    and resp: "q = resp_pending_queue \<Longrightarrow> \<forall>r \<in> set rs'. \<exists>w. pool_get (pre_wis tt) r = Some w \<and> TR_UV_WI_IS_RESP (wi_type w)"
  shows "tinv X F (set_queue q rs tt)" and "items X (set_queue q rs tt) = wi_keys (pre_wis tt) rs' + items X tt"
  using assms(1) tt_put_in [of rs' "F @ fst X (tr_uv_tcp.more tt)" tt rs q, OF _ rs resp]
  by (simp_all add: tinv_def items_def ac_simps)

lemma world_perm: "mset F = mset F' \<Longrightarrow> world X F P c = world X F' P c"
proof -
  assume "mset F = mset F'"
  then have "pool_inv wi_type (pre_wis tt) (all_wis tt @ F @ H) {} = pool_inv wi_type (pre_wis tt) (all_wis tt @ F' @ H) {}"
    for tt :: "'a tr_uv_tcp_scheme" and H by (intro pool_inv_perm) simp
  then show ?thesis
    by (simp add: world_def tinv_def tt_inv_def)
qed

lemma world_distinct: "world X (r # F) P c \<Longrightarrow> r \<notin> set F"
  by (auto elim!: worldE simp: tinv_def dest!: pool_inv_out)

lemma world_pop:
  assumes w: "world X F P c" and pop: "pop_wi q c = Some (Some (r, c1))"
  obtains tt rs wi where "tran c = Some tt" "wi_queues tt q = r # rs" "c1 = c\<lparr>tran := Some (set_queue q rs tt)\<rparr>"
    "get_wi r c1 = Some wi" "world X (r # F) (wi_key wi + P) c1"
proof -
  obtain tt where tt: "tran c = Some tt" "tinv X F tt"
    using w by (rule worldE)
  then obtain rs where rs: "wi_queues tt q = r # rs" and c1: "c1 = c\<lparr>tran := Some (set_queue q rs tt)\<rparr>"
    using pop by (auto simp: pop_wi_def with_tt_Some Option.bind_eq_Some_conv split: list.splits)
  have "r \<in> set (all_wis tt)"
    using rs by (cases q) (auto simp: all_wis_def)
  then obtain wi where wi: "pool_get (pre_wis tt) r = Some wi"
    using item_exists [OF tt(2)] by blast
  have "mset (wi_queues tt q) = add_mset r (mset rs)" "set rs \<subseteq> set (wi_queues tt q)"
    by (auto simp: rs)
  note out = wi_out [OF tt(2) this]
  have "world X (r # F) (wi_key wi + P) c1"
    unfolding c1 by (rule world_tran [OF w tt(1) out(1)]) (simp add: out(2) wi ac_simps)
  with that [OF tt(1) rs c1] wi show thesis
    by (simp add: c1 get_wi_def)
qed

text \<open>Putting several back: what they stand for is in the account again.\<close>

definition held :: "'z tt_client \<Rightarrow> ref list \<Rightarrow> (u32 + u32) multiset" where
  "held c rs = (\<Sum>r\<in>#mset rs. wi_key (the (get_wi r c)))"

definition all_resp :: "'z tt_client \<Rightarrow> ref list \<Rightarrow> bool" where
  "all_resp c rs \<longleftrightarrow> (\<forall>r \<in> set rs. \<exists>w. get_wi r c = Some w \<and> TR_UV_WI_IS_RESP (wi_type w))"

lemma held_simps [simp]: "held c [] = {#}" "held c (r # rs) = wi_key (the (get_wi r c)) + held c rs"
  "held c (xs @ ys) = held c xs + held c ys" "all_resp c []"
  "all_resp c (r # rs) \<longleftrightarrow> (\<exists>w. get_wi r c = Some w \<and> TR_UV_WI_IS_RESP (wi_type w)) \<and> all_resp c rs"
  "all_resp c (xs @ ys) \<longleftrightarrow> all_resp c xs \<and> all_resp c ys"
  by (auto simp: held_def all_resp_def)

lemma held_cong:
  assumes "\<forall>s \<in> set rs. get_wi s c' = get_wi s c"
  shows "held c' rs = held c rs" and "all_resp c' rs = all_resp c rs"
  using assms by (auto simp: held_def all_resp_def intro!: arg_cong [where f = sum_mset] image_mset_cong)

lemma held_tran: "tran c = Some tt \<Longrightarrow> held c rs = wi_keys (pre_wis tt) rs"
  by (simp add: held_def wi_keys_def get_wi_def)

lemma world_push:
  assumes w: "world X (rs @ F) (held c rs + P) c" and resp: "q = resp_pending_queue \<Longrightarrow> all_resp c rs"
    and push: "with_tt (\<lambda>tt. set_queue q (ins tt) tt) c = Some c'"
    and ins: "\<And>tt. mset (ins tt) = mset rs + mset (wi_queues tt q)"
  shows "world X F P c'"
proof -
  obtain tt where tt: "tran c = Some tt" "tinv X (rs @ F) tt"
    using w by (rule worldE)
  have "q = resp_pending_queue \<Longrightarrow> \<forall>r \<in> set rs. \<exists>w. pool_get (pre_wis tt) r = Some w \<and> TR_UV_WI_IS_RESP (wi_type w)"
    using resp tt(1) by (simp add: all_resp_def get_wi_def)
  note pi = put_in [OF tt(2) ins this]
  have c': "c' = c\<lparr>tran := Some (set_queue q (ins tt) tt)\<rparr>"
    using push tt(1) by (simp add: with_tt_def)
  show ?thesis
    unfolding c' by (rule world_tran [OF w tt(1) pi(1)]) (auto simp: pi(2) held_tran [OF tt(1)] ac_simps)
qed

text \<open>Changing an item that is on its way leaves the others alone.\<close>

lemma held_same:
  assumes "tt_inv (r # F) tt" and "\<And>s. s \<noteq> r \<Longrightarrow> pool_get p s = pool_get (pre_wis tt) s"
    and "s \<in> set (all_wis tt) \<union> set F"
  shows "pool_get p s = pool_get (pre_wis tt) s"
  using pool_inv_out [OF assms(1)] assms(2,3) by metis

lemma tt_resp_upd:
  assumes "tt_inv F tt" and "\<forall>s \<in> set (all_wis tt). pool_get p s = pool_get (pre_wis tt) s"
    and "pool_inv wi_type p (all_wis tt @ F') {}"
  shows "tt_inv F' (tt\<lparr>pre_wis := p\<rparr>)"
proof -
  have "\<forall>s \<in> set (wi_queues tt resp_pending_queue). pool_get p s = pool_get (pre_wis tt) s"
    using assms(2) by (auto simp: all_wis_def)
  then show ?thesis
    using assms by (simp add: tt_inv_def)
qed

lemma tinv_upd:
  assumes inv: "tinv X (r # F) tt" and other: "\<And>s. s \<noteq> r \<Longrightarrow> pool_get p s = pool_get (pre_wis tt) s"
  shows "pool_inv wi_type p (all_wis tt @ F' @ fst X (tr_uv_tcp.more tt)) {} \<Longrightarrow> tinv X F' (tt\<lparr>pre_wis := p\<rparr>)"
    and "items X (tt\<lparr>pre_wis := p\<rparr>) = items X tt"
proof -
  have tt: "tt_inv (r # F @ fst X (tr_uv_tcp.more tt)) tt" using inv by (simp add: tinv_def)
  note same = held_same [OF this other]
  then show "items X (tt\<lparr>pre_wis := p\<rparr>) = items X tt"
    using wi_keys_cong [of "all_wis tt" p "pre_wis tt"] wi_keys_cong [of "fst X (tr_uv_tcp.more tt)" p "pre_wis tt"]
    by (simp add: items_def)
  show "tinv X F' (tt\<lparr>pre_wis := p\<rparr>)" if "pool_inv wi_type p (all_wis tt @ F' @ fst X (tr_uv_tcp.more tt)) {}"
    using tt_resp_upd [OF tt _ that] same inv by (simp add: tinv_def)
qed

lemma world_free_buf:
  assumes w: "world X (r # F) P c" and run: "free_wi_buf r c = Some c'"
  shows "world X (r # F) P c'" and "get_wi r c = Some wi \<Longrightarrow> get_wi r c' = Some (wi\<lparr>wi_buf := \<lparr>buf_base = None, buf_len = 0\<rparr>\<rparr>)"
proof -
  obtain tt where tt: "tran c = Some tt" "tinv X (r # F) tt"
    using w by (rule worldE)
  obtain x p where x: "pool_get (pre_wis tt) r = Some x"
    and put: "pool_put r (x\<lparr>wi_buf := \<lparr>buf_base = None, buf_len = 0\<rparr>\<rparr>) (pre_wis tt) = Some p"
    and c': "c' = c\<lparr>tran := Some (tt\<lparr>pre_wis := p\<rparr>)\<rparr>"
    using run tt(1) by (auto simp: free_wi_buf_def put_wi_def with_tt_def Option.bind_eq_Some_conv pool_upd_Some)
  have p0: "pool_inv wi_type (pre_wis tt) (all_wis tt @ (r # F) @ fst X (tr_uv_tcp.more tt)) {}"
    using tt(2) by (simp add: tinv_def tt_inv_def)
  have p: "pool_inv wi_type p (all_wis tt @ (r # F) @ fst X (tr_uv_tcp.more tt)) {}"
    by (rule wi_pool.inv_put [OF p0 put x]) simp_all
  have other: "\<And>s. s \<noteq> r \<Longrightarrow> pool_get p s = pool_get (pre_wis tt) s"
    by (simp add: pool_get_put [OF put])
  have upd: "tinv X (r # F) (tt\<lparr>pre_wis := p\<rparr>)" "items X (tt\<lparr>pre_wis := p\<rparr>) = items X tt"
    using tinv_upd [OF tt(2) other] p by blast+
  show "world X (r # F) P c'"
    unfolding c' by (rule world_tran [OF w tt(1) upd(1)]) (simp add: upd(2))
  show "get_wi r c' = Some (wi\<lparr>wi_buf := \<lparr>buf_base = None, buf_len = 0\<rparr>\<rparr>)" if "get_wi r c = Some wi"
    using that x tt(1) by (simp add: c' get_wi_def pool_get_put [OF put])
qed

lemma world_release:
  assumes w: "world X (r # F) P c" and run: "release_wi r c = Some c'"
  shows "world X F P c'"
proof -
  obtain tt where tt: "tran c = Some tt" "tinv X (r # F) tt"
    using w by (rule worldE)
  obtain p where rel: "pool_release wi_type wi_upd r (pre_wis tt) = Some p" and c': "c' = c\<lparr>tran := Some (tt\<lparr>pre_wis := p\<rparr>)\<rparr>"
    using run tt(1) by (auto simp: release_wi_def with_tt_def Option.bind_eq_Some_conv)
  have "tt_inv (r # F @ fst X (tr_uv_tcp.more tt)) tt"
    using tt(2) by (simp add: tinv_def)
  from pool_inv_out [OF this] have p0: "pool_inv wi_type (pre_wis tt) (all_wis tt @ F @ fst X (tr_uv_tcp.more tt)) (insert r {})"
    by auto
  have p: "pool_inv wi_type p (all_wis tt @ F @ fst X (tr_uv_tcp.more tt)) {}"
    by (rule wi_pool.inv_release [OF p0 _ rel]) simp
  have inv: "tinv X F (tt\<lparr>pre_wis := p\<rparr>)" and "items X (tt\<lparr>pre_wis := p\<rparr>) = items X tt"
    using tinv_upd [OF tt(2) wi_pool.release_get_other [OF rel]] p by blast+
  then show ?thesis
    unfolding c' by (intro world_tran [OF w tt(1) inv]) simp
qed

lemma free_buf_other: "free_wi_buf r c = Some c' \<Longrightarrow> s \<noteq> r \<Longrightarrow> get_wi s c' = get_wi s c"
  by (auto simp: free_wi_buf_def put_wi_def with_tt_def get_wi_def Option.bind_eq_Some_conv pool_upd_Some pool_get_put)

lemma release_other: "release_wi r c = Some c' \<Longrightarrow> s \<noteq> r \<Longrightarrow> get_wi s c' = get_wi s c"
  by (auto simp: release_wi_def with_tt_def get_wi_def Option.bind_eq_Some_conv wi_pool.release_get_other)

lemma passes_get: "passes F c c' \<Longrightarrow> s \<in> set F \<Longrightarrow> get_wi s c' = get_wi s c"
  by (auto simp: passes_def tt_frame_def get_wi_def)

text \<open>Freeing the buffer and giving the item back.\<close>

lemma world_free_release:
  assumes "world X (r # F) P c" and "free_wi_buf r c = Some c1" and "release_wi r c1 = Some c'"
  shows "world X F P c'" and "\<forall>s \<in> set F. get_wi s c' = get_wi s c"
proof -
  show "world X F P c'"
    by (rule world_release [OF world_free_buf(1) [OF assms(1,2)] assms(3)])
  show "\<forall>s \<in> set F. get_wi s c' = get_wi s c"
    using world_distinct [OF assms(1)] free_buf_other [OF assms(2)] release_other [OF assms(3)] by metis
qed

lemma wk_move_queue [wk]: "q \<noteq> q' \<Longrightarrow> q' \<noteq> resp_pending_queue \<Longrightarrow> wkeeps X (with_tt (move_queue q q'))"
proof
  fix F P c c'
  assume q': "q \<noteq> q'" "q' \<noteq> resp_pending_queue" and w: "world X F P c" and run: "with_tt (move_queue q q') c = Some c'"
  then obtain tt where tt: "tran c = Some tt" "tinv X F tt" "c' = c\<lparr>tran := Some (move_queue q q' tt)\<rparr>"
    by (auto simp: with_tt_Some elim: worldE)
  have all: "mset (all_wis (move_queue q q' tt)) = mset (all_wis tt)"
    using q' by (cases q; cases q') (simp_all add: move_queue_def all_wis_def set_queue_def)
  then have "mset (all_wis (move_queue q q' tt) @ F') = mset (all_wis tt @ F')" for F' by simp
  note perm = pool_inv_perm [OF this, of wi_type "pre_wis tt" _ "{}"]
  have more: "tr_uv_tcp.more (move_queue q q' tt) = tr_uv_tcp.more tt" "pkg_parser (move_queue q q' tt) = pkg_parser tt"
    "is_writing (move_queue q q' tt) = is_writing tt"
    by (simp_all add: move_queue_def)
  have "tinv X F (move_queue q q' tt)"
    using tt(2) q' perm unfolding tinv_def more by (auto simp: tt_inv_def move_queue_def split: if_splits)
  moreover have "items X (move_queue q q' tt) = items X tt"
    using wi_keys_perm [OF all] more by (simp add: items_def move_queue_def)
  ultimately show "world X F P c'"
    unfolding tt(3) by (intro world_tran [OF w tt(1)]) simp_all
qed

section \<open>Reports\<close>

lemma tt_rest_more: "tt_rest tt' = tt_rest tt \<Longrightarrow> tr_uv_tcp.more tt' = tr_uv_tcp.more tt"
  by (drule arg_cong [of _ _ tr_uv_tcp.more]) (simp add: tt_rest_def)

lemma frame_tinv:
  assumes "tinv X F tt" and "tt_rel tt tt'"
  shows "tinv X F tt'" and "tt_frame F tt tt'" and "tr_uv_tcp.more tt' = tr_uv_tcp.more tt"
    and "wi_keys (pre_wis tt') (fst X (tr_uv_tcp.more tt)) = wi_keys (pre_wis tt) (fst X (tr_uv_tcp.more tt))"
proof -
  have f: "tt_inv (F @ fst X (tr_uv_tcp.more tt)) tt'" "tt_frame (F @ fst X (tr_uv_tcp.more tt)) tt tt'"
    using assms by (auto simp: tinv_def tt_rel_def)
  then have rest: "tt_rest tt' = tt_rest tt" by (simp add: tt_frame_def)
  show more: "tr_uv_tcp.more tt' = tr_uv_tcp.more tt" by (rule tt_rest_more [OF rest])
  show "tinv X F tt'"
    using f(1) assms(1) by (simp add: tinv_def more tt_rest_fields [OF rest])
  show "tt_frame F tt tt'"
    using f(2) by (auto simp: tt_frame_def)
  show "wi_keys (pre_wis tt') (fst X (tr_uv_tcp.more tt)) = wi_keys (pre_wis tt) (fst X (tr_uv_tcp.more tt))"
    by (rule wi_keys_cong) (use f(2) in \<open>auto simp: tt_frame_def\<close>)
qed

lemma account_relD:
  assumes rel: "account_rel (account_core d) (account_core c')" and tt: "tran d = Some tt" "tinv X F tt"
  obtains tt' where "tran c' = Some tt'" "tinv X F tt'" "tt_frame F tt tt'" "config c' = config d"
    "\<not> enable_polling (config d) \<Longrightarrow> accepted_keys (history c') + (settled_keys (history d) + items X tt) \<subseteq>#
      accepted_keys (history d) + (settled_keys (history c') + items X tt')"
proof -
  obtain tt' where tt': "tran c' = Some tt'" "tt_rel tt tt'" "config c' = config d"
    using rel tt(1) by (auto simp: account_rel_def account_core_def tran_rel_def)
  note f = frame_tinv [OF tt(2) tt'(2)]
  have "accepted_keys (history c') + (settled_keys (history d) + items X tt) \<subseteq>#
      accepted_keys (history d) + (settled_keys (history c') + items X tt')" if "\<not> enable_polling (config d)"
  proof -
    have "accepted_keys (history c') + (settled_keys (history d) + wi_keys (pre_wis tt) (all_wis tt)) \<subseteq>#
        accepted_keys (history d) + (settled_keys (history c') + wi_keys (pre_wis tt') (all_wis tt'))"
      using rel tt tt'(1) that by (auto simp: account_rel_def account_core_def tinv_def)
    then show ?thesis
      using f(3,4) by (simp add: items_def add.assoc [symmetric])
  qed
  then show thesis by (rule that [OF tt'(1) f(1,2) tt'(3)])
qed

lemma account_step:
  fixes A :: "'x multiset"
  assumes "A \<subseteq># S + (W + P)" and "A' + (S + W) \<subseteq># A + (S' + W')"
  shows "A' \<subseteq># S' + (W' + P)"
proof (rule mset_subset_eqI)
  fix a
  show "count A' a \<le> count (S' + (W' + P)) a"
    using mset_subset_eq_count [OF assms(1), of a] mset_subset_eq_count [OF assms(2), of a] by simp
qed

lemma related_world:
  assumes w: "world X F P c" and rel: "account_rel (account_core c) (account_core c')"
    and inv: "client_inv {} {} {} c'"
  shows "world X F P c'" and "passes F c c'"
proof -
  obtain tt where tt: "tran c = Some tt" "tinv X F tt" "account c (items X tt + P)"
    using w by (rule worldE)
  obtain tt' where tt': "tran c' = Some tt'" "tinv X F tt'" "tt_frame F tt tt'" "config c' = config c"
    and acc: "\<not> enable_polling (config c) \<Longrightarrow> accepted_keys (history c') + (settled_keys (history c) + items X tt) \<subseteq>#
      accepted_keys (history c) + (settled_keys (history c') + items X tt')"
    using account_relD [OF rel tt(1,2)] by blast
  have "account c' (items X tt' + P)"
    using tt(3) acc account_step tt'(4) by (auto simp: account_def)
  then show "world X F P c'"
    using inv tt' by (auto simp: world_def)
  show "passes F c c'"
    using tt(1) tt' by (auto simp: passes_def)
qed

lemma find_resp_Some:
  "find_resp p rid rs = Some (Some r) \<Longrightarrow>
    r \<in> set rs \<and> (\<exists>w. pool_get p r = Some w \<and> TR_UV_WI_IS_RESP (wi_type w) \<and> wi_req_id w = rid)"
  by (induction rs) (auto simp: Option.bind_eq_Some_conv split: if_splits)

locale tcp_callbacks =
  fixes U :: "'z tr_uv_tcp_scheme user"
  assumes user: "tcp_user U"

sublocale tcp_callbacks < client_user U
  using user by (simp add: tcp_user_def)

sublocale tcp_callbacks < acc: client_rel account_core account_rel U
  using user by (simp add: tcp_user_def)

lemma add_event_rel: "add_event flag d c = Some c' \<Longrightarrow> account_rel (account_core c) (account_core c')"
  by (rule account_relI [where es = "[]"]) (auto simp: add_event_def Option.bind_eq_Some_conv split: prod.splits)

context tcp_callbacks
begin

lemma rel_trans_fire_event: "related account_rel account_core (pc_trans_fire_event U t a1 a2)"
  using relatedD [OF acc.rel_fire_event] add_event_rel account_core.R_refl [of "account_core c" for c]
  by (auto simp: pc_trans_fire_event_def queue_event_code intro!: relatedI split: if_splits)

lemma rel_trans_resp: "related account_rel account_core (pc_trans_resp U rid rc resp)"
  using relatedD [OF acc.rel_resp] add_event_rel
  by (auto simp: pc_trans_resp_def queue_resp_code intro!: relatedI split: if_splits)

lemma rel_trans_sent: "related account_rel account_core (pc_trans_sent U seq rc)"
  using relatedD [OF acc.rel_sent] add_event_rel
  by (auto simp: pc_trans_sent_def queue_sent_code intro!: relatedI split: if_splits)

lemma fire_event_world:
  assumes "world X F P c" and "pc_trans_fire_event U t a1 a2 c = Some c'"
  shows "world X F P c'" and "passes F c c'"
proof -
  have "client_inv {} {} {} c'"
    using assms keepsD [OF keeps_trans_fire_event] by (auto elim: worldE)
  note * = related_world [OF assms(1) relatedD [OF rel_trans_fire_event assms(2)] this]
  show "world X F P c'" and "passes F c c'" by (rule *)+
qed

text \<open>A report settles its request, if that is still open.\<close>

lemma resp_world:
  assumes w: "world X F P c" and run: "pc_trans_resp U rid rc resp c = Some c'"
  obtains tt' where "tran c' = Some tt'" "tinv X F tt'" "client_inv {} {} {} c'" "passes F c c'"
    "account c' (items X tt' + P - {#Inl rid#})"
proof -
  obtain tt where tt: "tran c = Some tt" "tinv X F tt" "account c (items X tt + P)" and inv: "client_inv {} {} {} c"
    using w by (rule worldE)
  have inv': "client_inv {} {} {} c'"
    using run inv keepsD [OF keeps_trans_resp] by blast
  note rel = relatedD [OF rel_trans_resp run]
  obtain tt' where tt': "tran c' = Some tt'" "tinv X F tt'" "config c' = config c"
    using account_relD [OF rel tt(1,2)] by metis
  have "account c' (items X tt' + P - {#Inl rid#})"
  proof (cases "enable_polling (config c)")
    case True
    then show ?thesis by (simp add: account_def tt'(3))
  next
    case False
    then have "pc__trans_resp U rid rc resp c = Some c'"
      using run by (simp add: pc_trans_resp_def)
    then show ?thesis
    proof (rule acc.resp_cases)
      assume "c' = c" and "queue_find (pool_get (requests c)) (\<lambda>r. req_id r = rid) (req_queue c) = Some None"
      with not_found_key(1) [OF inv this(2)] tt tt' show ?thesis
        by (auto simp: account_def intro: account_drop)
    next
      fix q
      assume q: "req_id q = rid" and R: "account_rel (account_core (note_call (Req_answered q rc resp) c)) (account_core c')"
      have "tran (note_call (Req_answered q rc resp) c) = Some tt" by (simp add: tt(1))
      from account_relD [OF R this tt(2)] False
      have "accepted_keys (history c') + (add_mset (Inl rid) (settled_keys (history c)) + items X tt) \<subseteq>#
          accepted_keys (history c) + (settled_keys (history c') + items X tt')"
        using tt'(1) q by (simp add: keys_note) (metis option.inject)
      from account_settle [OF _ this, of P] tt(3) False tt'(3) show ?thesis
        by (simp add: account_def)
    qed
  qed
  then show thesis
    using that [OF tt'(1,2) inv' related_world(2) [OF w rel inv']] by blast
qed

lemma sent_world:
  assumes w: "world X F P c" and run: "pc_trans_sent U seq rc c = Some c'"
  obtains tt' where "tran c' = Some tt'" "tinv X F tt'" "client_inv {} {} {} c'" "passes F c c'"
    "account c' (items X tt' + P - {#Inr seq#})"
proof -
  obtain tt where tt: "tran c = Some tt" "tinv X F tt" "account c (items X tt + P)" and inv: "client_inv {} {} {} c"
    using w by (rule worldE)
  have inv': "client_inv {} {} {} c'"
    using run inv keepsD [OF keeps_trans_sent] by blast
  note rel = relatedD [OF rel_trans_sent run]
  obtain tt' where tt': "tran c' = Some tt'" "tinv X F tt'" "config c' = config c"
    using account_relD [OF rel tt(1,2)] by metis
  have "account c' (items X tt' + P - {#Inr seq#})"
  proof (cases "enable_polling (config c)")
    case True
    then show ?thesis by (simp add: account_def tt'(3))
  next
    case False
    then have "pc__trans_sent U seq rc c = Some c'"
      using run by (simp add: pc_trans_sent_def)
    then show ?thesis
    proof (rule acc.sent_cases)
      assume "c' = c" and "queue_find (pool_get (notifies c)) (\<lambda>n. rq_seq_num (ntf_base n) = seq) (notify_queue c) = Some None"
      with not_found_key(2) [OF inv this(2)] tt tt' show ?thesis
        by (auto simp: account_def intro: account_drop)
    next
      fix n
      assume n: "rq_seq_num (ntf_base n) = seq" and R: "account_rel (account_core (note_call (Ntf_answered n rc) c)) (account_core c')"
      have "tran (note_call (Ntf_answered n rc) c) = Some tt" by (simp add: tt(1))
      from account_relD [OF R this tt(2)] False
      have "accepted_keys (history c') + (add_mset (Inr seq) (settled_keys (history c)) + items X tt) \<subseteq>#
          accepted_keys (history c) + (settled_keys (history c') + items X tt')"
        using tt'(1) n by (simp add: keys_note) (metis option.inject)
      from account_settle [OF _ this, of P] tt(3) False tt'(3) show ?thesis
        by (simp add: account_def)
    qed
  qed
  then show thesis
    using that [OF tt'(1,2) inv' related_world(2) [OF w rel inv']] by blast
qed

lemma resp_settles:
  assumes w: "world X F (add_mset (Inl rid) P) c" and run: "pc_trans_resp U rid rc resp c = Some c'"
  shows "world X F P c'" and "\<forall>s \<in> set F. get_wi s c' = get_wi s c"
proof -
  obtain tt' where *: "tran c' = Some tt'" "tinv X F tt'" "client_inv {} {} {} c'" "passes F c c'"
    "account c' (items X tt' + add_mset (Inl rid) P - {#Inl rid#})"
    by (rule resp_world [OF w run])
  then show "world X F P c'" by (auto simp: world_def)
  from passes_get [OF *(4)] show "\<forall>s \<in> set F. get_wi s c' = get_wi s c" by blast
qed

lemma sent_settles:
  assumes w: "world X F (add_mset (Inr seq) P) c" and run: "pc_trans_sent U seq rc c = Some c'"
  shows "world X F P c'" and "\<forall>s \<in> set F. get_wi s c' = get_wi s c"
proof -
  obtain tt' where *: "tran c' = Some tt'" "tinv X F tt'" "client_inv {} {} {} c'" "passes F c c'"
    "account c' (items X tt' + add_mset (Inr seq) P - {#Inr seq#})"
    by (rule sent_world [OF w run])
  then show "world X F P c'" by (auto simp: world_def)
  from passes_get [OF *(4)] show "\<forall>s \<in> set F. get_wi s c' = get_wi s c" by blast
qed

lemma wk_reports [wk]: "wkeeps X (pc_trans_fire_event U t a1 a2)" "wkeeps X (pc_trans_resp U rid rc resp)"
  "wkeeps X (pc_trans_sent U seq rc)"
proof -
  show "wkeeps X (pc_trans_fire_event U t a1 a2)"
    by (rule wkeepsI) (rule fire_event_world(1))
  show "wkeeps X (pc_trans_resp U rid rc resp)"
  proof
    fix F P c c'
    assume w: "world X F P c" and run: "pc_trans_resp U rid rc resp c = Some c'"
    then have "client_inv {} {} {} c'"
      using keepsD [OF keeps_trans_resp] by (auto elim: worldE)
    from related_world(1) [OF w relatedD [OF rel_trans_resp run] this] show "world X F P c'" .
  qed
  show "wkeeps X (pc_trans_sent U seq rc)"
  proof
    fix F P c c'
    assume w: "world X F P c" and run: "pc_trans_sent U seq rc c = Some c'"
    then have "client_inv {} {} {} c'"
      using keepsD [OF keeps_trans_sent] by (auto elim: worldE)
    from related_world(1) [OF w relatedD [OF rel_trans_sent run] this] show "world X F P c'" .
  qed
qed

text \<open>What an item stands for is reported at most once, as a response or as a sent notify.\<close>

lemma report_item:
  assumes w: "world X (r # F) (wi_key wi + P) c"
  shows "(if TR_UV_WI_IS_RESP (wi_type wi) then pc_trans_resp U (wi_req_id wi) rc resp c
      else if TR_UV_WI_IS_NOTIFY (wi_type wi) then pc_trans_sent U (wi_seq_num wi) rc c else Some c) = Some c' \<Longrightarrow>
    world X (r # F) P c' \<and> (\<forall>s \<in> set (r # F). get_wi s c' = get_wi s c)"
proof -
  assume run: "(if TR_UV_WI_IS_RESP (wi_type wi) then pc_trans_resp U (wi_req_id wi) rc resp c
      else if TR_UV_WI_IS_NOTIFY (wi_type wi) then pc_trans_sent U (wi_seq_num wi) rc c else Some c) = Some c'"
  consider "TR_UV_WI_IS_RESP (wi_type wi)" | "\<not> TR_UV_WI_IS_RESP (wi_type wi)" "TR_UV_WI_IS_NOTIFY (wi_type wi)"
    | "\<not> TR_UV_WI_IS_RESP (wi_type wi)" "\<not> TR_UV_WI_IS_NOTIFY (wi_type wi)" by blast
  then show ?thesis
  proof cases
    case 1
    then have "world X (r # F) (add_mset (Inl (wi_req_id wi)) P) c" "pc_trans_resp U (wi_req_id wi) rc resp c = Some c'"
      using w run by (simp_all add: wi_key_def)
    from resp_settles [OF this] show ?thesis by blast
  next
    case 2
    then have "world X (r # F) (add_mset (Inr (wi_seq_num wi)) P) c" "pc_trans_sent U (wi_seq_num wi) rc c = Some c'"
      using w run by (simp_all add: wi_key_def)
    from sent_settles [OF this] show ?thesis by blast
  qed (use w run in \<open>simp add: wi_key_def\<close>)
qed

lemma resp_not_notify: "TR_UV_WI_IS_RESP t \<Longrightarrow> \<not> TR_UV_WI_IS_NOTIFY t"
  by (simp add: TR_UV_WI_IS_RESP_def TR_UV_WI_IS_NOTIFY_def TR_UV_WI_TYPE_RESP_def TR_UV_WI_TYPE_NOTIFY_def)

lemma reset_wi_world:
  assumes w: "world X (r # F) (wi_key wi + P) c" and wi: "get_wi r c = Some wi" and run: "tcp__reset_wi U r c = Some c'"
  shows "world X F P c'" and "\<forall>s \<in> set F. get_wi s c' = get_wi s c"
proof -
  obtain c1 c2 where c1: "(if TR_UV_WI_IS_RESP (wi_type wi) then pc_trans_resp U (wi_req_id wi) PC_RC_RESET None c
      else if TR_UV_WI_IS_NOTIFY (wi_type wi) then pc_trans_sent U (wi_seq_num wi) PC_RC_RESET c else Some c) = Some c1"
    and c2: "free_wi_buf r c1 = Some c2" "release_wi r c2 = Some c'"
    using run wi by (auto simp: tcp__reset_wi_def Option.bind_eq_Some_conv)
  from report_item [OF w c1] have "world X (r # F) P c1" "\<forall>s \<in> set (r # F). get_wi s c1 = get_wi s c" by blast+
  then show "world X F P c'" "\<forall>s \<in> set F. get_wi s c' = get_wi s c"
    using world_free_release [OF _ c2] by auto
qed

lemma expire_wi_world:
  assumes w: "world X (r # F) (wi_key wi + P) c" and run: "expire_wi U r wi c = Some c'"
  shows "world X F P c'" and "\<forall>s \<in> set F. get_wi s c' = get_wi s c"
proof -
  have swap: "(if TR_UV_WI_IS_NOTIFY (wi_type wi) then x else if TR_UV_WI_IS_RESP (wi_type wi) then y else z) =
      (if TR_UV_WI_IS_RESP (wi_type wi) then y else if TR_UV_WI_IS_NOTIFY (wi_type wi) then x else z)" for x y z :: "'z tt_client option"
    using resp_not_notify by auto
  obtain c1 c2 where c1: "(if TR_UV_WI_IS_RESP (wi_type wi) then pc_trans_resp U (wi_req_id wi) PC_RC_TIMEOUT None c
      else if TR_UV_WI_IS_NOTIFY (wi_type wi) then pc_trans_sent U (wi_seq_num wi) PC_RC_TIMEOUT c else Some c) = Some c1"
    and c2: "free_wi_buf r c1 = Some c2" "release_wi r c2 = Some c'"
    using run unfolding expire_wi_def swap by (auto simp: Option.bind_eq_Some_conv)
  from report_item [OF w c1] have "world X (r # F) P c1" "\<forall>s \<in> set (r # F). get_wi s c1 = get_wi s c" by blast+
  then show "world X F P c'" "\<forall>s \<in> set F. get_wi s c' = get_wi s c"
    using world_free_release [OF _ c2] by auto
qed

lemma report_wi_world:
  assumes w: "world X (r # F) (wi_key wi + P) c" and wi: "get_wi r c = Some wi" and run: "report_wi U rc r c = Some c'"
  shows "world X F P c'" and "\<forall>s \<in> set F. get_wi s c' = get_wi s c"
proof -
  let ?wi = "wi\<lparr>wi_buf := \<lparr>buf_base = None, buf_len = 0\<rparr>\<rparr>"
  obtain c1 where c1: "free_wi_buf r c = Some c1"
    using run by (auto simp: report_wi_def Option.bind_eq_Some_conv)
  obtain c2 c3 wi2 where c2: "(if TR_UV_WI_IS_NOTIFY (wi_type wi) then pc_trans_sent U (wi_seq_num ?wi) rc c1 else Some c1) = Some c2"
    and wi2: "get_wi r c2 = Some wi2"
    and c3: "(if TR_UV_WI_IS_RESP (wi_type wi2) then pc_trans_resp U (wi_req_id wi2) rc None c2 else Some c2) = Some c3"
    and rel: "release_wi r c3 = Some c'"
    using run world_free_buf(2) [OF w c1 wi] by (auto simp: report_wi_def c1 Option.bind_eq_Some_conv)
  note free = world_free_buf [OF w c1]
  have key: "wi_key ?wi = wi_key wi" by (simp add: wi_key_def)
  have step: "(if TR_UV_WI_IS_RESP (wi_type ?wi) then pc_trans_resp U (wi_req_id ?wi) rc None c1
      else if TR_UV_WI_IS_NOTIFY (wi_type ?wi) then pc_trans_sent U (wi_seq_num ?wi) rc c1 else Some c1) = Some c3"
  proof (cases "TR_UV_WI_IS_NOTIFY (wi_type wi)")
    case True
    then have "\<not> TR_UV_WI_IS_RESP (wi_type wi)" using resp_not_notify by blast
    moreover have w1: "world X (r # F) (add_mset (Inr (wi_seq_num wi)) P) c1"
      using free(1) True calculation by (simp add: wi_key_def)
    moreover have "get_wi r c2 = Some ?wi"
      using sent_settles(2) [OF w1, of rc c2] c2 True free(2) [OF wi] by simp
    ultimately show ?thesis
      using c2 c3 wi2 True by simp
  next
    case False
    then show ?thesis
      using c2 c3 wi2 free(2) [OF wi] by (auto split: if_splits)
  qed
  have "world X (r # F) (wi_key ?wi + P) c1"
    using free(1) by (simp only: key)
  from report_item [OF this step] have c3w: "world X (r # F) P c3" "\<forall>s \<in> set (r # F). get_wi s c3 = get_wi s c1" by blast+
  show "world X F P c'"
    by (rule world_release [OF c3w(1) rel])
  show "\<forall>s \<in> set F. get_wi s c' = get_wi s c"
    using c3w(2) release_other [OF rel] free_buf_other [OF c1] world_distinct [OF w] by (metis list.set_intros(2))
qed

section \<open>The loops over the queues\<close>

lemma wk_reset_queue [wk]: "wkeeps X (reset_queue U q)"
proof
  fix F P c c'
  have "reset_queue V q c = Some c' \<Longrightarrow> V = U \<Longrightarrow> world X F P c \<Longrightarrow> world X F P c'" for V q c c'
  proof (induction V q c c' rule: reset_queue.raw_induct [rotated, consumes 1])
    case (1 rec V q c c')
    then obtain p where p: "pop_wi q c = Some p"
      by (auto simp: Option.bind_eq_Some_conv)
    show ?case
    proof (cases p)
      case None
      then show ?thesis using 1 p by simp
    next
      case (Some p')
      obtain r c1 where pop: "pop_wi q c = Some (Some (r, c1))"
        using p Some by (cases p') simp
      then obtain c2 where c2: "tcp__reset_wi U r c1 = Some c2" and rest: "rec V q c2 = Some c'"
        using 1(2,3) by (auto simp: Option.bind_eq_Some_conv)
      obtain wi where "get_wi r c1 = Some wi" "world X (r # F) (wi_key wi + P) c1"
        using world_pop [OF 1(4) pop] by metis
      from reset_wi_world(1) [OF this(2,1) c2] show ?thesis
        by (rule 1(1) [OF rest 1(3)])
    qed
  qed
  then show "world X F P c \<Longrightarrow> reset_queue U q c = Some c' \<Longrightarrow> world X F P c'" by blast
qed

lemma wk_fail_writing [wk]: "wkeeps X (fail_writing U rc)"
proof
  fix F P c c'
  have "fail_writing V rc c = Some c' \<Longrightarrow> V = U \<Longrightarrow> world X F P c \<Longrightarrow> world X F P c'" for V rc c c'
  proof (induction V rc c c' rule: fail_writing.raw_induct [rotated, consumes 1])
    case (1 rec V rc c c')
    then obtain p where p: "pop_wi writing_queue c = Some p"
      by (auto simp: Option.bind_eq_Some_conv)
    show ?case
    proof (cases p)
      case None
      then show ?thesis using 1 p by simp
    next
      case (Some p')
      obtain r c1 where pop: "pop_wi writing_queue c = Some (Some (r, c1))"
        using p Some by (cases p') simp
      then obtain c2 where c2: "report_wi U rc r c1 = Some c2" and rest: "rec V rc c2 = Some c'"
        using 1(2,3) by (auto simp: Option.bind_eq_Some_conv)
      obtain wi where "get_wi r c1 = Some wi" "world X (r # F) (wi_key wi + P) c1"
        using world_pop [OF 1(4) pop] by metis
      from report_wi_world(1) [OF this(2,1) c2] show ?thesis
        by (rule 1(1) [OF rest 1(3)])
    qed
  qed
  then show "world X F P c \<Longrightarrow> fail_writing U rc c = Some c' \<Longrightarrow> world X F P c'" by blast
qed

lemma wk_written_loop [wk]: "wkeeps X (written_loop U status)"
proof
  fix F P c c'
  have "written_loop V status c = Some c' \<Longrightarrow> V = U \<Longrightarrow> world X F P c \<Longrightarrow> world X F P c'" for V status c c'
  proof (induction V status c c' rule: written_loop.raw_induct [rotated, consumes 1])
    case (1 rec V status c c')
    then obtain p where p: "pop_wi writing_queue c = Some p"
      by (auto simp: Option.bind_eq_Some_conv)
    show ?case
    proof (cases p)
      case None
      then show ?thesis using 1 p by simp
    next
      case (Some p')
      obtain r c1 where pop: "pop_wi writing_queue c = Some (Some (r, c1))"
        using p Some by (cases p') simp
      obtain wi where wi: "get_wi r c1 = Some wi" and w1: "world X (r # F) (wi_key wi + P) c1"
        using world_pop [OF 1(4) pop] by metis
      obtain c2 where c2: "(if status = 0 \<and> TR_UV_WI_IS_RESP (wi_type wi) then with_tt (push_wi resp_pending_queue r) c1
          else report_wi U status r c1) = Some c2" and rest: "rec V status c2 = Some c'"
        using 1(2,3) wi pop by (auto simp: Option.bind_eq_Some_conv)
      have "world X F P c2"
      proof (cases "status = 0 \<and> TR_UV_WI_IS_RESP (wi_type wi)")
        case True
        then have "with_tt (\<lambda>tt. set_queue resp_pending_queue (wi_queues tt resp_pending_queue @ [r]) tt) c1 = Some c2"
          using c2 by (simp add: push_wi_def [abs_def])
        from world_push [OF _ _ this, of X "[r]" F P] w1 wi True show ?thesis by simp
      next
        case False
        then have "report_wi U status r c1 = Some c2" using c2 by (simp split: if_splits)
        from report_wi_world(1) [OF w1 wi this] show ?thesis .
      qed
      then show ?thesis
        by (rule 1(1) [OF rest 1(3)])
    qed
  qed
  then show "world X F P c \<Longrightarrow> written_loop U status c = Some c' \<Longrightarrow> world X F P c'" by blast
qed

text \<open>The items that a check keeps are held in \<open>tmp\<close>.\<close>

lemma check_loop_world:
  assumes "check_loop U ct q tmp cont c = Some (tmp', cont', c')" and "world X (tmp @ F) (held c tmp + P) c"
    and "q = resp_pending_queue \<Longrightarrow> all_resp c tmp"
  shows "world X (tmp' @ F) (held c' tmp' + P) c' \<and> (q = resp_pending_queue \<longrightarrow> all_resp c' tmp')"
proof -
  have "check_loop V ct q tmp cont c = Some y \<Longrightarrow> V = U \<Longrightarrow> y = (tmp', cont', c') \<Longrightarrow>
      world X (tmp @ F) (held c tmp + P) c \<Longrightarrow> (q = resp_pending_queue \<longrightarrow> all_resp c tmp) \<Longrightarrow>
      world X (tmp' @ F) (held c' tmp' + P) c' \<and> (q = resp_pending_queue \<longrightarrow> all_resp c' tmp')" for V ct q tmp cont c y
  proof (induction V ct q tmp cont c y rule: check_loop.raw_induct [rotated, consumes 1])
    case (1 rec V ct q tmp cont c y)
    then obtain p where p: "pop_wi q c = Some p"
      by (auto simp: Option.bind_eq_Some_conv)
    show ?case
    proof (cases p)
      case None
      then show ?thesis using 1 p by simp
    next
      case (Some p')
      obtain r c1 where pop: "pop_wi q c = Some (Some (r, c1))"
        using p Some by (cases p') simp
      obtain tt rs wi where tt: "tran c = Some tt" "wi_queues tt q = r # rs" "c1 = c\<lparr>tran := Some (set_queue q rs tt)\<rparr>"
        and wi: "get_wi r c1 = Some wi" and w1: "world X (r # tmp @ F) (wi_key wi + (held c tmp + P)) c1"
        by (rule world_pop [OF 1(5) pop])
      have get1: "get_wi s c1 = get_wi s c" for s
        using tt by (simp add: get_wi_def)
      then have held1: "held c1 tmp = held c tmp" "all_resp c1 tmp = all_resp c tmp"
        using held_cong by blast+
      show ?thesis
      proof (cases "wi_timeout wi \<noteq> PC_WITHOUT_TIMEOUT \<and> ct > wi_ts wi + wi_timeout wi")
        case True
        then obtain c2 where c2: "expire_wi U r wi c1 = Some c2" and rest: "rec V ct q tmp cont c2 = Some y"
          using 1(2,3) pop wi by (auto simp: Option.bind_eq_Some_conv split: if_splits)
        note step = expire_wi_world [OF w1 c2]
        from step(2) have "\<forall>s \<in> set tmp. get_wi s c2 = get_wi s c1" by simp
        from held_cong [OF this] step(1) held1 have "world X (tmp @ F) (held c2 tmp + P) c2"
          "q = resp_pending_queue \<longrightarrow> all_resp c2 tmp" using 1(6) by simp_all
        then show ?thesis
          by (rule 1(1) [OF rest 1(3,4)])
      next
        case False
        then have rest: "rec V ct q (tmp @ [r]) (wi_timeout wi \<noteq> PC_WITHOUT_TIMEOUT \<or> cont) c1 = Some y"
          using 1(2,3) pop wi by (auto simp: Option.bind_eq_Some_conv split: if_splits)
        have "world X ((tmp @ [r]) @ F) (held c1 (tmp @ [r]) + P) c1"
          using w1 wi held1 world_perm [of "r # tmp @ F" "(tmp @ [r]) @ F" X "P + (wi_key wi + held c tmp)" c1] by (simp add: ac_simps)
        moreover have "q = resp_pending_queue \<longrightarrow> all_resp c1 (tmp @ [r])"
        proof
          assume q: "q = resp_pending_queue"
          obtain tt' where "tran c = Some tt'" "tinv X (tmp @ F) tt'" by (rule worldE [OF 1(5)])
          then have "\<exists>w. get_wi r c = Some w \<and> TR_UV_WI_IS_RESP (wi_type w)"
            using tt q by (auto simp: tinv_def tt_inv_def get_wi_def)
          then show "all_resp c1 (tmp @ [r])"
            using q 1(6) held1 get1 by simp
        qed
        ultimately show ?thesis
          by (rule 1(1) [OF rest 1(3,4)])
      qed
    qed
  qed
  then show ?thesis using assms by blast
qed

lemma wk_check_queue [wk]: "wkeeps_rc X (tcp__check_queue_timeout U E q cont)"
proof
  fix F P c x c'
  assume w: "world X F P c" and run: "tcp__check_queue_timeout U E q cont c = Some (x, c')"
  then obtain tmp cont' c1 where c1: "check_loop U (time_now E) q [] cont c = Some (tmp, cont', c1)"
    and c': "with_tt (\<lambda>tt. set_queue q (wi_queues tt q @ tmp) tt) c1 = Some c'"
    by (auto simp: tcp__check_queue_timeout_def Option.bind_eq_Some_conv)
  from check_loop_world [OF c1, of X F P] w have "world X (tmp @ F) (held c1 tmp + P) c1"
    "q = resp_pending_queue \<Longrightarrow> all_resp c1 tmp" by simp_all
  from world_push [OF this c'] show "world X F P c'" by simp
qed

section \<open>The callbacks\<close>

lemma wk_start_check [wk]: "wkeeps X (start_check E)"
  unfolding start_check_def [abs_def] by (intro wk)

lemma wk_reset_fields [wk]: "wkeeps X (\<lambda>c. with_tt (reset_fields (st c)) c)"
proof
  fix F P c c'
  assume "world X F P c" and "with_tt (reset_fields (st c)) c = Some c'"
  then show "world X F P c'"
    by (rule wkeepsD [OF wkeeps_with_tt, rotated]) (simp add: reset_fields_def uv_timer_stop_def Let_def)
qed

lemma wk_reset: "wkeeps X (tcp__reset U)"
  unfolding tcp__reset_def [abs_def] by (intro wk) simp_all

lemma wk_give_up [wk]: "wkeeps X (give_up U why)"
  unfolding give_up_def [abs_def] by (intro wk wkeeps_with_tt) simp

lemma wk_reconn: "wkeeps X reset \<Longrightarrow> wkeeps X (tcp__reconn U reset E)"
  unfolding tcp__reconn_def [abs_def] by (intro wk wkeeps_with_tt) auto

end

text \<open>The TCP transport's own write requests, where nothing else depends on them.\<close>

definition write_free :: "'z keeping \<Rightarrow> bool" where
  "write_free X \<longleftrightarrow> (\<forall>w w' m. fst (snd X) w m \<longrightarrow> fst (snd X) w' m)"

definition hooks_ok :: "'z keeping \<Rightarrow> 'z tt_hooks \<Rightarrow> bool" where
  "hooks_ok X K \<longleftrightarrow> wkeeps X (reset_fn K) \<and> (\<forall>E. wkeeps X (reconn_fn K E))"

lemma hooks_okD [wk]: "hooks_ok X K \<Longrightarrow> wkeeps X (reset_fn K)" "hooks_ok X K \<Longrightarrow> wkeeps X (reconn_fn K E)"
  by (simp_all add: hooks_ok_def)

context tcp_callbacks
begin

lemma tcp_hooks_ok: "hooks_ok X (tcp_hooks U)"
  using wk_reset wk_reconn [OF wk_reset] by (simp add: hooks_ok_def tcp_hooks_def)

lemma wk_connect_error [wk]: "hooks_ok X K \<Longrightarrow> wkeeps X (connect_error U K E why)"
  unfolding connect_error_def [abs_def] by (intro wk)

lemma wk_conn_async: "hooks_ok X K \<Longrightarrow> wkeeps X (tcp__conn_async_cb U K E)"
  unfolding tcp__conn_async_cb_def [abs_def] by (intro wk wkeeps_with_tt) simp_all

lemma wk_is_writing: "write_free X \<Longrightarrow> wkeeps X (with_tt (\<lambda>tt. tt\<lparr>is_writing := b\<rparr>))"
  unfolding wkeeps_def
proof (intro allI impI)
  fix F P c c'
  assume J: "write_free X" and w: "world X F P c" and run: "with_tt (\<lambda>tt. tt\<lparr>is_writing := b\<rparr>) c = Some c'"
  then obtain tt where tt: "tran c = Some tt" "tinv X F tt" "c' = c\<lparr>tran := Some (tt\<lparr>is_writing := b\<rparr>)\<rparr>"
    by (auto simp: with_tt_Some elim: worldE)
  have "fst (snd X) b (tr_uv_tcp.more tt)" using J tt(2) unfolding write_free_def tinv_def by blast
  then have "tinv X F (tt\<lparr>is_writing := b\<rparr>)" "items X (tt\<lparr>is_writing := b\<rparr>) = items X tt"
    using tt(2) by (simp_all add: tinv_def tt_inv_def items_def all_wis_def)
  then show "world X F P c'"
    unfolding tt(3) by (intro world_tran [OF w tt(1)]) simp_all
qed

lemma wk_write_async: "write_free X \<Longrightarrow> wkeeps X (tcp__write_async_cb U E)"
  unfolding tcp__write_async_cb_def [abs_def] by (intro wk wk_is_writing; (rule wkeeps_with_tt)?; simp)

lemma wk_write_done: "write_free X \<Longrightarrow> wkeeps X (tcp__write_done_cb U status)"
  unfolding tcp__write_done_cb_def [abs_def]
  by (intro wk wk_is_writing; (rule wkeeps_with_tt)?; simp add: uv_async_send_def)

lemma wk_check_timeout: "wkeeps X (tcp__write_check_timeout_cb U E)"
  unfolding tcp__write_check_timeout_cb_def [abs_def] by (intro wk)

lemma wk_disconnect_async: "hooks_ok X K \<Longrightarrow> wkeeps X (tcp__disconnect_async_cb U K)"
  unfolding tcp__disconnect_async_cb_def [abs_def] by (intro wk wkeeps_with_tt) simp_all

lemma wk_cleanup_async: "hooks_ok X K \<Longrightarrow> wkeeps X (tcp__cleanup_async_cb K)"
  unfolding tcp__cleanup_async_cb_def [abs_def] by (intro wk wkeeps_with_tt) (simp_all add: all_or_none_def)

lemma wk_proto_error [wk]: "hooks_ok X K \<Longrightarrow> wkeeps X (proto_error U K E why)"
  unfolding proto_error_def [abs_def] by (intro wk)

lemma wk_kick: "hooks_ok X K \<Longrightarrow> wkeeps X (tcp__on_kick_recieved U K)"
  unfolding tcp__on_kick_recieved_def [abs_def] by (intro wk)

lemma wk_hb_timeout: "hooks_ok X K \<Longrightarrow> wkeeps X (tcp__heartbeat_timeout_cb U K E)"
  unfolding tcp__heartbeat_timeout_cb_def [abs_def] by (intro wk)

text \<open>A package of the transport itself.\<close>

lemma add_tinv:
  assumes inv: "tinv X F tt" and alloc: "pool_alloc wi_type wi_upd dyn_wi (pre_wis tt) = (r, p)"
    and upd: "pool_upd r f p = Some p2"
    and f: "\<And>w. PC_IS_PRE_ALLOC (wi_type (f w)) = PC_IS_PRE_ALLOC (wi_type w)"
      "\<And>w. PC_PRE_ALLOC_IS_IDLE (wi_type (f w)) = PC_PRE_ALLOC_IS_IDLE (wi_type w)"
    and q: "q \<noteq> resp_pending_queue" and rs: "mset rs = add_mset r (mset (wi_queues tt q))"
    and tt': "tt' = set_queue q rs (tt\<lparr>pre_wis := p2\<rparr>)"
  shows "tinv X F tt'" and "\<exists>x. items X tt' = items X tt + wi_key (f x)"
proof -
  have inv': "tt_inv (F @ fst X (tr_uv_tcp.more tt)) tt" using inv by (simp add: tinv_def)
  note add = add_wi [OF inv' alloc upd f q rs tt']
  have more: "tr_uv_tcp.more tt' = tr_uv_tcp.more tt" "pkg_parser tt' = pkg_parser tt" "is_writing tt' = is_writing tt"
    by (simp_all add: tt')
  show "tinv X F tt'"
    using add(1) inv by (simp add: tinv_def more)
  have "wi_keys p2 (fst X (tr_uv_tcp.more tt)) = wi_keys (pre_wis tt) (fst X (tr_uv_tcp.more tt))"
    by (rule wi_keys_cong) (use add(2) in auto)
  then show "\<exists>x. items X tt' = items X tt + wi_key (f x)"
    using add(3) by (auto simp: items_def more tt' ac_simps)
qed

lemma wk_queue_internal [wk]: "wkeeps X (queue_internal E at_head buf)"
proof
  fix F P c c'
  assume w: "world X F P c" and run: "queue_internal E at_head buf c = Some c'"
  obtain tt where tt: "tran c = Some tt" "tinv X F tt"
    using w by (rule worldE)
  obtain r p where alloc: "pool_alloc wi_type wi_upd dyn_wi (pre_wis tt) = (r, p)"
    by (cases "pool_alloc wi_type wi_upd dyn_wi (pre_wis tt)")
  let ?rs = "if at_head then r # wi_queues tt write_wait_queue else wi_queues tt write_wait_queue @ [r]"
  obtain p2 where p2: "pool_upd r (fill_internal E buf) p = Some p2"
    and c': "c' = c\<lparr>tran := Some (uv_async_send write_async (set_queue write_wait_queue ?rs (tt\<lparr>pre_wis := p2\<rparr>)))\<rparr>"
    using run tt(1) alloc
    by (cases "pool_upd r (fill_internal E buf) p") (auto simp: queue_internal_def tt_lock_def alloc_wi_def put_wi_def
        tt_unlock_def with_tt_def Let_def set_queue_def upd_order)
  let ?tt = "set_queue write_wait_queue ?rs (tt\<lparr>pre_wis := p2\<rparr>)"
  have "mset ?rs = add_mset r (mset (wi_queues tt write_wait_queue))" by simp
  note add = add_tinv [OF tt(2) alloc p2 fill_internal_flags(1,2) _ this refl]
  have inv: "tinv X F ?tt" by (rule add(1)) simp
  have its: "items X ?tt = items X tt"
    using add(2) by (auto simp: fill_internal_flags split del: if_split)
  have "calm ?tt (uv_async_send write_async ?tt)"
    by (simp add: uv_async_send_def)
  from same_items [OF this] have "tinv X F (uv_async_send write_async ?tt)" "items X (uv_async_send write_async ?tt) = items X tt"
    using inv its by simp_all
  then show "world X F P c'"
    unfolding c' by (intro world_tran [OF w tt(1)]) simp_all
qed

lemma wk_send_heartbeat [wk]: "wkeeps X (tcp__send_heartbeat E)"
  unfolding tcp__send_heartbeat_def [abs_def] by (intro wk)

lemma wk_on_heartbeat: "wkeeps X (tcp__on_heartbeat E)"
  unfolding tcp__on_heartbeat_def [abs_def] by (intro wk wkeeps_with_tt) (simp_all add: uv_timer_stop_def)

lemma wk_heartbeat_timer: "wkeeps X (tcp__heartbeat_timer_cb E)"
  unfolding tcp__heartbeat_timer_cb_def [abs_def] by (intro wk wkeeps_with_tt) simp_all

lemma wk_send_handshake [wk]: "wkeeps X (tcp__send_handshake E)" "wkeeps X (tcp__send_handshake_ack E)"
  unfolding tcp__send_handshake_def [abs_def] tcp__send_handshake_ack_def [abs_def] by (intro wk)+

lemma wk_conn_done: "hooks_ok X K \<Longrightarrow> wkeeps X (tcp__conn_done_cb U K E status)"
  unfolding tcp__conn_done_cb_def [abs_def]
  by (intro wk wkeeps_with_tt) (simp_all add: uv_timer_stop_def uv_timer_start_def Let_def)

lemma setup_heartbeat_keeps [wk]: "wkeeps X (setup_heartbeat sys)"
  unfolding setup_heartbeat_def [abs_def] by (intro wk wkeeps_with_tt) simp_all

text \<open>A dictionary is replaced, dropped or kept as a whole, and so is the protocol.\<close>

lemma setup_dict_same:
  assumes "setup_dict sys tt = Some (b, sys', tt')"
  obtains (kept) "tt' = tt" | (replaced) dv r2c c2r where "tt' = tt\<lparr>dict_ver := dv, route_to_code := r2c, code_to_route := c2r\<rparr>"
    "all_or_none dv r2c c2r"
proof (cases "tt' = tt")
  case False
  then have "\<exists>dv r2c c2r. tt' = tt\<lparr>dict_ver := dv, route_to_code := r2c, code_to_route := c2r\<rparr> \<and> all_or_none dv r2c c2r"
    using assms unfolding setup_dict_def Option.bind_eq_Some_conv Let_def
    by (auto simp: Option.bind_eq_Some_conv all_or_none_def simp del: not_None_eq split: if_split_asm)
  then show thesis using replaced by blast
qed (rule kept)

lemma setup_proto_same:
  assumes "setup_proto sys tt = Some (b, tt')"
  obtains (kept) "tt' = tt" | (replaced) pv cp sp where "tt' = tt\<lparr>client_protos := cp, server_protos := sp, proto_ver := pv\<rparr>"
    "all_or_none pv cp sp"
proof (cases "tt' = tt")
  case False
  then have "\<exists>pv cp sp. (tt' = tt\<lparr>client_protos := cp, server_protos := sp, proto_ver := pv\<rparr> \<or>
    tt' = tt\<lparr>client_protos := cp, proto_ver := pv, server_protos := sp\<rparr>) \<and> all_or_none pv cp sp"
    using assms unfolding setup_proto_def Option.bind_eq_Some_conv Let_def
    by (auto simp: Option.bind_eq_Some_conv all_or_none_def simp del: not_None_eq split: if_split_asm option.split_asm)
  moreover have "tt\<lparr>client_protos := cp, proto_ver := pv, server_protos := sp\<rparr> =
    tt\<lparr>client_protos := cp, server_protos := sp, proto_ver := pv\<rparr>" for cp pv sp by simp
  ultimately show thesis using replaced by metis
qed (rule kept)

lemma wk_store [wk]: "wkeeps X store"
  unfolding store_def [abs_def] by (intro wk wkeeps_with_tt) simp_all

lemma wk_handshake_ok [wk]: "wkeeps X (handshake_ok U E sys)"
proof
  fix F P c c'
  assume w: "world X F P c" and run: "handshake_ok U E sys c = Some c'"
  obtain c1 tt sync1 sys1 tt1 sync2 tt2 where c1: "setup_heartbeat sys c = Some c1" and tt: "tran c1 = Some tt"
    and d: "setup_dict sys tt = Some (sync1, sys1, tt1)" and p: "setup_proto sys1 tt1 = Some (sync2, tt2)"
    and rest: "do { c3 \<leftarrow> (if local_storage_cb (config (c1\<lparr>tran := Some tt2\<rparr>)) \<noteq> None \<and> (sync1 \<or> sync2)
          then store (c1\<lparr>tran := Some tt2\<rparr>) else Some (c1\<lparr>tran := Some tt2\<rparr>));
        c4 \<leftarrow> tcp__send_handshake_ack E c3;
        c5 \<leftarrow> (if hb_interval tt2 \<noteq> - 1 then start_secs E hb_timer (hb_interval tt2) c4 else Some c4);
        c6 \<leftarrow> with_tt (\<lambda>tt. tt\<lparr>tt_state := TR_UV_TCP_DONE\<rparr>) c5;
        c7 \<leftarrow> pc_trans_fire_event U PC_EV_CONNECTED None None c6;
        with_tt (uv_async_send write_async) c7 } = Some c'"
    using run by (auto simp: handshake_ok_def with_tt_def Option.bind_eq_Some_conv)
  have w1: "world X F P c1" by (rule wkeepsD [OF setup_heartbeat_keeps w c1])
  then have inv: "tinv X F tt" using tt by (auto elim: worldE)
  have "calm tt tt1"
    by (rule setup_dict_same [OF d]) auto
  moreover have "calm tt1 tt2"
    by (rule setup_proto_same [OF p]) auto
  ultimately have "calm tt tt2" by auto
  from same_items [OF this] inv have "tinv X F tt2" "items X tt2 = items X tt" by simp_all
  then have w2: "world X F P (c1\<lparr>tran := Some tt2\<rparr>)"
    by (intro world_tran [OF w1 tt]) simp_all
  have "wkeeps X (\<lambda>c2. do { c3 \<leftarrow> (if local_storage_cb (config c2) \<noteq> None \<and> (sync1 \<or> sync2) then store c2 else Some c2);
        c4 \<leftarrow> tcp__send_handshake_ack E c3;
        c5 \<leftarrow> (if hb_interval tt2 \<noteq> - 1 then start_secs E hb_timer (hb_interval tt2) c4 else Some c4);
        c6 \<leftarrow> with_tt (\<lambda>tt. tt\<lparr>tt_state := TR_UV_TCP_DONE\<rparr>) c5;
        c7 \<leftarrow> pc_trans_fire_event U PC_EV_CONNECTED None None c6;
        with_tt (uv_async_send write_async) c7 })"
    by (intro wk wkeeps_with_tt) (simp_all add: uv_async_send_def)
  from wkeepsD [OF this w2 rest] show "world X F P c'" .
qed

lemma wk_handshake_failed [wk]: "hooks_ok X K \<Longrightarrow> wkeeps X (handshake_failed U K)"
  unfolding handshake_failed_def [abs_def] by (intro wk)

lemma wk_handshake_resp: "hooks_ok X K \<Longrightarrow> wkeeps X (tcp__on_handshake_resp U K E data)"
  unfolding tcp__on_handshake_resp_def [abs_def] by (intro wk wkeeps_with_tt) (simp_all add: uv_timer_stop_def)

text \<open>A response settles its request and removes the item that waited for it.\<close>

lemma response_world:
  assumes w: "world X F P c" and resp: "pc_trans_resp U rid rc m c = Some c1" and drop: "drop_resp rid c1 = Some c'"
  shows "world X F P c'"
proof -
  obtain tt where tt: "tran c1 = Some tt" "tinv X F tt" and inv: "client_inv {} {} {} c1"
    and acc: "account c1 (items X tt + P - {#Inl rid#})"
    by (rule resp_world [OF w resp])
  obtain t where t: "find_resp (pre_wis tt) rid (wi_queues tt resp_pending_queue) = Some t"
    using drop tt(1) by (auto simp: drop_resp_def Option.bind_eq_Some_conv)
  show ?thesis
  proof (cases t)
    case None
    then have "c' = c1" using drop tt(1) t by (simp add: drop_resp_def)
    then show ?thesis
      using tt inv account_mono [OF acc, of "items X tt + P"] by (auto simp: world_def)
  next
    case (Some r)
    then obtain wi where r: "r \<in> set (wi_queues tt resp_pending_queue)" and wi: "pool_get (pre_wis tt) r = Some wi"
      "TR_UV_WI_IS_RESP (wi_type wi)" "wi_req_id wi = rid"
      using find_resp_Some t by blast
    let ?tt = "set_queue resp_pending_queue (remove1 r (wi_queues tt resp_pending_queue)) tt"
    have "mset (wi_queues tt resp_pending_queue) = add_mset r (mset (remove1 r (wi_queues tt resp_pending_queue)))"
      using r by simp
    note out = wi_out [OF tt(2) this set_remove1_subset]
    have "items X tt + P - {#Inl rid#} = items X ?tt + P"
      using out(2) wi by (simp add: wi_key_def)
    then have w1: "world X (r # F) P (c1\<lparr>tran := Some ?tt\<rparr>)"
      using out(1) acc inv by (auto simp: world_def)
    obtain c2 where c2: "free_wi_buf r (c1\<lparr>tran := Some ?tt\<rparr>) = Some c2"
      and "do { wi \<leftarrow> get_wi r c2; if PC_IS_PRE_ALLOC (wi_type wi)
                   then do { c3 \<leftarrow> tt_lock c2; c4 \<leftarrow> release_wi r c3; tt_unlock c4 }
                   else release_wi r c2 } = Some c'"
      using drop tt(1) t Some by (auto simp: drop_resp_def with_tt_def Option.bind_eq_Some_conv)
    then obtain wi2 :: tr_uv_wi where rest: "(if PC_IS_PRE_ALLOC (wi_type wi2)
                   then do { c3 \<leftarrow> tt_lock c2; c4 \<leftarrow> release_wi r c3; tt_unlock c4 }
                   else release_wi r c2) = Some c'"
      by (auto simp: Option.bind_eq_Some_conv)
    note w2 = world_free_buf(1) [OF w1 c2]
    show ?thesis
    proof (cases "PC_IS_PRE_ALLOC (wi_type wi2)")
      case True
      then obtain c3 c4 where "tt_lock c2 = Some c3" "release_wi r c3 = Some c4" "tt_unlock c4 = Some c'"
        using rest by (auto simp: Option.bind_eq_Some_conv)
      then show ?thesis
        using w2 wkeepsD [OF wk_fields(1)] world_release wkeepsD [OF wk_fields(2)] by blast
    next
      case False
      then show ?thesis
        using rest w2 world_release by simp
    qed
  qed
qed

lemma wk_response [wk]: "wkeeps X (\<lambda>c. do { c1 \<leftarrow> pc_trans_resp U rid rc m c; drop_resp rid c1 })"
  by (rule wkeepsI) (auto simp: Option.bind_eq_Some_conv intro: response_world)

lemma wk_data: "hooks_ok X K \<Longrightarrow> wkeeps X (tcp__on_data_recieved U K E data)"
  unfolding tcp__on_data_recieved_def [abs_def]
  by (intro wk_response wk_tran wk_const wk_if wk_assert wk_reports wk_proto_error wk_None)

text \<open>
  The handler of the packages: what it leaves as parser is the parser that it was given, or that
  one reset.
\<close>

lemma world_parser:
  assumes "world (H, J, G) F P c" and "tran c = Some tt" and "G' p" and "\<And>q. G' q \<Longrightarrow> G' (pc_pkg_parser_reset q)"
  shows "world (H, J, G') F P (c\<lparr>tran := Some (tt\<lparr>pkg_parser := p\<rparr>)\<rparr>)"
  using assms by (auto simp: world_def tinv_def tt_inv_def items_def all_wis_def)

lemma pkg_handler_world:
  assumes K: "\<And>G. hooks_ok (H, J, G) K" and w: "world (H, J, G) F P c"
    and run: "tr_tcp_on_pkg_handler U K E ty b n p c = Some (p', c')"
  shows "world (H, J, \<lambda>q. q = p \<or> q = pc_pkg_parser_reset p) F P c'" and "p' = p \<or> p' = pc_pkg_parser_reset p"
proof -
  let ?X = "(H, J, \<lambda>q. q = p \<or> q = pc_pkg_parser_reset p)"
  obtain tt where tt: "tran c = Some tt" using w by (rule worldE)
  have w1: "world ?X F P (c\<lparr>tran := Some (tt\<lparr>pkg_parser := p\<rparr>)\<rparr>)"
    by (rule world_parser [OF w tt]) auto
  note K = K [of "\<lambda>q. q = p \<or> q = pc_pkg_parser_reset p"]
  have "wkeeps ?X (\<lambda>c1. if ty = PC_PKG_HANDSHAKE then tcp__on_handshake_resp U K E b c1
      else if ty = PC_PKG_HEARBEAT then tcp__on_heartbeat E c1
      else if ty = PC_PKG_DATA then tcp__on_data_recieved U K E (buf_bytes b) c1
      else if ty = PC_PKG_KICK then tcp__on_kick_recieved U K c1
      else None)"
    by (intro wk wk_handshake_resp [OF K] wk_on_heartbeat wk_data [OF K] wk_kick [OF K])
  from wkeepsD [OF this w1] run tt show w2: "world ?X F P c'"
    by (auto simp: tr_tcp_on_pkg_handler_def with_tt_def Option.bind_eq_Some_conv)
  from run obtain tt2 where "tran c' = Some tt2" "p' = pkg_parser tt2"
    by (auto simp: tr_tcp_on_pkg_handler_def Option.bind_eq_Some_conv)
  with w2 show "p' = p \<or> p' = pc_pkg_parser_reset p"
    by (auto simp: world_def tinv_def)
qed

end

text \<open>So it is a handler as the package parser wants it.\<close>

locale tcp_reader = tcp_callbacks U for U :: "'z tr_uv_tcp_scheme user" +
  fixes H :: "'z \<Rightarrow> ref list" and J :: "bool \<Rightarrow> 'z \<Rightarrow> bool" and K :: "'z tt_hooks" and E :: uv_env and F :: "ref list" and P :: "(u32 + u32) multiset"
  assumes hooks: "hooks_ok (H, J, G) K"

sublocale tcp_reader < packages: pkg_sink "tr_tcp_on_pkg_handler U K E" "\<lambda>c. \<exists>G. world (H, J, G) F P c"
proof
  fix s ty b p' s'
  assume "\<exists>G. world (H, J, G) F P s"
    and run: "tr_tcp_on_pkg_handler U K E ty (pkg_buf (complete_pkg ty b)) (length b) (complete_pkg ty b) s = Some (p', s')"
  then obtain G where "world (H, J, G) F P s" by blast
  note * = pkg_handler_world [OF hooks this run]
  then show "(\<exists>G. world (H, J, G) F P s') \<and> length (head_buf p') = 4 \<and> head_size p' = 4"
    by (auto simp: complete_pkg_def be24_bytes_def)
qed

context tcp_reader
begin

text \<open>A chunk of the stream: the handler gets the packages that it completes, one after the other.\<close>

lemma feed_packages:
  assumes "world (H, J, G) F P c" and "tran c = Some tt" and "pkg_parser_ok (pkg_parser tt)"
  shows "packages.feed_spec (pkg_pending (pkg_parser tt) @ data) c
    (pc_pkg_parser_feed (tr_tcp_on_pkg_handler U K E) (pkg_parser tt) c data)"
  using packages.feed_loop_spec [OF assms(3), of 0 data c] assms(1) by (auto simp: pc_pkg_parser_feed_def)

lemma feed_world:
  assumes w: "world (H, J, pkg_parser_ok) F P c" and tt: "tran c = Some tt"
    and run: "pc_pkg_parser_feed (tr_tcp_on_pkg_handler U K E) (pkg_parser tt) c data = Some (p, c1)"
    and c': "with_tt (\<lambda>tt. tt\<lparr>pkg_parser := p\<rparr>) c1 = Some c'"
  shows "world (H, J, pkg_parser_ok) F P c'"
proof -
  have ok: "pkg_parser_ok (pkg_parser tt)"
    using w tt by (auto simp: world_def tinv_def)
  from feed_packages [OF w tt ok, of data] run obtain G where w1: "world (H, J, G) F P c1" and p: "pkg_parser_ok p"
    by (auto simp: packages.feed_spec_def split: option.splits)
  obtain tt1 where tt1: "tran c1 = Some tt1" using w1 by (rule worldE)
  have "world (H, J, pkg_parser_ok) F P (c1\<lparr>tran := Some (tt1\<lparr>pkg_parser := p\<rparr>)\<rparr>)"
    by (rule world_parser [OF w1 tt1, of pkg_parser_ok, OF p]) (rule pkg_parser_ok_reset)
  then show ?thesis using c' tt1 by (simp add: with_tt_def)
qed

end

context tcp_callbacks
begin

lemma wk_read:
  assumes K: "\<And>G. hooks_ok (H, J, G) K"
  shows "wkeeps (H, J, pkg_parser_ok) (tcp__on_tcp_read_cb U K E nread buf)"
proof
  fix F P c c'
  assume w: "world (H, J, pkg_parser_ok) F P c" and run: "tcp__on_tcp_read_cb U K E nread buf c = Some c'"
  show "world (H, J, pkg_parser_ok) F P c'"
  proof (cases "nread < 0")
    case True
    have "wkeeps (H, J, pkg_parser_ok) (\<lambda>c. do { c1 \<leftarrow> pc_trans_fire_event U PC_EV_UNEXPECTED_DISCONNECT (Some ''Read Error Or Close'') None c;
        reconn_fn K E c1 })"
      using K by (intro wk)
    from wkeepsD [OF this w] run True show ?thesis by (simp add: tcp__on_tcp_read_cb_def)
  next
    case False
    obtain tt where tt: "tran c = Some tt" using w by (rule worldE)
    obtain p c1 where c1: "pc_pkg_parser_feed (tr_tcp_on_pkg_handler U K E) (pkg_parser tt) c (take (nat nread) buf) = Some (p, c1)"
      and c': "with_tt (\<lambda>tt. tt\<lparr>pkg_parser := p\<rparr>) c1 = Some c'"
      using run False tt by (auto simp: tcp__on_tcp_read_cb_def Option.bind_eq_Some_conv)
    have "tcp_reader U H J K" by unfold_locales (rule user, rule K)
    from tcp_reader.feed_world [OF this w tt c1 c'] show ?thesis .
  qed
qed

text \<open>Every event of the loop.\<close>

lemma wk_async_cb: "hooks_ok X K \<Longrightarrow> (a = write_async \<Longrightarrow> write_free X) \<Longrightarrow> wkeeps X (async_cb U K E a)"
  by (cases a) (simp_all add: wk_conn_async wk_write_async wk_disconnect_async wk_cleanup_async)

lemma wk_timer_cb:
  assumes "hooks_ok X K"
  shows "wkeeps X (timer_cb U K E t)"
proof -
  have "wkeeps X tcp__conn_timeout_cb" "wkeeps X tcp__reconn_delay_timer_cb"
    unfolding tcp__conn_timeout_cb_def [abs_def] tcp__reconn_delay_timer_cb_def
    by (intro wk wkeeps_with_tt; simp add: uv_timer_stop_def uv_async_send_def)+
  with assms show ?thesis
    by (cases t) (simp_all add: wk_check_timeout wk_heartbeat_timer wk_hb_timeout wk_connect_error
        tcp__handshake_timer_cb_def [abs_def])
qed

lemma wk_signal_off [wk]: "wkeeps X (with_tt (\<lambda>tt. tt\<lparr>signalled := (signalled tt)(a := False)\<rparr>))"
  "wkeeps X (with_tt (uv_timer_stop t))"
  by (rule wkeeps_with_tt, simp add: uv_timer_stop_def)+

lemma wk_dispatch:
  assumes K': "\<And>G. hooks_ok (H, J, G) K" and J: "\<And>G. write_free (H, J, G)"
  shows "wkeeps (H, J, pkg_parser_ok) (dispatch U K E ev)"
  by (cases ev) (auto simp: K' J wk_conn_done wk_write_done wk_read [OF K'] wk_async_cb wk_timer_cb
      dispatch.simps [abs_def] intro!: wk_bind wk_signal_off)

lemma wk_loop_step: "(\<And>G. hooks_ok (H, J, G) K) \<Longrightarrow> (\<And>G. write_free (H, J, G)) \<Longrightarrow> wkeeps (H, J, pkg_parser_ok) (loop_step U K e)"
  using wk_dispatch [of H J K "fst e" "snd e"] unfolding loop_step_def by (cases e) (simp, intro wk)

lemma wk_run_loop: "(\<And>G. hooks_ok (H, J, G) K) \<Longrightarrow> (\<And>G. write_free (H, J, G)) \<Longrightarrow> wkeeps (H, J, pkg_parser_ok) (run_loop U K es)"
  by (induction es) (auto intro!: wk wk_loop_step simp: run_loop.simps [abs_def])

lemma tcp_reader_own: "tcp_reader U H J (tcp_hooks U)"
  by unfold_locales (rule user, rule tcp_hooks_ok)

end

interpretation scripted_callbacks: tcp_callbacks "script_user (tcp_ops E es) S n" for E es S n
  by unfold_locales (rule tcp_script_user)

interpretation scripted_reader: tcp_reader "script_user (tcp_ops E es) S n" "\<lambda>_. []" "\<lambda>_ _. True" "tcp_hooks (script_user (tcp_ops E es) S n)" E' F P
  for E es S n E' F P
  by (rule scripted_callbacks.tcp_reader_own)

end
