(* ===== verification/TcpProps.thy ===== *)
theory TcpProps
  imports TcpSteps ClientProps
begin

text \<open>
  The properties of the TCP transport (\<open>src/tr/uv/tr_uv_tcp_i.c\<close>, \<open>tr_uv_tcp_aux.c\<close>) and of its
  composition with the client.
\<close>

section \<open>The transport on its own\<close>

text \<open>No items elsewhere, and the parser in order whenever no chunk is being parsed.\<close>

definition own :: "'z keeping" where
  "own = (\<lambda>_. [], \<lambda>_ _. True, pkg_parser_ok)"

definition item_keys :: "'z tr_uv_tcp_scheme \<Rightarrow> (u32 + u32) multiset" where
  "item_keys tt = wi_keys (pre_wis tt) (all_wis tt)"

lemma own_simps [simp]: "tinv own F tt \<longleftrightarrow> tt_inv F tt \<and> pkg_parser_ok (pkg_parser tt)" "items own tt = item_keys tt"
  by (auto simp: tinv_def own_def items_def item_keys_def pkg_parser_ok_reset)

section \<open>Callbacks that return\<close>

definition returning :: "'t user \<Rightarrow> bool" where
  "returning U \<longleftrightarrow> (\<forall>cb q rc resp d. u_req U cb q rc resp d \<noteq> None) \<and> (\<forall>cb n rc d. u_ntf U cb n rc d \<noteq> None)"

lemma queue_split:
  assumes "k \<in> (\<lambda>r. f (the (pool_get p r))) ` set q"
  obtains xs r ys where "q = xs @ r # ys" "f (the (pool_get p r)) = k" "\<forall>s \<in> set xs. f (the (pool_get p s)) \<noteq> k"
proof -
  obtain r where "r \<in> set q" "f (the (pool_get p r)) = k" using assms by blast
  from first_match [of r q "\<lambda>r. f (the (pool_get p r)) = k", OF this] that show thesis by metis
qed

lemma resp_returns:
  assumes user: "client_user U" and ret: "returning U" and inv: "client_inv F G H c" and rc: "rc_ok rc"
  obtains c' where "pc_trans_resp U rid rc resp c = Some c'"
proof (cases "enable_polling (config c)")
  case True
  obtain c' where "add_event PC_EV_SET_RESP (Ev_req rid rc resp) c = Some c'"
    using add_event_Some by blast
  then show ?thesis
    using that rc True by (simp add: pc_trans_resp_def queue_resp_code)
next
  case poll: False
  show ?thesis
  proof (cases "rid \<in> req_id ` set (queued (requests c) (req_queue c))")
    case True
    then have "rid \<in> (\<lambda>r. req_id (the (pool_get (requests c) r))) ` set (req_queue c)"
      by (auto simp: queued_def)
    then obtain xs r ys where q: "req_queue c = xs @ r # ys" and id: "req_id (the (pool_get (requests c) r)) = rid"
      and xs: "\<forall>s \<in> set xs. req_id (the (pool_get (requests c) s)) \<noteq> rid"
      by (rule queue_split)
    have r: "r \<in> set (req_queue c)" using q by simp
    then obtain x cb where x: "pool_get (requests c) r = Some x" "req_cb x = Some cb"
      using queued_accepted(1) [OF inv] by blast
    have "distinct (req_queue c)"
      using inv by (auto simp: client_inv_def queue_inv_def pool_inv_def)
    then have rm: "remove1 r (req_queue c) = xs @ ys"
      using q by (simp add: remove1_append)
    let ?c1 = "note_call (Req_answered x rc resp) (c\<lparr>req_queue := xs @ ys\<rparr>)"
    obtain d where d: "u_req U cb x rc resp ?c1 = Some d"
      using ret unfolding returning_def by blast
    have "client_inv (insert r F) G H ?c1"
      using answer_request [OF inv r x(1)] rm by simp
    then have "client_inv (insert r F) G H d"
      using keepsD [OF client_user.user_req [OF user] _ d] by blast
    from resp_effect [OF inv q xs x(1) _ x(2) rc d this] id x(1) show ?thesis
      using that poll by (auto simp: pc_trans_resp_def)
  next
    case False
    then show ?thesis
      using that poll resp_unknown [OF False inv] by (simp add: pc_trans_resp_def)
  qed
qed

lemma sent_returns:
  assumes user: "client_user U" and ret: "returning U" and inv: "client_inv F G H c" and rc: "rc_ok rc"
  obtains c' where "pc_trans_sent U seq rc c = Some c'"
proof (cases "enable_polling (config c)")
  case True
  obtain c' where "add_event PC_EV_SET_NOTIFY_SENT (Ev_notify seq rc) c = Some c'"
    using add_event_Some by blast
  then show ?thesis
    using that rc True by (simp add: pc_trans_sent_def queue_sent_code)
next
  case poll: False
  let ?key = "\<lambda>n. rq_seq_num (ntf_base n)"
  show ?thesis
  proof (cases "seq \<in> ?key ` set (queued (notifies c) (notify_queue c))")
    case True
    then have "seq \<in> (\<lambda>r. ?key (the (pool_get (notifies c) r))) ` set (notify_queue c)"
      by (auto simp: queued_def)
    then obtain xs r ys where q: "notify_queue c = xs @ r # ys" and id: "?key (the (pool_get (notifies c) r)) = seq"
      and xs: "\<forall>s \<in> set xs. ?key (the (pool_get (notifies c) s)) \<noteq> seq"
      by (rule queue_split)
    have r: "r \<in> set (notify_queue c)" using q by simp
    then obtain x cb where x: "pool_get (notifies c) r = Some x" "ntf_cb x = Some cb"
      using queued_accepted(2) [OF inv] by blast
    have "distinct (notify_queue c)"
      using inv by (auto simp: client_inv_def queue_inv_def pool_inv_def)
    then have rm: "remove1 r (notify_queue c) = xs @ ys"
      using q by (simp add: remove1_append)
    let ?c1 = "note_call (Ntf_answered x rc) (c\<lparr>notify_queue := xs @ ys\<rparr>)"
    obtain d where d: "u_ntf U cb x rc ?c1 = Some d"
      using ret unfolding returning_def by blast
    have "client_inv F (insert r G) H ?c1"
      using answer_notify [OF inv r x(1)] rm by simp
    then have "client_inv F (insert r G) H d"
      using keepsD [OF client_user.user_ntf [OF user] _ d] by blast
    from sent_effect [OF inv q xs x(1) _ x(2) rc d this] id x(1) show ?thesis
      using that poll by (auto simp: pc_trans_sent_def)
  next
    case False
    then show ?thesis
      using that poll sent_unknown [OF False inv] by (simp add: pc_trans_sent_def)
  qed
qed

section \<open>Resetting the transport\<close>

text \<open>While the transport is not connected, callbacks cannot queue anything.\<close>

lemma idle_frame:
  assumes "passes F c c'" and "tran c = Some tt" and "tt_state tt = TR_UV_TCP_NOT_CONN"
  obtains tt' where "tran c' = Some tt'" "wi_queues tt' = wi_queues tt" "pre_wis tt' = pre_wis tt"
    "tt_state tt' = TR_UV_TCP_NOT_CONN" "wq_mutex tt' = wq_mutex tt" "config c' = config c"
proof -
  obtain tt' where tt': "tran c' = Some tt'" "tt_frame F tt tt'" "config c' = config c"
    using assms(1,2) by (auto simp: passes_def)
  then have "tt_rest tt' = tt_rest tt" by (simp add: tt_frame_def)
  note rest = tt_rest_fields [OF this]
  show thesis
    by (rule that [OF tt'(1)]) (use tt' assms(3) rest in \<open>auto simp: tt_frame_def\<close>)
qed

context tcp_callbacks
begin

lemma report_returns:
  assumes ret: "returning U" and w: "world X F P c" and rc: "rc_ok rc" and tt: "tran c = Some tt"
    and st: "tt_state tt = TR_UV_TCP_NOT_CONN"
  obtains c' tt' where "(if TR_UV_WI_IS_RESP t then pc_trans_resp U rid rc resp c
      else if TR_UV_WI_IS_NOTIFY t then pc_trans_sent U seq rc c else Some c) = Some c'"
    "tran c' = Some tt'" "wi_queues tt' = wi_queues tt" "pre_wis tt' = pre_wis tt"
    "tt_state tt' = TR_UV_TCP_NOT_CONN" "wq_mutex tt' = wq_mutex tt" "config c' = config c"
proof -
  have inv: "client_inv {} {} {} c" using w by (rule worldE)
  consider "TR_UV_WI_IS_RESP t" | "\<not> TR_UV_WI_IS_RESP t" "TR_UV_WI_IS_NOTIFY t"
    | "\<not> TR_UV_WI_IS_RESP t" "\<not> TR_UV_WI_IS_NOTIFY t" by blast
  then show thesis
  proof cases
    case 1
    obtain c' where c': "pc_trans_resp U rid rc resp c = Some c'"
      by (rule resp_returns [OF client_user_axioms ret inv rc])
    have "passes F c c'" by (rule resp_world [OF w c'])
    from idle_frame [OF this tt st] show thesis using that c' 1 by auto
  next
    case 2
    obtain c' where c': "pc_trans_sent U seq rc c = Some c'"
      by (rule sent_returns [OF client_user_axioms ret inv rc])
    have "passes F c c'" by (rule sent_world [OF w c'])
    from idle_frame [OF this tt st] show thesis using that c' 2 by auto
  next
    case 3
    then show thesis using that tt st by simp
  qed
qed

lemma reset_wi_returns:
  assumes ret: "returning U" and w: "world X (r # F) (wi_key wi + P) c"
    and wi: "get_wi r c = Some wi" and tt: "tran c = Some tt" and st: "tt_state tt = TR_UV_TCP_NOT_CONN"
  obtains c' tt' where "tcp__reset_wi U r c = Some c'" "tran c' = Some tt'" "wi_queues tt' = wi_queues tt"
    "tt_state tt' = TR_UV_TCP_NOT_CONN" "wq_mutex tt' = wq_mutex tt" "config c' = config c"
proof -
  obtain c1 tt1 where c1: "(if TR_UV_WI_IS_RESP (wi_type wi) then pc_trans_resp U (wi_req_id wi) PC_RC_RESET None c
      else if TR_UV_WI_IS_NOTIFY (wi_type wi) then pc_trans_sent U (wi_seq_num wi) PC_RC_RESET c else Some c) = Some c1"
    and tt1: "tran c1 = Some tt1" "wi_queues tt1 = wi_queues tt" "tt_state tt1 = TR_UV_TCP_NOT_CONN"
      "wq_mutex tt1 = wq_mutex tt" "config c1 = config c"
    by (rule report_returns [OF ret w _ tt st, of PC_RC_RESET]) (auto simp: rc_ok_def)
  have w1: "world X (r # F) P c1" using report_item [OF w c1] by blast
  then have "tinv X (r # F) tt1" using tt1(1) by (auto elim: worldE)
  then obtain wi1 where wi1: "pool_get (pre_wis tt1) r = Some wi1"
    by (rule item_exists [of _ _ _ r]) auto
  let ?f = "\<lambda>w. w\<lparr>wi_buf := \<lparr>buf_base = None, buf_len = 0\<rparr>\<rparr>"
  obtain p where p: "pool_put r (?f wi1) (pre_wis tt1) = Some p"
    using pool_put_Some [OF wi1] by blast
  let ?c2 = "c1\<lparr>tran := Some (tt1\<lparr>pre_wis := p\<rparr>)\<rparr>"
  have c2: "free_wi_buf r c1 = Some ?c2"
    using tt1(1) wi1 p by (simp add: free_wi_buf_def put_wi_def pool_upd_def with_tt_def)
  have "world X (r # F) P ?c2" by (rule world_free_buf(1) [OF w1 c2])
  then have "tt_inv (r # F @ fst X (tr_uv_tcp.more tt1)) (tt1\<lparr>pre_wis := p\<rparr>)"
    by (auto elim!: worldE simp: tinv_def)
  then have "pool_inv wi_type p (all_wis tt1 @ F @ fst X (tr_uv_tcp.more tt1)) {r}"
    by (auto dest!: pool_inv_out)
  then obtain p2 where "pool_release wi_type wi_upd r p = Some p2"
    using wi_pool.inv_release_Some [of p _ _ r] by blast
  then have "release_wi r ?c2 = Some (?c2\<lparr>tran := Some (tt1\<lparr>pre_wis := p2\<rparr>)\<rparr>)"
    by (simp add: release_wi_def with_tt_def)
  then have "tcp__reset_wi U r c = Some (?c2\<lparr>tran := Some (tt1\<lparr>pre_wis := p2\<rparr>)\<rparr>)"
    using wi c1 c2 by (simp add: tcp__reset_wi_def)
  then show thesis
    using that tt1 by simp
qed

lemma reset_queue_returns:
  assumes ret: "returning U"
  shows "world X F P c \<Longrightarrow> tran c = Some tt \<Longrightarrow> tt_state tt = TR_UV_TCP_NOT_CONN \<Longrightarrow> wi_queues tt q = rs \<Longrightarrow>
    \<exists>c' tt'. reset_queue U q c = Some c' \<and> tran c' = Some tt' \<and> wi_queues tt' = (wi_queues tt)(q := []) \<and>
      tt_state tt' = TR_UV_TCP_NOT_CONN \<and> wq_mutex tt' = wq_mutex tt \<and> config c' = config c"
proof (induction rs arbitrary: c tt)
  case Nil
  then have "reset_queue U q c = Some c"
    by (subst reset_queue.simps) (simp add: pop_wi_def)
  then show ?case using Nil by auto
next
  case (Cons r rs)
  let ?tt = "set_queue q rs tt"
  have pop: "pop_wi q c = Some (Some (r, c\<lparr>tran := Some ?tt\<rparr>))"
    using Cons.prems by (simp add: pop_wi_def with_tt_def)
  obtain wi where wi: "get_wi r (c\<lparr>tran := Some ?tt\<rparr>) = Some wi"
    and w1: "world X (r # F) (wi_key wi + P) (c\<lparr>tran := Some ?tt\<rparr>)"
    by (rule world_pop [OF Cons.prems(1) pop])
  have tt: "tran (c\<lparr>tran := Some ?tt\<rparr>) = Some ?tt" and st: "tt_state ?tt = TR_UV_TCP_NOT_CONN"
    using Cons.prems(3) by (simp_all add: set_queue_def)
  obtain c2 tt2 where c2: "tcp__reset_wi U r (c\<lparr>tran := Some ?tt\<rparr>) = Some c2" "tran c2 = Some tt2"
    "wi_queues tt2 = wi_queues ?tt" "tt_state tt2 = TR_UV_TCP_NOT_CONN" "wq_mutex tt2 = wq_mutex ?tt"
    "config c2 = config (c\<lparr>tran := Some ?tt\<rparr>)"
    by (rule reset_wi_returns [OF ret w1 wi tt st])
  have "world X F P c2" by (rule reset_wi_world(1) [OF w1 wi c2(1)])
  moreover have "wi_queues tt2 q = rs" using c2(3) by simp
  ultimately obtain c' tt' where "reset_queue U q c2 = Some c'" "tran c' = Some tt'" "wi_queues tt' = (wi_queues tt2)(q := [])"
      "tt_state tt' = TR_UV_TCP_NOT_CONN" "wq_mutex tt' = wq_mutex tt2" "config c' = config c2"
    using Cons.IH [OF _ c2(2,4)] by blast
  moreover have "(wi_queues tt2)(q := []) = (wi_queues tt)(q := [])"
    using c2(3) by (auto simp: set_queue_def)
  ultimately show ?case
    using pop c2 by (subst reset_queue.simps) (auto simp: set_queue_def)
qed

lemma reset_returns:
  assumes ret: "returning U" and w: "world X [] P c" and tt: "tran c = Some tt"
  obtains c' tt' where "tcp__reset U c = Some c'" "tran c' = Some tt'" "wi_queues tt' = (\<lambda>_. [])"
    "tt_state tt' = TR_UV_TCP_NOT_CONN" "wq_mutex tt' = wq_mutex tt" "config c' = config c" "world X [] P c'"
proof -
  let ?tt = "move_queue write_wait_queue writing_queue (move_queue conn_pending_queue writing_queue
      ((reset_fields (state c) tt)\<lparr>wq_mutex := Suc (wq_mutex tt)\<rparr>))"
  let ?c4 = "c\<lparr>tran := Some ?tt\<rparr>"
  have mut: "wq_mutex (reset_fields (state c) tt) = wq_mutex tt"
    by (simp add: reset_fields_def uv_timer_stop_def Let_def)
  have run: "tcp__reset U c = do { c5 \<leftarrow> reset_queue U writing_queue ?c4; c6 \<leftarrow> reset_queue U resp_pending_queue c5; tt_unlock c6 }"
    using tt mut by (simp add: tcp__reset_def tt_lock_def with_tt_def)
  have "wkeeps X (\<lambda>c. do { c1 \<leftarrow> with_tt (reset_fields (state c)) c; c2 \<leftarrow> tt_lock c1;
      c3 \<leftarrow> with_tt (move_queue conn_pending_queue writing_queue) c2;
      with_tt (move_queue write_wait_queue writing_queue) c3 })"
    by (intro wk) simp_all
  from wkeepsD [OF this w, of ?c4] have w4: "world X [] P ?c4"
    using tt mut by (simp add: tt_lock_def with_tt_def)
  have t4: "tran ?c4 = Some ?tt" and st: "tt_state ?tt = TR_UV_TCP_NOT_CONN"
    by (simp_all add: move_queue_def set_queue_def reset_fields_def uv_timer_stop_def Let_def)
  obtain c5 tt5 where c5: "reset_queue U writing_queue ?c4 = Some c5" "tran c5 = Some tt5"
      "wi_queues tt5 = (wi_queues ?tt)(writing_queue := [])" "tt_state tt5 = TR_UV_TCP_NOT_CONN"
      "wq_mutex tt5 = wq_mutex ?tt" "config c5 = config ?c4"
    using reset_queue_returns [OF ret w4 t4 st refl] by blast
  have w5: "world X [] P c5" by (rule wkeepsD [OF wk_reset_queue w4 c5(1)])
  obtain c6 tt6 where c6: "reset_queue U resp_pending_queue c5 = Some c6" "tran c6 = Some tt6"
      "wi_queues tt6 = (wi_queues tt5)(resp_pending_queue := [])" "tt_state tt6 = TR_UV_TCP_NOT_CONN"
      "wq_mutex tt6 = wq_mutex tt5" "config c6 = config c5"
    using reset_queue_returns [OF ret w5 c5(2,4) refl] by blast
  have w6: "world X [] P c6" by (rule wkeepsD [OF wk_reset_queue w5 c6(1)])
  have "wq_mutex tt6 = Suc (wq_mutex tt)"
    using c5(5) c6(5) by (simp add: move_queue_def set_queue_def)
  then have c': "tt_unlock c6 = Some (c6\<lparr>tran := Some (tt6\<lparr>wq_mutex := wq_mutex tt\<rparr>)\<rparr>)"
    using c6(2) by (simp add: tt_unlock_def with_tt_def)
  have "wi_queues tt6 = (\<lambda>_. [])"
  proof
    fix q show "wi_queues tt6 q = []"
      using c5(3) c6(3) by (cases q) (simp_all add: move_queue_def)
  qed
  moreover have "tcp__reset U c = Some (c6\<lparr>tran := Some (tt6\<lparr>wq_mutex := wq_mutex tt\<rparr>)\<rparr>)"
    using run c5(1) c6(1) c' by simp
  ultimately show thesis
    using that wkeepsD [OF wk_fields(2) w6 c'] c5(6) c6(4,6) by simp
qed

end

section \<open>Sessions\<close>

text \<open>
  What a program with a TCP client can reach: it initialises the client, calls the entry points
  between the events of the loop, and the loop runs what is enabled. Environments vary from
  step to step.
\<close>

inductive tcp_reachable :: "tr_uv_tcp user \<Rightarrow> tr_uv_tcp pc_client \<Rightarrow> bool" for U where
  initialised: "magic_num c0 \<noteq> pc__init_magic_num \<Longrightarrow>
    pc_client_init (\<lambda>_. Some (tcp_plugin_impl E)) ex cfg c0 = Some (PC_RC_OK, c) \<Longrightarrow> tcp_reachable U c"
| called: "tcp_reachable U c \<Longrightarrow> do_call U (tcp_ops E es U) a c = Some c' \<Longrightarrow> tcp_reachable U c'"
| ran: "tcp_reachable U c \<Longrightarrow> loop_step U (tcp_hooks U) e c = Some c' \<Longrightarrow> tcp_reachable U c'"

text \<open>The same as a function of what is done, for concrete sessions.\<close>

datatype tcp_step = Called uv_env "(uv_env \<times> loop_event) list" api_call | Ran uv_env loop_event

fun tcp_run :: "tr_uv_tcp user \<Rightarrow> tcp_step list \<Rightarrow> tr_uv_tcp pc_client \<Rightarrow> tr_uv_tcp pc_client option" where
  "tcp_run U [] c = Some c"
| "tcp_run U (Called E es a # ss) c = do { c1 \<leftarrow> do_call U (tcp_ops E es U) a c; tcp_run U ss c1 }"
| "tcp_run U (Ran E ev # ss) c = do { c1 \<leftarrow> loop_step U (tcp_hooks U) (E, ev) c; tcp_run U ss c1 }"

lemma tcp_run_reachable: "tcp_run U ss c = Some c' \<Longrightarrow> tcp_reachable U c \<Longrightarrow> tcp_reachable U c'"
  by (induction U ss c rule: tcp_run.induct)
    (auto simp: Option.bind_eq_Some_conv intro: tcp_reachable.called tcp_reachable.ran)

definition example_env :: uv_env where
  "example_env = \<lparr>loop_time = 0, time_now = 0, rand_value = 5, uv_loop_init_rc = 0, getaddrinfo = (\<lambda>_. Some [AF_INET]),
     uv_tcp_connect_rc = 0, uv_read_start_rc = 0, uv_write_rc = 0, in_loop_thread = False, uv_thread_join_rc = 0,
     ls_read_len = (0, 0), ls_read_data = (0, ''''), ls_write_rc = 0, lib_platform = ''c''\<rparr>"

definition example_user :: "tr_uv_tcp user" where
  "example_user = script_user (tcp_ops example_env []) (\<lambda>_. []) 1"

definition example_start :: "tr_uv_tcp pc_client option" where
  "example_start = map_option snd (pc_client_init (\<lambda>_. Some (tcp_plugin_impl example_env)) 0 None zeroed_client)"

lemma example_user_ok: "tcp_user example_user" "returning example_user"
  unfolding example_user_def by (rule tcp_script_user) (simp add: returning_def Let_def)

lemma example_start_reachable:
  assumes "example_start = Some c"
  shows "tcp_reachable U c"
proof -
  obtain rc where run: "pc_client_init (\<lambda>_. Some (tcp_plugin_impl example_env)) 0 None zeroed_client = Some (rc, c)"
    using assms by (auto simp: example_start_def)
  have "map_option fst (pc_client_init (\<lambda>_. Some (tcp_plugin_impl example_env)) 0 None (zeroed_client :: tr_uv_tcp pc_client)) = Some PC_RC_OK"
    by code_simp
  then have "rc = PC_RC_OK" using run by simp
  moreover have "magic_num (zeroed_client :: tr_uv_tcp pc_client) \<noteq> pc__init_magic_num"
    by (simp add: zeroed_client_def pc__init_magic_num_def)
  ultimately show ?thesis
    using run tcp_reachable.initialised by blast
qed

text \<open>A session in which a request waits for the connection.\<close>

definition example_steps :: "tcp_step list" where
  "example_steps = [Called example_env [] (A_connect (Some ''h'') 80 None), Ran example_env (L_async conn_async),
     Called example_env [] (A_request (Some ''a'') (Some ''{}'') 0 10 (Some 1))]"

lemma example_waiting:
  obtains c tt where "tcp_reachable example_user c" "state c = PC_ST_CONNECTING" "\<not> enable_polling (config c)"
    "req_queue c = [Pre 0]" "tran c = Some tt" "is_connecting tt" "wi_queues tt conn_pending_queue = [Pre 0]"
    "wi_queues tt write_wait_queue = []" "wi_queues tt writing_queue = []" "wi_queues tt resp_pending_queue = []"
    "wi_ts (the (pool_get (pre_wis tt) (Pre 0))) = 0" "wi_timeout (the (pool_get (pre_wis tt) (Pre 0))) = 10"
    "tt_state tt = TR_UV_TCP_CONNECTING" "\<not> is_writing tt" "\<not> timer_active tt check_timeout"
    "\<not> is_waiting_hb tt" "pkg_pending (pkg_parser tt) = []" "code_to_route tt = None" "server_protos tt = None"
    "req_id (the (pool_get (requests c) (Pre 0))) = 1" "TR_UV_WI_IS_RESP (wi_type (the (pool_get (pre_wis tt) (Pre 0))))"
    "wi_req_id (the (pool_get (pre_wis tt) (Pre 0))) = 1"
proof -
  let ?run = "do { c \<leftarrow> example_start; tcp_run example_user example_steps c }"
  have ev: "map_option (\<lambda>c. (state c, enable_polling (config c), req_queue c, tran c \<noteq> None, is_connecting (the (tran c)),
        map (wi_queues (the (tran c))) [conn_pending_queue, write_wait_queue, writing_queue, resp_pending_queue],
        wi_ts (the (pool_get (pre_wis (the (tran c))) (Pre 0))), wi_timeout (the (pool_get (pre_wis (the (tran c))) (Pre 0))),
        tt_state (the (tran c)), is_writing (the (tran c)), timer_active (the (tran c)) check_timeout,
        is_waiting_hb (the (tran c)), pkg_pending (pkg_parser (the (tran c))),
        code_to_route (the (tran c)), server_protos (the (tran c)), req_id (the (pool_get (requests c) (Pre 0))),
        TR_UV_WI_IS_RESP (wi_type (the (pool_get (pre_wis (the (tran c))) (Pre 0)))),
        wi_req_id (the (pool_get (pre_wis (the (tran c))) (Pre 0))))) ?run =
      Some (PC_ST_CONNECTING, False, [Pre 0], True, True, [[Pre 0], [], [], []], 0, 10, TR_UV_TCP_CONNECTING, False, False, False, [], None, None, 1, True, 1)"
    by code_simp
  then obtain c where c: "?run = Some c" by blast
  then obtain c0 where "example_start = Some c0" "tcp_run example_user example_steps c0 = Some c"
    by (auto simp: Option.bind_eq_Some_conv)
  then have "tcp_reachable example_user c"
    using example_start_reachable tcp_run_reachable by blast
  moreover obtain tt where tt: "tran c = Some tt"
    using ev c by auto
  ultimately show thesis
    using ev c by (intro that [of c tt]) (simp_all del: pool_get.simps)
qed

lemma init_tt_inv:
  assumes "wi_queues tt = (\<lambda>_. [])" and "pre_wis tt = new_pool n idle_wi" and "vers_ok tt"
  shows "tt_inv [] tt" and "item_keys tt = {#}"
proof -
  have "PC_IS_PRE_ALLOC (wi_type idle_wi)" "PC_PRE_ALLOC_IS_IDLE (wi_type idle_wi)"
    by (simp_all add: idle_wi_def zero_wi_def flag_defs)
  from new_pool_inv [where ty = wi_type and x = idle_wi, OF this] show "tt_inv [] tt" "item_keys tt = {#}"
    using assms by (simp_all add: tt_inv_def all_wis_def item_keys_def)
qed

lemma load_dict_same:
  assumes "load_dict lc tt = Some (lc', tt')"
  shows "\<exists>d x y. tt' = tt\<lparr>dict_ver := d, code_to_route := x, route_to_code := y\<rparr> \<and> all_or_none d y x"
  using assms unfolding load_dict_def Option.bind_eq_Some_conv
  by (auto simp: Option.bind_eq_Some_conv all_or_none_def simp del: not_None_eq split: if_split_asm)

lemma load_proto_same:
  assumes "load_proto lc tt = Some tt'"
  shows "\<exists>d x y. tt' = tt\<lparr>proto_ver := d, client_protos := x, server_protos := y\<rparr> \<and> all_or_none d x y"
  using assms unfolding load_proto_def Option.bind_eq_Some_conv
  by (auto simp: Option.bind_eq_Some_conv all_or_none_def simp del: not_None_eq split: if_split_asm)

lemma load_storage_same:
  assumes "load_storage E tt = Some tt'"
  shows "calm tt tt'"
proof -
  have "tt' = tt \<or> (\<exists>lc lc' tt1. load_dict lc tt = Some (lc', tt1) \<and> load_proto lc' tt1 = Some tt')"
    using assms by (auto simp: load_storage_def Option.bind_eq_Some_conv Let_def split: if_splits option.splits prod.splits)
  then show ?thesis
    using load_dict_same load_proto_same by fastforce
qed

lemma tcp_init_tt:
  assumes "tr_uv_tcp_init E c = Some (PC_RC_OK, c1)" and "tran c = Some t0" and "pkg_parser t0 = zeroed_parser"
  obtains tt where "tran c1 = Some tt" "wi_queues tt = (\<lambda>_. [])" "pre_wis tt = new_pool TR_UV_PRE_ALLOC_WI_SLOT_COUNT idle_wi"
    "vers_ok tt" "pkg_parser_ok (pkg_parser tt)" "tr_uv_tcp.more tt = tr_uv_tcp.more t0"
proof -
  obtain tt where tt: "tran c1 = Some tt" "wi_queues tt = (\<lambda>_. [])" "pre_wis tt = new_pool TR_UV_PRE_ALLOC_WI_SLOT_COUNT idle_wi"
    "vers_ok tt" "tr_uv_tcp.more tt = tr_uv_tcp.more t0"
    and parser: "pkg_parser tt = pc_pkg_parser_init zeroed_parser \<or> pkg_parser tt = pc_pkg_parser_reset (pc_pkg_parser_init zeroed_parser)"
    using assms by (auto simp: tr_uv_tcp_init_def with_tt_def Option.bind_eq_Some_conv init_tt_def all_or_none_def
        split: if_splits dest!: load_storage_same)
  from parser have "pkg_parser_ok (pkg_parser tt)"
    using idle_parser_ok pkg_parser_ok_reset by metis
  with that tt show thesis by blast
qed

text \<open>A client that has just been initialised, with a transport that holds nothing.\<close>

lemma fresh_world:
  assumes c: "c = init_fields ex c1" and tt: "tran c1 = Some tt" "wi_queues tt = (\<lambda>_. [])"
      "pre_wis tt = new_pool TR_UV_PRE_ALLOC_WI_SLOT_COUNT idle_wi" "vers_ok tt" "pkg_parser_ok (pkg_parser tt)"
    and more: "H (tr_uv_tcp.more tt) = []" "J (is_writing tt) (tr_uv_tcp.more tt)"
  shows "world (H, J, pkg_parser_ok) [] {#} c"
proof -
  have inv: "client_inv {} {} {} c" using init_inv c by simp
  have "queued (requests c) (req_queue c) = []" "queued (notifies c) (notify_queue c) = []"
    by (simp_all add: c init_fields_def Let_def queued_def)
  then have "account c {#}"
    using client_account [OF inv] by (simp add: account_def)
  moreover have "tran c = Some tt" using tt by (simp add: c init_fields_def Let_def)
  moreover have "items (H, J, pkg_parser_ok) tt = {#}" "tinv (H, J, pkg_parser_ok) [] tt"
    using init_tt_inv [OF tt(2-4)] tt(5) more by (simp_all add: items_def item_keys_def tinv_def pkg_parser_ok_reset)
  ultimately show ?thesis
    using inv by (simp add: world_def)
qed

lemma init_world:
  assumes "magic_num c0 \<noteq> pc__init_magic_num"
    and run: "pc_client_init (\<lambda>_. Some (tcp_plugin_impl E)) ex cfg c0 = Some (PC_RC_OK, c)"
  shows "world own [] {#} c"
proof -
  let ?c0 = "c0\<lparr>config := (case cfg of None \<Rightarrow> pc__default_config | Some k \<Rightarrow> k), tran := Some zero_tt\<rparr>"
  obtain c1 where c1: "tr_uv_tcp_init E ?c0 = Some (PC_RC_OK, c1)" and c: "c = init_fields ex c1"
    using assms by (auto simp: pc_client_init_def tcp_plugin_impl_def tr_uv_tcp_create_def Let_def Option.bind_eq_Some_conv
        split: if_splits)
  have "tran ?c0 = Some zero_tt" "pkg_parser zero_tt = zeroed_parser" by (simp_all add: zero_tt_def)
  from tcp_init_tt [OF c1 this] obtain tt where "tran c1 = Some tt" "wi_queues tt = (\<lambda>_. [])"
    "pre_wis tt = new_pool TR_UV_PRE_ALLOC_WI_SLOT_COUNT idle_wi" "vers_ok tt" "pkg_parser_ok (pkg_parser tt)" by blast
  from fresh_world [OF c this] show ?thesis by (simp add: own_def)
qed

lemma call_world:
  assumes user: "tcp_user U" and w: "world X F P c" and run: "do_call U (tcp_ops E es U) a c = Some c'"
  shows "world X F P c'"
proof -
  have rel: "client_rel account_core account_rel U" and cu: "client_user U"
    using user by (simp_all add: tcp_user_def)
  have "client_inv {} {} {} c'"
    using w run keepsD [OF client_world.keeps_do_call [OF tcp_world [OF cu]]] by (auto elim: worldE)
  from related_world(1) [OF w relatedD [OF client_rel_world.rel_do_call [OF tcp_rel_world [OF rel]] run] this]
  show ?thesis .
qed

lemma reachable_world:
  assumes user: "tcp_user U" and "tcp_reachable U c"
  shows "world own [] {#} c"
  using assms(2)
proof induction
  case (initialised c0 E ex cfg c)
  then show ?case by (rule init_world)
next
  case (called c E es a c')
  from call_world [OF user called(3,2)] show ?case .
next
  case (ran c e c')
  have U: "tcp_callbacks U" by (rule tcp_callbacks.intro [OF user])
  have "wkeeps own (loop_step U (tcp_hooks U) e)"
    unfolding own_def by (intro tcp_callbacks.wk_loop_step [OF U] tcp_callbacks.tcp_hooks_ok [OF U]) (simp add: write_free_def)
  from wkeepsD [OF this ran(3,2)] show ?case .
qed

definition open_keys :: "'t pc_client \<Rightarrow> (u32 + u32) multiset" where
  "open_keys c = image_mset (Inl \<circ> req_id) (mset (queued (requests c) (req_queue c))) +
     image_mset (Inr \<circ> rq_seq_num \<circ> ntf_base) (mset (queued (notifies c) (notify_queue c)))"

lemma open_account:
  assumes "client_inv F G H c" and "account c X" and "\<not> enable_polling (config c)"
  shows "open_keys c \<subseteq># X"
  using assms client_account [OF assms(1)] by (simp add: account_def open_keys_def)

lemma open_keys_empty: "open_keys c = {#} \<longleftrightarrow> req_queue c = [] \<and> notify_queue c = []"
  by (simp add: open_keys_def queued_def)

text \<open>
  C2. Whatever the program calls, whatever the event loop runs and whatever the callbacks do
  (\<open>tcp_user\<close>: they reach the library through its entry points), the transport's write items are
  in order after every step: the items in use are exactly those in its four queues, none twice;
  what waits for a response is a request; the package parser is in a consistent state; dictionary and protocol are kept with their versions and
  both directions or not at all, as the asserts of the handshake expect; and, without polling, every request and notify that the client
  has accepted and not settled has a write item of its own, so none is forgotten.
\<close>

theorem tcp_items_in_order:
  assumes "tcp_user U" and "tcp_reachable U c"
  shows "\<exists>tt. tran c = Some tt \<and> distinct (all_wis tt) \<and> pkg_parser_ok (pkg_parser tt) \<and>
    (\<forall>r. in_use wi_type (pre_wis tt) r \<longleftrightarrow> r \<in> set (all_wis tt)) \<and>
    (\<forall>r \<in> set (wi_queues tt resp_pending_queue). \<exists>w. pool_get (pre_wis tt) r = Some w \<and> TR_UV_WI_IS_RESP (wi_type w)) \<and>
    all_or_none (dict_ver tt) (route_to_code tt) (code_to_route tt) \<and>
    all_or_none (proto_ver tt) (client_protos tt) (server_protos tt) \<and>
    (\<not> enable_polling (config c) \<longrightarrow> open_keys c \<subseteq># item_keys tt)"
proof -
  have w: "world own [] {#} c" by (rule reachable_world [OF assms])
  obtain tt where tt: "tran c = Some tt" "tt_inv [] tt" "account c (item_keys tt + {#})" "pkg_parser_ok (pkg_parser tt)"
    and inv: "client_inv {} {} {} c"
    using w by (auto elim: worldE)
  then show ?thesis
    using open_account [OF inv tt(3)] by (auto simp: tt_inv_def pool_inv_def)
qed

theorem tcp_items_in_order_witness:
  "\<exists>c. tcp_reachable example_user c \<and> req_queue c = [Pre 0] \<and> open_keys c \<subseteq># item_keys (the (tran c)) \<and>
    in_use wi_type (pre_wis (the (tran c))) (Pre 0)"
proof -
  obtain c tt where c: "tcp_reachable example_user c" "\<not> enable_polling (config c)" "req_queue c = [Pre 0]"
    "tran c = Some tt" "wi_queues tt conn_pending_queue = [Pre 0]"
    by (rule example_waiting)
  from tcp_items_in_order [OF example_user_ok(1) c(1)] c show ?thesis by (auto simp: all_wis_def)
qed

text \<open>
  C8. Resetting the transport, which a disconnect, a kick, a cleanup or a lost connection does,
  settles everything: if the callbacks of requests and notifies return, the reset returns; no
  write item is left in use and the transport is not connected; without polling no request and
  no notify of the client is left open, those that the callbacks themselves tried to send included.
\<close>

theorem reset_settles_everything:
  assumes "tcp_user U" and "returning U" and "tcp_reachable U c"
  shows "\<exists>c' tt'. tcp__reset U c = Some c' \<and> tran c' = Some tt' \<and> tt_state tt' = TR_UV_TCP_NOT_CONN \<and>
    (\<forall>q. wi_queues tt' q = []) \<and> (\<forall>r. \<not> in_use wi_type (pre_wis tt') r) \<and>
    (\<not> enable_polling (config c) \<longrightarrow> req_queue c' = [] \<and> notify_queue c' = [])"
proof -
  have w: "world own [] {#} c" by (rule reachable_world [OF assms(1,3)])
  have U: "tcp_callbacks U" by (rule tcp_callbacks.intro [OF assms(1)])
  obtain tt where tt: "tran c = Some tt" by (rule worldE [OF w])
  obtain c' tt' where c': "tcp__reset U c = Some c'" and tt': "tran c' = Some tt'" "wi_queues tt' = (\<lambda>_. [])"
    "tt_state tt' = TR_UV_TCP_NOT_CONN" and conf: "config c' = config c" and w': "world own [] {#} c'"
    by (rule tcp_callbacks.reset_returns [OF U assms(2) w tt])
  have inv: "client_inv {} {} {} c'" "tt_inv [] tt'" "account c' (item_keys tt' + {#})"
    using w' tt'(1) by (auto elim: worldE)
  have none: "all_wis tt' = []" by (simp add: all_wis_def tt'(2))
  then have "item_keys tt' = {#}" by (simp add: item_keys_def)
  then have "\<not> enable_polling (config c') \<Longrightarrow> open_keys c' = {#}"
    using open_account [OF inv(1,3)] by simp
  then show ?thesis
    using c' tt' conf inv(2) none open_keys_empty by (auto simp: tt_inv_def pool_inv_def)
qed

theorem reset_settles_everything_witness:
  "\<exists>c c'. tcp_reachable example_user c \<and> req_queue c = [Pre 0] \<and> tcp__reset example_user c = Some c' \<and>
    tt_state (the (tran c')) = TR_UV_TCP_NOT_CONN \<and> req_queue c' = []"
proof -
  obtain c where c: "tcp_reachable example_user c" "\<not> enable_polling (config c)" "req_queue c = [Pre 0]"
    by (rule example_waiting)
  from reset_settles_everything [OF example_user_ok c(1)] c show ?thesis by auto
qed

end
