(* ===== verification/TcpTiming.thy ===== *)
theory TcpTiming
  imports TcpProps
begin

text \<open>
  The times of the TCP transport: the delay before a reconnection and the measurement of the
  heartbeat's round trip.
\<close>

section \<open>The delay before a reconnection\<close>










section \<open>The heartbeat's round trip\<close>

lemma to_int_of_int: "to_int (of_int x) = sint (of_int x :: u32)"
proof -
  have "(ucast (of_int x :: u64) :: u32) = of_int x"
    by transfer (simp add: take_bit_take_bit)
  then show ?thesis by (simp add: to_int_def)
qed

lemma of_int_sint32: "(of_int (sint (w :: u32)) :: u32) = w"
  by simp

lemma sint_small: "0 \<le> d \<Longrightarrow> d < 2 ^ 31 \<Longrightarrow> sint (of_int d :: u32) = d"
  by (simp add: sint_sbintrunc' signed_take_bit_int_eq_self)

lemma round_trip_exact:
  assumes "0 \<le> d" and "d < 2 ^ 31" and "loop_time E = s + nat d"
  shows "hb_round_trip E (of_nat s + of_int ms) ms = d"
proof -
  let ?start = "sint (of_int (int s) :: u32)"
  have start: "to_int ((of_nat s + of_int ms) - of_int ms) = ?start"
    using to_int_of_int [of "int s"] by simp
  have "to_int (of_nat (loop_time E) - of_int ?start) = sint (of_int (int (loop_time E) - ?start) :: u32)"
    using to_int_of_int [of "int (loop_time E) - ?start"] by simp
  also have "(of_int (int (loop_time E) - ?start) :: u32) = of_int (int (loop_time E)) - of_int (int s)"
    by (simp only: of_int_diff of_int_sint32)
  also have "\<dots> = of_int d"
    using assms by simp
  finally show ?thesis
    using sint_small [OF assms(1,2)] by (simp only: hb_round_trip_def Let_def start)
qed

lemma hb_bytes: "pc_pkg_encode PC_PKG_HEARBEAT [] = Some [3, 0, 0, 0]"
proof -
  have "replicate 4 (0 :: u8) = [0, 0, 0, 0]" by (simp add: numeral_eq_Suc)
  then show ?thesis by (simp add: pc_pkg_encode_def Let_def)
qed

text \<open>What sending a heartbeat leaves behind.\<close>

lemma alloc_upd_Some:
  assumes "pool_alloc wi_type wi_upd dyn_wi p0 = (r, p)"
  obtains p2 where "pool_upd r f p = Some p2"
  using wi_pool.alloc_get [OF assms] pool_put_Some that by (fastforce simp: pool_upd_Some)

lemma heartbeat_sent:
  assumes tt: "tran c = Some tt" "tt_state tt = TR_UV_TCP_DONE" "\<not> is_waiting_hb tt" "int_fits (hb_timeout tt * 1000)"
  obtains r p p2 where "pool_alloc wi_type wi_upd dyn_wi (pre_wis tt) = (r, p)"
    "pool_upd r (fill_internal E (uv_buf_of (pc_pkg_encode PC_PKG_HEARBEAT []))) p = Some p2"
    "tcp__heartbeat_timer_cb E c = Some (c\<lparr>tran := Some (uv_timer_start E hb_timeout_timer (of_int (hb_timeout tt * 1000))
       ((uv_async_send write_async (set_queue write_wait_queue (wi_queues tt write_wait_queue @ [r]) (tt\<lparr>pre_wis := p2\<rparr>)))
         \<lparr>is_waiting_hb := True\<rparr>))\<rparr>)"
proof -
  let ?buf = "uv_buf_of (pc_pkg_encode PC_PKG_HEARBEAT [])"
  obtain r p where alloc: "pool_alloc wi_type wi_upd dyn_wi (pre_wis tt) = (r, p)"
    by (cases "pool_alloc wi_type wi_upd dyn_wi (pre_wis tt)")
  obtain p2 where p2: "pool_upd r (fill_internal E ?buf) p = Some p2"
    by (rule alloc_upd_Some [OF alloc])
  have buf: "buf_len ?buf \<noteq> 0" "buf_base ?buf \<noteq> None"
    using hb_bytes by (simp_all add: uv_buf_of_def)
  show thesis
    by (rule that [OF alloc p2], use tt alloc p2 buf in \<open>simp add: tcp__heartbeat_timer_cb_def tcp__send_heartbeat_def
        queue_internal_def tt_lock_def alloc_wi_def put_wi_def tt_unlock_def with_tt_def Let_def start_secs_def int_mult_def
        uv_timer_start_def uv_async_send_def set_queue_def upd_order\<close>)
qed

lemma sum_no_wrap:
  assumes "0 \<le> x" and "int n + x < 2 ^ 64"
  shows "(of_int x :: u64) \<le> of_nat n + of_int x"
proof -
  have "uint (of_int x :: u64) = x"
    using assms by (simp add: uint_word_of_int_eq take_bit_int_eq_self)
  moreover have "uint (of_int (int n + x) :: u64) = int n + x"
    using assms by (simp add: uint_word_of_int_eq take_bit_int_eq_self del: of_int_add)
  ultimately show ?thesis
    by (simp add: word_le_def)
qed

text \<open>
  C24. The heartbeat: when its timer fires on a connected transport a heartbeat package is queued
  behind everything else and the answer is awaited; if the answer arrives \<open>d\<close> milliseconds later
  the waiting ends, the round trip measured is exactly \<open>d\<close>, whatever the loop's clock shows (the
  code computes it in \<open>int\<close>, which the clock outgrows after 25 days), smoothed with weight two
  for the old value, and the next heartbeat is scheduled. The smoothing is done in \<open>int\<close> too, so the
  product and the sum must fit; if one does not, the answer overflows, which is undefined.
\<close>

theorem heartbeat_round_trip:
  assumes tt: "tran c = Some tt" "tt_state tt = TR_UV_TCP_DONE" "\<not> is_waiting_hb tt"
    and range: "0 \<le> hb_timeout tt" "int_fits (hb_timeout tt * 1000)" "int_fits (hb_interval tt * 1000)"
      "int (loop_time E) + hb_timeout tt * 1000 < 2 ^ 64"
    and d: "0 \<le> d" "d < 2 ^ 31" "loop_time E' = loop_time E + nat d"
  shows "\<exists>c1 r wi. tcp__heartbeat_timer_cb E c = Some c1 \<and>
    get_wi r c1 = Some wi \<and> buf_base (wi_buf wi) = Some [3, 0, 0, 0] \<and>
    wi_queues (the (tran c1)) write_wait_queue = wi_queues tt write_wait_queue @ [r] \<and>
    is_waiting_hb (the (tran c1)) \<and> timer_active (the (tran c1)) hb_timeout_timer \<and>
    (if hb_rtt tt \<noteq> - 1 \<and> \<not> (int_fits (2 * hb_rtt tt) \<and> int_fits (2 * hb_rtt tt + d))
     then tcp__on_heartbeat E' c1 = None
     else \<exists>c2 tt2. tcp__on_heartbeat E' c1 = Some c2 \<and> tran c2 = Some tt2 \<and> \<not> is_waiting_hb tt2 \<and>
       \<not> timer_active tt2 hb_timeout_timer \<and> timer_active tt2 hb_timer \<and>
       hb_rtt tt2 = (if hb_rtt tt = - 1 then d else (2 * hb_rtt tt + d) sdiv 3))"
proof -
  let ?ms = "hb_timeout tt * 1000"
  obtain r p p2 where p2: "pool_upd r (fill_internal E (uv_buf_of (pc_pkg_encode PC_PKG_HEARBEAT []))) p = Some p2"
    and sent: "tcp__heartbeat_timer_cb E c = Some (c\<lparr>tran := Some (uv_timer_start E hb_timeout_timer (of_int ?ms)
       ((uv_async_send write_async (set_queue write_wait_queue (wi_queues tt write_wait_queue @ [r]) (tt\<lparr>pre_wis := p2\<rparr>)))
         \<lparr>is_waiting_hb := True\<rparr>))\<rparr>)" (is "_ = Some (c\<lparr>tran := Some ?tt1\<rparr>)")
    by (rule heartbeat_sent [OF tt range(2)])
  have due: "timer_due ?tt1 hb_timeout_timer = of_nat (loop_time E) + of_int ?ms"
    using sum_no_wrap [of ?ms "loop_time E"] range(1,4) by (auto simp: uv_timer_start_def Let_def dest: leD)
  have rtt: "hb_round_trip E' (timer_due ?tt1 hb_timeout_timer) ?ms = d"
    unfolding due by (rule round_trip_exact [OF d])
  have tt1: "is_waiting_hb ?tt1" "tt_state ?tt1 = TR_UV_TCP_DONE" "timer_active ?tt1 hb_timeout_timer" "hb_rtt ?tt1 = hb_rtt tt"
    "hb_timeout ?tt1 = hb_timeout tt" "hb_interval ?tt1 = hb_interval tt"
    "wi_queues ?tt1 write_wait_queue = wi_queues tt write_wait_queue @ [r]" "pre_wis ?tt1 = p2"
    using tt(2) by (simp_all add: uv_timer_start_def uv_async_send_def set_queue_def Let_def)
  let ?avg = "if hb_rtt tt = - 1 then d else (2 * hb_rtt tt + d) sdiv 3"
  let ?tt2 = "uv_timer_start E' hb_timer (of_int (hb_interval tt * 1000))
    ((uv_timer_stop hb_timeout_timer ?tt1)\<lparr>is_waiting_hb := False, hb_rtt := ?avg\<rparr>)"
  let ?over = "hb_rtt tt \<noteq> - 1 \<and> \<not> (int_fits (2 * hb_rtt tt) \<and> int_fits (2 * hb_rtt tt + d))"
  have smooth: "smooth_rtt (hb_rtt tt) d = (if ?over then None else Some ?avg)"
    by (auto simp: smooth_rtt_def int_mult_def int_plus_def mult.commute)
  have run: "tcp__on_heartbeat E' (c\<lparr>tran := Some ?tt1\<rparr>) = (if ?over then None else Some (c\<lparr>tran := Some ?tt2\<rparr>))"
    using tt1 range(2,3) rtt by (simp add: tcp__on_heartbeat_def int_mult_def with_tt_def start_secs_def smooth Let_def)
  obtain wi where wi: "pool_get p2 r = Some wi" "wi_buf wi = uv_buf_of (pc_pkg_encode PC_PKG_HEARBEAT [])"
    using p2 by (auto simp: pool_upd_Some pool_get_put fill_internal_def)
  have item: "get_wi r (c\<lparr>tran := Some ?tt1\<rparr>) = Some wi" "buf_base (wi_buf wi) = Some [3, 0, 0, 0]"
    using tt1(8) wi hb_bytes by (simp_all add: get_wi_def uv_buf_of_def)
  have out: "\<not> is_waiting_hb ?tt2" "\<not> timer_active ?tt2 hb_timeout_timer" "timer_active ?tt2 hb_timer" "hb_rtt ?tt2 = ?avg"
    by (simp_all add: uv_timer_start_def uv_timer_stop_def Let_def)
  show ?thesis
  proof (intro exI [of _ "c\<lparr>tran := Some ?tt1\<rparr>"] exI [of _ r] exI [of _ wi] conjI)
    show "if ?over then tcp__on_heartbeat E' (c\<lparr>tran := Some ?tt1\<rparr>) = None
     else \<exists>c2 tt2. tcp__on_heartbeat E' (c\<lparr>tran := Some ?tt1\<rparr>) = Some c2 \<and> tran c2 = Some tt2 \<and> \<not> is_waiting_hb tt2 \<and>
       \<not> timer_active tt2 hb_timeout_timer \<and> timer_active tt2 hb_timer \<and> hb_rtt tt2 = ?avg"
    proof (cases ?over)
      case True
      have "tcp__on_heartbeat E' (c\<lparr>tran := Some ?tt1\<rparr>) = None"
        unfolding run by (rule if_P [OF True])
      then show ?thesis
        unfolding if_P [OF True] .
    next
      case False
      show ?thesis
        unfolding run if_not_P [OF False]
        by (intro exI [of _ "c\<lparr>tran := Some ?tt2\<rparr>"] exI [of _ ?tt2] conjI out) simp_all
    qed
  qed (use sent item tt1 in simp_all)
qed

definition example_done :: "tr_uv_tcp pc_client" where
  "example_done = zeroed_client\<lparr>state := PC_ST_CONNECTED, tran := Some (zero_tt\<lparr>tt_state := TR_UV_TCP_DONE, hb_rtt := 10,
     hb_interval := 30, hb_timeout := 60\<rparr>)\<rparr>"

theorem heartbeat_round_trip_witness:
  "\<exists>c1 c2. tcp__heartbeat_timer_cb (example_env\<lparr>loop_time := 2 ^ 31 - 3\<rparr>) example_done = Some c1 \<and>
    tcp__on_heartbeat (example_env\<lparr>loop_time := 2 ^ 31 + 4\<rparr>) c1 = Some c2 \<and> hb_rtt (the (tran c2)) = 9"
  using heartbeat_round_trip [of example_done "zero_tt\<lparr>tt_state := TR_UV_TCP_DONE, hb_rtt := 10, hb_interval := 30,
      hb_timeout := 60\<rparr>" "example_env\<lparr>loop_time := 2 ^ 31 - 3\<rparr>" 7 "example_env\<lparr>loop_time := 2 ^ 31 + 4\<rparr>"]
  by (fastforce simp: example_done_def zero_tt_def int_fits_def)

end
