(* ===== verification/TcpQueues.thy ===== *)
theory TcpQueues
  imports TcpProps
begin

text \<open>
  What becomes of write items: batches for \<open>uv_write\<close>, timeouts, and what the queues do not
  handle.
\<close>

section \<open>Batches\<close>

definition has_timeout :: "tr_uv_wi pool \<Rightarrow> ref \<Rightarrow> bool" where
  "has_timeout p r \<longleftrightarrow> \<not> TR_UV_WI_IS_INTERNAL (wi_type (the (pool_get p r))) \<and> wi_timeout (the (pool_get p r)) \<noteq> PC_WITHOUT_TIMEOUT"

lemma scan_queue:
  assumes "\<forall>r \<in> set rs. pool_get p r \<noteq> None"
  shows "any_timeout p rs = Some (\<exists>r \<in> set rs. has_timeout p r)"
    and "wi_bufs p rs = Some (map (\<lambda>r. wi_buf (the (pool_get p r))) rs)"
  using assms by (induction rs) (auto simp: has_timeout_def)

lemma tt_inv_get:
  assumes "tt_inv F tt"
  shows "\<forall>r \<in> set (all_wis tt). pool_get (pre_wis tt) r \<noteq> None"
  using tt_item_exists [OF assms] by blast

definition checked :: "uv_env \<Rightarrow> 'z tr_uv_tcp_scheme \<Rightarrow> 'z tr_uv_tcp_scheme" where
  "checked E tt = (if timer_active tt check_timeout then tt
     else uv_timer_start E check_timeout (of_int (PC_TIMEOUT_CHECK_INTERVAL * 1000)) tt)"

lemma start_check_code:
  assumes "tran c = Some tt"
  shows "start_check E c = Some (c\<lparr>tran := Some (checked E tt)\<rparr>)"
proof -
  have "c = c\<lparr>tran := Some tt\<rparr>" using assms by simp
  then show ?thesis
    using assms by (auto simp: start_check_def checked_def start_secs_def int_mult_def int_fits_def with_tt_def)
qed

lemma move_queue_mutex:
  "move_queue q q' (tt\<lparr>wq_mutex := m\<rparr>) = (move_queue q q' tt)\<lparr>wq_mutex := m\<rparr>"
  "wq_mutex (move_queue q q' tt) = wq_mutex tt" "written (move_queue q q' tt) = written tt"
  "wq_mutex tt = m \<Longrightarrow> tt\<lparr>wq_mutex := m\<rparr> = tt"
  by (auto simp: move_queue_def set_queue_def)

lemma checked_fields [simp]:
  "timer_active (checked E tt) check_timeout" "wi_queues (checked E tt) = wi_queues tt" "written (checked E tt) = written tt"
  "is_writing (checked E tt) = is_writing tt" "pre_wis (checked E tt) = pre_wis tt" "tt_state (checked E tt) = tt_state tt"
  by (simp_all add: checked_def uv_timer_start_def Let_def)

text \<open>
  C16. On the write signal a connected transport that is not writing hands everything that may be
  written to libuv in one batch, in order: what waits for writing, and behind it, once the handshake
  is through, what was sent before; until then application data stays where it is. The timeout
  check runs afterwards if it ran before or if something written or held back can time out.
  While a write is in progress, or without connection, nothing happens.
\<close>

theorem write_batch:
  assumes tt: "tran c = Some tt" "tt_inv [] tt" and rc: "uv_write_rc E = 0"
  defines "done \<equiv> tt_state tt = TR_UV_TCP_DONE"
  defines "ws \<equiv> wi_queues tt write_wait_queue @ (if done then wi_queues tt conn_pending_queue else [])"
  shows "\<exists>tt'. tcp__write_async_cb U E c = Some (c\<lparr>tran := Some tt'\<rparr>) \<and>
    (if tt_state tt = TR_UV_TCP_NOT_CONN \<or> is_writing tt then tt' = tt
     else written tt' = written tt @ map (\<lambda>r. wi_buf (the (pool_get (pre_wis tt) r))) ws \<and>
       (is_writing tt' \<longleftrightarrow> ws \<noteq> []) \<and> pre_wis tt' = pre_wis tt \<and>
       wi_queues tt' write_wait_queue = [] \<and> wi_queues tt' writing_queue = wi_queues tt writing_queue @ ws \<and>
       wi_queues tt' conn_pending_queue = (if done then [] else wi_queues tt conn_pending_queue) \<and>
       wi_queues tt' resp_pending_queue = wi_queues tt resp_pending_queue \<and>
       (timer_active tt' check_timeout \<longleftrightarrow> timer_active tt check_timeout \<or>
          \<not> done \<and> wi_queues tt conn_pending_queue \<noteq> [] \<or> (\<exists>r \<in> set ws. has_timeout (pre_wis tt) r)))"
proof (cases "tt_state tt = TR_UV_TCP_NOT_CONN \<or> is_writing tt")
  case True
  moreover have "c = c\<lparr>tran := Some tt\<rparr>" using tt(1) by simp
  ultimately show ?thesis
    using tt(1) by (intro exI [of _ tt]) (simp add: tcp__write_async_cb_def)
next
  case False
  have "set ws \<subseteq> set (all_wis tt)" by (auto simp: ws_def all_wis_def)
  then have "\<forall>r \<in> set ws. pool_get (pre_wis tt) r \<noteq> None"
    using tt_inv_get [OF tt(2)] by blast
  note scan = scan_queue [OF this]
  let ?check = "(\<not> done \<and> wi_queues tt conn_pending_queue \<noteq> []) \<or> (\<exists>r \<in> set ws. has_timeout (pre_wis tt) r)"
  define t0 where "t0 = (if done then move_queue conn_pending_queue write_wait_queue tt else tt)"
  have t0: "wi_queues t0 write_wait_queue = ws" "pre_wis t0 = pre_wis tt" "written t0 = written tt" "is_writing t0 = is_writing tt"
    "wi_queues t0 writing_queue = wi_queues tt writing_queue" "wi_queues t0 resp_pending_queue = wi_queues tt resp_pending_queue"
    "wi_queues t0 conn_pending_queue = (if done then [] else wi_queues tt conn_pending_queue)"
    "timer_active t0 = timer_active tt" "wq_mutex t0 = wq_mutex tt"
    by (simp_all add: t0_def ws_def move_queue_def set_queue_def)
  let ?c2 = "c\<lparr>tran := Some (t0\<lparr>wq_mutex := Suc (wq_mutex tt)\<rparr>)\<rparr>"
  have c2: "(if tt_state tt = TR_UV_TCP_DONE then with_tt (move_queue conn_pending_queue write_wait_queue)
      (c\<lparr>tran := Some (tt\<lparr>wq_mutex := Suc (wq_mutex tt)\<rparr>)\<rparr>) else Some (c\<lparr>tran := Some (tt\<lparr>wq_mutex := Suc (wq_mutex tt)\<rparr>)\<rparr>)) = Some ?c2"
    by (simp add: t0_def done_def with_tt_def move_queue_def set_queue_def)
  have restore: "t0\<lparr>wq_mutex := wq_mutex tt\<rparr> = t0"
    using t0(9) by (metis tr_uv_tcp.surjective tr_uv_tcp.update_convs(13))
  show ?thesis
  proof (cases "ws = []")
    case True
    then have "tcp__write_async_cb U E c = (if ?check then start_check E (c\<lparr>tran := Some t0\<rparr>) else Some (c\<lparr>tran := Some t0\<rparr>))"
      using False tt(1) c2 t0 scan
      by (simp add: restore move_queue_mutex tcp__write_async_cb_def tt_lock_def tt_unlock_def with_tt_def done_def Let_def)
    then show ?thesis
      using False t0 True start_check_code [of "c\<lparr>tran := Some t0\<rparr>" t0 E]
      by (intro exI [of _ "if ?check then checked E t0 else t0"]) auto
  next
    case ws: False
    let ?t1 = "(move_queue write_wait_queue writing_queue t0)\<lparr>written := written tt @ map (\<lambda>r. wi_buf (the (pool_get (pre_wis tt) r))) ws, is_writing := True\<rparr>"
    have "tcp__write_async_cb U E c = (if ?check then start_check E (c\<lparr>tran := Some ?t1\<rparr>) else Some (c\<lparr>tran := Some ?t1\<rparr>))"
      using False tt(1) c2 t0 scan ws rc
      by (simp add: restore move_queue_mutex tcp__write_async_cb_def tt_lock_def tt_unlock_def with_tt_def done_def Let_def)
    then show ?thesis
      using False t0 ws start_check_code [of "c\<lparr>tran := Some ?t1\<rparr>" ?t1 E]
      by (intro exI [of _ "if ?check then checked E ?t1 else ?t1"]) (auto simp: move_queue_def set_queue_def)
  qed
qed

theorem write_batch_witness:
  "\<exists>c c'. tcp_reachable example_user c \<and> tcp__write_async_cb example_user example_env c = Some c' \<and>
    wi_queues (the (tran c')) conn_pending_queue = [Pre 0] \<and> written (the (tran c')) = written (the (tran c)) \<and>
    timer_active (the (tran c')) check_timeout"
proof -
  obtain c tt where c: "tcp_reachable example_user c" "tran c = Some tt" and q: "wi_queues tt conn_pending_queue = [Pre 0]"
      "wi_queues tt write_wait_queue = []" and st: "tt_state tt = TR_UV_TCP_CONNECTING" "\<not> is_writing tt"
    by (rule example_waiting)
  have inv: "tt_inv [] tt"
    using reachable_world [OF example_user_ok(1) c(1)] c(2) by (auto elim: worldE)
  from write_batch [OF c(2) inv, of example_env example_user] show ?thesis
    using c q st by (auto simp: example_env_def)
qed

section \<open>Timeouts\<close>

text \<open>Everything added to the history is an answer with the code \<open>rc\<close>.\<close>

definition answered :: "int \<Rightarrow> 't pc_client \<Rightarrow> 't pc_client \<Rightarrow> bool" where
  "answered rc c c' \<longleftrightarrow> (\<exists>es. history c' = history c @ es \<and>
     (\<forall>e \<in> set es. case e of Req_answered _ k _ \<Rightarrow> k = rc | Ntf_answered _ k \<Rightarrow> k = rc | _ \<Rightarrow> False))"

lemma answered_refl [simp]: "history c' = history c \<Longrightarrow> answered rc c c'"
  by (auto simp: answered_def)

lemma answered_trans: "answered rc c d \<Longrightarrow> answered rc d e \<Longrightarrow> answered rc c e"
  unfolding answered_def by (metis Un_iff append.assoc set_append)

lemma answered_cong: "history d = history c \<Longrightarrow> answered rc d e = answered rc c e"
  by (simp add: answered_def)

lemma quiet_returning: "quiet_user_fns U \<Longrightarrow> returning U"
  by (simp add: quiet_user_fns_def returning_def)

text \<open>A report to callbacks that only look leaves transport and configuration alone.\<close>

lemma finish_fields:
  "finish_request r c = Some c' \<Longrightarrow> tran c' = tran c \<and> config c' = config c \<and> history c' = history c"
  "finish_notify r c = Some c' \<Longrightarrow> tran c' = tran c \<and> config c' = config c \<and> history c' = history c"
  by (auto simp: finish_request_def finish_notify_def Option.bind_eq_Some_conv)

lemma quiet_resp_same:
  assumes quiet: "quiet_user_fns U" and run: "pc_trans_resp U rid rc resp c = Some c'"
  shows "tran c' = tran c \<and> config c' = config c \<and> answered rc c c'"
proof (cases "enable_polling (config c)")
  case True
  then show ?thesis
    using run by (auto simp: pc_trans_resp_def queue_resp_code add_event_def Option.bind_eq_Some_conv
        split: if_splits prod.splits)
next
  case False
  then have run': "pc__trans_resp U rid rc resp c = Some c'" using run by (simp add: pc_trans_resp_def)
  then obtain t where t: "queue_find (pool_get (requests c)) (\<lambda>r. req_id r = rid) (req_queue c) = Some t"
    by (auto simp: pc__trans_resp_def Let_def split: bind_splits)
  show ?thesis
  proof (cases t)
    case None
    then show ?thesis using run' t by (simp add: pc__trans_resp_def Let_def)
  next
    case (Some r)
    then obtain q cb where q: "pool_get (requests c) r = Some q" "req_cb q = Some cb"
      using run' t by (auto simp: pc__trans_resp_def Let_def Option.bind_eq_Some_conv split: if_splits)
    then have "finish_request r (note_call (Req_answered q rc resp) (c\<lparr>req_queue := remove1 r (req_queue c)\<rparr>)) = Some c'"
      using run' t Some quiet by (auto simp: pc__trans_resp_def Let_def finish_request_code quiet_user_fns_def
          Option.bind_eq_Some_conv split: if_splits)
    from finish_fields(1) [OF this] show ?thesis
      by (auto simp: answered_def)
  qed
qed

lemma quiet_sent_same:
  assumes quiet: "quiet_user_fns U" and run: "pc_trans_sent U seq rc c = Some c'"
  shows "tran c' = tran c \<and> config c' = config c \<and> answered rc c c'"
proof (cases "enable_polling (config c)")
  case True
  then show ?thesis
    using run by (auto simp: pc_trans_sent_def queue_sent_code add_event_def Option.bind_eq_Some_conv
        split: if_splits prod.splits)
next
  case False
  then have run': "pc__trans_sent U seq rc c = Some c'" using run by (simp add: pc_trans_sent_def)
  then obtain t where t: "queue_find (pool_get (notifies c)) (\<lambda>n. rq_seq_num (ntf_base n) = seq) (notify_queue c) = Some t"
    by (auto simp: pc__trans_sent_def Let_def split: bind_splits)
  show ?thesis
  proof (cases t)
    case None
    then show ?thesis using run' t by (simp add: pc__trans_sent_def Let_def)
  next
    case (Some r)
    then obtain n cb where n: "pool_get (notifies c) r = Some n" "ntf_cb n = Some cb"
      using run' t by (auto simp: pc__trans_sent_def Let_def Option.bind_eq_Some_conv split: if_splits)
    then have "finish_notify r (note_call (Ntf_answered n rc) (c\<lparr>notify_queue := remove1 r (notify_queue c)\<rparr>)) = Some c'"
      using run' t Some quiet by (auto simp: pc__trans_sent_def Let_def finish_notify_code quiet_user_fns_def
          Option.bind_eq_Some_conv split: if_splits)
    from finish_fields(2) [OF this] show ?thesis
      by (auto simp: answered_def)
  qed
qed

definition expired :: "int \<Rightarrow> tr_uv_wi pool \<Rightarrow> ref \<Rightarrow> bool" where
  "expired ct p r \<longleftrightarrow> (let w = the (pool_get p r) in wi_timeout w \<noteq> PC_WITHOUT_TIMEOUT \<and> ct > wi_ts w + wi_timeout w)"

definition left_wis :: "uv_env \<Rightarrow> 'z tr_uv_tcp_scheme \<Rightarrow> wi_queue \<Rightarrow> ref list" where
  "left_wis E tt q = (if q = writing_queue then wi_queues tt q
     else filter (\<lambda>r. \<not> expired (time_now E) (pre_wis tt) r) (wi_queues tt q))"

definition can_expire :: "tr_uv_wi pool \<Rightarrow> ref list \<Rightarrow> bool" where
  "can_expire p rs \<longleftrightarrow> (\<exists>r \<in> set rs. wi_timeout (the (pool_get p r)) \<noteq> PC_WITHOUT_TIMEOUT)"

lemma left_wis_cong:
  assumes "wi_queues tt' q = wi_queues tt q" and "\<forall>s \<in> set (wi_queues tt q). pool_get (pre_wis tt') s = pool_get (pre_wis tt) s"
  shows "left_wis E tt' q = left_wis E tt q" and "can_expire (pre_wis tt') (left_wis E tt q) = can_expire (pre_wis tt) (left_wis E tt q)"
  using assms by (auto simp: left_wis_def expired_def can_expire_def split: if_splits intro!: filter_cong)

context tcp_callbacks
begin

text \<open>The report of an item, which returns.\<close>

lemma quiet_report:
  assumes quiet: "quiet_user_fns U" and w: "world X F P c" and rc: "rc_ok rc"
  obtains c' where "(if TR_UV_WI_IS_NOTIFY t then pc_trans_sent U seq rc c
      else if TR_UV_WI_IS_RESP t then pc_trans_resp U rid rc None c else Some c) = Some c'"
    "tran c' = tran c" "config c' = config c" "answered rc c c'"
proof -
  have inv: "client_inv {} {} {} c" using w by (rule worldE)
  note ret = quiet_returning [OF quiet]
  obtain c1 where c1: "pc_trans_sent U seq rc c = Some c1"
    by (rule sent_returns [OF client_user_axioms ret inv rc])
  obtain c2 where c2: "pc_trans_resp U rid rc None c = Some c2"
    by (rule resp_returns [OF client_user_axioms ret inv rc])
  show thesis
    using quiet_sent_same [OF quiet c1] quiet_resp_same [OF quiet c2] c1 c2
    by (cases "TR_UV_WI_IS_NOTIFY t"; cases "TR_UV_WI_IS_RESP t") (auto intro: that)
qed

lemma quiet_expire:
  assumes quiet: "quiet_user_fns U" and w: "world X (r # F) (wi_key wi + P) c" and wi: "get_wi r c = Some wi"
    and tt: "tran c = Some tt"
  obtains c' p where "expire_wi U r wi c = Some c'" "tran c' = Some (tt\<lparr>pre_wis := p\<rparr>)" "config c' = config c"
    "answered PC_RC_TIMEOUT c c'" "\<And>s. s \<noteq> r \<Longrightarrow> pool_get p s = pool_get (pre_wis tt) s"
proof -
  obtain c1 where c1: "(if TR_UV_WI_IS_NOTIFY (wi_type wi) then pc_trans_sent U (wi_seq_num wi) PC_RC_TIMEOUT c
      else if TR_UV_WI_IS_RESP (wi_type wi) then pc_trans_resp U (wi_req_id wi) PC_RC_TIMEOUT None c else Some c) = Some c1"
    and same: "tran c1 = tran c" "config c1 = config c" "answered PC_RC_TIMEOUT c c1"
    by (rule quiet_report [OF quiet w, of PC_RC_TIMEOUT]) (auto simp: rc_ok_def)
  have x: "pool_get (pre_wis tt) r = Some wi" using wi tt by (simp add: get_wi_def)
  let ?w = "wi\<lparr>wi_buf := \<lparr>buf_base = None, buf_len = 0\<rparr>\<rparr>"
  obtain p1 where p1: "pool_put r ?w (pre_wis tt) = Some p1"
    using pool_put_Some [OF x] by blast
  let ?F = "F @ fst X (tr_uv_tcp.more tt)"
  have "tt_inv (r # ?F) tt" using w tt by (auto elim!: worldE simp: tinv_def)
  from pool_inv_out [OF this] have "pool_inv wi_type (pre_wis tt) (all_wis tt @ ?F) {r}" by blast
  from wi_pool.inv_put [OF this p1 x] have "pool_inv wi_type p1 (all_wis tt @ ?F) {r}" by simp
  then obtain p2 where p2: "pool_release wi_type wi_upd r p1 = Some p2"
    using wi_pool.inv_release_Some [of p1 _ _ r] by blast
  have "expire_wi U r wi c = Some (c1\<lparr>tran := Some (tt\<lparr>pre_wis := p2\<rparr>)\<rparr>)"
    using c1 same(1) tt x p1 p2
    by (simp add: expire_wi_def free_wi_buf_def put_wi_def pool_upd_def with_tt_def release_wi_def)
  moreover have "pool_get p2 s = pool_get (pre_wis tt) s" if "s \<noteq> r" for s
    using wi_pool.release_get_other [OF p2 that] that by (simp add: pool_get_put [OF p1])
  ultimately show thesis
    using that same(2,3) by (simp add: answered_def)
qed

text \<open>The loop keeps what has not expired, in order.\<close>

lemma quiet_check_loop:
  assumes quiet: "quiet_user_fns U"
  shows "world X F P c \<Longrightarrow> tran c = Some tt \<Longrightarrow> wi_queues tt q = rs \<Longrightarrow>
    \<exists>c' p. check_loop U ct q tmp cont c =
        Some (tmp @ filter (\<lambda>r. \<not> expired ct (pre_wis tt) r) rs,
          cont \<or> (\<exists>r \<in> set rs. \<not> expired ct (pre_wis tt) r \<and> wi_timeout (the (pool_get (pre_wis tt) r)) \<noteq> PC_WITHOUT_TIMEOUT), c') \<and>
      tran c' = Some ((set_queue q [] tt)\<lparr>pre_wis := p\<rparr>) \<and> config c' = config c \<and> answered PC_RC_TIMEOUT c c' \<and>
      (\<forall>s. s \<notin> set (filter (expired ct (pre_wis tt)) rs) \<longrightarrow> pool_get p s = pool_get (pre_wis tt) s)"
proof (induction rs arbitrary: F P c tt tmp cont)
  case Nil
  then have "check_loop U ct q tmp cont c = Some (tmp, cont, c)"
    by (subst check_loop.simps) (simp add: pop_wi_def)
  moreover have "tran c = Some ((set_queue q [] tt)\<lparr>pre_wis := pre_wis tt\<rparr>)"
    using Nil.prems by (simp add: set_queue_def fun_upd_idem)
  ultimately show ?case using Nil.prems by (intro exI [of _ c] exI [of _ "pre_wis tt"]) simp
next
  case (Cons r rs)
  let ?c1 = "c\<lparr>tran := Some (set_queue q rs tt)\<rparr>"
  have pop: "pop_wi q c = Some (Some (r, ?c1))"
    using Cons.prems by (simp add: pop_wi_def with_tt_def)
  obtain wi where wi: "get_wi r ?c1 = Some wi" and w1: "world X (r # F) (wi_key wi + P) ?c1"
    by (rule world_pop [OF Cons.prems(1) pop])
  have x: "pool_get (pre_wis tt) r = Some wi" using wi by (simp add: get_wi_def)
  have "distinct (all_wis tt)"
    using Cons.prems(1,2) by (auto elim!: worldE simp: tinv_def tt_inv_def pool_inv_def)
  moreover have "wi_queues tt q = r # rs" by (rule Cons.prems(3))
  ultimately have r: "r \<notin> set rs" by (cases q) (auto simp: all_wis_def)
  have t1: "tran ?c1 = Some (set_queue q rs tt)" by simp
  show ?case
  proof (cases "expired ct (pre_wis tt) r")
    case True
    obtain c2 p where c2: "expire_wi U r wi ?c1 = Some c2" "tran c2 = Some ((set_queue q rs tt)\<lparr>pre_wis := p\<rparr>)"
        "config c2 = config ?c1" "answered PC_RC_TIMEOUT ?c1 c2"
      and p: "\<And>s. s \<noteq> r \<Longrightarrow> pool_get p s = pool_get (pre_wis (set_queue q rs tt)) s"
      using quiet_expire [OF quiet w1 wi t1] by metis
    have same: "\<forall>s \<in> set rs. pool_get p s = pool_get (pre_wis tt) s" using p r by (metis set_queue_fields(1))
    then have ex: "\<forall>s \<in> set rs. expired ct p s = expired ct (pre_wis tt) s" by (simp add: expired_def)
    have w2: "world X F P c2" by (rule expire_wi_world(1) [OF w1 c2(1)])
    obtain c' p' where c': "check_loop U ct q tmp cont c2 =
        Some (tmp @ filter (\<lambda>r. \<not> expired ct p r) rs,
          cont \<or> (\<exists>r \<in> set rs. \<not> expired ct p r \<and> wi_timeout (the (pool_get p r)) \<noteq> PC_WITHOUT_TIMEOUT), c')"
      "tran c' = Some ((set_queue q [] ((set_queue q rs tt)\<lparr>pre_wis := p\<rparr>))\<lparr>pre_wis := p'\<rparr>)"
      "config c' = config c2" "answered PC_RC_TIMEOUT c2 c'"
      "\<forall>s. s \<notin> set (filter (expired ct p) rs) \<longrightarrow> pool_get p' s = pool_get p s"
      using Cons.IH [OF w2 c2(2), of tmp cont] by auto
    have "check_loop U ct q tmp cont c = check_loop U ct q tmp cont c2"
      using pop wi x True c2(1) by (subst check_loop.simps) (simp add: expired_def Let_def)
    moreover have "filter (\<lambda>r. \<not> expired ct p r) rs = filter (\<lambda>r. \<not> expired ct (pre_wis tt) r) (r # rs)"
      "set (filter (expired ct p) rs) \<subseteq> set (filter (expired ct (pre_wis tt)) (r # rs))"
      using ex True by (auto intro: filter_cong)
    moreover have "(\<exists>s \<in> set rs. \<not> expired ct p s \<and> wi_timeout (the (pool_get p s)) \<noteq> PC_WITHOUT_TIMEOUT) =
        (\<exists>s \<in> set (r # rs). \<not> expired ct (pre_wis tt) s \<and> wi_timeout (the (pool_get (pre_wis tt) s)) \<noteq> PC_WITHOUT_TIMEOUT)"
      using ex same True by auto
    moreover have "answered PC_RC_TIMEOUT c c'"
      using answered_trans [OF c2(4) c'(4)] answered_cong [of ?c1 c] by simp
    moreover have "\<forall>s. s \<notin> set (filter (expired ct (pre_wis tt)) (r # rs)) \<longrightarrow> pool_get p' s = pool_get (pre_wis tt) s"
      using c'(5) p ex True by auto
    moreover have "tran c' = Some ((set_queue q [] tt)\<lparr>pre_wis := p'\<rparr>)"
      using c'(2) by (simp add: set_queue_def)
    ultimately show ?thesis
      using c'(1,3) c2(3) by (intro exI [of _ c'] exI [of _ p']) simp
  next
    case False
    have w2: "world X (r # F) (wi_key wi + P) ?c1" by (rule w1)
    have t2: "tran ?c1 = Some (set_queue q rs tt)" "wi_queues (set_queue q rs tt) q = rs" by simp_all
    let ?cont = "wi_timeout wi \<noteq> PC_WITHOUT_TIMEOUT \<or> cont"
    obtain c' p where c': "check_loop U ct q (tmp @ [r]) ?cont ?c1 =
        Some ((tmp @ [r]) @ filter (\<lambda>r. \<not> expired ct (pre_wis tt) r) rs,
          ?cont \<or> (\<exists>r \<in> set rs. \<not> expired ct (pre_wis tt) r \<and> wi_timeout (the (pool_get (pre_wis tt) r)) \<noteq> PC_WITHOUT_TIMEOUT), c')"
      "tran c' = Some ((set_queue q [] (set_queue q rs tt))\<lparr>pre_wis := p\<rparr>)" "config c' = config ?c1"
      "answered PC_RC_TIMEOUT ?c1 c'"
      "\<forall>s. s \<notin> set (filter (expired ct (pre_wis tt)) rs) \<longrightarrow> pool_get p s = pool_get (pre_wis tt) s"
      using Cons.IH [OF w2 t2, of "tmp @ [r]" ?cont] by auto
    have "check_loop U ct q tmp cont c = check_loop U ct q (tmp @ [r]) ?cont ?c1"
      using pop wi x False by (subst check_loop.simps) (auto simp: expired_def Let_def)
    moreover have "answered PC_RC_TIMEOUT c c'"
      using c'(4) answered_cong [of ?c1 c] by simp
    moreover have "tran c' = Some ((set_queue q [] tt)\<lparr>pre_wis := p\<rparr>)"
      using c'(2) by (simp add: set_queue_def)
    ultimately show ?thesis
      using c'(1,3,5) False x by (intro exI [of _ c'] exI [of _ p]) auto
  qed
qed

lemma quiet_check_queue:
  assumes quiet: "quiet_user_fns U" and w: "world X F P c" and tt: "tran c = Some tt" and q: "q \<noteq> writing_queue"
  shows "\<exists>c' p. tcp__check_queue_timeout U E q cont c = Some (cont \<or> can_expire (pre_wis tt) (left_wis E tt q), c') \<and>
    tran c' = Some ((set_queue q (left_wis E tt q) tt)\<lparr>pre_wis := p\<rparr>) \<and> config c' = config c \<and> answered PC_RC_TIMEOUT c c' \<and>
    world X F P c' \<and> (\<forall>s \<in> set (all_wis (set_queue q (left_wis E tt q) tt)). pool_get p s = pool_get (pre_wis tt) s)"
proof -
  let ?left = "filter (\<lambda>r. \<not> expired (time_now E) (pre_wis tt) r) (wi_queues tt q)"
  let ?B = "\<exists>r \<in> set (wi_queues tt q). \<not> expired (time_now E) (pre_wis tt) r \<and>
      wi_timeout (the (pool_get (pre_wis tt) r)) \<noteq> PC_WITHOUT_TIMEOUT"
  have left: "left_wis E tt q = ?left" using q by (simp add: left_wis_def)
  have B: "?B = can_expire (pre_wis tt) ?left"
    by (auto simp: can_expire_def)
  obtain c1 p where c1: "check_loop U (time_now E) q [] cont c = Some (?left, cont \<or> ?B, c1)"
      "tran c1 = Some ((set_queue q [] tt)\<lparr>pre_wis := p\<rparr>)" "config c1 = config c" "answered PC_RC_TIMEOUT c c1"
    and p: "\<forall>s. s \<notin> set (filter (expired (time_now E) (pre_wis tt)) (wi_queues tt q)) \<longrightarrow> pool_get p s = pool_get (pre_wis tt) s"
    using quiet_check_loop [OF quiet w tt refl, of "time_now E" q "[]" cont] by auto
  let ?tt = "(set_queue q ?left tt)\<lparr>pre_wis := p\<rparr>"
  have run: "tcp__check_queue_timeout U E q cont c = Some (cont \<or> ?B, c1\<lparr>tran := Some ?tt\<rparr>)"
    using c1(1,2) by (simp add: tcp__check_queue_timeout_def with_tt_def set_queue_def upd_order)
  have "distinct (all_wis tt)"
    using w tt by (auto elim!: worldE simp: tinv_def tt_inv_def pool_inv_def)
  then have "\<forall>s \<in> set (all_wis (set_queue q ?left tt)). s \<notin> set (filter (expired (time_now E) (pre_wis tt)) (wi_queues tt q))"
    by (cases q) (auto simp: all_wis_def)
  then have same: "\<forall>s \<in> set (all_wis (set_queue q ?left tt)). pool_get p s = pool_get (pre_wis tt) s"
    using p by blast
  have "answered PC_RC_TIMEOUT c (c1\<lparr>tran := Some ?tt\<rparr>)"
    using c1(4) by (simp add: answered_def)
  then show ?thesis
    unfolding left B [symmetric]
    by (intro exI [of _ "c1\<lparr>tran := Some ?tt\<rparr>"] exI [of _ p] conjI run same wkeeps_rcD [OF wk_check_queue w run])
      (simp_all add: c1(3))
qed

end

text \<open>
  C15. The periodic check with callbacks that only look: it returns; in the three queues that it looks
  at, exactly the items whose time is up are removed, the others stay in order and as they are;
  all that the client learns is timeouts, after which, without polling, every open request
  and notify still has an item; and the check is scheduled again if and only if it still was or
  an item that is left can time out. The items that are being written are not looked at.
\<close>

theorem timeout_check_exact:
  assumes "tcp_user U" and quiet: "quiet_user_fns U" and "tcp_reachable U c" and tt: "tran c = Some tt"
  shows "\<exists>c' tt'. tcp__write_check_timeout_cb U E c = Some c' \<and> tran c' = Some tt' \<and> wi_queues tt' = left_wis E tt \<and>
    (\<forall>r \<in> set (all_wis tt'). pool_get (pre_wis tt') r = pool_get (pre_wis tt) r) \<and> answered PC_RC_TIMEOUT c c' \<and>
    (\<not> enable_polling (config c) \<longrightarrow> open_keys c' \<subseteq># item_keys tt') \<and>
    (timer_active tt' check_timeout \<longleftrightarrow> timer_active tt check_timeout \<or>
       (\<exists>q. q \<noteq> writing_queue \<and> can_expire (pre_wis tt) (left_wis E tt q)))"
proof -
  have U: "tcp_callbacks U" by (rule tcp_callbacks.intro [OF assms(1)])
  note step = tcp_callbacks.quiet_check_queue [OF U quiet]
  have w: "world own [] {#} c" by (rule reachable_world [OF assms(1,3)])
  let ?L = "left_wis E tt" and ?p = "pre_wis tt"
  define t1 where "t1 = tt\<lparr>wq_mutex := Suc (wq_mutex tt)\<rparr>"
  have lock: "tt_lock c = Some (c\<lparr>tran := Some t1\<rparr>)" using tt by (simp add: tt_lock_def with_tt_def t1_def)
  have w1: "world own [] {#} (c\<lparr>tran := Some t1\<rparr>)" by (rule wkeepsD [OF wk_fields(1) w lock])
  have t1: "wi_queues t1 = wi_queues tt" "pre_wis t1 = ?p" "left_wis E t1 q = ?L q" for q
    by (simp_all add: t1_def left_wis_def)
  obtain c2 p2 where c2: "tcp__check_queue_timeout U E conn_pending_queue False (c\<lparr>tran := Some t1\<rparr>) =
        Some (can_expire ?p (?L conn_pending_queue), c2)"
      "tran c2 = Some ((set_queue conn_pending_queue (?L conn_pending_queue) t1)\<lparr>pre_wis := p2\<rparr>)"
      "config c2 = config c" "answered PC_RC_TIMEOUT (c\<lparr>tran := Some t1\<rparr>) c2" "world own [] {#} c2"
    and p2: "\<forall>s \<in> set (all_wis (set_queue conn_pending_queue (?L conn_pending_queue) t1)). pool_get p2 s = pool_get ?p s"
    using step [OF w1, of t1 conn_pending_queue E False] by (auto simp: t1)
  define t2 where "t2 = (set_queue conn_pending_queue (?L conn_pending_queue) t1)\<lparr>pre_wis := p2\<rparr>"
  have t2: "left_wis E t2 write_wait_queue = ?L write_wait_queue" "can_expire p2 (?L write_wait_queue) = can_expire ?p (?L write_wait_queue)"
    using left_wis_cong [of t2 write_wait_queue tt E] p2 by (auto simp: t2_def t1 all_wis_def)
  obtain c3 p3 where c3: "tcp__check_queue_timeout U E write_wait_queue (can_expire ?p (?L conn_pending_queue)) c2 =
        Some (can_expire ?p (?L conn_pending_queue) \<or> can_expire ?p (?L write_wait_queue), c3)"
      "tran c3 = Some ((set_queue write_wait_queue (?L write_wait_queue) t2)\<lparr>pre_wis := p3\<rparr>)"
      "config c3 = config c2" "answered PC_RC_TIMEOUT c2 c3" "world own [] {#} c3"
    and p3: "\<forall>s \<in> set (all_wis (set_queue write_wait_queue (?L write_wait_queue) t2)). pool_get p3 s = pool_get p2 s"
    using step [OF c2(5), of t2 write_wait_queue E "can_expire ?p (?L conn_pending_queue)"] c2(2) t2 by (auto simp: t2_def)
  define t3 where "t3 = (set_queue write_wait_queue (?L write_wait_queue) t2)\<lparr>pre_wis := p3\<rparr>"
  have t3: "left_wis E t3 resp_pending_queue = ?L resp_pending_queue" "can_expire p3 (?L resp_pending_queue) = can_expire ?p (?L resp_pending_queue)"
    using left_wis_cong [of t3 resp_pending_queue tt E] p2 p3 by (auto simp: t3_def t2_def t1 all_wis_def)
  let ?cont = "(can_expire ?p (?L conn_pending_queue) \<or> can_expire ?p (?L write_wait_queue)) \<or> can_expire ?p (?L resp_pending_queue)"
  obtain c4 p4 where c4: "tcp__check_queue_timeout U E resp_pending_queue
        (can_expire ?p (?L conn_pending_queue) \<or> can_expire ?p (?L write_wait_queue)) c3 = Some (?cont, c4)"
      "tran c4 = Some ((set_queue resp_pending_queue (?L resp_pending_queue) t3)\<lparr>pre_wis := p4\<rparr>)"
      "config c4 = config c3" "answered PC_RC_TIMEOUT c3 c4" "world own [] {#} c4"
    and p4: "\<forall>s \<in> set (all_wis (set_queue resp_pending_queue (?L resp_pending_queue) t3)). pool_get p4 s = pool_get p3 s"
    using step [OF c3(5), of t3 resp_pending_queue E "can_expire ?p (?L conn_pending_queue) \<or> can_expire ?p (?L write_wait_queue)"]
      c3(2) t3 by (auto simp: t3_def)
  define t4 where "t4 = (set_queue resp_pending_queue (?L resp_pending_queue) t3)\<lparr>pre_wis := p4\<rparr>"
  let ?t5 = "t4\<lparr>wq_mutex := wq_mutex tt\<rparr>"
  have t4: "tran c4 = Some t4" "wq_mutex t4 = Suc (wq_mutex tt)" "timer_active t4 = timer_active tt"
    using c4(2) by (simp_all add: t4_def t3_def t2_def t1_def set_queue_def)
  have queues: "wi_queues t4 = ?L"
  proof
    fix q show "wi_queues t4 q = ?L q"
      by (cases q) (simp_all add: t4_def t3_def t2_def t1, simp add: left_wis_def)
  qed
  have unlock: "tt_unlock c4 = Some (c4\<lparr>tran := Some ?t5\<rparr>)"
    using t4(1,2) by (simp add: tt_unlock_def with_tt_def)
  have w5: "world own [] {#} (c4\<lparr>tran := Some ?t5\<rparr>)" by (rule wkeepsD [OF wk_fields(2) c4(5) unlock])
  define t6 where "t6 = (if ?cont then checked E ?t5 else ?t5)"
  have run: "tcp__write_check_timeout_cb U E c = Some (c4\<lparr>tran := Some t6\<rparr>)"
    using lock c2(1) c3(1) c4(1) unlock start_check_code [of "c4\<lparr>tran := Some ?t5\<rparr>" ?t5 E]
    by (simp add: tcp__write_check_timeout_cb_def t6_def)
  have w6: "world own [] {#} (c4\<lparr>tran := Some t6\<rparr>)"
    using wkeepsD [OF tcp_callbacks.wk_check_timeout [OF U] w run] .
  have t6: "wi_queues t6 = ?L" "pre_wis t6 = p4"
    "timer_active t6 check_timeout \<longleftrightarrow> timer_active tt check_timeout \<or> ?cont"
    using t4 queues by (simp_all add: t6_def t4_def)
  have all: "set (all_wis t6) \<subseteq> set (all_wis tt)"
    by (auto simp: all_wis_def t6(1) left_wis_def)
  have "\<forall>r \<in> set (all_wis t6). pool_get (pre_wis t6) r = pool_get ?p r"
    using p2 p3 p4 by (auto simp: t6 t3_def t2_def t1 all_wis_def left_wis_def)
  moreover have "answered PC_RC_TIMEOUT c (c4\<lparr>tran := Some t6\<rparr>)"
    using answered_trans [OF answered_trans [OF c2(4) c3(4)] c4(4)] by (simp add: answered_def)
  moreover have "\<not> enable_polling (config c) \<longrightarrow> open_keys (c4\<lparr>tran := Some t6\<rparr>) \<subseteq># item_keys t6"
    using w6 c2(3) c3(3) c4(3) open_account [of "{}" "{}" "{}" c4 "item_keys t6"] by (auto elim!: worldE simp: open_keys_def)
  moreover have "?cont \<longleftrightarrow> (\<exists>q. q \<noteq> writing_queue \<and> can_expire ?p (?L q))"
    using wi_queue.exhaust by (metis wi_queue.distinct)
  ultimately show ?thesis
    using run t6(1,3) by (intro exI [of _ "c4\<lparr>tran := Some t6\<rparr>"] exI [of _ t6]) simp
qed

theorem timeout_check_exact_witness:
  "\<exists>c c'. tcp_reachable example_user c \<and> req_queue c = [Pre 0] \<and>
    tcp__write_check_timeout_cb example_user (example_env\<lparr>time_now := 11\<rparr>) c = Some c' \<and> req_queue c' = [] \<and>
    answered PC_RC_TIMEOUT c c' \<and> \<not> timer_active (the (tran c')) check_timeout"
proof -
  let ?E = "example_env\<lparr>time_now := 11\<rparr>"
  obtain c tt where c: "tcp_reachable example_user c" "\<not> enable_polling (config c)" "req_queue c = [Pre 0]" "tran c = Some tt"
    and q: "wi_queues tt conn_pending_queue = [Pre 0]" "wi_queues tt write_wait_queue = []" "wi_queues tt writing_queue = []"
      "wi_queues tt resp_pending_queue = []"
    and wi: "wi_ts (the (pool_get (pre_wis tt) (Pre 0))) = 0" "wi_timeout (the (pool_get (pre_wis tt) (Pre 0))) = 10"
    and timer: "\<not> timer_active tt check_timeout"
    by (rule example_waiting)
  have none: "left_wis ?E tt q = []" for q
    using q wi by (cases q) (simp_all add: left_wis_def expired_def Let_def del: pool_get.simps)
  have "quiet_user_fns example_user"
    by (simp add: quiet_user_fns_def example_user_def Let_def)
  from timeout_check_exact [OF example_user_ok(1) this c(1,4), of ?E] obtain c' tt' where
    run: "tcp__write_check_timeout_cb example_user ?E c = Some c'" "tran c' = Some tt'" "wi_queues tt' = left_wis ?E tt"
      "answered PC_RC_TIMEOUT c c'" "open_keys c' \<subseteq># item_keys tt'" "\<not> timer_active tt' check_timeout"
    using c(2) none timer by (auto simp: can_expire_def)
  have "item_keys tt' = {#}"
    by (simp add: item_keys_def all_wis_def run(3) none)
  then have "req_queue c' = []"
    using run(5) open_keys_empty [of c'] by simp
  then show ?thesis using c run by auto
qed

section \<open>What goes wrong\<close>

text \<open>
  C35. A message that cannot be encoded (its body is not JSON, say) is not refused on a 64 bit
  machine: the failure length, \<open>(unsigned int)-1\<close> in the comparison, is a 64 bit \<open>-1\<close> in the buffer.
  The send reports success and queues an item without data whose length is \<open>2 ^ 64 - 1\<close>.
\<close>

theorem send_accepts_unencodable:
  assumes tt: "tran c = Some tt" "tt_state tt \<noteq> TR_UV_TCP_NOT_CONN" and rid: "rid \<noteq> PC_INVALID_REQ_ID"
    and fail: "pr_default_msg_encoder tt \<lparr>msg_id = rid, msg_route = Some rt, msg_text = Some m\<rparr> = Some None"
  shows "\<exists>c' r wi. tr_uv_tcp_send E (Some rt) seq (Some m) rid tmo c = Some (PC_RC_OK, c') \<and>
    get_wi r c' = Some wi \<and> buf_base (wi_buf wi) = None \<and> unat (buf_len (wi_buf wi)) = 2 ^ 64 - 1 \<and>
    (\<exists>q. wi_queues (the (tran c')) q = wi_queues tt q @ [r])"
proof -
  obtain r p where alloc: "pool_alloc wi_type wi_upd dyn_wi (pre_wis tt) = (r, p)"
    by (cases "pool_alloc wi_type wi_upd dyn_wi (pre_wis tt)")
  define q where "q = (if tt_state tt = TR_UV_TCP_DONE then write_wait_queue else conn_pending_queue)"
  obtain x where x: "pool_get p r = Some x"
    using wi_pool.alloc_get [OF alloc] by blast
  obtain p2 where p2: "pool_put r (fill_wi E (uv_buf_of None) seq rid tmo x) p = Some p2"
    using pool_put_Some [OF x] by blast
  let ?c' = "c\<lparr>tran := Some (uv_async_send write_async (set_queue q (wi_queues tt q @ [r]) (tt\<lparr>pre_wis := p2\<rparr>)))\<rparr>"
  have "\<not> is_failed_buf (uv_buf_of None)"
    by (simp add: is_failed_buf_def uv_buf_of_def)
  then have "tr_uv_tcp_send E (Some rt) seq (Some m) rid tmo c = Some (PC_RC_OK, ?c')"
    using tt rid x p2 unfolding tr_uv_tcp_send_def tt(1) Option.bind.simps fail Let_def enqueue_code [OF tt(1) alloc]
    by (simp add: pool_upd_def q_def fail)
  moreover have "get_wi r ?c' = Some (fill_wi E (uv_buf_of None) seq rid tmo x)"
    by (simp add: get_wi_def uv_async_send_def pool_get_put [OF p2])
  moreover have "buf_base (wi_buf (fill_wi E (uv_buf_of None) seq rid tmo x)) = None"
    "unat (buf_len (wi_buf (fill_wi E (uv_buf_of None) seq rid tmo x))) = 2 ^ 64 - 1"
    by (simp_all add: fill_wi_def uv_buf_of_def unsigned_minus_1_eq_mask mask_eq_exp_minus_1)
  moreover have "wi_queues (the (tran ?c')) q = wi_queues tt q @ [r]"
    by (simp add: uv_async_send_def)
  ultimately show ?thesis by blast
qed

theorem send_accepts_unencodable_witness:
  "\<exists>c' r wi. tr_uv_tcp_send example_env (Some ''a'') 0 (Some ''m'') 1 10
      (zeroed_client\<lparr>tran := Some (zero_tt\<lparr>tt_state := TR_UV_TCP_DONE\<rparr>)\<rparr>) = Some (PC_RC_OK, c') \<and>
    get_wi r c' = Some wi \<and> unat (buf_len (wi_buf wi)) = 2 ^ 64 - 1"
proof -
  have enc: "pr_default_msg_encoder (zero_tt\<lparr>tt_state := TR_UV_TCP_DONE\<rparr>) \<lparr>msg_id = 1, msg_route = Some ''a'', msg_text = Some ''m''\<rparr> = Some None"
    by code_simp
  from send_accepts_unencodable [of "zeroed_client\<lparr>tran := Some (zero_tt\<lparr>tt_state := TR_UV_TCP_DONE\<rparr>)\<rparr>", OF _ _ _ enc]
  show ?thesis by (fastforce simp: PC_INVALID_REQ_ID_def)
qed

lemma reset_queue_empty: "tran c = Some tt \<Longrightarrow> wi_queues tt q = [] \<Longrightarrow> reset_queue U q c = Some c"
  by (subst reset_queue.simps) (simp add: pop_wi_def)

text \<open>
  C36. Disconnecting while the connection is being made: the reset closes the socket and the client is
  told \<open>PC_EV_DISCONNECT\<close>, which leaves it initialised; libuv then runs the callback of the cancelled
  connection, which reports \<open>PC_EV_CONNECT_ERROR\<close>, and the assert of the client's state machine fails.
\<close>

theorem disconnect_while_connecting_aborts:
  assumes inv: "client_inv {} {} {} c" and tt: "tran c = Some tt" "is_connecting tt" "\<And>q. wi_queues tt q = []"
    and st: "state c = PC_ST_DISCONNECTING" "\<not> enable_polling (config c)"
    and quiet: "\<And>cb t x a1 a2 d. u_ev U cb t x a1 a2 d = Some d"
  shows "\<exists>c'. tcp__disconnect_async_cb U (tcp_hooks U) c = Some c' \<and> state c' = PC_ST_INITED \<and>
    is_connecting (the (tran c')) \<and> sock_closing (the (tran c')) \<and>
    (\<forall>E status. status \<noteq> 0 \<longrightarrow> loop_step U (tcp_hooks U) (E, L_connected status) c' = None)"
proof -
  define t1 where "t1 = reset_fields (state c) tt"
  have t1: "is_connecting t1" "sock_closing t1" "wi_queues t1 = (\<lambda>_. [])" "wq_mutex t1 = wq_mutex tt"
    using tt st by (auto simp: t1_def reset_fields_def uv_timer_stop_def Let_def)
  have moves: "move_queue a b t = t" if "wi_queues t = (\<lambda>_. [])" for a b and t :: "'a tr_uv_tcp_scheme"
  proof -
    have "(\<lambda>_. [])(b := [] @ [], a := []) = (\<lambda>_. [] :: ref list)" by auto
    then show ?thesis using that by (simp add: move_queue_def set_queue_def)
  qed
  have mutex: "t1\<lparr>wq_mutex := wq_mutex tt\<rparr> = t1" using move_queue_mutex(4) t1(4) .
  have reset: "tcp__reset U c = Some (c\<lparr>tran := Some t1\<rparr>)"
    using tt(1) t1 reset_queue_empty [of "c\<lparr>tran := Some (t1\<lparr>wq_mutex := Suc (wq_mutex tt)\<rparr>)\<rparr>"]
    by (simp add: tcp__reset_def tt_lock_def tt_unlock_def with_tt_def moves mutex flip: t1_def)
  let ?c2 = "c\<lparr>tran := Some (t1\<lparr>reconn_times := 0\<rparr>)\<rparr>"
  have inv2: "client_inv {} {} {} ?c2" using inv by simp
  have "net_event_ok PC_EV_DISCONNECT None None" by (simp add: net_event_ok_def)
  from fire_event_effect [OF inv2 this quiet] st obtain h where
    "pc_trans_fire_event U PC_EV_DISCONNECT None None ?c2 = Some (?c2\<lparr>state := PC_ST_INITED, history := h\<rparr>)"
    by (simp add: pc_trans_fire_event_def fire_state_def)
  then have run: "tcp__disconnect_async_cb U (tcp_hooks U) c = Some (?c2\<lparr>state := PC_ST_INITED, history := h\<rparr>)"
    using reset by (simp add: tcp__disconnect_async_cb_def tcp_hooks_def with_tt_def)
  have "loop_step U (tcp_hooks U) (E, L_connected status) (?c2\<lparr>state := PC_ST_INITED, history := h\<rparr>) = None" if "status \<noteq> 0" for E status
    using that st t1(1) by (simp add: loop_step_def tcp__conn_done_cb_def with_tt_def connect_error_def
        pc_trans_fire_event_def pc__trans_fire_event_def net_event_ok_def fire_state_def Let_def)
  then show ?thesis
    using run t1 by (intro exI [of _ "?c2\<lparr>state := PC_ST_INITED, history := h\<rparr>"]) simp
qed

theorem disconnect_while_connecting_aborts_witness:
  "\<exists>c c'. tcp_reachable example_user c \<and> state c = PC_ST_DISCONNECTING \<and>
    tcp__disconnect_async_cb example_user (tcp_hooks example_user) c = Some c' \<and>
    loop_step example_user (tcp_hooks example_user) (example_env, L_connected UV_ECANCELED) c' = None"
proof -
  let ?steps = "[Called example_env [] (A_connect (Some ''h'') 80 None), Ran example_env (L_async conn_async),
     Called example_env [] A_disconnect]"
  let ?run = "do { c \<leftarrow> example_start; tcp_run example_user ?steps c }"
  have ev: "map_option (\<lambda>c. (state c, enable_polling (config c), tran c \<noteq> None, is_connecting (the (tran c)),
        map (wi_queues (the (tran c))) [conn_pending_queue, write_wait_queue, writing_queue, resp_pending_queue])) ?run =
      Some (PC_ST_DISCONNECTING, False, True, True, [[], [], [], []])"
    by code_simp
  then obtain c where c: "?run = Some c" by blast
  then obtain c0 where "example_start = Some c0" "tcp_run example_user ?steps c0 = Some c"
    by (auto simp: Option.bind_eq_Some_conv simp del: tcp_run.simps)
  then have reach: "tcp_reachable example_user c"
    using example_start_reachable tcp_run_reachable by blast
  obtain tt where tt: "tran c = Some tt" using ev c by auto
  have st: "state c = PC_ST_DISCONNECTING" "\<not> enable_polling (config c)" "is_connecting tt"
    and "wi_queues tt conn_pending_queue = []" "wi_queues tt write_wait_queue = []" "wi_queues tt writing_queue = []"
      "wi_queues tt resp_pending_queue = []"
    using ev c tt by (simp_all del: tcp_run.simps)
  then have none: "wi_queues tt q = []" for q by (cases q) simp_all
  have inv: "client_inv {} {} {} c"
    using reachable_world [OF example_user_ok(1) reach] by (rule worldE)
  have quiet: "u_ev example_user cb t x a1 a2 d = Some d" for cb t x a1 a2 d
    by (simp add: example_user_def Let_def)
  from disconnect_while_connecting_aborts [OF inv tt st(3) none st(1,2) quiet] obtain c' where
    c': "tcp__disconnect_async_cb example_user (tcp_hooks example_user) c = Some c'"
      "\<forall>E status. status \<noteq> 0 \<longrightarrow> loop_step example_user (tcp_hooks example_user) (E, L_connected status) c' = None"
    by blast
  have "UV_ECANCELED \<noteq> 0" by simp
  with c'(2) have "loop_step example_user (tcp_hooks example_user) (example_env, L_connected UV_ECANCELED) c' = None" by blast
  with reach st(1) c'(1) show ?thesis by blast
qed

lemma check_queue_empty:
  assumes "tran c = Some tt" and "wi_queues tt q = []"
  shows "tcp__check_queue_timeout U E q cont c = Some (cont, c)"
proof -
  have "check_loop U (time_now E) q [] cont c = Some ([], cont, c)"
    using assms by (subst check_loop.simps) (simp add: pop_wi_def)
  moreover have "c\<lparr>tran := Some (set_queue q [] tt)\<rparr> = c"
  proof -
    have "(wi_queues tt)(q := []) = wi_queues tt" using assms(2) by auto
    then show ?thesis using assms(1) by (simp add: set_queue_def)
  qed
  ultimately show ?thesis
    using assms by (simp add: tcp__check_queue_timeout_def with_tt_def)
qed

text \<open>
  C37. The check of the timeouts looks at three of the four queues and stops when they hold nothing that
  can time out. A request whose write is still in progress then moves to the queue of the responses
  without the check being started again: once written it waits for its response without limit,
  its timeout notwithstanding, until something else is sent.
\<close>

theorem slow_write_loses_timeout:
  assumes tt: "tran c = Some tt" "tt_state tt = TR_UV_TCP_DONE" "is_writing tt"
    and queues: "wi_queues tt = (\<lambda>q. if q = writing_queue then [r] else [])"
    and wi: "pool_get (pre_wis tt) r = Some wi" "TR_UV_WI_IS_RESP (wi_type wi)"
    and timer: "timer_active tt check_timeout" "timer_due tt check_timeout \<le> of_nat (loop_time E1)"
  shows "\<exists>c' tt'. run_loop U K [(E1, L_timer check_timeout), (E2, L_written 0), (E3, L_async write_async)] c = Some c' \<and>
    tran c' = Some tt' \<and> wi_queues tt' resp_pending_queue = [r] \<and> pool_get (pre_wis tt') r = Some wi \<and>
    (\<forall>E. \<not> enabled E (L_timer check_timeout) tt')"
proof -
  define t1 where "t1 = uv_timer_stop check_timeout tt"
  define t2 where "t2 = uv_async_send write_async (push_wi resp_pending_queue r (set_queue writing_queue [] (t1\<lparr>is_writing := False\<rparr>)))"
  have t1: "wi_queues t1 = wi_queues tt" "is_writing t1" "tt_state t1 = TR_UV_TCP_DONE" "\<not> timer_active t1 check_timeout"
      "pre_wis t1 = pre_wis tt"
    using tt by (simp_all add: t1_def uv_timer_stop_def)
  have t2: "wi_queues t2 = (\<lambda>q. if q = resp_pending_queue then [r] else [])" "\<not> is_writing t2" "tt_state t2 = TR_UV_TCP_DONE"
      "\<not> timer_active t2 check_timeout" "pre_wis t2 = pre_wis tt" "signalled t2 write_async"
    using t1 queues by (auto simp: t2_def push_wi_def set_queue_def uv_async_send_def)
  have s1: "loop_step U K (E1, L_timer check_timeout) c = Some (c\<lparr>tran := Some t1\<rparr>)"
  proof -
    let ?c = "c\<lparr>tran := Some (t1\<lparr>wq_mutex := Suc (wq_mutex t1)\<rparr>)\<rparr>"
    have "tcp__check_queue_timeout U E1 q cont ?c = Some (cont, ?c)" if "q \<noteq> writing_queue" for q cont
      by (rule check_queue_empty [where tt = "t1\<lparr>wq_mutex := Suc (wq_mutex t1)\<rparr>"]) (use that queues t1 in simp_all)
    then show ?thesis
      using tt(1) timer by (simp add: loop_step_def tcp__write_check_timeout_cb_def tt_lock_def tt_unlock_def with_tt_def
          flip: t1_def)
  qed
  have s2: "loop_step U K (E2, L_written 0) (c\<lparr>tran := Some t1\<rparr>) = Some (c\<lparr>tran := Some t2\<rparr>)"
  proof -
    let ?s = "t1\<lparr>is_writing := False, wq_mutex := Suc (wq_mutex t1)\<rparr>"
    let ?s1 = "set_queue writing_queue [] ?s" and ?s2 = "push_wi resp_pending_queue r (set_queue writing_queue [] ?s)"
    have pop: "pop_wi writing_queue (c\<lparr>tran := Some ?s\<rparr>) = Some (Some (r, c\<lparr>tran := Some ?s1\<rparr>))"
      using queues t1 by (simp add: pop_wi_def with_tt_def)
    have "pop_wi writing_queue (c\<lparr>tran := Some ?s2\<rparr>) = Some None"
      by (simp add: pop_wi_def push_wi_def)
    then have end_loop: "written_loop U 0 (c\<lparr>tran := Some ?s2\<rparr>) = Some (c\<lparr>tran := Some ?s2\<rparr>)"
      by (subst written_loop.simps) simp
    have "get_wi r (c\<lparr>tran := Some ?s1\<rparr>) = Some wi"
      using wi t1 by (simp add: get_wi_def)
    then have "written_loop U 0 (c\<lparr>tran := Some ?s\<rparr>) = Some (c\<lparr>tran := Some ?s2\<rparr>)"
      using pop end_loop wi(2) by (subst written_loop.simps) (simp add: with_tt_def)
    moreover define s2 where "s2 = ?s2"
    ultimately have loop: "written_loop U 0 (c\<lparr>tran := Some ?s\<rparr>) = Some (c\<lparr>tran := Some s2\<rparr>)" by (simp only:)
    have s2: "wq_mutex s2 = Suc (wq_mutex t1)" "uv_async_send write_async (s2\<lparr>wq_mutex := wq_mutex t1\<rparr>) = t2"
      by (simp_all add: s2_def t2_def push_wi_def set_queue_def uv_async_send_def)
    have "tcp__write_done_cb U 0 (c\<lparr>tran := Some t1\<rparr>) = Some (c\<lparr>tran := Some (uv_async_send write_async (s2\<lparr>wq_mutex := wq_mutex t1\<rparr>))\<rparr>)"
      using t1(2) loop s2(1) by (simp add: tcp__write_done_cb_def tt_lock_def tt_unlock_def with_tt_def)
    then show ?thesis
      using t1(2) by (simp add: loop_step_def s2(2))
  qed
  have s3: "loop_step U K (E3, L_async write_async) (c\<lparr>tran := Some t2\<rparr>) =
      Some (c\<lparr>tran := Some (t2\<lparr>signalled := (signalled t2)(write_async := False)\<rparr>)\<rparr>)"
  proof -
    define t3 where "t3 = t2\<lparr>signalled := (signalled t2)(write_async := False)\<rparr>"
    have t3: "wi_queues t3 = (\<lambda>q. if q = resp_pending_queue then [r] else [])" "\<not> is_writing t3" "tt_state t3 = TR_UV_TCP_DONE"
      using t2 by (simp_all add: t3_def)
    have "(\<lambda>q. if q = resp_pending_queue then [r] else [])(write_wait_queue := [], conn_pending_queue := []) =
        (\<lambda>q. if q = resp_pending_queue then [r] else [])" by auto
    then have "move_queue conn_pending_queue write_wait_queue (t3\<lparr>wq_mutex := m\<rparr>) = t3\<lparr>wq_mutex := m\<rparr>" for m
      using t3(1) by (simp add: move_queue_def set_queue_def)
    then have "tcp__write_async_cb U E3 (c\<lparr>tran := Some t3\<rparr>) = Some (c\<lparr>tran := Some t3\<rparr>)"
      using t3 by (simp add: tcp__write_async_cb_def tt_lock_def tt_unlock_def with_tt_def Let_def)
    then show ?thesis
      using t2(6) by (simp add: loop_step_def with_tt_def flip: t3_def)
  qed
  show ?thesis
    using s1 s2 s3 t2 wi(1) by simp
qed

definition example_writing :: "tr_uv_tcp pc_client" where
  "example_writing = zeroed_client\<lparr>tran := Some (zero_tt\<lparr>tt_state := TR_UV_TCP_DONE, is_writing := True,
     wi_queues := (\<lambda>q. if q = writing_queue then [Pre 0] else []), timer_active := (\<lambda>_. True),
     pre_wis := \<lparr>slots = [fill_wi example_env \<lparr>buf_base = Some [], buf_len = 0\<rparr> 0 1 10 (wi_upd PC_PRE_ALLOC_SET_BUSY idle_wi)],
       heap = (\<lambda>_. None), fresh = 0\<rparr>\<rparr>)\<rparr>"

theorem slow_write_loses_timeout_witness:
  "\<exists>c'. run_loop example_user (tcp_hooks example_user) [(example_env, L_timer check_timeout), (example_env, L_written 0),
      (example_env, L_async write_async)] example_writing = Some c' \<and>
    wi_queues (the (tran c')) resp_pending_queue = [Pre 0] \<and> \<not> enabled example_env (L_timer check_timeout) (the (tran c'))"
proof -
  let ?tt = "the (tran example_writing)"
  let ?wi = "fill_wi example_env \<lparr>buf_base = Some [], buf_len = 0\<rparr> 0 1 10 (wi_upd PC_PRE_ALLOC_SET_BUSY idle_wi)"
  have "tran example_writing = Some ?tt" "tt_state ?tt = TR_UV_TCP_DONE" "is_writing ?tt"
    "wi_queues ?tt = (\<lambda>q. if q = writing_queue then [Pre 0] else [])" "pool_get (pre_wis ?tt) (Pre 0) = Some ?wi"
    "TR_UV_WI_IS_RESP (wi_type ?wi)" "timer_active ?tt check_timeout" "timer_due ?tt check_timeout \<le> of_nat (loop_time example_env)"
    by (simp_all add: example_writing_def zero_tt_def fill_wi_def flag_simps)
  from slow_write_loses_timeout [OF this, of example_user "tcp_hooks example_user" example_env example_env] show ?thesis
    by fastforce
qed

end
