(* ===== verification/TcpReads.thy ===== *)
theory TcpReads
  imports TcpProps
begin

text \<open>
  What the TCP transport makes of the bytes that it reads: the packages that a chunk completes are
  handled one after the other, and a response in them reaches its request.
\<close>

section \<open>Chunks and packages\<close>

context tcp_reader
begin

lemma read_code:
  assumes w: "world (H, J, pkg_parser_ok) F P c" and tt: "tran c = Some tt" and n: "0 \<le> nread"
  shows "let bs = pkg_pending (pkg_parser tt) @ take (nat nread) buf in
    case deliver (handled (tr_tcp_on_pkg_handler U K E)) (fst (split_pkgs bs)) c of
      None \<Rightarrow> tcp__on_tcp_read_cb U K E nread buf c = None
    | Some c1 \<Rightarrow> \<exists>p tt1. tran c1 = Some tt1 \<and> pkg_parser_ok p \<and> pkg_pending p = snd (split_pkgs bs) \<and>
        tcp__on_tcp_read_cb U K E nread buf c = Some (c1\<lparr>tran := Some (tt1\<lparr>pkg_parser := p\<rparr>)\<rparr>)"
proof -
  have ok: "pkg_parser_ok (pkg_parser tt)"
    using w tt by (auto simp: world_def tinv_def)
  have cb: "tcp__on_tcp_read_cb U K E nread buf c =
      do { (p, c1) \<leftarrow> pc_pkg_parser_feed (tr_tcp_on_pkg_handler U K E) (pkg_parser tt) c (take (nat nread) buf);
           with_tt (\<lambda>tt. tt\<lparr>pkg_parser := p\<rparr>) c1 }"
    using n tt by (simp add: tcp__on_tcp_read_cb_def)
  have "\<exists>tt1. tran c1 = Some tt1" if "world (H, J, G) F P c1" for G c1
    using that by (auto elim: worldE)
  with feed_packages [OF w tt ok, of "take (nat nread) buf"] show ?thesis
    unfolding cb packages.feed_spec_def Let_def by (fastforce simp: with_tt_def split: option.splits)
qed

end

text \<open>
  C5. Reading refines handling packages: for every chunk that the socket delivers in a reachable
  state, the read callback hands to the package handler exactly the packages that the chunk
  completes, together with what was pending of earlier chunks, in the order of the stream, keeps
  the unfinished rest pending and leaves the parser in order; it aborts only if a handler aborts.
\<close>

theorem tcp_read_refines_packages:
  assumes "tcp_user U" and "tcp_reachable U c" and "tran c = Some tt" and "0 \<le> nread"
  shows "let bs = pkg_pending (pkg_parser tt) @ take (nat nread) buf in
    case deliver (handled (tr_tcp_on_pkg_handler U (tcp_hooks U) E)) (fst (split_pkgs bs)) c of
      None \<Rightarrow> tcp__on_tcp_read_cb U (tcp_hooks U) E nread buf c = None
    | Some c1 \<Rightarrow> \<exists>p tt1. tran c1 = Some tt1 \<and> pkg_parser_ok p \<and> pkg_pending p = snd (split_pkgs bs) \<and>
        tcp__on_tcp_read_cb U (tcp_hooks U) E nread buf c = Some (c1\<lparr>tran := Some (tt1\<lparr>pkg_parser := p\<rparr>)\<rparr>)"
proof -
  have "tcp_reader U (\<lambda>_. []) (\<lambda>_ _. True) (tcp_hooks U)"
    by (rule tcp_callbacks.tcp_reader_own) (rule tcp_callbacks.intro [OF assms(1)])
  from tcp_reader.read_code [OF this reachable_world [OF assms(1,2), unfolded own_def] assms(3,4)] show ?thesis .
qed

theorem tcp_read_refines_packages_witness:
  "\<exists>c c' tt'. tcp_reachable example_user c \<and> req_queue c = [Pre 0] \<and>
    tcp__on_tcp_read_cb example_user (tcp_hooks example_user) example_env 6 [3, 0, 0, 0, 4, 0] c = Some c' \<and>
    tran c' = Some tt' \<and> pkg_pending (pkg_parser tt') = [4, 0]"
proof -
  obtain c tt where c: "tcp_reachable example_user c" "req_queue c = [Pre 0]" "tran c = Some tt" "\<not> is_waiting_hb tt"
    "pkg_pending (pkg_parser tt) = []"
    by (rule example_waiting)
  have split: "split_pkgs [3, 0, 0, 0, 4, 0] = ([(3, [])], [4, 0])"
    by (simp add: split_pkgs.simps be24_def)
  have "handled (tr_tcp_on_pkg_handler example_user (tcp_hooks example_user) example_env) 3 [] c =
      Some (c\<lparr>tran := Some (tt\<lparr>pkg_parser := complete_pkg 3 []\<rparr>)\<rparr>)"
    using c(3,4) by (simp add: handled_def tr_tcp_on_pkg_handler_def with_tt_def tcp__on_heartbeat_def)
  then show ?thesis
    using tcp_read_refines_packages [OF example_user_ok(1) c(1,3), of 6 "[3, 0, 0, 0, 4, 0]" example_env] c(1,2,5) split
    by (auto simp: Let_def)
qed

section \<open>Responses\<close>

lemma find_resp_total:
  "\<forall>r \<in> set rs. \<exists>w. pool_get p r = Some w \<and> TR_UV_WI_IS_RESP (wi_type w) \<Longrightarrow> \<exists>t. find_resp p rid rs = Some t"
  by (induction rs) auto

text \<open>Removing the item of a response always succeeds.\<close>

lemma drop_resp_effect:
  assumes tt: "tran c = Some tt" "tt_inv F tt"
  obtains tt' where "drop_resp rid c = Some (c\<lparr>tran := Some tt'\<rparr>)" "pkg_parser tt' = pkg_parser tt"
    "\<And>w. find_resp (pre_wis tt) rid (wi_queues tt resp_pending_queue) = Some (Some w) \<Longrightarrow>
      wi_queues tt' resp_pending_queue = remove1 w (wi_queues tt resp_pending_queue) \<and> \<not> in_use wi_type (pre_wis tt') w"
proof -
  obtain t where t: "find_resp (pre_wis tt) rid (wi_queues tt resp_pending_queue) = Some t"
    using find_resp_total tt(2) unfolding tt_inv_def by blast
  show thesis
  proof (cases t)
    case None
    then show thesis
      using t tt(1) by (intro that [of tt]) (simp_all add: drop_resp_def)
  next
    case (Some w)
    obtain x where w: "w \<in> set (wi_queues tt resp_pending_queue)" and x: "pool_get (pre_wis tt) w = Some x"
      using find_resp_Some t Some by blast
    let ?q = "remove1 w (wi_queues tt resp_pending_queue)"
    let ?y = "x\<lparr>wi_buf := \<lparr>buf_base = None, buf_len = 0\<rparr>\<rparr>"
    let ?t1 = "set_queue resp_pending_queue ?q tt"
    have "mset (wi_queues tt resp_pending_queue) = add_mset w (mset ?q)" using w by simp
    note out = tt_wi_out(1) [OF tt(2) this set_remove1_subset]
    have p0: "pool_inv wi_type (pre_wis tt) (all_wis ?t1 @ F) {w}"
      using pool_inv_out [OF out] by simp
    obtain p1 where p1: "pool_put w ?y (pre_wis tt) = Some p1"
      using pool_put_Some [OF x] by blast
    have inv1: "pool_inv wi_type p1 (all_wis ?t1 @ F) {w}"
      using wi_pool.inv_put [OF p0 p1 x] by simp
    then obtain p2 where p2: "pool_release wi_type wi_upd w p1 = Some p2"
      using wi_pool.inv_release_Some [of p1 _ _ w] by blast
    have gone: "\<not> in_use wi_type p2 w"
      using wi_pool.release_in_use [OF _ p2] inv1 by (simp add: pool_inv_def)
    let ?t2 = "?t1\<lparr>pre_wis := p2\<rparr>"
    have "drop_resp rid c = Some (c\<lparr>tran := Some ?t2\<rparr>)"
      using t Some tt(1) p1 p2 x
      by (simp add: drop_resp_def with_tt_def free_wi_buf_def put_wi_def pool_upd_def get_wi_def pool_get_put [OF p1]
          tt_lock_def tt_unlock_def release_wi_def set_queue_def upd_order)
    then show thesis
      using t Some gone by (intro that [of ?t2]) simp_all
  qed
qed

lemma data_handled:
  assumes tt: "tran c = Some tt"
    and msg: "pr_default_msg_decoder tt body = Some \<lparr>msg_id = rid, msg_route = None, msg_text = Some txt\<rparr>"
    and rid: "rid \<noteq> PC_INVALID_REQ_ID" "rid \<noteq> PC_NOTIFY_PUSH_REQ_ID"
  shows "handled (tr_tcp_on_pkg_handler U K E) PC_PKG_DATA body c =
    do { c1 \<leftarrow> pc_trans_resp U rid PC_RC_OK (Some txt) (c\<lparr>tran := Some (tt\<lparr>pkg_parser := complete_pkg PC_PKG_DATA body\<rparr>)\<rparr>);
         c2 \<leftarrow> drop_resp rid c1; tt \<leftarrow> tran c2; Some c2 }"
proof -
  have body: "buf_bytes (pkg_buf (complete_pkg ty body)) = body" for ty
    by (simp add: complete_pkg_def)
  show ?thesis
    using assms by (simp add: handled_def tr_tcp_on_pkg_handler_def with_tt_def body tcp__on_data_recieved_def
        pr_default_msg_decoder_def map_option_bind Option.bind_assoc comp_def)
qed

text \<open>
  C4. From bytes to the callback, without polling: if a chunk completes a data package, and nothing else, whose
  message is the response to a request that waits in the client's queue, then the
  read returns: the request's own callback has run exactly once, with code 0 and the decoded
  text, after the request was unlinked; afterwards its slot is free and the parser is idle. If, when the callback
  has returned, a write item with this id waits in the queue of written requests, the first such item is unlinked
  and given back.
\<close>

theorem response_reaches_request:
  assumes U: "tcp_user U" "returning U" and w: "world own [] {#} c" and poll: "\<not> enable_polling (config c)"
    and tt: "tran c = Some tt" and n: "0 \<le> nread"
    and chunk: "pc_pkg_encode PC_PKG_DATA body = Some (pkg_pending (pkg_parser tt) @ take (nat nread) buf)"
    and msg: "pr_default_msg_decoder tt body = Some \<lparr>msg_id = rid, msg_route = None, msg_text = Some txt\<rparr>"
    and rid: "rid \<noteq> PC_INVALID_REQ_ID" "rid \<noteq> PC_NOTIFY_PUSH_REQ_ID"
    and queue: "req_queue c = xs @ r # ys" "\<forall>s \<in> set xs. req_id (the (pool_get (requests c) s)) \<noteq> rid"
    and q: "pool_get (requests c) r = Some q" "req_id q = rid" "req_cb q = Some cb"
  shows "\<exists>d ttd c' tt'.
    u_req U cb q PC_RC_OK (Some txt) (note_call (Req_answered q PC_RC_OK (Some txt))
      (c\<lparr>tran := Some (tt\<lparr>pkg_parser := complete_pkg PC_PKG_DATA body\<rparr>), req_queue := xs @ ys\<rparr>)) = Some d \<and>
    tran d = Some ttd \<and>
    tcp__on_tcp_read_cb U (tcp_hooks U) E nread buf c = Some c' \<and> tran c' = Some tt' \<and>
    c' = d\<lparr>requests := requests c', tran := Some tt'\<rparr> \<and> \<not> in_use rq_ty (requests c') r \<and>
    (\<forall>s. s \<noteq> r \<longrightarrow> pool_get (requests c') s = pool_get (requests d) s) \<and> pkg_pending (pkg_parser tt') = [] \<and>
    (\<forall>w. find_resp (pre_wis ttd) rid (wi_queues ttd resp_pending_queue) = Some (Some w) \<longrightarrow>
      wi_queues tt' resp_pending_queue = remove1 w (wi_queues ttd resp_pending_queue) \<and> \<not> in_use wi_type (pre_wis tt') w)"
proof -
  let ?K = "tcp_hooks U" and ?p = "complete_pkg PC_PKG_DATA body"
  let ?c1 = "c\<lparr>tran := Some (tt\<lparr>pkg_parser := ?p\<rparr>)\<rparr>"
  let ?c2 = "note_call (Req_answered q PC_RC_OK (Some txt)) (?c1\<lparr>req_queue := xs @ ys\<rparr>)"
  let ?X = "(\<lambda>_. [], \<lambda>_ _. True, \<lambda>q. q = ?p \<or> q = pc_pkg_parser_reset ?p)"
  have cb: "tcp_callbacks U" by (rule tcp_callbacks.intro [OF U(1)])
  have rd: "tcp_reader U (\<lambda>_. []) (\<lambda>_ _. True) ?K" by (rule tcp_callbacks.tcp_reader_own [OF cb])
  have inv: "client_inv {} {} {} ?c1" using w by (auto elim: worldE)
  have w1: "world ?X [] {#} ?c1"
    by (rule tcp_callbacks.world_parser [OF cb w [unfolded own_def] tt]) auto
  have dist: "distinct (req_queue c)" using inv by (simp add: client_inv_def queue_inv_def pool_inv_def)
  then have rm: "remove1 r (req_queue c) = xs @ ys" using queue(1) by (simp add: remove1_append)
  obtain d where d: "u_req U cb q PC_RC_OK (Some txt) ?c2 = Some d"
    using U(2) unfolding returning_def by blast
  have "client_inv (insert r {}) {} {} ?c2"
    using answer_request [OF inv, of r q] queue(1) q(1) rm by simp
  moreover have "client_user U" using U(1) by (simp add: tcp_user_def)
  ultimately have "client_inv (insert r {}) {} {} d"
    using keepsD [OF client_user.user_req _ d] by blast
  from resp_effect [OF inv, of xs r ys rid, OF _ _ _ _ _ _ d this] queue q
  have "\<exists>c3. pc__trans_resp U rid PC_RC_OK (Some txt) ?c1 = Some c3 \<and> c3 = d\<lparr>requests := requests c3\<rparr> \<and>
    \<not> in_use rq_ty (requests c3) r \<and> (\<forall>s. s \<noteq> r \<longrightarrow> pool_get (requests c3) s = pool_get (requests d) s)"
    by (auto simp: rc_ok_def)
  then obtain c3 where c3: "pc__trans_resp U rid PC_RC_OK (Some txt) ?c1 = Some c3" "c3 = d\<lparr>requests := requests c3\<rparr>"
    "\<not> in_use rq_ty (requests c3) r" "\<forall>s. s \<noteq> r \<longrightarrow> pool_get (requests c3) s = pool_get (requests d) s"
    by blast
  have run: "pc_trans_resp U rid PC_RC_OK (Some txt) ?c1 = Some c3"
    using c3(1) poll by (simp add: pc_trans_resp_def)
  have "world ?X [] {#} c3"
    by (rule wkeepsD [OF tcp_callbacks.wk_reports(2) [OF cb] w1 run])
  then obtain ttd where ttd: "tran c3 = Some ttd" "tt_inv [] ttd"
    by (auto elim!: worldE simp: tinv_def)
  obtain tt2 where drop: "drop_resp rid c3 = Some (c3\<lparr>tran := Some tt2\<rparr>)"
    "\<And>w. find_resp (pre_wis ttd) rid (wi_queues ttd resp_pending_queue) = Some (Some w) \<Longrightarrow>
      wi_queues tt2 resp_pending_queue = remove1 w (wi_queues ttd resp_pending_queue) \<and> \<not> in_use wi_type (pre_wis tt2) w"
    by (rule drop_resp_effect [OF ttd, of rid]) blast
  have "split_pkgs (pkg_pending (pkg_parser tt) @ take (nat nread) buf) = ([(PC_PKG_DATA, body)], [])"
    using split_pkgs_encoded [OF chunk, of "[]"] by (simp add: split_pkgs_short)
  moreover have "handled (tr_tcp_on_pkg_handler U ?K E) PC_PKG_DATA body c = Some (c3\<lparr>tran := Some tt2\<rparr>)"
    unfolding data_handled [OF tt msg rid] run by (simp add: drop(1))
  moreover note tcp_reader.read_code [OF rd w [unfolded own_def] tt n, of buf E]
  ultimately obtain p where p: "pkg_pending p = []"
    "tcp__on_tcp_read_cb U ?K E nread buf c = Some (c3\<lparr>tran := Some (tt2\<lparr>pkg_parser := p\<rparr>)\<rparr>)"
    by (auto simp: Let_def)
  obtain R where R: "c3 = d\<lparr>requests := R\<rparr>" using c3(2) by blast
  then have "tran d = Some ttd" using ttd(1) by simp
  then show ?thesis
    using d p c3(3,4) drop(2) unfolding R
    by (intro exI [of _ d] exI [of _ ttd] exI [of _ "d\<lparr>requests := R, tran := Some (tt2\<lparr>pkg_parser := p\<rparr>)\<rparr>"]
        exI [of _ "tt2\<lparr>pkg_parser := p\<rparr>"]) simp
qed

text \<open>A client whose request has been written and waits for its response.\<close>

lemma example_answering:
  obtains c :: "tr_uv_tcp pc_client" and tt where "world own [] {#} c" "\<not> enable_polling (config c)" "req_queue c = [Pre 0]" "tran c = Some tt"
    "wi_queues tt resp_pending_queue = [Pre 0]" "find_resp (pre_wis tt) 1 [Pre 0] = Some (Some (Pre 0))"
    "pkg_pending (pkg_parser tt) = []" "code_to_route tt = None" "server_protos tt = None"
    "req_id (the (pool_get (requests c) (Pre 0))) = 1"
proof -
  obtain c tt where c: "tcp_reachable example_user c" "\<not> enable_polling (config c)" "req_queue c = [Pre 0]" "tran c = Some tt"
    and q: "wi_queues tt conn_pending_queue = [Pre 0]" "wi_queues tt write_wait_queue = []" "wi_queues tt writing_queue = []"
      "wi_queues tt resp_pending_queue = []"
    and p: "pkg_pending (pkg_parser tt) = []" "code_to_route tt = None" "server_protos tt = None"
      "req_id (the (pool_get (requests c) (Pre 0))) = 1"
    and wi: "TR_UV_WI_IS_RESP (wi_type (the (pool_get (pre_wis tt) (Pre 0))))" "wi_req_id (the (pool_get (pre_wis tt) (Pre 0))) = 1"
    by (rule example_waiting)
  let ?tt = "(set_queue resp_pending_queue [Pre 0] (set_queue conn_pending_queue [] tt))\<lparr>tt_state := TR_UV_TCP_DONE\<rparr>"
  have w: "world own [] {#} c" by (rule reachable_world [OF example_user_ok(1) c(1)])
  then have inv: "tinv own [] tt" using c(4) by (auto elim!: worldE)
  have all: "mset (all_wis ?tt) = mset (all_wis tt)" "pre_wis ?tt = pre_wis tt"
    using q by (simp_all add: all_wis_def set_queue_def)
  have "Pre 0 \<in> set (all_wis tt)" using q by (simp add: all_wis_def)
  then obtain x where x: "pool_get (pre_wis tt) (Pre 0) = Some x"
    using inv inv_get [of wi_type "pre_wis tt" "all_wis tt @ []" "{}" "Pre 0"] by (auto simp: tt_inv_def)
  have "tinv own [] ?tt"
    using inv x wi(1) pool_inv_perm [of "all_wis ?tt @ []" "all_wis tt @ []"] all
    by (auto simp: tt_inv_def set_queue_def)
  moreover have "items own ?tt = items own tt"
    using all by (simp add: item_keys_def wi_keys_def)
  ultimately have "world own [] {#} (c\<lparr>tran := Some ?tt\<rparr>)"
    by (intro world_tran [OF w c(4)]) simp_all
  then show thesis
    by (rule that [of "c\<lparr>tran := Some ?tt\<rparr>" ?tt]) (use c p wi x in \<open>simp_all add: set_queue_def\<close>)
qed

theorem response_reaches_request_witness:
  "\<exists>c c' q. wi_queues (the (tran c)) resp_pending_queue = [Pre 0] \<and> in_use wi_type (pre_wis (the (tran c))) (Pre 0) \<and>
    pool_get (requests c) (Pre 0) = Some q \<and> req_queue c = [Pre 0] \<and>
    tcp__on_tcp_read_cb example_user (tcp_hooks example_user) example_env 8 [4, 0, 0, 4, 4, 1, 123, 125] c = Some c' \<and>
    req_queue c' = [] \<and> history c' = history c @ [Req_answered q PC_RC_OK (Some ''{}'')] \<and>
    wi_queues (the (tran c')) resp_pending_queue = [] \<and> \<not> in_use wi_type (pre_wis (the (tran c'))) (Pre 0)"
proof -
  obtain c :: "tr_uv_tcp pc_client" and tt where w: "world own [] {#} c" and c: "\<not> enable_polling (config c)" "req_queue c = [Pre 0]" "tran c = Some tt"
    "wi_queues tt resp_pending_queue = [Pre 0]" "find_resp (pre_wis tt) 1 [Pre 0] = Some (Some (Pre 0))"
    "pkg_pending (pkg_parser tt) = []" "code_to_route tt = None" "server_protos tt = None"
    "req_id (the (pool_get (requests c) (Pre 0))) = 1"
    by (rule example_answering)
  obtain inv: "client_inv {} {} {} c" "tt_inv [] tt" using w c(3) by (auto elim!: worldE)
  then obtain q cb where q: "pool_get (requests c) (Pre 0) = Some q" "req_cb q = Some cb"
    using queued_accepted(1) [of "{}" "{}" "{}" c "Pre 0"] c(2) by auto
  have used: "in_use wi_type (pre_wis tt) (Pre 0)"
    using inv(2) c(4) by (auto simp: tt_inv_def pool_inv_def all_wis_def)
  have chunk: "pc_pkg_encode PC_PKG_DATA [4, 1, 123, 125] = Some (pkg_pending (pkg_parser tt) @ take (nat 8) [4, 0, 0, 4, 4, 1, 123, 125])"
    unfolding c(6) by code_simp
  have "pc_default_msg_decode None None [4, 1, 123, 125] = Some \<lparr>msg_id = 1, msg_route = None, msg_text = Some ''{}''\<rparr>"
    by code_simp
  then have msg: "pr_default_msg_decoder tt [4, 1, 123, 125] = Some \<lparr>msg_id = 1, msg_route = None, msg_text = Some ''{}''\<rparr>"
    by (simp only: pr_default_msg_decoder_def c(7,8))
  have rid: "(1 :: u32) \<noteq> PC_INVALID_REQ_ID" "(1 :: u32) \<noteq> PC_NOTIFY_PUSH_REQ_ID" by simp_all
  have u: "u_req example_user cb q rc d e = Some e" for rc d e by (simp add: example_user_def Let_def)
  let ?d = "note_call (Req_answered q PC_RC_OK (Some ''{}''))
      (c\<lparr>tran := Some (tt\<lparr>pkg_parser := complete_pkg PC_PKG_DATA [4, 1, 123, 125]\<rparr>), req_queue := []\<rparr>)"
  from response_reaches_request [OF example_user_ok w c(1,3) _ chunk msg rid _ _ q(1) _ q(2), of "[]" "[]" example_env]
  obtain ttd c' tt' where d: "tran ?d = Some ttd"
    and run: "tcp__on_tcp_read_cb example_user (tcp_hooks example_user) example_env 8 [4, 0, 0, 4, 4, 1, 123, 125] c = Some c'"
    and c': "c' = ?d\<lparr>requests := requests c', tran := Some tt'\<rparr>" "tran c' = Some tt'"
    and item: "\<forall>w. find_resp (pre_wis ttd) 1 (wi_queues ttd resp_pending_queue) = Some (Some w) \<longrightarrow>
      wi_queues tt' resp_pending_queue = remove1 w (wi_queues ttd resp_pending_queue) \<and> \<not> in_use wi_type (pre_wis tt') w"
    using c(2,9) q(1) by (auto simp: u)
  have "pre_wis ttd = pre_wis tt" "wi_queues ttd = wi_queues tt"
    using d by (auto simp: note_call_def)
  then have "wi_queues tt' resp_pending_queue = []" "\<not> in_use wi_type (pre_wis tt') (Pre 0)"
    using item c(4,5) by simp_all
  moreover obtain R where "c' = ?d\<lparr>requests := R, tran := Some tt'\<rparr>" using c'(1) by blast
  then have "req_queue c' = []" "history c' = history c @ [Req_answered q PC_RC_OK (Some ''{}'')]"
    by (simp_all add: note_call_def)
  ultimately show ?thesis
    using c(2-4) q(1) run c'(2) used by (intro exI [of _ c] exI [of _ c'] exI [of _ q]) simp
qed

end
