(* ===== verification/Tls.thy ===== *)
theory Tls
  imports Tcp
begin

text \<open>
  The TLS transport, \<open>src/tr/uv/tr_uv_tls_i.c\<close>, \<open>tr_uv_tls_aux.c\<close> and \<open>tr_uv_tls.c\<close>: the TCP
  transport with OpenSSL between its queues and its socket. What waits for writing is given to
  \<open>SSL_write\<close>, what OpenSSL puts into its output BIO is written to the socket; what the socket
  delivers goes into the input BIO, and \<open>SSL_read\<close> is asked for plain text until it has none.

  OpenSSL is an argument: \<open>ssl_lib\<close> has its functions as transformers of a state \<open>'s\<close> of which
  nothing is known, an \<open>SSL\<close> with its two memory BIOs; \<open>ssl_ctx_lib\<close> those of a context. The TLS
  transport inherits from \<open>tr_uv_tcp_transport_t\<close>, here by record extension, and overrides some of
  its callbacks.
\<close>

section \<open>OpenSSL\<close>

definition SSL_ERROR_NONE :: int where [simp]: "SSL_ERROR_NONE = 0"
definition SSL_ERROR_SSL :: int where [simp]: "SSL_ERROR_SSL = 1"
definition SSL_ERROR_WANT_READ :: int where [simp]: "SSL_ERROR_WANT_READ = 2"
definition SSL_ERROR_WANT_WRITE :: int where [simp]: "SSL_ERROR_WANT_WRITE = 3"
definition SSL_ERROR_SYSCALL :: int where [simp]: "SSL_ERROR_SYSCALL = 5"
definition SSL_ERROR_ZERO_RETURN :: int where [simp]: "SSL_ERROR_ZERO_RETURN = 6"

text \<open>
  \<open>SSL_read\<close> gets the size of the buffer and returns its result with the bytes that it stored.
  \<open>BIO_out\<close> is the content of the output BIO: what \<open>BIO_get_mem_data\<close> points to, of length
  \<open>BIO_pending\<close>.
\<close>

record 's ssl_lib =
  SSL_set_verify :: "bool \<Rightarrow> 's \<Rightarrow> 's"
  SSL_set_connect_state :: "'s \<Rightarrow> 's"
  SSL_write :: "uv_buf \<Rightarrow> 's \<Rightarrow> int \<times> 's"
  SSL_read :: "nat \<Rightarrow> 's \<Rightarrow> int \<times> bytes \<times> 's"
  SSL_get_error :: "int \<Rightarrow> 's \<Rightarrow> int"
  SSL_shutdown :: "'s \<Rightarrow> 's"
  SSL_clear :: "'s \<Rightarrow> 's"
  BIO_write_in :: "bytes \<Rightarrow> 's \<Rightarrow> 's"
  BIO_out :: "'s \<Rightarrow> bytes"
  BIO_reset_in :: "'s \<Rightarrow> int \<times> 's"
  BIO_reset_out :: "'s \<Rightarrow> int \<times> 's"

text \<open>\<open>SSL_new\<close> comes with the two BIOs that the initialisation attaches.\<close>

record ('x, 's) ssl_ctx_lib =
  SSL_CTX_new :: "'x option"
  SSL_CTX_load_verify_locations :: "string option \<Rightarrow> string option \<Rightarrow> 'x \<Rightarrow> int \<times> 'x"
  SSL_new :: "'x \<Rightarrow> 's option"

section \<open>The plugin\<close>

text \<open>\<open>crypto_locks\<close> is the number of locks that are allocated.\<close>

record 'x tr_uv_tls_plugin =
  tls_ctx :: "'x option"
  enable_verify :: bool
  crypto_locks :: "nat option"

definition tls_instance :: "'x tr_uv_tls_plugin" where
  "tls_instance = \<lparr>tls_ctx = None, enable_verify = False, crypto_locks = None\<rparr>"

definition CRYPTO_LOCK :: u32 where "CRYPTO_LOCK = 1"
definition CRYPTO_UNLOCK :: u32 where "CRYPTO_UNLOCK = 2"
definition CRYPTO_READ :: u32 where "CRYPTO_READ = 4"
definition CRYPTO_WRITE :: u32 where "CRYPTO_WRITE = 8"

datatype rwlock_op = rdlock | wrlock | rdunlock | wrunlock

text \<open>The operation and the lock; an index outside the array is an access outside it.\<close>

definition crypto_lock_cb :: "'x tr_uv_tls_plugin \<Rightarrow> u32 \<Rightarrow> nat \<Rightarrow> (rwlock_op \<times> nat) option" where
  "crypto_lock_cb pl mode n =
     do { assert_c (mode AND CRYPTO_LOCK \<noteq> 0 \<or> mode AND CRYPTO_UNLOCK \<noteq> 0);
          assert_c (mode AND CRYPTO_READ \<noteq> 0 \<or> mode AND CRYPTO_WRITE \<noteq> 0);
          k \<leftarrow> crypto_locks pl;
          assert_c (n < k);
          Some (if mode AND CRYPTO_LOCK \<noteq> 0
                then (if mode AND CRYPTO_READ \<noteq> 0 then rdlock else wrlock, n)
                else (if mode AND CRYPTO_READ \<noteq> 0 then rdunlock else wrunlock, n)) }"

definition tr_uv_tls_plugin_on_register :: "('x, 's) ssl_ctx_lib \<Rightarrow> nat \<Rightarrow> 'x tr_uv_tls_plugin \<Rightarrow> 'x tr_uv_tls_plugin" where
  "tr_uv_tls_plugin_on_register C num_locks pl = pl\<lparr>crypto_locks := Some num_locks, tls_ctx := SSL_CTX_new C\<rparr>"

definition tr_uv_tls_plugin_on_deregister :: "'x tr_uv_tls_plugin \<Rightarrow> 'x tr_uv_tls_plugin" where
  "tr_uv_tls_plugin_on_deregister pl = pl\<lparr>tls_ctx := None, crypto_locks := None\<rparr>"

definition tr_uv_tls_set_ca_file :: "('x, 's) ssl_ctx_lib \<Rightarrow> string option \<Rightarrow> string option \<Rightarrow>
    'x tr_uv_tls_plugin \<Rightarrow> 'x tr_uv_tls_plugin" where
  "tr_uv_tls_set_ca_file C ca_file ca_path pl =
     (case tls_ctx pl of None \<Rightarrow> pl
      | Some x \<Rightarrow> let (ret, x') = SSL_CTX_load_verify_locations C ca_file ca_path x
                  in pl\<lparr>tls_ctx := Some x', enable_verify := (ret \<noteq> 0)\<rparr>)"

section \<open>The state\<close>

text \<open>
  \<open>retry_wb\<close> is the copy of a buffer that \<open>SSL_write\<close> did not take, its length is \<open>retry_wb_len\<close>.
  The read buffer \<open>rb\<close> holds nothing between two calls.
\<close>

definition PC_TLS_READ_BUF_SIZE :: nat where "PC_TLS_READ_BUF_SIZE = 1024"

record 's tr_uv_tls = tr_uv_tcp +
  tls :: "'s option"
  is_handshake_completed :: bool
  retry_wb :: "bytes option"
  should_retry :: "ref option"
  when_tcp_is_writing_queue :: "ref list"

type_synonym 's tls_client = "'s tr_uv_tls pc_client"
type_synonym 's tls_op = "'s tls_client \<Rightarrow> 's tls_client option"
type_synonym 's tls_user = "'s tr_uv_tls user"
type_synonym 's tls_hooks_t = "('s, unit) tr_uv_tls_ext tt_hooks"

text \<open>Calls of OpenSSL on the connection: a null \<open>SSL\<close> is dereferenced.\<close>

definition with_ssl :: "('s \<Rightarrow> 's) \<Rightarrow> 's tls_op" where
  "with_ssl f c = do { tt \<leftarrow> tran c; s \<leftarrow> tls tt; with_tt (\<lambda>tt. tt\<lparr>tls := Some (f s)\<rparr>) c }"

definition call_ssl :: "('s \<Rightarrow> 'r \<times> 's) \<Rightarrow> 's tls_client \<Rightarrow> ('r \<times> 's tls_client) option" where
  "call_ssl f c =
     do { tt \<leftarrow> tran c; s \<leftarrow> tls tt; let (r, s') = f s; c1 \<leftarrow> with_tt (\<lambda>tt. tt\<lparr>tls := Some s'\<rparr>) c; Some (r, c1) }"

section \<open>Writing to the socket and resetting\<close>

text \<open>A null output BIO has nothing pending. The result of \<open>uv_write\<close> only decides about \<open>is_writing\<close>.\<close>

definition tls__write_to_tcp :: "'s ssl_lib \<Rightarrow> uv_env \<Rightarrow> 's tls_op" where
  "tls__write_to_tcp L E c =
     do { tt \<leftarrow> tran c;
          if is_writing tt then Some c
          else do {
            let buf = (case tls tt of None \<Rightarrow> [] | Some s \<Rightarrow> BIO_out L s);
            if buf = [] then do {
              assert_c (when_tcp_is_writing_queue tt = []);
              with_tt (uv_async_send write_async) c }
            else do {
              c1 \<leftarrow> with_tt (\<lambda>tt. (set_queue writing_queue (wi_queues tt writing_queue @ when_tcp_is_writing_queue tt) tt)
                      \<lparr>when_tcp_is_writing_queue := []\<rparr>) c;
              c2 \<leftarrow> with_tt (\<lambda>tt. tt\<lparr>written := written tt @ [\<lparr>buf_base = Some buf, buf_len = of_nat (length buf)\<rparr>]\<rparr>) c1;
              c3 \<leftarrow> (if uv_write_rc E = 0 then with_tt (\<lambda>tt. tt\<lparr>is_writing := True\<rparr>) c2 else Some c2);
              with_ssl (\<lambda>s. snd (BIO_reset_out L s)) c3 } } }"

definition tls__reset :: "'s ssl_lib \<Rightarrow> 's tls_user \<Rightarrow> uv_env \<Rightarrow> 's tls_op" where
  "tls__reset L U E c =
     do { c1 \<leftarrow> with_ssl (SSL_shutdown L) c;
          c2 \<leftarrow> tls__write_to_tcp L E c1;
          c3 \<leftarrow> with_tt (\<lambda>tt. tt\<lparr>is_handshake_completed := False\<rparr>) c2;
          c4 \<leftarrow> with_ssl (SSL_clear L) c3;
          (ret, c5) \<leftarrow> call_ssl (BIO_reset_in L) c4;
          assert_c (ret = 1);
          (ret, c6) \<leftarrow> call_ssl (BIO_reset_out L) c5;
          assert_c (ret = 1);
          c7 \<leftarrow> with_tt (\<lambda>tt. case should_retry tt of None \<Rightarrow> tt
                  | Some r \<Rightarrow> (push_wi writing_queue r tt)\<lparr>should_retry := None\<rparr>) c6;
          c8 \<leftarrow> with_tt (\<lambda>tt. tt\<lparr>retry_wb := None\<rparr>) c7;
          c9 \<leftarrow> with_tt (\<lambda>tt. (set_queue writing_queue (wi_queues tt writing_queue @ when_tcp_is_writing_queue tt) tt)
                  \<lparr>when_tcp_is_writing_queue := []\<rparr>) c8;
          tcp__reset U c9 }"

text \<open>The methods of the TLS transport that the callbacks of the TCP transport call.\<close>

definition tls_hooks :: "'s ssl_lib \<Rightarrow> 's tls_user \<Rightarrow> uv_env \<Rightarrow> 's tls_hooks_t" where
  "tls_hooks L U E = \<lparr>reset_fn = tls__reset L U E, reconn_fn = tcp__reconn U (tls__reset L U E)\<rparr>"

section \<open>Errors\<close>

text \<open>Whether the status is an error.\<close>

definition tls__get_error :: "'s ssl_lib \<Rightarrow> int \<Rightarrow> 's tls_client \<Rightarrow> bool option" where
  "tls__get_error L status c =
     do { tt \<leftarrow> tran c; s \<leftarrow> tls tt;
          let err = SSL_get_error L status s;
          if err = SSL_ERROR_NONE \<or> err = SSL_ERROR_WANT_READ \<or> err = SSL_ERROR_WANT_WRITE then Some False
          else if err = SSL_ERROR_ZERO_RETURN then Some True
          else do { assert_c (err = SSL_ERROR_SSL \<or> err = SSL_ERROR_SYSCALL); Some True } }"

definition tls__emit_error_event :: "'s ssl_lib \<Rightarrow> 's tls_user \<Rightarrow> uv_env \<Rightarrow> 's tls_op" where
  "tls__emit_error_event L U E c =
     do { tt \<leftarrow> tran c;
          if \<not> is_handshake_completed tt then do {
            c1 \<leftarrow> pc_trans_fire_event U PC_EV_CONNECT_FAILED (Some ''TLS Handshake Error'') None c;
            reset_fn (tls_hooks L U E) c1 }
          else do {
            c1 \<leftarrow> pc_trans_fire_event U PC_EV_UNEXPECTED_DISCONNECT (Some ''TLS Error'') None c;
            reconn_fn (tls_hooks L U E) E c1 } }"

section \<open>Writing to OpenSSL\<close>

text \<open>The queue for what OpenSSL has taken, chosen before the first item by \<open>busy\<close>: whether the socket is writing.\<close>

definition push_head :: "bool \<Rightarrow> ref \<Rightarrow> 's tr_uv_tls \<Rightarrow> 's tr_uv_tls" where
  "push_head busy r tt = (if busy then tt\<lparr>when_tcp_is_writing_queue := when_tcp_is_writing_queue tt @ [r]\<rparr>
     else push_wi writing_queue r tt)"

text \<open>
  A buffer that OpenSSL did not take before is offered again. The results: whether the function
  goes on, whether something was taken, the client.
\<close>

definition retry_write :: "'s ssl_lib \<Rightarrow> 's tls_user \<Rightarrow> uv_env \<Rightarrow> bool \<Rightarrow> 's tls_client \<Rightarrow>
    (bool \<times> bool \<times> 's tls_client) option" where
  "retry_write L U E busy c =
     do { tt \<leftarrow> tran c;
          case retry_wb tt of None \<Rightarrow> Some (True, False, c)
          | Some wb \<Rightarrow>
              do { (ret, c1) \<leftarrow> call_ssl (SSL_write L \<lparr>buf_base = Some wb, buf_len = of_nat (length wb)\<rparr>) c;
                   assert_c (ret = - 1 \<or> ret = to_int (of_nat (length wb)));
                   if ret = - 1 then do {
                     err \<leftarrow> tls__get_error L ret c1;
                     if err then do {
                       c2 \<leftarrow> with_tt (\<lambda>tt. tt\<lparr>retry_wb := None\<rparr>) c1;
                       c3 \<leftarrow> tls__emit_error_event L U E c2;
                       Some (False, False, c3) }
                     else Some (True, False, c1) }
                   else do {
                     c2 \<leftarrow> with_tt (\<lambda>tt. tt\<lparr>is_handshake_completed := True\<rparr>) c1;
                     c3 \<leftarrow> with_tt (\<lambda>tt. case should_retry tt of None \<Rightarrow> tt
                             | Some r \<Rightarrow> (push_head busy r tt)\<lparr>should_retry := None\<rparr>) c2;
                     c4 \<leftarrow> with_tt (\<lambda>tt. tt\<lparr>retry_wb := None\<rparr>) c3;
                     Some (True, True, c4) } } }"

text \<open>\<open>malloc\<close> and \<open>memcpy\<close> of a buffer: a null base has no byte to copy.\<close>

definition copy_buf :: "uv_buf \<Rightarrow> bytes option" where
  "copy_buf b = (case buf_base b of None \<Rightarrow> if buf_len b = 0 then Some [] else None | Some bs \<Rightarrow> Some bs)"

partial_function (option) bio_loop :: "'s ssl_lib \<Rightarrow> 's tls_user \<Rightarrow> uv_env \<Rightarrow> bool \<Rightarrow> bool \<Rightarrow> 's tls_client \<Rightarrow>
    (bool \<times> bool \<times> 's tls_client) option" where
  "bio_loop L U E busy flag c =
     do { p \<leftarrow> pop_wi write_wait_queue c;
          case p of None \<Rightarrow> Some (True, flag, c)
          | Some (r, c1) \<Rightarrow>
              do { wi \<leftarrow> get_wi r c1;
                   (ret, c2) \<leftarrow> call_ssl (SSL_write L (wi_buf wi)) c1;
                   assert_c (ret = - 1 \<or> ret = to_int (buf_len (wi_buf wi)));
                   if ret = - 1 then do {
                     c3 \<leftarrow> with_tt (\<lambda>tt. tt\<lparr>should_retry := Some r\<rparr>) c2;
                     err \<leftarrow> tls__get_error L ret c3;
                     if err then do {
                       c4 \<leftarrow> tls__emit_error_event L U E c3;
                       Some (False, flag, c4) }
                     else do {
                       wb \<leftarrow> copy_buf (wi_buf wi);
                       c4 \<leftarrow> with_tt (\<lambda>tt. tt\<lparr>retry_wb := Some wb\<rparr>) c3;
                       Some (True, flag, c4) } }
                   else do {
                     c3 \<leftarrow> with_tt (\<lambda>tt. tt\<lparr>is_handshake_completed := True\<rparr>) c2;
                     c4 \<leftarrow> with_tt (push_head busy r) c3;
                     bio_loop L U E busy True c4 } } }"

declare bio_loop.simps [code]

definition tls__write_to_bio :: "'s ssl_lib \<Rightarrow> 's tls_user \<Rightarrow> uv_env \<Rightarrow> 's tls_op" where
  "tls__write_to_bio L U E c =
     do { tt \<leftarrow> tran c;
          if tt_state tt = TR_UV_TCP_NOT_CONN then Some c
          else do {
            let busy = is_writing tt;
            c1 \<leftarrow> tt_lock c;
            c2 \<leftarrow> (if tt_state tt = TR_UV_TCP_DONE
                  then with_tt (move_queue conn_pending_queue write_wait_queue) c1 else Some c1);
            c3 \<leftarrow> tt_unlock c2;
            (go, flag, c4) \<leftarrow> retry_write L U E busy c3;
            if \<not> go then Some c4
            else do {
              tt \<leftarrow> tran c4;
              (go, flag, c5) \<leftarrow> (if retry_wb tt = None then bio_loop L U E busy flag c4 else Some (True, flag, c4));
              if \<not> go then Some c5
              else do {
                c6 \<leftarrow> start_check E c5;
                if flag then tls__write_to_tcp L E c6 else Some c6 } } } }"

section \<open>Reading from OpenSSL\<close>

text \<open>The loop ends with the result of the last \<open>SSL_read\<close>.\<close>

partial_function (option) read_loop :: "'s ssl_lib \<Rightarrow> 's tls_user \<Rightarrow> uv_env \<Rightarrow> 's tls_client \<Rightarrow>
    (int \<times> 's tls_client) option" where
  "read_loop L U E c =
     do { ((n, data), c1) \<leftarrow> call_ssl (\<lambda>s. let (n, data, s') = SSL_read L PC_TLS_READ_BUF_SIZE s in ((n, data), s')) c;
          if n > 0 then do {
            c2 \<leftarrow> with_tt (\<lambda>tt. tt\<lparr>is_handshake_completed := True\<rparr>) c1;
            tt \<leftarrow> tran c2;
            (p, c3) \<leftarrow> pc_pkg_parser_feed (tr_tcp_on_pkg_handler U (tls_hooks L U E) E) (pkg_parser tt) c2 (take (nat n) data);
            c4 \<leftarrow> with_tt (\<lambda>tt. tt\<lparr>pkg_parser := p\<rparr>) c3;
            read_loop L U E c4 }
          else Some (n, c1) }"

declare read_loop.simps [code]

definition tls__read_from_bio :: "'s ssl_lib \<Rightarrow> 's tls_user \<Rightarrow> uv_env \<Rightarrow> 's tls_op" where
  "tls__read_from_bio L U E c =
     do { (n, c1) \<leftarrow> read_loop L U E c;
          err \<leftarrow> tls__get_error L n c1;
          if err then tls__emit_error_event L U E c1 else Some c1 }"

definition tls__cycle :: "'s ssl_lib \<Rightarrow> 's tls_user \<Rightarrow> uv_env \<Rightarrow> 's tls_op" where
  "tls__cycle L U E c =
     do { c1 \<leftarrow> tls__write_to_bio L U E c;
          c2 \<leftarrow> tls__read_from_bio L U E c1;
          tls__write_to_tcp L E c2 }"

section \<open>The callbacks\<close>

definition tls__conn_done_cb :: "'s ssl_lib \<Rightarrow> 's tls_user \<Rightarrow> uv_env \<Rightarrow> int \<Rightarrow> 's tls_op" where
  "tls__conn_done_cb L U E status c =
     do { c1 \<leftarrow> tcp__conn_done_cb U (tls_hooks L U E) E status c;
          if status = 0 then do {
            c2 \<leftarrow> with_ssl (SSL_set_connect_state L) c1;
            c3 \<leftarrow> tls__read_from_bio L U E c2;
            tls__write_to_tcp L E c3 }
          else Some c1 }"

text \<open>The loop over the written items is that of the TCP transport.\<close>

definition tls__write_done_cb :: "'s ssl_lib \<Rightarrow> 's tls_user \<Rightarrow> uv_env \<Rightarrow> int \<Rightarrow> 's tls_op" where
  "tls__write_done_cb L U E status c =
     do { c1 \<leftarrow> with_tt (\<lambda>tt. tt\<lparr>is_writing := False\<rparr>) c;
          c2 \<leftarrow> tt_lock c1;
          c3 \<leftarrow> written_loop U (if status = 0 then PC_RC_OK else PC_RC_ERROR) c2;
          c4 \<leftarrow> tt_unlock c3;
          tls__write_to_tcp L E c4 }"

definition tls__write_async_cb :: "'s ssl_lib \<Rightarrow> 's tls_user \<Rightarrow> uv_env \<Rightarrow> 's tls_op" where
  "tls__write_async_cb = tls__write_to_bio"

definition tls__on_tcp_read_cb :: "'s ssl_lib \<Rightarrow> 's tls_user \<Rightarrow> uv_env \<Rightarrow> int \<Rightarrow> bytes \<Rightarrow> 's tls_op" where
  "tls__on_tcp_read_cb L U E nread buf c =
     (if nread < 0 then tcp__on_tcp_read_cb U (tls_hooks L U E) E nread buf c
      else do { c1 \<leftarrow> with_ssl (BIO_write_in L (take (nat nread) buf)) c; tls__cycle L U E c1 })"

definition tls__cleanup_async_cb :: "'s ssl_lib \<Rightarrow> 's tls_user \<Rightarrow> uv_env \<Rightarrow> 's tls_op" where
  "tls__cleanup_async_cb L U E c =
     do { c1 \<leftarrow> tcp__cleanup_async_cb (tls_hooks L U E) c; with_tt (\<lambda>tt. tt\<lparr>tls := None\<rparr>) c1 }"

section \<open>Timeouts\<close>

text \<open>\<open>tcp__check_queue_timeout\<close> on the queue of the TLS transport.\<close>

definition pop_when :: "'s tls_client \<Rightarrow> (ref \<times> 's tls_client) option option" where
  "pop_when c =
     do { tt \<leftarrow> tran c;
          case when_tcp_is_writing_queue tt of
            [] \<Rightarrow> Some None
          | r # rs \<Rightarrow> do { c1 \<leftarrow> with_tt (\<lambda>tt. tt\<lparr>when_tcp_is_writing_queue := rs\<rparr>) c; Some (Some (r, c1)) } }"

partial_function (option) check_when_loop :: "'s tls_user \<Rightarrow> int \<Rightarrow> ref list \<Rightarrow> bool \<Rightarrow>
    's tls_client \<Rightarrow> (ref list \<times> bool \<times> 's tls_client) option" where
  "check_when_loop U ct tmp cont c =
     do { p \<leftarrow> pop_when c;
          case p of None \<Rightarrow> Some (tmp, cont, c)
          | Some (r, c1) \<Rightarrow>
              do { wi \<leftarrow> get_wi r c1;
                   if wi_timeout wi \<noteq> PC_WITHOUT_TIMEOUT \<and> ct > wi_ts wi + wi_timeout wi
                   then do { c2 \<leftarrow> expire_wi U r wi c1; check_when_loop U ct tmp cont c2 }
                   else check_when_loop U ct (tmp @ [r]) (wi_timeout wi \<noteq> PC_WITHOUT_TIMEOUT \<or> cont) c1 } }"

declare check_when_loop.simps [code]

definition check_when_timeout :: "'s tls_user \<Rightarrow> uv_env \<Rightarrow> bool \<Rightarrow> 's tls_client \<Rightarrow> (bool \<times> 's tls_client) option" where
  "check_when_timeout U E cont c =
     do { (tmp, cont, c1) \<leftarrow> check_when_loop U (time_now E) [] cont c;
          c2 \<leftarrow> with_tt (\<lambda>tt. tt\<lparr>when_tcp_is_writing_queue := when_tcp_is_writing_queue tt @ tmp\<rparr>) c1;
          Some (cont, c2) }"

text \<open>The item that OpenSSL is to be offered again.\<close>

definition expire_retry :: "'s tls_user \<Rightarrow> ref \<Rightarrow> tr_uv_wi \<Rightarrow> 's tls_op" where
  "expire_retry U r wi c =
     do { c1 \<leftarrow> (if TR_UV_WI_IS_NOTIFY (wi_type wi) then pc_trans_sent U (wi_seq_num wi) PC_RC_TIMEOUT c
                else if TR_UV_WI_IS_RESP (wi_type wi) then pc_trans_resp U (wi_req_id wi) PC_RC_TIMEOUT None c
                else Some c);
          c2 \<leftarrow> free_wi_buf r c1;
          wi \<leftarrow> get_wi r c2;
          c3 \<leftarrow> (if PC_IS_PRE_ALLOC (wi_type wi)
                then do { c3 \<leftarrow> tt_lock c2; c4 \<leftarrow> release_wi r c3; tt_unlock c4 }
                else release_wi r c2);
          with_tt (\<lambda>tt. tt\<lparr>should_retry := None\<rparr>) c3 }"

definition check_retry :: "'s tls_user \<Rightarrow> uv_env \<Rightarrow> 's tls_op" where
  "check_retry U E c =
     do { tt \<leftarrow> tran c;
          case should_retry tt of None \<Rightarrow> Some c
          | Some r \<Rightarrow>
              do { wi \<leftarrow> get_wi r c;
                   if wi_timeout wi \<noteq> PC_WITHOUT_TIMEOUT \<and> time_now E > wi_ts wi + wi_timeout wi
                   then expire_retry U r wi c else Some c } }"

definition tls__write_timeout_check_cb :: "'s tls_user \<Rightarrow> uv_env \<Rightarrow> 's tls_op" where
  "tls__write_timeout_check_cb U E c =
     do { c1 \<leftarrow> check_retry U E c;
          c2 \<leftarrow> tt_lock c1;
          (cont, c3) \<leftarrow> check_when_timeout U E False c2;
          c4 \<leftarrow> tt_unlock c3;
          c5 \<leftarrow> (if cont then start_check E c4 else Some c4);
          tcp__write_check_timeout_cb U E c5 }"

section \<open>Creation and initialisation\<close>

definition tr_uv_tls_create :: "'s tr_uv_tls option" where
  "tr_uv_tls_create = Some (tr_uv_tcp.extend zero_tt (tr_uv_tls.fields None False None None []))"

text \<open>
  Before the initialisation is through, \<open>tls\<close> is null, and so the reset on the error paths passes a
  null \<open>SSL\<close> to \<open>SSL_shutdown\<close>, which dereferences it.
\<close>

definition tr_uv_tls_init :: "'s ssl_lib \<Rightarrow> ('x, 's) ssl_ctx_lib \<Rightarrow> 'x tr_uv_tls_plugin \<Rightarrow> 's tls_user \<Rightarrow> uv_env \<Rightarrow>
    's tls_client \<Rightarrow> (int \<times> 's tls_client) option" where
  "tr_uv_tls_init L C pl U E c =
     do { (ret, c1) \<leftarrow> tr_uv_tcp_init E c;
          if ret \<noteq> PC_RC_OK then Some (ret, c1)
          else case tls_ctx pl of
            None \<Rightarrow> do { c2 \<leftarrow> tls__reset L U E c1; Some (PC_RC_ERROR, c2) }
          | Some x \<Rightarrow>
              (case SSL_new C x of
                 None \<Rightarrow> do { c2 \<leftarrow> with_tt (\<lambda>tt. tt\<lparr>tls := None\<rparr>) c1; c3 \<leftarrow> tls__reset L U E c2; Some (PC_RC_ERROR, c3) }
               | Some s \<Rightarrow>
                   do { c2 \<leftarrow> with_tt (\<lambda>tt. tt\<lparr>tls := Some (SSL_set_connect_state L (SSL_set_verify L (enable_verify pl) s)),
                                is_handshake_completed := False, retry_wb := None, should_retry := None,
                                when_tcp_is_writing_queue := []\<rparr>) c1;
                        Some (PC_RC_OK, c2) }) }"

text \<open>The array with the loop and the connection, by reference.\<close>

definition tr_uv_tls_internal_data :: "'s tls_client \<Rightarrow> nat option" where
  "tr_uv_tls_internal_data c = Some (self c)"

section \<open>The event loop\<close>

fun tls_timer_cb :: "'s ssl_lib \<Rightarrow> 's tls_user \<Rightarrow> uv_env \<Rightarrow> uv_timer \<Rightarrow> 's tls_op" where
  "tls_timer_cb L U E check_timeout = tls__write_timeout_check_cb U E"
| "tls_timer_cb L U E t = timer_cb U (tls_hooks L U E) E t"

fun tls_async_cb :: "'s ssl_lib \<Rightarrow> 's tls_user \<Rightarrow> uv_env \<Rightarrow> uv_async \<Rightarrow> 's tls_op" where
  "tls_async_cb L U E write_async = tls__write_async_cb L U E"
| "tls_async_cb L U E cleanup_async = tls__cleanup_async_cb L U E"
| "tls_async_cb L U E a = async_cb U (tls_hooks L U E) E a"

fun tls_dispatch :: "'s ssl_lib \<Rightarrow> 's tls_user \<Rightarrow> uv_env \<Rightarrow> loop_event \<Rightarrow> 's tls_op" where
  "tls_dispatch L U E (L_async a) c =
     do { c1 \<leftarrow> with_tt (\<lambda>tt. tt\<lparr>signalled := (signalled tt)(a := False)\<rparr>) c; tls_async_cb L U E a c1 }"
| "tls_dispatch L U E (L_timer t) c = do { c1 \<leftarrow> with_tt (uv_timer_stop t) c; tls_timer_cb L U E t c1 }"
| "tls_dispatch L U E (L_connected status) c = tls__conn_done_cb L U E status c"
| "tls_dispatch L U E (L_written status) c = tls__write_done_cb L U E status c"
| "tls_dispatch L U E (L_read nread buf) c = tls__on_tcp_read_cb L U E nread buf c"

definition tls_loop_step :: "'s ssl_lib \<Rightarrow> 's tls_user \<Rightarrow> uv_env \<times> loop_event \<Rightarrow> 's tls_op" where
  "tls_loop_step L U = (\<lambda>(E, ev) c. do { tt \<leftarrow> tran c; assert_c (enabled E ev tt); tls_dispatch L U E ev c })"

fun tls_run_loop :: "'s ssl_lib \<Rightarrow> 's tls_user \<Rightarrow> (uv_env \<times> loop_event) list \<Rightarrow> 's tls_op" where
  "tls_run_loop L U [] c = Some c"
| "tls_run_loop L U (e # es) c = do { c1 \<leftarrow> tls_loop_step L U e c; tls_run_loop L U es c1 }"

definition tls_ops :: "'s ssl_lib \<Rightarrow> uv_env \<Rightarrow> (uv_env \<times> loop_event) list \<Rightarrow> 's tls_user \<Rightarrow> 's tr_uv_tls trans_ops" where
  "tls_ops L E es U = \<lparr>t_connect = tr_uv_tcp_connect, t_send = tr_uv_tcp_send E,
     t_disconnect = tr_uv_tcp_disconnect, t_cleanup = tr_uv_tcp_cleanup (tls_run_loop L U es) E,
     t_internal_data = Some tr_uv_tls_internal_data, t_quality = Some tr_uv_tcp_quality\<rparr>"

definition tls_plugin_impl :: "'s ssl_lib \<Rightarrow> ('x, 's) ssl_ctx_lib \<Rightarrow> 'x tr_uv_tls_plugin \<Rightarrow> 's tls_user \<Rightarrow> uv_env \<Rightarrow>
    's tr_uv_tls plugin_impl" where
  "tls_plugin_impl L C pl U E = \<lparr>transport_create = tr_uv_tls_create, transport_init = tr_uv_tls_init L C pl U E\<rparr>"

end
