(* ===== verification/TlsInv.thy ===== *)
theory TlsInv
  imports Tls TcpProps
begin

text \<open>
  The write items of the TLS transport: besides the four queues of the TCP transport they are in
  the queue of what OpenSSL has taken while the socket was writing, or the one that OpenSSL is to
  be offered again. Whatever OpenSSL answers, every callback keeps them in order.
\<close>

section \<open>What the TLS transport holds\<close>

definition tls_of :: "('s, unit) tr_uv_tls_ext \<Rightarrow> 's tr_uv_tls" where
  "tls_of = tr_uv_tcp.extend zero_tt"

lemma tls_of_more [simp]:
  "when_tcp_is_writing_queue (tls_of (tr_uv_tcp.more tt)) = when_tcp_is_writing_queue tt"
  "should_retry (tls_of (tr_uv_tcp.more tt)) = should_retry tt" "retry_wb (tls_of (tr_uv_tcp.more tt)) = retry_wb tt"
  by (cases tt; simp add: tls_of_def tr_uv_tcp.extend_def)+

text \<open>
  With the item to be retried or without it. Unless it is being replaced, such an item has its
  buffer copied; and unless a write has just been completed, items wait for the socket only while it
  is writing.
\<close>

definition waiting_wis :: "('s, unit) tr_uv_tls_ext \<Rightarrow> ref list" where
  "waiting_wis m = when_tcp_is_writing_queue (tls_of m)"

definition held_wis :: "('s, unit) tr_uv_tls_ext \<Rightarrow> ref list" where
  "held_wis m = waiting_wis m @ (case should_retry (tls_of m) of None \<Rightarrow> [] | Some r \<Rightarrow> [r])"

definition sound :: "bool \<Rightarrow> bool \<Rightarrow> bool \<Rightarrow> ('s, unit) tr_uv_tls_ext \<Rightarrow> bool" where
  "sound replaced finished w m \<longleftrightarrow>
     (replaced \<or> (should_retry (tls_of m) \<noteq> None \<longrightarrow> retry_wb (tls_of m) \<noteq> None)) \<and>
     (finished \<or> (waiting_wis m \<noteq> [] \<longrightarrow> w))"

lemma held_more [simp]:
  "waiting_wis (tr_uv_tcp.more tt) = when_tcp_is_writing_queue tt"
  "held_wis (tr_uv_tcp.more tt) = when_tcp_is_writing_queue tt @ (case should_retry tt of None \<Rightarrow> [] | Some r \<Rightarrow> [r])"
  "sound u v w (tr_uv_tcp.more tt) \<longleftrightarrow> (u \<or> (should_retry tt \<noteq> None \<longrightarrow> retry_wb tt \<noteq> None)) \<and>
     (v \<or> (when_tcp_is_writing_queue tt \<noteq> [] \<longrightarrow> w))"
  by (simp_all add: waiting_wis_def held_wis_def sound_def)

text \<open>Items that change their place.\<close>

lemma world_shift:
  assumes w: "world (H, J, G) (A @ F) (wi_keys (pre_wis tt) A + P) c" and tt: "tran c = Some tt"
    and same: "pre_wis tt' = pre_wis tt" "wi_queues tt' resp_pending_queue = wi_queues tt resp_pending_queue"
      "vers_ok tt \<longrightarrow> vers_ok tt'" "pkg_parser tt' = pkg_parser tt"
    and J: "J (is_writing tt) (tr_uv_tcp.more tt) \<Longrightarrow> J' (is_writing tt') (tr_uv_tcp.more tt')"
    and all: "mset (all_wis tt') + mset (H' (tr_uv_tcp.more tt')) + mset A' =
      mset (all_wis tt) + mset (H (tr_uv_tcp.more tt)) + mset A"
  shows "world (H', J', G) (A' @ F) (wi_keys (pre_wis tt) A' + P) (c\<lparr>tran := Some tt'\<rparr>)"
proof -
  have inv: "tinv (H, J, G) (A @ F) tt" and acc: "account c (items (H, J, G) tt + (wi_keys (pre_wis tt) A + P))"
    using w tt by (auto simp: world_def)
  have "mset (all_wis tt @ (A @ F) @ H (tr_uv_tcp.more tt)) = mset (all_wis tt' @ (A' @ F) @ H' (tr_uv_tcp.more tt'))"
    using all by (simp add: ac_simps)
  from pool_inv_perm [OF this, of wi_type "pre_wis tt" "{}"] have tinv': "tinv (H', J', G) (A' @ F) tt'"
    using inv same J by (auto simp: tinv_def tt_inv_def)
  have "mset (all_wis tt' @ H' (tr_uv_tcp.more tt') @ A') = mset (all_wis tt @ H (tr_uv_tcp.more tt) @ A)"
    using all by (simp add: ac_simps)
  from wi_keys_perm [OF this, of "pre_wis tt"]
  have its: "items (H', J', G) tt' + wi_keys (pre_wis tt) A' = items (H, J, G) tt + wi_keys (pre_wis tt) A"
    by (simp add: items_def same ac_simps)
  from arg_cong [OF its, of "\<lambda>x. x + P"]
  have "items (H', J', G) tt' + (wi_keys (pre_wis tt) A' + P) = items (H, J, G) tt + (wi_keys (pre_wis tt) A + P)"
    unfolding add.assoc .
  from acc [folded this] have "account c (items (H', J', G) tt' + (wi_keys (pre_wis tt) A' + P))" .
  then show ?thesis
    using w tinv' by (auto simp: world_def)
qed

lemma wkeeps_shift:
  assumes "\<And>tt. pre_wis (f tt) = pre_wis tt \<and> wi_queues (f tt) resp_pending_queue = wi_queues tt resp_pending_queue \<and>
      (vers_ok tt \<longrightarrow> vers_ok (f tt)) \<and> pkg_parser (f tt) = pkg_parser tt \<and>
      (J (is_writing tt) (tr_uv_tcp.more tt) \<longrightarrow> J (is_writing (f tt)) (tr_uv_tcp.more (f tt)))"
    and "\<And>tt. mset (all_wis (f tt)) + mset (H (tr_uv_tcp.more (f tt))) = mset (all_wis tt) + mset (H (tr_uv_tcp.more tt))"
  shows "wkeeps (H, J, G) (with_tt f)"
proof
  fix F P c c'
  assume w: "world (H, J, G) F P c" and run: "with_tt f c = Some c'"
  then obtain tt where tt: "tran c = Some tt" "c' = c\<lparr>tran := Some (f tt)\<rparr>"
    by (auto simp: with_tt_Some)
  from world_shift [of H J G "[]" F tt P c "f tt" J H "[]"] w tt assms [of tt] show "world (H, J, G) F P c'"
    by simp
qed

text \<open>Fields that say nothing about items.\<close>

lemma all_wis_more [simp]:
  "all_wis (tt\<lparr>tls := a\<rparr>) = all_wis tt" "all_wis (tt\<lparr>is_handshake_completed := b\<rparr>) = all_wis tt"
  "all_wis (tt\<lparr>retry_wb := d\<rparr>) = all_wis tt" "all_wis (tt\<lparr>should_retry := e\<rparr>) = all_wis tt"
  "all_wis (tt\<lparr>when_tcp_is_writing_queue := f\<rparr>) = all_wis tt"
  for tt :: "'s tr_uv_tls"
  by (simp_all add: all_wis_def)


lemma wk_fields_tls:
  assumes "\<And>tt. (f tt :: 's tr_uv_tls)\<lparr>tls := tls tt, is_handshake_completed := is_handshake_completed tt, written := written tt\<rparr> = tt"
  shows "wkeeps (held_wis, sound u v, G) (with_tt f)"
proof (rule wkeeps_shift)
  fix tt :: "'s tr_uv_tls"
  let ?r = "\<lambda>x :: 's tr_uv_tls. x\<lparr>tls := tls tt, is_handshake_completed := is_handshake_completed tt, written := written tt\<rparr>"
  note eq = assms [of tt]
  have "wi_queues (?r (f tt)) = wi_queues (f tt)" "pre_wis (?r (f tt)) = pre_wis (f tt)" "vers_ok (?r (f tt)) = vers_ok (f tt)"
    "pkg_parser (?r (f tt)) = pkg_parser (f tt)" "is_writing (?r (f tt)) = is_writing (f tt)" "should_retry (?r (f tt)) = should_retry (f tt)" "retry_wb (?r (f tt)) = retry_wb (f tt)"
    "when_tcp_is_writing_queue (?r (f tt)) = when_tcp_is_writing_queue (f tt)" by simp_all
  then have *: "wi_queues (f tt) = wi_queues tt" "pre_wis (f tt) = pre_wis tt" "vers_ok (f tt) = vers_ok tt"
    "pkg_parser (f tt) = pkg_parser tt" "is_writing (f tt) = is_writing tt" "should_retry (f tt) = should_retry tt" "retry_wb (f tt) = retry_wb tt"
    "when_tcp_is_writing_queue (f tt) = when_tcp_is_writing_queue tt" unfolding eq by auto
  then show "pre_wis (f tt) = pre_wis tt \<and> wi_queues (f tt) resp_pending_queue = wi_queues tt resp_pending_queue \<and>
      (vers_ok tt \<longrightarrow> vers_ok (f tt)) \<and> pkg_parser (f tt) = pkg_parser tt \<and>
      (sound u v (is_writing tt) (tr_uv_tcp.more tt) \<longrightarrow> sound u v (is_writing (f tt)) (tr_uv_tcp.more (f tt)))" by simp
  show "mset (all_wis (f tt)) + mset (held_wis (tr_uv_tcp.more (f tt))) = mset (all_wis tt) + mset (held_wis (tr_uv_tcp.more tt))"
    using * by (simp add: all_wis_def)
qed

lemma wk_with_ssl [wk]: "wkeeps (held_wis, sound u v, G) (with_ssl f)"
  unfolding with_ssl_def [abs_def] by (intro wk wk_fields_tls) simp

lemma wk_call_ssl [wk]: "wkeeps_rc (held_wis, sound u v, G) (call_ssl f)"
proof
  fix F P and c :: "'a tls_client" and x c'
  assume w: "world (held_wis, sound u v, G) F P c" and run: "call_ssl f c = Some (x, c')"
  then obtain tt s where ts: "tran c = Some tt" "tls tt = Some s"
    by (auto simp: call_ssl_def Option.bind_eq_Some_conv)
  obtain s' where "with_tt (\<lambda>tt. tt\<lparr>tls := Some s'\<rparr>) c = Some c'"
    using run ts by (cases "f s") (auto simp: call_ssl_def Option.bind_eq_Some_conv)
  from wkeepsD [OF wk_fields_tls w this] show "world (held_wis, sound u v, G) F P c'" by simp
qed

text \<open>What has waited for the socket goes behind what is being written.\<close>

definition flush_when :: "'s tr_uv_tls \<Rightarrow> 's tr_uv_tls" where
  "flush_when tt = (set_queue writing_queue (wi_queues tt writing_queue @ when_tcp_is_writing_queue tt) tt)
     \<lparr>when_tcp_is_writing_queue := []\<rparr>"

lemma wk_flush [wk]: "wkeeps (held_wis, sound u v, G) (with_tt flush_when)"
proof (rule wkeeps_shift)
  fix tt :: "'a tr_uv_tls"
  show "pre_wis (flush_when tt) = pre_wis tt \<and> wi_queues (flush_when tt) resp_pending_queue = wi_queues tt resp_pending_queue \<and>
      (vers_ok tt \<longrightarrow> vers_ok (flush_when tt)) \<and> pkg_parser (flush_when tt) = pkg_parser tt \<and>
      (sound u v (is_writing tt) (tr_uv_tcp.more tt) \<longrightarrow> sound u v (is_writing (flush_when tt)) (tr_uv_tcp.more (flush_when tt)))"
    by (simp add: flush_when_def set_queue_def)
  show "mset (all_wis (flush_when tt)) + mset (held_wis (tr_uv_tcp.more (flush_when tt))) = mset (all_wis tt) + mset (held_wis (tr_uv_tcp.more tt))"
    by (simp add: flush_when_def all_wis_def set_queue_def)
qed

text \<open>After a write to the socket nothing waits for it, unless it is writing.\<close>

lemma write_to_tcp_world:
  assumes w: "world (held_wis, sound u v, G) F P c" and run: "tls__write_to_tcp L E c = Some c'"
  shows "world (held_wis, sound u False, G) F P c'"
proof -
  obtain tt where tt: "tran c = Some tt" using w by (rule worldE)
  have same: "world (held_wis, sound u False, G) F P c" if "is_writing tt \<or> when_tcp_is_writing_queue tt = []"
  proof -
    have "c = c\<lparr>tran := Some tt\<rparr>" using tt by simp
    with world_shift [of held_wis "sound u v" G "[]" F tt P c tt "sound u False" held_wis "[]"] w tt that show ?thesis by auto
  qed
  let ?b = "case tls tt of None \<Rightarrow> [] | Some s \<Rightarrow> BIO_out L s"
  consider "is_writing tt" | "\<not> is_writing tt" "?b = []" | "\<not> is_writing tt" "?b \<noteq> []" by blast
  then show ?thesis
  proof cases
    case 1
    then show ?thesis using run tt same by (simp add: tls__write_to_tcp_def)
  next
    case 2
    then have "when_tcp_is_writing_queue tt = []" and c': "with_tt (uv_async_send write_async) c = Some c'"
      using run tt by (auto simp: tls__write_to_tcp_def split: if_splits)
    moreover have "wkeeps (held_wis, sound u False, G) (with_tt (uv_async_send write_async))"
      by (rule wkeeps_with_tt) (simp add: uv_async_send_def)
    ultimately show ?thesis using same wkeepsD by blast
  next
    case 3
    let ?t1 = "(flush_when tt)\<lparr>written := written tt @ [\<lparr>buf_base = Some ?b, buf_len = of_nat (length ?b)\<rparr>]\<rparr>"
    let ?tt = "if uv_write_rc E = 0 then ?t1\<lparr>is_writing := True\<rparr> else ?t1"
    have c': "with_ssl (\<lambda>s. snd (BIO_reset_out L s)) (c\<lparr>tran := Some ?tt\<rparr>) = Some c'"
      using run tt 3 by (auto simp: tls__write_to_tcp_def with_tt_def flush_when_def set_queue_def Let_def split: if_splits)
    have "pre_wis ?tt = pre_wis tt" "wi_queues ?tt resp_pending_queue = wi_queues tt resp_pending_queue"
      "vers_ok tt \<longrightarrow> vers_ok ?tt" "pkg_parser ?tt = pkg_parser tt"
      "sound u v (is_writing tt) (tr_uv_tcp.more tt) \<Longrightarrow> sound u False (is_writing ?tt) (tr_uv_tcp.more ?tt)"
      by (simp_all add: flush_when_def set_queue_def)
    moreover have "mset (all_wis ?tt) + mset (held_wis (tr_uv_tcp.more ?tt)) = mset (all_wis tt) + mset (held_wis (tr_uv_tcp.more tt))"
      by (simp add: flush_when_def all_wis_def set_queue_def)
    ultimately have "world (held_wis, sound u False, G) F P (c\<lparr>tran := Some ?tt\<rparr>)"
      using world_shift [of held_wis "sound u v" G "[]" F tt P c ?tt "sound u False" held_wis "[]"] w tt by simp
    from wkeepsD [OF wk_with_ssl this c'] show ?thesis .
  qed
qed

lemma wk_write_to_tcp [wk]: "wkeeps (held_wis, sound u False, G) (tls__write_to_tcp L E)"
  by (rule wkeepsI) (rule write_to_tcp_world)

text \<open>The item to be retried goes into a queue, and the copy of its buffer is freed.\<close>

definition settle_retry :: "(ref \<Rightarrow> 's tr_uv_tls \<Rightarrow> 's tr_uv_tls) \<Rightarrow> 's tr_uv_tls \<Rightarrow> 's tr_uv_tls" where
  "settle_retry push tt = (case should_retry tt of None \<Rightarrow> tt | Some r \<Rightarrow> (push r tt)\<lparr>should_retry := None\<rparr>)"

lemma push_head_writing: "push_head False = push_wi writing_queue"
  by (simp add: push_head_def [abs_def])

lemma settle_retry_world:
  assumes w: "world (held_wis, sound True False, G) F P c" and busy: "\<And>tt. tran c = Some tt \<Longrightarrow> busy \<Longrightarrow> is_writing tt"
    and c1: "with_tt (settle_retry (push_head busy)) c = Some c1"
    and c2: "with_tt (\<lambda>tt. tt\<lparr>retry_wb := None\<rparr>) c1 = Some c2"
  shows "world (held_wis, sound False False, G) F P c2" and "\<forall>tt. tran c2 = Some tt \<longrightarrow> retry_wb tt = None"
proof -
  obtain tt where tt: "tran c = Some tt" using w by (rule worldE)
  let ?tt = "(settle_retry (push_head busy) tt)\<lparr>retry_wb := None\<rparr>"
  have c2': "c2 = c\<lparr>tran := Some ?tt\<rparr>"
    using c1 c2 tt by (auto simp: with_tt_def)
  show "\<forall>tt. tran c2 = Some tt \<longrightarrow> retry_wb tt = None" by (auto simp: c2')
  have "pre_wis ?tt = pre_wis tt" "wi_queues ?tt resp_pending_queue = wi_queues tt resp_pending_queue"
    "vers_ok tt \<longrightarrow> vers_ok ?tt" "pkg_parser ?tt = pkg_parser tt"
    by (simp_all add: settle_retry_def push_head_def push_wi_def set_queue_def split: option.split)
  moreover have "sound True False (is_writing tt) (tr_uv_tcp.more tt) \<Longrightarrow> sound False False (is_writing ?tt) (tr_uv_tcp.more ?tt)"
    using busy [OF tt] by (auto simp: settle_retry_def push_head_def push_wi_def set_queue_def split: option.split)
  moreover have "mset (all_wis ?tt) + mset (held_wis (tr_uv_tcp.more ?tt)) = mset (all_wis tt) + mset (held_wis (tr_uv_tcp.more tt))"
    by (simp add: settle_retry_def push_head_def push_wi_def set_queue_def all_wis_def split: option.split)
  ultimately show "world (held_wis, sound False False, G) F P c2"
    using world_shift [of held_wis "sound True False" G "[]" F tt P c ?tt "sound False False" held_wis "[]"] w tt by (simp add: c2')
qed

lemma unsure_world: "world (held_wis, sound u v, G) F P c \<Longrightarrow> world (held_wis, sound True v, G) F P c"
  by (fastforce simp: world_def tinv_def items_def)

section \<open>Resetting and errors\<close>

definition reset_ssl :: "'s ssl_lib \<Rightarrow> uv_env \<Rightarrow> 's tls_op" where
  "reset_ssl L E c =
     do { c1 \<leftarrow> with_ssl (SSL_shutdown L) c; c2 \<leftarrow> tls__write_to_tcp L E c1;
          c3 \<leftarrow> with_tt (\<lambda>tt. tt\<lparr>is_handshake_completed := False\<rparr>) c2; c4 \<leftarrow> with_ssl (SSL_clear L) c3;
          (ret, c5) \<leftarrow> call_ssl (BIO_reset_in L) c4; assert_c (ret = 1);
          (ret, c6) \<leftarrow> call_ssl (BIO_reset_out L) c5; assert_c (ret = 1);
          c7 \<leftarrow> with_tt (settle_retry (push_head False)) c6; c8 \<leftarrow> with_tt (\<lambda>tt. tt\<lparr>retry_wb := None\<rparr>) c7;
          with_tt flush_when c8 }"

lemma tls_reset_code: "tls__reset L U E c = do { c1 \<leftarrow> reset_ssl L E c; tcp__reset U c1 }"
  unfolding tls__reset_def reset_ssl_def push_head_writing settle_retry_def [abs_def] flush_when_def [abs_def]
  by (simp add: split_def if_distrib [of "\<lambda>x. Option.bind x (tcp__reset U)"] cong: if_cong)

lemma reset_ssl_world:
  assumes w: "world (held_wis, sound u v, G) F P c" and run: "reset_ssl L E c = Some c'"
  shows "world (held_wis, sound False False, G) F P c'"
proof -
  obtain c1 c2 c3 c4 c5 c6 c7 c8 ret ret' where
    steps: "with_ssl (SSL_shutdown L) c = Some c1" "tls__write_to_tcp L E c1 = Some c2"
      "with_tt (\<lambda>tt. tt\<lparr>is_handshake_completed := False\<rparr>) c2 = Some c3" "with_ssl (SSL_clear L) c3 = Some c4"
      "call_ssl (BIO_reset_in L) c4 = Some (ret, c5)" "call_ssl (BIO_reset_out L) c5 = Some (ret', c6)"
    and settle: "with_tt (settle_retry (push_head False)) c6 = Some c7" "with_tt (\<lambda>tt. tt\<lparr>retry_wb := None\<rparr>) c7 = Some c8"
    and rest: "with_tt flush_when c8 = Some c'"
    using run unfolding reset_ssl_def by (auto simp: Option.bind_eq_Some_conv split: if_splits)
  have "world (held_wis, sound u False, G) F P c2"
    by (rule write_to_tcp_world [OF wkeepsD [OF wk_with_ssl w steps(1)] steps(2)])
  moreover have "wkeeps (held_wis, sound u False, G) (with_tt (\<lambda>tt. tt\<lparr>is_handshake_completed := False\<rparr> :: 'a tr_uv_tls))"
    by (rule wk_fields_tls) simp
  ultimately have "world (held_wis, sound u False, G) F P c3" using steps(3) wkeepsD by blast
  from wkeeps_rcD [OF wk_call_ssl wkeeps_rcD [OF wk_call_ssl wkeepsD [OF wk_with_ssl this steps(4)] steps(5)] steps(6)]
  have "world (held_wis, sound u False, G) F P c6" .
  from settle_retry_world(1) [OF unsure_world [OF this] _ settle] have "world (held_wis, sound False False, G) F P c8" by simp
  with rest show ?thesis using wkeepsD [OF wk_flush] by blast
qed

lemma reconn_split: "tcp__reconn U reset E c = do { c1 \<leftarrow> reset c; tcp__reconn U Some E c1 }"
  unfolding tcp__reconn_def by simp

locale tls_callbacks = tcp_callbacks U for U :: "'s tls_user"

context tls_callbacks
begin

lemma tls_reset_world:
  assumes w: "world (held_wis, sound u v, G) F P c" and run: "tls__reset L U E c = Some c'"
  shows "world (held_wis, sound False False, G) F P c'"
proof -
  obtain c1 where "reset_ssl L E c = Some c1" and c': "tcp__reset U c1 = Some c'"
    using run by (auto simp: tls_reset_code Option.bind_eq_Some_conv)
  from reset_ssl_world [OF w this(1)] show ?thesis by (rule wkeepsD [OF wk_reset _ c'])
qed

lemma wk_tls_reset: "wkeeps (held_wis, sound False False, G) (tls__reset L U E)"
  by (rule wkeepsI) (rule tls_reset_world)

lemma tls_hooks_ok: "hooks_ok (held_wis, sound False False, G) (tls_hooks L U E)"
  using wk_tls_reset wk_reconn [OF wk_tls_reset] by (simp add: hooks_ok_def tls_hooks_def)

lemma emit_error_world:
  assumes w: "world (held_wis, sound u v, G) F P c" and run: "tls__emit_error_event L U E c = Some c'"
  shows "world (held_wis, sound False False, G) F P c'"
proof -
  obtain tt where tt: "tran c = Some tt" using w by (rule worldE)
  have fired: "world (held_wis, sound u v, G) F P c1" if "pc_trans_fire_event U t a1 a2 c = Some c1" for t a1 a2 c1
    using fire_event_world(1) [OF w that] .
  show ?thesis
  proof (cases "is_handshake_completed tt")
    case False
    then show ?thesis
      using run tt tls_reset_world [OF fired] by (auto simp: tls__emit_error_event_def tls_hooks_def Option.bind_eq_Some_conv)
  next
    case True
    then obtain c1 c2 where c1: "pc_trans_fire_event U PC_EV_UNEXPECTED_DISCONNECT (Some ''TLS Error'') None c = Some c1"
      and c2: "tls__reset L U E c1 = Some c2" and rest: "tcp__reconn U Some E c2 = Some c'"
      using run tt reconn_split [of U "tls__reset L U E" E]
      by (auto simp: tls__emit_error_event_def tls_hooks_def Option.bind_eq_Some_conv)
    from tls_reset_world [OF fired [OF c1] c2] show ?thesis
      by (rule wkeepsD [OF wk_reconn [OF wk_Some(1)] _ rest])
  qed
qed

lemma wk_emit_error [wk]: "wkeeps (held_wis, sound False False, G) (tls__emit_error_event L U E)"
  by (rule wkeepsI) (rule emit_error_world)

section \<open>Writing to OpenSSL\<close>

text \<open>Calls of OpenSSL leave everything else.\<close>

lemma call_ssl_tt:
  assumes "call_ssl f c = Some (x, c')" and "tran c = Some tt"
  obtains s where "c' = c\<lparr>tran := Some (tt\<lparr>tls := s\<rparr>)\<rparr>"
proof -
  obtain s where "tls tt = Some s" using assms by (auto simp: call_ssl_def Option.bind_eq_Some_conv)
  then show thesis
    using that assms by (cases "f s") (auto simp: call_ssl_def with_tt_def)
qed

lemma retry_write_world:
  assumes w: "world (held_wis, sound False False, G) F P c" and tt: "tran c = Some tt" "busy \<longrightarrow> is_writing tt"
    and run: "retry_write L U E busy c = Some (go, flag, c')"
  shows "world (held_wis, sound False False, G) F P c'"
proof -
  show ?thesis
  proof (cases "retry_wb tt")
    case None
    then show ?thesis using run tt w by (simp add: retry_write_def)
  next
    case (Some wb)
    let ?call = "call_ssl (SSL_write L \<lparr>buf_base = Some wb, buf_len = of_nat (length wb)\<rparr>) c"
    obtain ret c1 where c1: "?call = Some (ret, c1)"
      using run tt Some by (auto simp: retry_write_def Option.bind_eq_Some_conv)
    have w1: "world (held_wis, sound False False, G) F P c1" using wkeeps_rcD [OF wk_call_ssl w c1] .
    show ?thesis
    proof (cases "ret = - 1")
      case True
      then obtain err where err: "tls__get_error L ret c1 = Some err"
        using run tt Some c1 by (auto simp: retry_write_def Option.bind_eq_Some_conv)
      show ?thesis
      proof (cases err)
        case True
        then obtain c2 where c2: "with_tt (\<lambda>tt. tt\<lparr>retry_wb := None\<rparr>) c1 = Some c2" and c': "tls__emit_error_event L U E c2 = Some c'"
          using run tt Some c1 \<open>ret = - 1\<close> err by (auto simp: retry_write_def Option.bind_eq_Some_conv)
        have "wkeeps (held_wis, sound True False, G) (with_tt (\<lambda>tt. tt\<lparr>retry_wb := None\<rparr> :: 's tr_uv_tls))"
          by (rule wkeeps_shift) (simp_all add: all_wis_def)
        from wkeepsD [OF this unsure_world [OF w1] c2] c' show ?thesis by (rule emit_error_world)
      next
        case False
        then show ?thesis
          using run tt Some c1 \<open>ret = - 1\<close> err w1 by (simp add: retry_write_def)
      qed
    next
      case False
      then obtain c2 c3 where c2: "with_tt (\<lambda>tt. tt\<lparr>is_handshake_completed := True\<rparr>) c1 = Some c2"
        and settle: "with_tt (settle_retry (push_head busy)) c2 = Some c3" "with_tt (\<lambda>tt. tt\<lparr>retry_wb := None\<rparr>) c3 = Some c'"
        using run tt Some c1 unfolding retry_write_def settle_retry_def [symmetric]
        by (auto simp: Option.bind_eq_Some_conv split: if_splits)
      have "wkeeps (held_wis, sound False False, G) (with_tt (\<lambda>tt. tt\<lparr>is_handshake_completed := True\<rparr> :: 's tr_uv_tls))"
        by (rule wk_fields_tls) simp
      note w2 = unsure_world [OF wkeepsD [OF this w1 c2]]
      obtain s where "c1 = c\<lparr>tran := Some (tt\<lparr>tls := s\<rparr>)\<rparr>" by (rule call_ssl_tt [OF c1 tt(1)])
      with c2 tt(2) have "\<And>t2. tran c2 = Some t2 \<Longrightarrow> busy \<Longrightarrow> is_writing t2" by (auto simp: with_tt_def)
      from settle_retry_world(1) [OF w2 this settle] show ?thesis .
    qed
  qed
qed

lemma retry_write_tt:
  assumes "retry_write L U E busy c = Some (True, flag, c')" and "tran c = Some tt"
  obtains tt' where "tran c' = Some tt'" "is_writing tt' = is_writing tt"
proof -
  have same: "is_writing (settle_retry (push_head busy) t) = is_writing t" for t :: "'s tr_uv_tls"
    by (simp add: settle_retry_def push_head_def push_wi_def split: option.split)
  show thesis
  proof (cases "retry_wb tt")
    case None
    then show ?thesis using that assms by (simp add: retry_write_def)
  next
    case (Some wb)
    then obtain ret c1 where c1: "call_ssl (SSL_write L \<lparr>buf_base = Some wb, buf_len = of_nat (length wb)\<rparr>) c = Some (ret, c1)"
      using assms by (auto simp: retry_write_def Option.bind_eq_Some_conv)
    obtain s where "c1 = c\<lparr>tran := Some (tt\<lparr>tls := s\<rparr>)\<rparr>" by (rule call_ssl_tt [OF c1 assms(2)])
    then have "\<exists>tt'. tran c' = Some tt' \<and> is_writing tt' = is_writing tt"
      using assms Some c1 same unfolding retry_write_def settle_retry_def [symmetric]
      by (auto simp: Option.bind_eq_Some_conv with_tt_def split: if_splits)
    then show ?thesis using that by blast
  qed
qed

lemma push_head_world:
  assumes w: "world (held_wis, sound u v, G) (r # F) (wi_key wi + P) c" and wi: "get_wi r c = Some wi"
    and tt: "tran c = Some tt" "v \<or> (busy \<longrightarrow> is_writing tt)" and run: "with_tt (push_head busy r) c = Some c'"
  shows "world (held_wis, sound u v, G) F P c'"
proof -
  let ?tt = "push_head busy r tt"
  have "mset (all_wis ?tt) + mset (held_wis (tr_uv_tcp.more ?tt)) + mset [] = mset (all_wis tt) + mset (held_wis (tr_uv_tcp.more tt)) + mset [r]"
    by (simp add: push_head_def push_wi_def all_wis_def set_queue_def)
  moreover have "c' = c\<lparr>tran := Some ?tt\<rparr>" using run tt by (simp add: with_tt_def)
  moreover have "pre_wis ?tt = pre_wis tt" "wi_queues ?tt resp_pending_queue = wi_queues tt resp_pending_queue"
    "vers_ok tt \<longrightarrow> vers_ok ?tt" "pkg_parser ?tt = pkg_parser tt" "sound u v (is_writing tt) (tr_uv_tcp.more tt) \<Longrightarrow> sound u v (is_writing ?tt) (tr_uv_tcp.more ?tt)"
    using tt(2) by (auto simp: push_head_def push_wi_def set_queue_def)
  ultimately show ?thesis
    using world_shift [of held_wis "sound u v" G "[r]" F tt P c ?tt "sound u v" held_wis "[]"] w wi tt by (simp add: get_wi_def)
qed

text \<open>An item is kept for the next attempt; there is none yet.\<close>

lemma keep_retry_world:
  assumes w: "world (held_wis, sound False False, G) (r # F) (wi_key wi + P) c" and wi: "get_wi r c = Some wi"
    and tt: "tran c = Some tt" "retry_wb tt = None" and run: "with_tt (\<lambda>tt. tt\<lparr>should_retry := Some r\<rparr>) c = Some c'"
  shows "world (held_wis, sound True False, G) F P c'"
    and "with_tt (\<lambda>tt. tt\<lparr>retry_wb := Some wb\<rparr>) c' = Some c'' \<Longrightarrow> world (held_wis, sound False False, G) F P c''"
proof -
  have none: "should_retry tt = None"
    using w tt by (auto simp: world_def tinv_def)
  let ?tt = "tt\<lparr>should_retry := Some r\<rparr>"
  have c': "c' = c\<lparr>tran := Some ?tt\<rparr>" using run tt(1) by (simp add: with_tt_def)
  have "mset (all_wis ?tt) + mset (held_wis (tr_uv_tcp.more ?tt)) + mset [] = mset (all_wis tt) + mset (held_wis (tr_uv_tcp.more tt)) + mset [r]"
    using none by simp
  with world_shift [of held_wis "sound False False" G "[r]" F tt P c ?tt "sound True False" held_wis "[]"] show "world (held_wis, sound True False, G) F P c'"
    using w wi tt by (simp add: c' get_wi_def)
  have "mset (all_wis (?tt\<lparr>retry_wb := Some wb\<rparr>)) + mset (held_wis (tr_uv_tcp.more (?tt\<lparr>retry_wb := Some wb\<rparr>))) + mset [] =
      mset (all_wis tt) + mset (held_wis (tr_uv_tcp.more tt)) + mset [r]"
    using none by simp
  with world_shift [of held_wis "sound False False" G "[r]" F tt P c "?tt\<lparr>retry_wb := Some wb\<rparr>" "sound False False" held_wis "[]"]
  show "with_tt (\<lambda>tt. tt\<lparr>retry_wb := Some wb\<rparr>) c' = Some c'' \<Longrightarrow> world (held_wis, sound False False, G) F P c''"
    using w wi tt by (auto simp: c' get_wi_def with_tt_def)
qed

lemma bio_loop_world:
  assumes "bio_loop L U E busy flag c = Some (go, flag', c')" and "world (held_wis, sound False False, G) F P c"
    and "tran c = Some tt" "retry_wb tt = None" "busy \<longrightarrow> is_writing tt"
  shows "world (held_wis, sound False False, G) F P c'"
proof -
  have "bio_loop L' V E busy flag c = Some y \<Longrightarrow> L' = L \<Longrightarrow> V = U \<Longrightarrow> y = (go, flag', c') \<Longrightarrow>
      world (held_wis, sound False False, G) F P c \<Longrightarrow> (\<exists>tt. tran c = Some tt \<and> retry_wb tt = None \<and> (busy \<longrightarrow> is_writing tt)) \<Longrightarrow>
      world (held_wis, sound False False, G) F P c'" for L' V E busy flag c y
  proof (induction L' V E busy flag c y rule: bio_loop.raw_induct [rotated, consumes 1])
    case (1 rec L' V E busy flag c y)
    then obtain p where p: "pop_wi write_wait_queue c = Some p"
      by (auto simp: Option.bind_eq_Some_conv)
    show ?case
    proof (cases p)
      case None
      then show ?thesis using 1 p by simp
    next
      case (Some p')
      obtain r c1 where pop: "pop_wi write_wait_queue c = Some (Some (r, c1))"
        using p Some by (cases p') simp
      obtain tt rs wi where tt: "tran c = Some tt" "c1 = c\<lparr>tran := Some (set_queue write_wait_queue rs tt)\<rparr>"
        and wi: "get_wi r c1 = Some wi" and w1: "world (held_wis, sound False False, G) (r # F) (wi_key wi + P) c1"
        using world_pop [OF 1(6) pop] by metis
      obtain ret c2 where c2: "call_ssl (SSL_write L (wi_buf wi)) c1 = Some (ret, c2)"
        using 1(2,3) pop wi by (auto simp: Option.bind_eq_Some_conv)
      have w2: "world (held_wis, sound False False, G) (r # F) (wi_key wi + P) c2" using wkeeps_rcD [OF wk_call_ssl w1 c2] .
      obtain s where c2': "c2 = c\<lparr>tran := Some ((set_queue write_wait_queue rs tt)\<lparr>tls := s\<rparr>)\<rparr>"
        using call_ssl_tt [OF c2] tt(2) by auto
      let ?tt = "(set_queue write_wait_queue rs tt)\<lparr>tls := s\<rparr>"
      have t2: "tran c2 = Some ?tt" and n2: "retry_wb ?tt = None" and wi2: "get_wi r c2 = Some wi"
        and busy: "busy \<longrightarrow> is_writing ?tt"
        using 1(7) tt wi by (auto simp: c2' get_wi_def set_queue_def)
      show ?thesis
      proof (cases "ret = - 1")
        case True
        then obtain c3 err where c3: "with_tt (\<lambda>tt. tt\<lparr>should_retry := Some r\<rparr>) c2 = Some c3" and err: "tls__get_error L ret c3 = Some err"
          and rest: "(if err then do { c4 \<leftarrow> tls__emit_error_event L U E c3; Some (False, flag, c4) }
             else do { wb \<leftarrow> copy_buf (wi_buf wi); c4 \<leftarrow> with_tt (\<lambda>tt. tt\<lparr>retry_wb := Some wb\<rparr>) c3; Some (True, flag, c4) }) = Some y"
          using 1(2-4) pop wi c2 by (auto simp: Option.bind_eq_Some_conv split: if_splits)
        note keep = keep_retry_world [OF w2 wi2 t2 n2 c3]
        show ?thesis
        proof (cases err)
          case True
          then show ?thesis
            using rest 1(5) emit_error_world [OF keep(1)] by (auto simp: Option.bind_eq_Some_conv)
        next
          case False
          then show ?thesis
            using rest 1(5) keep(2) by (auto simp: Option.bind_eq_Some_conv)
        qed
      next
        case False
        then obtain c3 c4 where c3: "with_tt (\<lambda>tt. tt\<lparr>is_handshake_completed := True\<rparr>) c2 = Some c3"
          and c4: "with_tt (push_head busy r) c3 = Some c4" and rest: "rec L' V E busy True c4 = Some y"
          using 1(2,3,4) pop wi c2 by (auto simp: Option.bind_eq_Some_conv split: if_splits)
        have "wkeeps (held_wis, sound False False, G) (with_tt (\<lambda>tt. tt\<lparr>is_handshake_completed := True\<rparr> :: 's tr_uv_tls))"
          by (rule wk_fields_tls) simp
        then have w3: "world (held_wis, sound False False, G) (r # F) (wi_key wi + P) c3" using w2 c3 wkeepsD by blast
        have "get_wi r c3 = Some wi" using wi2 t2 c3 by (auto simp: with_tt_def get_wi_def)
        moreover have "tran c3 = Some (?tt\<lparr>is_handshake_completed := True\<rparr>)" using t2 c3 by (auto simp: with_tt_def)
        moreover have "False \<or> (busy \<longrightarrow> is_writing (?tt\<lparr>is_handshake_completed := True\<rparr>))" using busy by simp
        ultimately have w4: "world (held_wis, sound False False, G) F P c4"
          using push_head_world [OF w3 _ _ _ c4] by blast
        have "\<exists>tt. tran c4 = Some tt \<and> retry_wb tt = None \<and> (busy \<longrightarrow> is_writing tt)"
          using t2 n2 busy c3 c4 by (auto simp: with_tt_def push_head_def push_wi_def set_queue_def)
        from 1(1) [OF rest 1(3-5) w4 this] show ?thesis .
      qed
    qed
  qed
  then show ?thesis using assms by blast
qed

lemma wk_write_to_bio [wk]: "wkeeps (held_wis, sound False False, G) (tls__write_to_bio L U E)"
proof
  fix F P c c'
  assume w: "world (held_wis, sound False False, G) F P c" and run: "tls__write_to_bio L U E c = Some c'"
  obtain tt where tt: "tran c = Some tt" using w by (rule worldE)
  show "world (held_wis, sound False False, G) F P c'"
  proof (cases "tt_state tt = TR_UV_TCP_NOT_CONN")
    case True
    then show ?thesis using run w tt by (simp add: tls__write_to_bio_def)
  next
    case False
    let ?pre = "\<lambda>c. do { c1 \<leftarrow> tt_lock c;
            c2 \<leftarrow> (if tt_state tt = TR_UV_TCP_DONE
                  then with_tt (move_queue conn_pending_queue write_wait_queue) c1 else Some c1);
            tt_unlock c2 }"
    obtain c3 go flag c4 where c3: "?pre c = Some c3" and c4: "retry_write L U E (is_writing tt) c3 = Some (go, flag, c4)"
      and rest: "(if \<not> go then Some c4
            else do {
              tt' \<leftarrow> tran c4;
              (go, flag, c5) \<leftarrow> (if retry_wb tt' = None then bio_loop L U E (is_writing tt) flag c4 else Some (True, flag, c4));
              if \<not> go then Some c5
              else do { c6 \<leftarrow> start_check E c5; if flag then tls__write_to_tcp L E c6 else Some c6 } }) = Some c'"
      using run tt False by (auto simp: tls__write_to_bio_def Option.bind_eq_Some_conv Let_def)
    have "wkeeps (held_wis, sound False False, G) ?pre" by (intro wk) simp_all
    note w3 = wkeepsD [OF this w c3]
    obtain t3 where t3: "tran c3 = Some t3" "is_writing t3 = is_writing tt"
      using c3 tt by (auto simp: with_tt_def tt_lock_def tt_unlock_def move_queue_def set_queue_def split: if_splits)
    from t3(2) have busy: "is_writing tt \<longrightarrow> is_writing t3" by simp
    from retry_write_world [OF w3 t3(1) busy c4] have w4: "world (held_wis, sound False False, G) F P c4" .
    show ?thesis
    proof (cases go)
      case False
      then show ?thesis using rest w4 by simp
    next
      case True
      with c4 have "retry_write L U E (is_writing tt) c3 = Some (True, flag, c4)" by simp
      from retry_write_tt [OF this t3(1)] obtain tt' where tt': "tran c4 = Some tt'" and wr: "is_writing tt' = is_writing t3" .
      obtain go' flag' c5 where c5: "(if retry_wb tt' = None then bio_loop L U E (is_writing tt) flag c4 else Some (True, flag, c4)) = Some (go', flag', c5)"
        and rest': "(if \<not> go' then Some c5
              else do { c6 \<leftarrow> start_check E c5; if flag' then tls__write_to_tcp L E c6 else Some c6 }) = Some c'"
        using rest True tt' by (auto simp: Option.bind_eq_Some_conv)
      have w5: "world (held_wis, sound False False, G) F P c5"
        using c5 w4 bio_loop_world [OF _ w4 tt'] busy wr by (auto split: if_splits)
      have "wkeeps (held_wis, sound False False, G) (\<lambda>c5. if \<not> go' then Some c5
              else do { c6 \<leftarrow> start_check E c5; if flag' then tls__write_to_tcp L E c6 else Some c6 })"
        by (intro wk)
      from wkeepsD [OF this w5 rest'] show ?thesis .
    qed
  qed
qed

section \<open>Reading from OpenSSL\<close>

lemma tls_reader: "tcp_reader U held_wis (sound False False) (tls_hooks L U E)"
  by unfold_locales (rule tls_hooks_ok)

lemma read_loop_world:
  assumes "read_loop L U E c = Some (n, c')" and "world (held_wis, sound False False, pkg_parser_ok) F P c"
  shows "world (held_wis, sound False False, pkg_parser_ok) F P c'"
proof -
  let ?X = "(held_wis, sound False False, pkg_parser_ok)"
  have "read_loop L' V E c = Some y \<Longrightarrow> L' = L \<Longrightarrow> V = U \<Longrightarrow> y = (n, c') \<Longrightarrow> world ?X F P c \<Longrightarrow> world ?X F P c'" for L' V E c y
  proof (induction L' V E c y rule: read_loop.raw_induct [rotated, consumes 1])
    case (1 rec L' V E c y)
    let ?call = "\<lambda>s. let (n, data, s') = SSL_read L PC_TLS_READ_BUF_SIZE s in ((n, data), s')"
    obtain m data c1 where c1: "call_ssl ?call c = Some ((m, data), c1)"
      using 1(2,3) by (auto simp: Option.bind_eq_Some_conv)
    have w1: "world ?X F P c1" using wkeeps_rcD [OF wk_call_ssl 1(6) c1] .
    show ?case
    proof (cases "m > 0")
      case False
      then show ?thesis using 1(2,3,5) c1 w1 by (auto simp: Option.bind_eq_Some_conv)
    next
      case True
      then obtain c2 tt p c3 c4 where c2: "with_tt (\<lambda>tt. tt\<lparr>is_handshake_completed := True\<rparr>) c1 = Some c2" and tt: "tran c2 = Some tt"
        and feed: "pc_pkg_parser_feed (tr_tcp_on_pkg_handler U (tls_hooks L U E) E) (pkg_parser tt) c2 (take (nat m) data) = Some (p, c3)"
          "with_tt (\<lambda>tt. tt\<lparr>pkg_parser := p\<rparr>) c3 = Some c4"
        and rest: "rec L' V E c4 = Some y"
        using 1(2-4) c1 by (auto simp: Option.bind_eq_Some_conv)
      have "wkeeps ?X (with_tt (\<lambda>tt. tt\<lparr>is_handshake_completed := True\<rparr> :: 's tr_uv_tls))"
        by (rule wk_fields_tls) simp
      then have w2: "world ?X F P c2" using w1 c2 wkeepsD by blast
      from tcp_reader.feed_world [OF tls_reader w2 tt feed] have "world ?X F P c4" .
      from 1(1) [OF rest 1(3-5) this] show ?thesis .
    qed
  qed
  then show ?thesis using assms by blast
qed

lemma wk_read_loop [wk]: "wkeeps_rc (held_wis, sound False False, pkg_parser_ok) (read_loop L U E)"
  by (rule wkeeps_rcI) (rule read_loop_world)

lemma wk_get_error [wk]: "(\<And>b. wkeeps X (g b)) \<Longrightarrow> wkeeps X (\<lambda>c. Option.bind (tls__get_error L n c) (\<lambda>b. g b c))"
  by (rule wkeepsI) (auto simp: Option.bind_eq_Some_conv dest: wkeepsD)

lemma wk_read_from_bio [wk]: "wkeeps (held_wis, sound False False, pkg_parser_ok) (tls__read_from_bio L U E)"
proof -
  have "wkeeps (held_wis, sound False False, pkg_parser_ok) (\<lambda>c1. Option.bind (tls__get_error L n c1) (\<lambda>err. if err then tls__emit_error_event L U E c1 else Some c1))" for n
    by (intro wk)
  then show ?thesis
    unfolding tls__read_from_bio_def [abs_def] by (intro wk_bind_rc wk_read_loop)
qed

lemma wk_cycle [wk]: "wkeeps (held_wis, sound False False, pkg_parser_ok) (tls__cycle L U E)"
  unfolding tls__cycle_def [abs_def] by (intro wk)

section \<open>The callbacks\<close>

lemma wk_tls_conn_done: "wkeeps (held_wis, sound False False, pkg_parser_ok) (tls__conn_done_cb L U E status)"
  unfolding tls__conn_done_cb_def [abs_def] by (intro wk wk_conn_done tls_hooks_ok)

lemma wk_tls_write_done: "wkeeps (held_wis, sound False False, pkg_parser_ok) (tls__write_done_cb L U E status)"
proof
  fix F P c c'
  let ?X = "(held_wis, sound False True, pkg_parser_ok)"
  assume w: "world (held_wis, sound False False, pkg_parser_ok) F P c" and run: "tls__write_done_cb L U E status c = Some c'"
  obtain tt where tt: "tran c = Some tt" using w by (rule worldE)
  let ?tt = "tt\<lparr>is_writing := False\<rparr>"
  have "mset (all_wis ?tt) + mset (held_wis (tr_uv_tcp.more ?tt)) + mset [] = mset (all_wis tt) + mset (held_wis (tr_uv_tcp.more tt)) + mset []"
    by (simp add: all_wis_def)
  moreover have "sound False False (is_writing tt) (tr_uv_tcp.more tt) \<Longrightarrow> sound False True (is_writing ?tt) (tr_uv_tcp.more ?tt)" by simp
  ultimately have w1: "world ?X F P (c\<lparr>tran := Some ?tt\<rparr>)"
    using world_shift [of held_wis "sound False False" pkg_parser_ok "[]" F tt P c ?tt "sound False True" held_wis "[]"] w tt by simp
  obtain c4 where c4: "do { c2 \<leftarrow> tt_lock (c\<lparr>tran := Some ?tt\<rparr>); c3 \<leftarrow> written_loop U (if status = 0 then PC_RC_OK else PC_RC_ERROR) c2; tt_unlock c3 } = Some c4"
    and c': "tls__write_to_tcp L E c4 = Some c'"
    using run tt by (auto simp: tls__write_done_cb_def with_tt_def Option.bind_eq_Some_conv)
  have "wkeeps ?X (\<lambda>c. do { c2 \<leftarrow> tt_lock c; c3 \<leftarrow> written_loop U (if status = 0 then PC_RC_OK else PC_RC_ERROR) c2; tt_unlock c3 })"
    by (intro wk)
  from write_to_tcp_world [OF wkeepsD [OF this w1 c4] c'] show "world (held_wis, sound False False, pkg_parser_ok) F P c'" .
qed

lemma wk_tls_read: "wkeeps (held_wis, sound False False, pkg_parser_ok) (tls__on_tcp_read_cb L U E nread buf)"
  unfolding tls__on_tcp_read_cb_def [abs_def] by (intro wk wk_read tls_hooks_ok)

lemma wk_tls_cleanup: "wkeeps (held_wis, sound False False, pkg_parser_ok) (tls__cleanup_async_cb L U E)"
  unfolding tls__cleanup_async_cb_def [abs_def] by (intro wk wk_cleanup_async tls_hooks_ok wk_fields_tls) simp

section \<open>Timeouts\<close>

text \<open>Nobody else starts or ends a write meanwhile.\<close>

definition writing_as :: "bool \<Rightarrow> bool \<Rightarrow> bool \<Rightarrow> ('s, unit) tr_uv_tls_ext \<Rightarrow> bool" where
  "writing_as w0 u w m \<longleftrightarrow> w = w0 \<and> sound u True w m"

lemma writing_as_more [simp]:
  "writing_as w0 u w (tr_uv_tcp.more tt) \<longleftrightarrow> w = w0 \<and> (u \<or> (should_retry tt \<noteq> None \<longrightarrow> retry_wb tt \<noteq> None))"
  by (simp add: writing_as_def)

lemma world_pop_when:
  assumes w: "world (held_wis, writing_as w0 u, G) F P c" and pop: "pop_when c = Some (Some (r, c1))"
  obtains wi where "get_wi r c1 = Some wi" "world (held_wis, writing_as w0 u, G) (r # F) (wi_key wi + P) c1" "\<forall>s. get_wi s c1 = get_wi s c"
proof -
  obtain tt where tt: "tran c = Some tt" using w by (rule worldE)
  obtain rs where rs: "when_tcp_is_writing_queue tt = r # rs" and c1: "c1 = c\<lparr>tran := Some (tt\<lparr>when_tcp_is_writing_queue := rs\<rparr>)\<rparr>"
    using pop tt by (auto simp: pop_when_def with_tt_Some Option.bind_eq_Some_conv split: list.splits)
  let ?tt = "tt\<lparr>when_tcp_is_writing_queue := rs\<rparr>"
  have "mset (all_wis ?tt) + mset (held_wis (tr_uv_tcp.more ?tt)) + mset [r] = mset (all_wis tt) + mset (held_wis (tr_uv_tcp.more tt)) + mset []"
    by (simp add: rs)
  with world_shift [of held_wis "writing_as w0 u" G "[]" F tt P c ?tt "writing_as w0 u" held_wis "[r]"] w tt
  have w1: "world (held_wis, writing_as w0 u, G) (r # F) (wi_key (the (pool_get (pre_wis tt) r)) + P) c1"
    by (simp add: c1)
  then have "tinv (held_wis, writing_as w0 u, G) (r # F) ?tt" by (simp add: world_def c1)
  then obtain wi where "pool_get (pre_wis ?tt) r = Some wi"
    by (rule item_exists [of _ _ _ r]) auto
  with w1 tt show thesis by (intro that [of wi]) (simp_all add: c1 get_wi_def)
qed

lemma check_when_world:
  assumes "check_when_loop U ct tmp cont c = Some (tmp', cont', c')" and "world (held_wis, writing_as w0 u, G) (tmp @ F) (held c tmp + P) c"
  shows "world (held_wis, writing_as w0 u, G) (tmp' @ F) (held c' tmp' + P) c'"
proof -
  let ?X = "(held_wis, writing_as w0 u, G)"
  have "check_when_loop V ct tmp cont c = Some y \<Longrightarrow> V = U \<Longrightarrow> y = (tmp', cont', c') \<Longrightarrow>
      world ?X (tmp @ F) (held c tmp + P) c \<Longrightarrow> world ?X (tmp' @ F) (held c' tmp' + P) c'" for V ct tmp cont c y
  proof (induction V ct tmp cont c y rule: check_when_loop.raw_induct [rotated, consumes 1])
    case (1 rec V ct tmp cont c y)
    then obtain p where p: "pop_when c = Some p"
      by (auto simp: Option.bind_eq_Some_conv)
    show ?case
    proof (cases p)
      case None
      then show ?thesis using 1 p by simp
    next
      case (Some p')
      obtain r c1 where pop: "pop_when c = Some (Some (r, c1))"
        using p Some by (cases p') simp
      obtain wi where wi: "get_wi r c1 = Some wi" and w1: "world ?X (r # tmp @ F) (wi_key wi + (held c tmp + P)) c1"
        and get1: "\<forall>s. get_wi s c1 = get_wi s c"
        by (rule world_pop_when [OF 1(5) pop])
      then have held1: "held c1 tmp = held c tmp" using held_cong by blast
      show ?thesis
      proof (cases "wi_timeout wi \<noteq> PC_WITHOUT_TIMEOUT \<and> ct > wi_ts wi + wi_timeout wi")
        case True
        then obtain c2 where c2: "expire_wi U r wi c1 = Some c2" and rest: "rec V ct tmp cont c2 = Some y"
          using 1(2,3) pop wi by (auto simp: Option.bind_eq_Some_conv split: if_splits)
        note step = expire_wi_world [OF w1 c2]
        from step(2) have "\<forall>s \<in> set tmp. get_wi s c2 = get_wi s c1" by simp
        from held_cong(1) [OF this] step(1) held1 have "world ?X (tmp @ F) (held c2 tmp + P) c2" by simp
        then show ?thesis by (rule 1(1) [OF rest 1(3,4)])
      next
        case False
        then have rest: "rec V ct (tmp @ [r]) (wi_timeout wi \<noteq> PC_WITHOUT_TIMEOUT \<or> cont) c1 = Some y"
          using 1(2,3) pop wi by (auto simp: Option.bind_eq_Some_conv split: if_splits)
        have "world ?X ((tmp @ [r]) @ F) (held c1 (tmp @ [r]) + P) c1"
          using w1 wi held1 world_perm [of "r # tmp @ F" "(tmp @ [r]) @ F" ?X "P + (wi_key wi + held c tmp)" c1] by (simp add: ac_simps)
        then show ?thesis by (rule 1(1) [OF rest 1(3,4)])
      qed
    qed
  qed
  then show ?thesis using assms by blast
qed

lemma wk_check_when [wk]: "wkeeps_rc (held_wis, sound u v, G) (check_when_timeout U E cont)"
proof
  fix F P c x c'
  assume w: "world (held_wis, sound u v, G) F P c" and run: "check_when_timeout U E cont c = Some (x, c')"
  then obtain tmp cont' c1 where c1: "check_when_loop U (time_now E) [] cont c = Some (tmp, cont', c1)"
    and c': "with_tt (\<lambda>tt. tt\<lparr>when_tcp_is_writing_queue := when_tcp_is_writing_queue tt @ tmp\<rparr>) c1 = Some c'"
    by (auto simp: check_when_timeout_def Option.bind_eq_Some_conv)
  obtain t0 where t0: "tran c = Some t0" using w by (rule worldE)
  show "world (held_wis, sound u v, G) F P c'"
  proof (cases "when_tcp_is_writing_queue t0 = []")
    case True
    then have "tmp = []" "c1 = c" using c1 t0 by (subst (asm) check_when_loop.simps, simp add: pop_when_def)+
    moreover have "c\<lparr>tran := Some t0\<rparr> = c" using t0 by simp
    ultimately have "c' = c" using c' t0 by (auto simp: with_tt_def)
    then show ?thesis using w by simp
  next
    case False
    have "c = c\<lparr>tran := Some t0\<rparr>" using t0 by simp
    with world_shift [of held_wis "sound u v" G "[]" F t0 P c t0 "writing_as (is_writing t0) u" held_wis "[]"] w t0
    have "world (held_wis, writing_as (is_writing t0) u, G) F P c" by auto
    with check_when_world [OF c1, of "is_writing t0" u G F P]
    have w1: "world (held_wis, writing_as (is_writing t0) u, G) (tmp @ F) (held c1 tmp + P) c1" by simp
    then obtain tt where tt: "tran c1 = Some tt" by (rule worldE)
    let ?tt = "tt\<lparr>when_tcp_is_writing_queue := when_tcp_is_writing_queue tt @ tmp\<rparr>"
    have "v \<or> is_writing t0"
      using w t0 False by (auto simp: world_def tinv_def)
    then have "writing_as (is_writing t0) u (is_writing tt) (tr_uv_tcp.more tt) \<Longrightarrow> sound u v (is_writing ?tt) (tr_uv_tcp.more ?tt)" by auto
    moreover have "mset (all_wis ?tt) + mset (held_wis (tr_uv_tcp.more ?tt)) + mset [] = mset (all_wis tt) + mset (held_wis (tr_uv_tcp.more tt)) + mset tmp"
      by simp
    ultimately show ?thesis
      using world_shift [of held_wis "writing_as (is_writing t0) u" G tmp F tt P c1 ?tt "sound u v" held_wis "[]"] w1 tt c'
      by (simp add: with_tt_def held_tran [OF tt] add.commute)
  qed
qed

text \<open>While the item to be retried expires it is in the hands of the callback.\<close>

lemma expire_retry_world:
  assumes w: "world (held_wis, sound False False, G) F P c" and tt: "tran c = Some tt" "should_retry tt = Some r"
    and wi: "get_wi r c = Some wi" and run: "expire_retry U r wi c = Some c'"
  shows "world (held_wis, sound False False, G) F P c'"
proof -
  let ?X = "(waiting_wis, sound True False, G)"
  have c: "c = c\<lparr>tran := Some tt\<rparr>" using tt by simp
  have "mset (all_wis tt) + mset (waiting_wis (tr_uv_tcp.more tt)) + mset [r] = mset (all_wis tt) + mset (held_wis (tr_uv_tcp.more tt)) + mset []"
    using tt by simp
  with world_shift [of held_wis "sound False False" G "[]" F tt P c tt "sound True False" waiting_wis "[r]"] w tt wi c
  have w0: "world ?X (r # F) (wi_key wi + P) c" by (simp add: get_wi_def)
  have swap: "(if TR_UV_WI_IS_NOTIFY (wi_type wi) then x else if TR_UV_WI_IS_RESP (wi_type wi) then y else z) =
      (if TR_UV_WI_IS_RESP (wi_type wi) then y else if TR_UV_WI_IS_NOTIFY (wi_type wi) then x else z)" for x y z :: "'s tls_client option"
    using resp_not_notify by auto
  obtain c1 c2 c3 and wi2 :: tr_uv_wi where c1: "(if TR_UV_WI_IS_RESP (wi_type wi) then pc_trans_resp U (wi_req_id wi) PC_RC_TIMEOUT None c
      else if TR_UV_WI_IS_NOTIFY (wi_type wi) then pc_trans_sent U (wi_seq_num wi) PC_RC_TIMEOUT c else Some c) = Some c1"
    and c2: "free_wi_buf r c1 = Some c2"
    and c3: "(if PC_IS_PRE_ALLOC (wi_type wi2) then do { c3 \<leftarrow> tt_lock c2; c4 \<leftarrow> release_wi r c3; tt_unlock c4 } else release_wi r c2) = Some c3"
    and c': "with_tt (\<lambda>tt. tt\<lparr>should_retry := None\<rparr>) c3 = Some c'"
    using run unfolding expire_retry_def swap Option.bind_eq_Some_conv by blast
  have w2: "world ?X (r # F) P c2"
    using report_item [OF w0 c1] world_free_buf(1) [OF _ c2] by blast
  have w3: "world ?X F P c3"
  proof (cases "PC_IS_PRE_ALLOC (wi_type wi2)")
    case True
    then obtain d e where "tt_lock c2 = Some d" "release_wi r d = Some e" "tt_unlock e = Some c3"
      using c3 by (auto simp: Option.bind_eq_Some_conv)
    then show ?thesis
      using w2 wkeepsD [OF wk_fields(1)] world_release wkeepsD [OF wk_fields(2)] by blast
  next
    case False
    then show ?thesis using c3 world_release [OF w2] by simp
  qed
  then obtain t3 where t3: "tran c3 = Some t3" by (rule worldE)
  have "mset (all_wis (t3\<lparr>should_retry := None\<rparr>)) + mset (held_wis (tr_uv_tcp.more (t3\<lparr>should_retry := None\<rparr>))) + mset [] =
      mset (all_wis t3) + mset (waiting_wis (tr_uv_tcp.more t3)) + mset []" by simp
  with world_shift [of waiting_wis "sound True False" G "[]" F t3 P c3 "t3\<lparr>should_retry := None\<rparr>" "sound False False" held_wis "[]"] w3 t3 c'
  show ?thesis by (simp add: with_tt_def)
qed

lemma wk_check_retry [wk]: "wkeeps (held_wis, sound False False, G) (check_retry U E)"
proof
  fix F P c c'
  assume w: "world (held_wis, sound False False, G) F P c" and run: "check_retry U E c = Some c'"
  obtain tt where tt: "tran c = Some tt" using w by (rule worldE)
  show "world (held_wis, sound False False, G) F P c'"
    using run w tt expire_retry_world [OF w tt]
    by (cases "should_retry tt") (auto simp: check_retry_def Option.bind_eq_Some_conv split: if_splits)
qed

lemma wk_tls_timeout: "wkeeps (held_wis, sound False False, G) (tls__write_timeout_check_cb U E)"
  unfolding tls__write_timeout_check_cb_def [abs_def] by (intro wk wk_check_timeout)

section \<open>Every event of the loop\<close>

lemma wk_tls_dispatch: "wkeeps (held_wis, sound False False, pkg_parser_ok) (tls_dispatch L U E ev)"
proof -
  let ?X = "(held_wis, sound False False, pkg_parser_ok)"
  have "tls_timer_cb L U E t = (if t = check_timeout then tls__write_timeout_check_cb U E else timer_cb U (tls_hooks L U E) E t)" for t
    by (cases t) simp_all
  then have timer: "wkeeps ?X (tls_timer_cb L U E t)" for t
    using wk_timer_cb [OF tls_hooks_ok] wk_tls_timeout by simp
  have "tls_async_cb L U E a = (if a = write_async then tls__write_to_bio L U E
      else if a = cleanup_async then tls__cleanup_async_cb L U E else async_cb U (tls_hooks L U E) E a)" for a
    by (cases a) (simp_all add: tls__write_async_cb_def)
  moreover have "wkeeps ?X (async_cb U (tls_hooks L U E) E a)" if "a \<noteq> write_async" for a
    by (rule wk_async_cb [OF tls_hooks_ok]) (use that in simp)
  ultimately have "wkeeps ?X (tls_async_cb L U E a)" for a
    using wk_tls_cleanup wk_write_to_bio by simp
  with timer show ?thesis
    by (cases ev) (auto simp: wk_tls_conn_done wk_tls_write_done wk_tls_read tls_dispatch.simps [abs_def]
        intro!: wk_bind wk_signal_off)
qed

lemma wk_tls_loop_step: "wkeeps (held_wis, sound False False, pkg_parser_ok) (tls_loop_step L U e)"
  using wk_tls_dispatch [of L "fst e" "snd e"] unfolding tls_loop_step_def by (cases e) (simp, intro wk)

end

section \<open>Sessions\<close>

text \<open>Users and the entry points do not see which of the two transports they use.\<close>

lemma tls_rel_world:
  assumes "client_rel account_core account_rel U"
  shows "client_rel_world account_core account_rel U (tls_ops L E es U)"
  using tcp_rel_world [OF assms, of E "[]"]
  by (simp add: client_rel_world_def client_rel_world_axioms_def tls_ops_def tcp_ops_def)

lemma tls_world:
  assumes "client_user U"
  shows "client_world U (tls_ops L E es U)"
  using tcp_world [OF assms, of E "[]"]
  by (simp add: client_world_def client_world_axioms_def tls_ops_def tcp_ops_def)

lemma tls_script_user: "tcp_user (script_user (tls_ops L E es) S n)"
proof -
  have "client_rel account_core account_rel (script_user (tls_ops L E es) S n)"
    by (rule script_user_rel [OF account_core.client_core_axioms tls_rel_world])
  moreover have "client_user (script_user (tls_ops L E es) S n)"
    by (rule script_user_ok [OF tls_world])
  ultimately show ?thesis by (simp add: tcp_user_def)
qed

interpretation scripted_tls: tls_callbacks "script_user (tls_ops L E es) S n" for L E es S n
  by unfold_locales (rule tls_script_user)

interpretation scripted_tls_reader: tcp_reader "script_user (tls_ops L E es) S n" held_wis "sound False False"
    "tls_hooks L (script_user (tls_ops L E es) S n) E'" E' F P
  for L E es S n E' F P
  by (rule scripted_tls.tls_reader)

inductive tls_reachable :: "'s ssl_lib \<Rightarrow> ('x, 's) ssl_ctx_lib \<Rightarrow> 's tls_user \<Rightarrow> 's tls_client \<Rightarrow> bool" for L C U where
  initialised: "magic_num c0 \<noteq> pc__init_magic_num \<Longrightarrow>
    pc_client_init (\<lambda>_. Some (tls_plugin_impl L C pl U E)) ex cfg c0 = Some (PC_RC_OK, c) \<Longrightarrow> tls_reachable L C U c"
| called: "tls_reachable L C U c \<Longrightarrow> do_call U (tls_ops L E es U) a c = Some c' \<Longrightarrow> tls_reachable L C U c'"
| ran: "tls_reachable L C U c \<Longrightarrow> tls_loop_step L U e c = Some c' \<Longrightarrow> tls_reachable L C U c'"

end
