(* ===== verification/TlsProps.thy ===== *)
theory TlsProps
  imports TlsInv
begin

text \<open>
  The properties of the TLS transport (\<open>src/tr/uv/tr_uv_tls_i.c\<close>, \<open>tr_uv_tls_aux.c\<close>) over any
  OpenSSL.
\<close>

section \<open>Reachable states\<close>

lemma tls_init_world:
  assumes "magic_num c0 \<noteq> pc__init_magic_num"
    and run: "pc_client_init (\<lambda>_. Some (tls_plugin_impl L C pl U E)) ex cfg c0 = Some (PC_RC_OK, c)"
  shows "world (held_wis, sound False False, pkg_parser_ok) [] {#} c"
proof -
  let ?t0 = "tr_uv_tcp.extend zero_tt (tr_uv_tls.fields None False None None []) :: 'a tr_uv_tls"
  let ?c0 = "c0\<lparr>config := (case cfg of None \<Rightarrow> pc__default_config | Some k \<Rightarrow> k), tran := Some ?t0\<rparr>"
  obtain c2 where c2: "tr_uv_tls_init L C pl U E ?c0 = Some (PC_RC_OK, c2)" and c: "c = init_fields ex c2"
    using assms by (auto simp: pc_client_init_def tls_plugin_impl_def tr_uv_tls_create_def Let_def Option.bind_eq_Some_conv
        split: if_splits)
  obtain c1 s where c1: "tr_uv_tcp_init E ?c0 = Some (PC_RC_OK, c1)"
    and set: "with_tt (\<lambda>tt. tt\<lparr>tls := s, is_handshake_completed := False, retry_wb := None, should_retry := None,
                                when_tcp_is_writing_queue := []\<rparr>) c1 = Some c2"
    using c2 by (auto simp: tr_uv_tls_init_def Option.bind_eq_Some_conv split: if_splits option.splits)
  have "tran ?c0 = Some ?t0" "pkg_parser ?t0 = zeroed_parser"
    by (simp_all add: zero_tt_def tr_uv_tcp.extend_def tr_uv_tls.fields_def)
  from tcp_init_tt [OF c1 this] obtain tt where tt: "tran c1 = Some tt" "wi_queues tt = (\<lambda>_. [])"
    "pre_wis tt = new_pool TR_UV_PRE_ALLOC_WI_SLOT_COUNT idle_wi" "vers_ok tt" "pkg_parser_ok (pkg_parser tt)" by blast
  let ?tt = "tt\<lparr>tls := s, is_handshake_completed := False, retry_wb := None, should_retry := None, when_tcp_is_writing_queue := []\<rparr>"
  have "tran c2 = Some ?tt" using set tt(1) by (auto simp: with_tt_def)
  then show ?thesis
    by (rule fresh_world [OF c]) (use tt in simp_all)
qed

lemma tls_call_world:
  assumes user: "tcp_user U" and w: "world X F P c" and run: "do_call U (tls_ops L E es U) a c = Some c'"
  shows "world X F P c'"
proof -
  have rel: "client_rel account_core account_rel U" and cu: "client_user U"
    using user by (simp_all add: tcp_user_def)
  have "client_inv {} {} {} c'"
    using w run keepsD [OF client_world.keeps_do_call [OF tls_world [OF cu]]] by (auto elim: worldE)
  from related_world(1) [OF w relatedD [OF client_rel_world.rel_do_call [OF tls_rel_world [OF rel]] run] this]
  show ?thesis .
qed

lemma tls_reachable_world:
  assumes user: "tcp_user U" and "tls_reachable L C U c"
  shows "world (held_wis, sound False False, pkg_parser_ok) [] {#} c"
  using assms(2)
proof induction
  case (initialised c0 pl E ex cfg c)
  then show ?case by (rule tls_init_world)
next
  case (called c E es a c')
  from tls_call_world [OF user called(3,2)] show ?case .
next
  case (ran c e c')
  have "tls_callbacks U" by (intro tls_callbacks.intro tcp_callbacks.intro user)
  from wkeepsD [OF tls_callbacks.wk_tls_loop_step [OF this] ran(3,2)] show ?case .
qed

section \<open>An OpenSSL and a session\<close>

text \<open>
  An OpenSSL that never gets through its handshake: the state is the content of the output BIO.
\<close>

definition stuck_ssl :: "bytes ssl_lib" where
  "stuck_ssl = \<lparr>SSL_set_verify = (\<lambda>_ s. s), SSL_set_connect_state = (\<lambda>s. s), SSL_write = (\<lambda>_ s. (- 1, s)),
     SSL_read = (\<lambda>_ s. (- 1, [], s)), SSL_get_error = (\<lambda>_ _. SSL_ERROR_WANT_READ), SSL_shutdown = (\<lambda>s. s), SSL_clear = (\<lambda>s. s),
     BIO_write_in = (\<lambda>_ s. s), BIO_out = (\<lambda>s. s), BIO_reset_in = (\<lambda>s. (1, s)), BIO_reset_out = (\<lambda>s. (1, []))\<rparr>"

definition example_ctx :: "(unit, bytes) ssl_ctx_lib" where
  "example_ctx = \<lparr>SSL_CTX_new = Some (), SSL_CTX_load_verify_locations = (\<lambda>_ _ x. (1, x)), SSL_new = (\<lambda>_. Some [])\<rparr>"

definition example_plugin :: "unit tr_uv_tls_plugin" where
  "example_plugin = tr_uv_tls_plugin_on_register example_ctx 41 tls_instance"

definition tls_example_user :: "bytes tls_user" where
  "tls_example_user = script_user (tls_ops stuck_ssl example_env []) (\<lambda>_. []) 1"

lemma tls_example_user_ok: "tcp_user tls_example_user" "returning tls_example_user"
  unfolding tls_example_user_def by (rule tls_script_user) (simp add: returning_def Let_def)

definition tls_session :: "bytes tls_client option" where
  "tls_session =
     do { (rc, c0) \<leftarrow> pc_client_init (\<lambda>_. Some (tls_plugin_impl stuck_ssl example_ctx example_plugin tls_example_user example_env)) 0 None zeroed_client;
          assert_c (rc = PC_RC_OK);
          c1 \<leftarrow> do_call tls_example_user (tls_ops stuck_ssl example_env [] tls_example_user) (A_connect (Some ''h'') 80 None) c0;
          c2 \<leftarrow> tls_loop_step stuck_ssl tls_example_user (example_env, L_async conn_async) c1;
          do_call tls_example_user (tls_ops stuck_ssl example_env [] tls_example_user) (A_request (Some ''a'') (Some ''{}'') 0 10 (Some 1)) c2 }"

lemma tls_session_reachable: "tls_session = Some c \<Longrightarrow> tls_reachable stuck_ssl example_ctx tls_example_user c"
proof -
  assume "tls_session = Some c"
  then obtain c0 c1 c2 where
    run: "pc_client_init (\<lambda>_. Some (tls_plugin_impl stuck_ssl example_ctx example_plugin tls_example_user example_env)) 0 None zeroed_client = Some (PC_RC_OK, c0)"
      "do_call tls_example_user (tls_ops stuck_ssl example_env [] tls_example_user) (A_connect (Some ''h'') 80 None) c0 = Some c1"
      "tls_loop_step stuck_ssl tls_example_user (example_env, L_async conn_async) c1 = Some c2"
      "do_call tls_example_user (tls_ops stuck_ssl example_env [] tls_example_user) (A_request (Some ''a'') (Some ''{}'') 0 10 (Some 1)) c2 = Some c"
    by (auto simp: tls_session_def Option.bind_eq_Some_conv simp del: do_call.simps split: if_splits)
  have "magic_num (zeroed_client :: bytes tls_client) \<noteq> pc__init_magic_num"
    by (simp add: zeroed_client_def pc__init_magic_num_def)
  from tls_reachable.initialised [OF this run(1)] have "tls_reachable stuck_ssl example_ctx tls_example_user c0" .
  from tls_reachable.called [OF tls_reachable.ran [OF tls_reachable.called [OF this run(2)] run(3)] run(4)] show ?thesis .
qed

lemma tls_waiting:
  obtains c tt where "tls_reachable stuck_ssl example_ctx tls_example_user c" "\<not> enable_polling (config c)"
    "req_queue c = [Pre 0]" "tran c = Some tt" "tls tt = Some []" "wi_queues tt conn_pending_queue = [Pre 0]"
    "when_tcp_is_writing_queue tt = []" "should_retry tt = None" "\<not> is_writing tt" "tt_state tt = TR_UV_TCP_CONNECTING"
proof -
  have ev: "map_option (\<lambda>c. (enable_polling (config c), req_queue c, tran c \<noteq> None, tls (the (tran c)),
      wi_queues (the (tran c)) conn_pending_queue, when_tcp_is_writing_queue (the (tran c)), should_retry (the (tran c)),
      is_writing (the (tran c)), tt_state (the (tran c)))) tls_session =
    Some (False, [Pre 0], True, Some [], [Pre 0], [], None, False, TR_UV_TCP_CONNECTING)"
    by code_simp
  then obtain c where c: "tls_session = Some c" by blast
  then have "tran c \<noteq> None" using ev unfolding c by auto
  then obtain tt where "tran c = Some tt" by blast
  with ev show thesis
    unfolding c option.map by (intro that [OF tls_session_reachable [OF c]]) auto
qed

section \<open>Items\<close>

definition tls_wis :: "'s tr_uv_tls \<Rightarrow> ref list" where
  "tls_wis tt = all_wis tt @ when_tcp_is_writing_queue tt @ (case should_retry tt of None \<Rightarrow> [] | Some r \<Rightarrow> [r])"

lemma tls_items:
  assumes "world (held_wis, sound False False, pkg_parser_ok) [] {#} c" and "tran c = Some tt"
  shows "distinct (tls_wis tt)" and "in_use wi_type (pre_wis tt) r \<longleftrightarrow> r \<in> set (tls_wis tt)"
    and "\<not> enable_polling (config c) \<Longrightarrow> open_keys c \<subseteq># wi_keys (pre_wis tt) (tls_wis tt)"
proof -
  have inv: "pool_inv wi_type (pre_wis tt) (tls_wis tt) {}" and acc: "account c (wi_keys (pre_wis tt) (tls_wis tt))"
    using assms by (auto simp: world_def tinv_def tt_inv_def tls_wis_def items_def)
  then show "distinct (tls_wis tt)" and "in_use wi_type (pre_wis tt) r \<longleftrightarrow> r \<in> set (tls_wis tt)"
    by (auto simp: pool_inv_def)
  show "\<not> enable_polling (config c) \<Longrightarrow> open_keys c \<subseteq># wi_keys (pre_wis tt) (tls_wis tt)"
    using open_account [OF _ acc] assms by (auto simp: world_def)
qed

text \<open>
  C3. Over TLS as well no request and no notify is forgotten, whatever OpenSSL answers: in every
  state that calls of the program, events of the loop and callbacks of the user can reach, the
  write items in use are exactly those in the four queues of the TCP transport, in the queue of
  what OpenSSL took while the socket was writing, or kept to be offered to OpenSSL again, none of
  them twice; an item is kept only together with the copy of its buffer, and items wait for the
  socket only while it is writing, as the assert of \<open>tls__write_to_tcp\<close> expects; what waits for a response
  is a request, and the package parser is in order; without polling every request and notify that is
  not settled has an item of its own.
\<close>

theorem tls_items_in_order:
  assumes "tcp_user U" and "tls_reachable L C U c"
  shows "\<exists>tt. tran c = Some tt \<and> distinct (tls_wis tt) \<and> pkg_parser_ok (pkg_parser tt) \<and>
    (\<forall>r. in_use wi_type (pre_wis tt) r \<longleftrightarrow> r \<in> set (tls_wis tt)) \<and>
    (should_retry tt \<noteq> None \<longrightarrow> retry_wb tt \<noteq> None) \<and> (when_tcp_is_writing_queue tt \<noteq> [] \<longrightarrow> is_writing tt) \<and>
    (\<forall>r \<in> set (wi_queues tt resp_pending_queue). \<exists>w. pool_get (pre_wis tt) r = Some w \<and> TR_UV_WI_IS_RESP (wi_type w)) \<and>
    (\<not> enable_polling (config c) \<longrightarrow> open_keys c \<subseteq># wi_keys (pre_wis tt) (tls_wis tt))"
proof -
  have w: "world (held_wis, sound False False, pkg_parser_ok) [] {#} c" by (rule tls_reachable_world [OF assms])
  obtain tt where tt: "tran c = Some tt" "tinv (held_wis, sound False False, pkg_parser_ok) [] tt" by (rule worldE [OF w])
  have "pkg_parser_ok (pkg_parser tt)" "should_retry tt \<noteq> None \<longrightarrow> retry_wb tt \<noteq> None"
    "when_tcp_is_writing_queue tt \<noteq> [] \<longrightarrow> is_writing tt"
    "\<forall>r \<in> set (wi_queues tt resp_pending_queue). \<exists>w. pool_get (pre_wis tt) r = Some w \<and> TR_UV_WI_IS_RESP (wi_type w)"
    using tt(2) unfolding tinv_def tt_inv_def by simp_all
  with tt(1) tls_items [OF w tt(1)] show ?thesis by blast
qed

theorem tls_items_in_order_witness:
  "\<exists>c. tls_reachable stuck_ssl example_ctx tls_example_user c \<and> req_queue c = [Pre 0] \<and>
    open_keys c \<subseteq># wi_keys (pre_wis (the (tran c))) (tls_wis (the (tran c))) \<and> in_use wi_type (pre_wis (the (tran c))) (Pre 0)"
proof -
  obtain c tt where c: "tls_reachable stuck_ssl example_ctx tls_example_user c" "\<not> enable_polling (config c)"
    "req_queue c = [Pre 0]" "tran c = Some tt" "wi_queues tt conn_pending_queue = [Pre 0]"
    by (rule tls_waiting)
  from tls_items_in_order [OF tls_example_user_ok(1) c(1)] c show ?thesis by (auto simp: tls_wis_def all_wis_def)
qed

section \<open>Resetting\<close>

lemma write_to_tcp_returns:
  assumes "tran c = Some tt" and "tls tt = Some s" and "when_tcp_is_writing_queue tt \<noteq> [] \<longrightarrow> is_writing tt"
  obtains tt' s' where "tls__write_to_tcp L E c = Some (c\<lparr>tran := Some tt'\<rparr>)" "tls tt' = Some s'"
proof -
  have "c\<lparr>tran := Some tt\<rparr> = c" using assms by simp
  then have "\<exists>tt' s'. tls__write_to_tcp L E c = Some (c\<lparr>tran := Some tt'\<rparr>) \<and> tls tt' = Some s'"
  proof (cases "is_writing tt")
    case True
    then show ?thesis
      using assms \<open>c\<lparr>tran := Some tt\<rparr> = c\<close> by (intro exI [of _ tt]) (simp add: tls__write_to_tcp_def)
  next
    case False
    have it: "\<exists>tt'. c\<lparr>tran := Some t\<rparr> = c\<lparr>tran := Some tt'\<rparr> \<and> (\<exists>s'. tls tt' = Some s')" if "tls t = Some s0" for t s0
      using that by blast
    show ?thesis
      using assms False by (simp add: tls__write_to_tcp_def with_tt_def with_ssl_def set_queue_def uv_async_send_def Let_def)
        (intro conjI impI it; simp)
  qed
  with that show thesis by blast
qed

lemma reset_ssl_returns:
  assumes tt: "tran c = Some tt" "tls tt = Some s" "when_tcp_is_writing_queue tt \<noteq> [] \<longrightarrow> is_writing tt"
    and bio: "\<forall>s. fst (BIO_reset_in L s) = 1 \<and> fst (BIO_reset_out L s) = 1"
  obtains tt' where "reset_ssl L E c = Some (c\<lparr>tran := Some tt'\<rparr>)" "should_retry tt' = None" "retry_wb tt' = None"
    "when_tcp_is_writing_queue tt' = []" "\<not> is_handshake_completed tt'"
proof -
  have c1: "with_ssl (SSL_shutdown L) c = Some (c\<lparr>tran := Some (tt\<lparr>tls := Some (SSL_shutdown L s)\<rparr>)\<rparr>)"
    using tt by (simp add: with_ssl_def with_tt_def)
  let ?t1 = "tt\<lparr>tls := Some (SSL_shutdown L s)\<rparr>"
  have t1: "tran (c\<lparr>tran := Some ?t1\<rparr>) = Some ?t1" "tls ?t1 = Some (SSL_shutdown L s)"
    "when_tcp_is_writing_queue ?t1 \<noteq> [] \<longrightarrow> is_writing ?t1" using tt(3) by simp_all
  obtain t2 s2 where "tls__write_to_tcp L E (c\<lparr>tran := Some ?t1\<rparr>) = Some (c\<lparr>tran := Some ?t1\<rparr>\<lparr>tran := Some t2\<rparr>)"
    and s2: "tls t2 = Some s2"
    by (rule write_to_tcp_returns [OF t1])
  then have c2: "tls__write_to_tcp L E (c\<lparr>tran := Some ?t1\<rparr>) = Some (c\<lparr>tran := Some t2\<rparr>)" by simp
  obtain s5 s6 where bios: "BIO_reset_in L (SSL_clear L s2) = (1, s5)" "BIO_reset_out L s5 = (1, s6)"
    using bio by (metis prod.collapse)
  let ?tt = "flush_when ((settle_retry (push_head False) (t2\<lparr>is_handshake_completed := False, tls := Some s6\<rparr>))\<lparr>retry_wb := None\<rparr>)"
  have "reset_ssl L E c = Some (c\<lparr>tran := Some ?tt\<rparr>)"
    using c1 c2 s2 bios by (simp add: reset_ssl_def with_ssl_def call_ssl_def with_tt_def)
  then show thesis
    by (rule that) (simp_all add: flush_when_def settle_retry_def push_head_def push_wi_def set_queue_def split: option.split)
qed

lemma tls_of_handshake [simp]: "is_handshake_completed (tls_of (tr_uv_tcp.more tt)) = is_handshake_completed tt"
  by (cases tt) (simp add: tls_of_def tr_uv_tcp.extend_def)

lemma world_J: "world (H, J, G) F P c \<Longrightarrow> tran c = Some tt \<Longrightarrow> J' (is_writing tt) (tr_uv_tcp.more tt) \<Longrightarrow> world (H, J', G) F P c"
  by (auto simp: world_def tinv_def items_def)

text \<open>
  C9. Resetting the TLS transport settles everything, too, unless it has been cleaned up: whatever
  OpenSSL does with the connection, if its BIOs can be reset, as the asserts expect, and the
  callbacks of requests and notifies return, the reset returns; no write item is left in use, in a
  queue or to be offered to OpenSSL again, the copied buffer is freed, the next connection starts with
  a new TLS handshake, and without polling no request and no notify is left open.
\<close>

theorem tls_reset_settles_everything:
  assumes "tcp_user U" and "returning U" and "tls_reachable L C U c" and "tran c = Some tt" and "tls tt \<noteq> None"
    and "\<forall>s. fst (BIO_reset_in L s) = 1 \<and> fst (BIO_reset_out L s) = 1"
  shows "\<exists>c' tt'. tls__reset L U E c = Some c' \<and> tran c' = Some tt' \<and> tt_state tt' = TR_UV_TCP_NOT_CONN \<and>
    tls_wis tt' = [] \<and> (\<forall>r. \<not> in_use wi_type (pre_wis tt') r) \<and> retry_wb tt' = None \<and> \<not> is_handshake_completed tt' \<and>
    (\<not> enable_polling (config c) \<longrightarrow> req_queue c' = [] \<and> notify_queue c' = [])"
proof -
  have U: "tls_callbacks U" by (intro tls_callbacks.intro tcp_callbacks.intro assms(1))
  have w: "world (held_wis, sound False False, pkg_parser_ok) [] {#} c" by (rule tls_reachable_world [OF assms(1,3)])
  then have "tinv (held_wis, sound False False, pkg_parser_ok) [] tt" using assms(4) by (auto simp: world_def)
  then have idle: "when_tcp_is_writing_queue tt \<noteq> [] \<longrightarrow> is_writing tt" by (simp add: tinv_def)
  obtain s where s: "tls tt = Some s" using assms(5) by blast
  obtain t1 where c1: "reset_ssl L E c = Some (c\<lparr>tran := Some t1\<rparr>)" and t1: "should_retry t1 = None" "retry_wb t1 = None"
    "when_tcp_is_writing_queue t1 = []" "\<not> is_handshake_completed t1"
    by (rule reset_ssl_returns [OF assms(4) s idle assms(6)])
  let ?c1 = "c\<lparr>tran := Some t1\<rparr>" and ?J = "\<lambda>w m. m = tr_uv_tcp.more t1"
  have "world (held_wis, sound False False, pkg_parser_ok) [] {#} ?c1" by (rule reset_ssl_world [OF w c1])
  then have w1: "world (held_wis, ?J, pkg_parser_ok) [] {#} ?c1" by (rule world_J [where tt = t1]) simp_all
  obtain c' tt' where c': "tcp__reset U ?c1 = Some c'" and tt': "tran c' = Some tt'" "wi_queues tt' = (\<lambda>_. [])"
    "tt_state tt' = TR_UV_TCP_NOT_CONN" and conf: "config c' = config ?c1" and w': "world (held_wis, ?J, pkg_parser_ok) [] {#} c'"
    by (rule tcp_callbacks.reset_returns [OF tcp_callbacks.intro [OF assms(1)] assms(2) w1]) auto
  have more: "tr_uv_tcp.more tt' = tr_uv_tcp.more t1" using w' tt'(1) by (auto simp: world_def tinv_def)
  from arg_cong [OF more, of "\<lambda>m. (should_retry (tls_of m), retry_wb (tls_of m), when_tcp_is_writing_queue (tls_of m))"]
  have fields: "should_retry tt' = None" "retry_wb tt' = None" "when_tcp_is_writing_queue tt' = []"
    using t1 by simp_all
  have fresh: "\<not> is_handshake_completed tt'"
    using arg_cong [OF more, of "\<lambda>m. is_handshake_completed (tls_of m)"] t1 by simp
  have none: "tls_wis tt' = []" using fields tt'(2) by (simp add: tls_wis_def all_wis_def)
  have w2: "world (held_wis, sound False False, pkg_parser_ok) [] {#} c'"
    by (rule world_J [OF w' tt'(1)]) (use fields in simp)
  note items = tls_items [OF w2 tt'(1), unfolded none]
  show ?thesis
    using c1 c' tt' none fields fresh items conf open_keys_empty [of c'] by (auto simp: tls_reset_code)
qed

theorem tls_reset_settles_everything_witness:
  "\<exists>c c'. tls_reachable stuck_ssl example_ctx tls_example_user c \<and> req_queue c = [Pre 0] \<and>
    tls__reset stuck_ssl tls_example_user example_env c = Some c' \<and> req_queue c' = [] \<and> tls_wis (the (tran c')) = []"
proof -
  obtain c tt where c: "tls_reachable stuck_ssl example_ctx tls_example_user c" "\<not> enable_polling (config c)"
    "req_queue c = [Pre 0]" "tran c = Some tt" "tls tt = Some []"
    by (rule tls_waiting)
  from tls_reset_settles_everything [OF tls_example_user_ok c(1,4), of example_env] c show ?thesis
    by (auto simp: stuck_ssl_def)
qed

section \<open>Initialisation\<close>

text \<open>
  C38. The initialisation of the TLS transport sets it up for a client connection or fails with a
  code when that of the TCP transport does; but when there is no context, or OpenSSL cannot create a
  connection, the way out resets the transport, and so passes the null connection to
  \<open>SSL_shutdown\<close>: the program crashes where it is to return \<open>PC_RC_ERROR\<close>.
\<close>

theorem tls_init_outcome:
  assumes "tran c = Some (tr_uv_tcp.extend zero_tt (tr_uv_tls.fields None False None None []))"
  shows "tr_uv_tls_init L C pl U E c =
    do { (ret, c1) \<leftarrow> tr_uv_tcp_init E c;
         if ret \<noteq> PC_RC_OK then Some (ret, c1)
         else do { x \<leftarrow> tls_ctx pl; s \<leftarrow> SSL_new C x;
           c2 \<leftarrow> with_tt (\<lambda>tt. tt\<lparr>tls := Some (SSL_set_connect_state L (SSL_set_verify L (enable_verify pl) s))\<rparr>) c1;
           Some (PC_RC_OK, c2) } }"
proof (cases "tr_uv_tcp_init E c")
  case None
  then show ?thesis by (simp add: tr_uv_tls_init_def)
next
  case (Some y)
  obtain ret c1 where y: "y = (ret, c1)" by (cases y)
  show ?thesis
  proof (cases "ret = PC_RC_OK")
    case False
    then show ?thesis using Some y by (simp add: tr_uv_tls_init_def)
  next
    case True
    let ?t0 = "tr_uv_tcp.extend zero_tt (tr_uv_tls.fields None False None None [])"
    have "tr_uv_tcp_init E c = Some (PC_RC_OK, c1)" "pkg_parser ?t0 = zeroed_parser"
      using Some y True by (simp_all add: zero_tt_def tr_uv_tcp.extend_def tr_uv_tls.fields_def)
    from tcp_init_tt [OF this(1) assms this(2)] obtain tt where tt: "tran c1 = Some tt"
      and more: "tr_uv_tcp.more tt = tr_uv_tls.fields None False None None []"
      by (auto simp: tr_uv_tcp.extend_def)
    have fields: "tls tt = None" "tt\<lparr>tls := x, is_handshake_completed := False, retry_wb := None, should_retry := None, when_tcp_is_writing_queue := []\<rparr>
        = tt\<lparr>tls := x\<rparr>" for x
      using more by (cases tt; simp add: tr_uv_tls.fields_def)+
    have crash: "tls__reset L U E c2 = None" if "tran c2 = Some t2" "tls t2 = None" for c2 t2
      using that by (simp add: tls__reset_def with_ssl_def)
    have "tls__reset L U E c1 = None" by (rule crash [OF tt fields(1)])
    moreover have "tls__reset L U E (c1\<lparr>tran := Some (tt\<lparr>tls := None\<rparr>)\<rparr>) = None" by (rule crash [of _ "tt\<lparr>tls := None\<rparr>"]) simp_all
    ultimately show ?thesis
      using Some y True tt by (simp add: tr_uv_tls_init_def with_tt_def fields(2) split: option.split)
  qed
qed

theorem tls_init_outcome_witness:
  "\<exists>c. map_option fst (tr_uv_tcp_init example_env c) = Some PC_RC_OK \<and>
    tr_uv_tls_init stuck_ssl example_ctx tls_instance tls_example_user example_env c = None"
proof -
  let ?c = "zeroed_client\<lparr>config := pc__default_config, tran := Some (tr_uv_tcp.extend zero_tt (tr_uv_tls.fields None False None None []))\<rparr> :: bytes tls_client"
  have "tran ?c = Some (tr_uv_tcp.extend zero_tt (tr_uv_tls.fields None False None None []))" by simp
  note init = tls_init_outcome [OF this, of stuck_ssl example_ctx tls_instance tls_example_user example_env]
  have ok: "map_option fst (tr_uv_tcp_init example_env ?c) = Some PC_RC_OK" by code_simp
  then obtain c1 where "tr_uv_tcp_init example_env ?c = Some (PC_RC_OK, c1)" by auto
  then have "tr_uv_tls_init stuck_ssl example_ctx tls_instance tls_example_user example_env ?c = None"
    using init by (simp add: tls_instance_def)
  with ok show ?thesis by blast
qed

end
