(* ===== verification/TlsWrites.thy ===== *)
theory TlsWrites
  imports TlsProps TcpQueues
begin

text \<open>
  What the TLS transport gives to OpenSSL: a line of buffers, the one that was refused first, then
  the write queue. Abstractly, buffers are offered from its head until one is not taken; what OpenSSL
  answers is not restricted.
\<close>

section \<open>The line of buffers\<close>

type_synonym offered = "ref option \<times> bytes"

definition ssl_buf :: "bytes \<Rightarrow> uv_buf" where
  "ssl_buf bs = \<lparr>buf_base = Some bs, buf_len = of_nat (length bs)\<rparr>"

text \<open>
  \<open>SSL_write\<close> takes a buffer whole, or returns \<open>-1\<close> and says why: it wants to be called again with the
  same buffer, or the connection has failed. Any other result, and any other reason, aborts.
\<close>

datatype outcome = All_taken | Refused | Failed

definition refusal :: "'s ssl_lib \<Rightarrow> 's \<Rightarrow> outcome option" where
  "refusal L s = (let why = SSL_get_error L (- 1) s in
     if why \<in> {SSL_ERROR_NONE, SSL_ERROR_WANT_READ, SSL_ERROR_WANT_WRITE} then Some Refused
     else if why \<in> {SSL_ERROR_ZERO_RETURN, SSL_ERROR_SSL, SSL_ERROR_SYSCALL} then Some Failed else None)"

fun offer :: "'s ssl_lib \<Rightarrow> offered list \<Rightarrow> 's \<Rightarrow> (offered list \<times> offered list \<times> outcome \<times> 's) option" where
  "offer L [] s = Some ([], [], All_taken, s)"
| "offer L ((r, bs) # xs) s =
     (let (ret, s1) = SSL_write L (ssl_buf bs) s in
      if ret = - 1 then map_option (\<lambda>oc. ([], (r, bs) # xs, oc, s1)) (refusal L s1)
      else if ret = to_int (of_nat (length bs)) then
        map_option (\<lambda>(taken, rest, oc, s2). ((r, bs) # taken, rest, oc, s2)) (offer L xs s1)
      else None)"

definition wi_line :: "tr_uv_wi pool \<Rightarrow> ref list \<Rightarrow> offered list" where
  "wi_line p rs = map (\<lambda>r. (Some r, the (buf_base (wi_buf (the (pool_get p r)))))) rs"

definition ssl_line :: "'s tr_uv_tls \<Rightarrow> offered list" where
  "ssl_line tt = (case retry_wb tt of None \<Rightarrow> [] | Some wb \<Rightarrow> [(should_retry tt, wb)]) @
     wi_line (pre_wis tt) (wi_queues tt write_wait_queue)"

text \<open>The items of what was taken; a buffer whose item has expired has none.\<close>

definition taken_wis :: "offered list \<Rightarrow> ref list" where
  "taken_wis xs = concat (map (\<lambda>(r, bs). case r of None \<Rightarrow> [] | Some r \<Rightarrow> [r]) xs)"

definition gave :: "'s tr_uv_tls \<Rightarrow> offered list \<Rightarrow> 's tr_uv_tls \<Rightarrow> bool" where
  "gave tt taken tt' \<longleftrightarrow> pre_wis tt' = pre_wis tt \<and> is_writing tt' = is_writing tt \<and> timer_active tt' = timer_active tt \<and>
     wi_queues tt' conn_pending_queue = wi_queues tt conn_pending_queue \<and>
     wi_queues tt' resp_pending_queue = wi_queues tt resp_pending_queue \<and>
     wi_queues tt' writing_queue = wi_queues tt writing_queue @ (if is_writing tt then [] else taken_wis taken) \<and>
     when_tcp_is_writing_queue tt' = when_tcp_is_writing_queue tt @ (if is_writing tt then taken_wis taken else []) \<and>
     (is_handshake_completed tt' \<longleftrightarrow> is_handshake_completed tt \<or> taken \<noteq> [])"

text \<open>
  The state represents the rest of the line. After a failure its first buffer is gone, but not the
  item, which the reset of the transport will find.
\<close>

definition after_offer :: "outcome \<Rightarrow> offered list \<Rightarrow> 's tr_uv_tls \<Rightarrow> bool" where
  "after_offer oc rest tt \<longleftrightarrow>
     (if oc = Failed then retry_wb tt = None \<and>
        (\<exists>wb. rest = (should_retry tt, wb) # wi_line (pre_wis tt) (wi_queues tt write_wait_queue))
      else ssl_line tt = rest \<and> (should_retry tt \<noteq> None \<longrightarrow> retry_wb tt \<noteq> None))"

lemma taken_wis_simps [simp]: "taken_wis [] = []" "taken_wis ((r, bs) # xs) = (case r of None \<Rightarrow> [] | Some r \<Rightarrow> [r]) @ taken_wis xs"
  "taken_wis (xs @ ys) = taken_wis xs @ taken_wis ys"
  by (simp_all add: taken_wis_def)

lemma wi_line_simps [simp]: "wi_line p [] = []"
  "wi_line p (r # rs) = (Some r, the (buf_base (wi_buf (the (pool_get p r))))) # wi_line p rs" "wi_line p (rs @ rs') = wi_line p rs @ wi_line p rs'"
  by (simp_all add: wi_line_def)

lemma gave_trans: "gave a xs b \<Longrightarrow> gave b ys d \<Longrightarrow> gave a (xs @ ys) d"
  by (auto simp: gave_def)

definition has_buf :: "tr_uv_wi pool \<Rightarrow> ref \<Rightarrow> bool" where
  "has_buf p r \<longleftrightarrow> (\<exists>wi bs. pool_get p r = Some wi \<and> wi_buf wi = ssl_buf bs)"

lemma get_error_refusal:
  assumes "tran c = Some tt" and "tls tt = Some s"
  shows "tls__get_error L (- 1) c = map_option (\<lambda>oc. oc = Failed) (refusal L s)"
  using assms by (auto simp: tls__get_error_def refusal_def Let_def)

text \<open>The results of the code that offers the line: whether it goes on, whether something was taken, the client.\<close>

definition finish :: "'s ssl_lib \<Rightarrow> 's tls_user \<Rightarrow> uv_env \<Rightarrow> outcome \<Rightarrow> bool \<Rightarrow> 's tls_client \<Rightarrow> (bool \<times> bool \<times> 's tls_client) option" where
  "finish L U E oc flag c =
     (if oc = Failed then do { c' \<leftarrow> tls__emit_error_event L U E c; Some (False, flag, c') } else Some (True, flag, c))"

definition implements :: "'s ssl_lib \<Rightarrow> 's tls_user \<Rightarrow> uv_env \<Rightarrow> offered list \<Rightarrow> 's \<Rightarrow> 's tr_uv_tls \<Rightarrow> 's tls_client \<Rightarrow> bool \<Rightarrow>
    (bool \<times> bool \<times> 's tls_client) option \<Rightarrow> bool" where
  "implements L U E xs s tt c flag run \<longleftrightarrow> (case offer L xs s of None \<Rightarrow> run = None
     | Some (taken, rest, oc, s') \<Rightarrow> \<exists>tt'. run = finish L U E oc (flag \<or> taken \<noteq> []) (c\<lparr>tran := Some tt'\<rparr>) \<and>
         gave tt taken tt' \<and> tls tt' = Some s' \<and> after_offer oc rest tt')"

lemma implementsI:
  assumes "offer L xs s = Some (taken, rest, oc, s')" and "run = finish L U E oc (flag \<or> taken \<noteq> []) (c\<lparr>tran := Some tt'\<rparr>)"
    and "gave tt taken tt'" and "tls tt' = Some s'" and "after_offer oc rest tt'"
  shows "implements L U E xs s tt c flag run"
  using assms by (auto simp: implements_def)

text \<open>A buffer that is taken, and then the rest.\<close>

lemma implements_Cons:
  assumes "SSL_write L (ssl_buf bs) s = (ret, s1)" and "ret \<noteq> - 1" and "ret = to_int (of_nat (length bs))"
    and g: "gave tt [(r, bs)] t1" and rest: "implements L U E xs s1 t1 (c\<lparr>tran := Some t1\<rparr>) True run"
  shows "implements L U E ((r, bs) # xs) s tt c flag run"
proof (cases "offer L xs s1")
  case None
  with assms(1-3) rest show ?thesis by (simp add: implements_def)
next
  case (Some res)
  obtain taken rst oc s' where res: "res = (taken, rst, oc, s')" by (cases res)
  then obtain tt' where "run = finish L U E oc True (c\<lparr>tran := Some tt'\<rparr>)" "gave t1 taken tt'" "tls tt' = Some s'" "after_offer oc rst tt'"
    using rest Some by (auto simp: implements_def)
  with gave_trans [OF g this(2)] Some res assms(1-3) show ?thesis
    by (intro implementsI [where taken = "(r, bs) # taken" and tt' = tt']) auto
qed

section \<open>The loop\<close>

lemma bio_loop_offer:
  "tran c = Some tt \<Longrightarrow> tls tt = Some s \<Longrightarrow> wi_queues tt write_wait_queue = rs \<Longrightarrow> retry_wb tt = None \<Longrightarrow> should_retry tt = None \<Longrightarrow>
    \<forall>r \<in> set rs. has_buf (pre_wis tt) r \<Longrightarrow>
    implements L U E (wi_line (pre_wis tt) rs) s tt c flag (bio_loop L U E (is_writing tt) flag c)"
proof (induction rs arbitrary: c tt s flag)
  case Nil
  have "c\<lparr>tran := Some tt\<rparr> = c" using Nil(1) by simp
  moreover have "bio_loop L U E (is_writing tt) flag c = Some (True, flag, c)"
    using Nil by (subst bio_loop.simps) (simp add: pop_wi_def)
  ultimately show ?case
    using Nil by (intro implementsI [where taken = "[]" and rest = "[]" and oc = All_taken and s' = s and tt' = tt]) (simp_all add: finish_def gave_def after_offer_def ssl_line_def)
next
  case (Cons r rs)
  obtain wi bs where wi: "pool_get (pre_wis tt) r = Some wi" "wi_buf wi = ssl_buf bs"
    using Cons.prems(6) by (auto simp: has_buf_def)
  obtain ret s1 where wr: "SSL_write L (ssl_buf bs) s = (ret, s1)" by (cases "SSL_write L (ssl_buf bs) s")
  let ?t1 = "(set_queue write_wait_queue rs tt)\<lparr>tls := Some s1\<rparr>"
  have pop: "pop_wi write_wait_queue c = Some (Some (r, c\<lparr>tran := Some (set_queue write_wait_queue rs tt)\<rparr>))"
    using Cons.prems by (simp add: pop_wi_def with_tt_def)
  have tls: "tls (set_queue write_wait_queue rs tt) = Some s" using Cons.prems(2) by (simp add: set_queue_def)
  have call: "call_ssl (SSL_write L (wi_buf wi)) (c\<lparr>tran := Some (set_queue write_wait_queue rs tt)\<rparr>) = Some (ret, c\<lparr>tran := Some ?t1\<rparr>)"
    using wi wr tls by (simp add: call_ssl_def with_tt_def)
  have get: "get_wi r (c\<lparr>tran := Some (set_queue write_wait_queue rs tt)\<rparr>) = Some wi" using wi by (simp add: get_wi_def)
  have len: "buf_len (wi_buf wi) = of_nat (length bs)" "copy_buf (wi_buf wi) = Some bs" using wi by (simp_all add: ssl_buf_def copy_buf_def)
  have line: "wi_line (pre_wis tt) (r # rs) = (Some r, bs) # wi_line (pre_wis tt) rs" using wi by (simp add: ssl_buf_def)
  consider "ret = - 1" | "ret \<noteq> - 1" "ret = to_int (of_nat (length bs))" | "ret \<noteq> - 1" "ret \<noteq> to_int (of_nat (length bs))" by blast
  then show ?case
  proof cases
    case 1
    let ?tf = "?t1\<lparr>should_retry := Some r\<rparr>"
    have err: "tls__get_error L (- 1) (c\<lparr>tran := Some ?tf\<rparr>) = map_option (\<lambda>oc. oc = Failed) (refusal L s1)"
      by (rule get_error_refusal [of _ ?tf]) simp_all
    have run: "bio_loop L U E (is_writing tt) flag c =
        Option.bind (refusal L s1) (\<lambda>oc. finish L U E oc flag (c\<lparr>tran := Some (if oc = Failed then ?tf else ?tf\<lparr>retry_wb := Some bs\<rparr>)\<rparr>))"
      using pop call get 1 err len by (subst bio_loop.simps) (cases "refusal L s1"; simp add: with_tt_def finish_def)
    show ?thesis
    proof (cases "refusal L s1")
      case None
      then show ?thesis using run wr 1 line by (simp add: implements_def)
    next
      case (Some oc)
      let ?tt = "if oc = Failed then ?tf else ?tf\<lparr>retry_wb := Some bs\<rparr>"
      have "gave tt [] ?tt" "tls ?tt = Some s1" "after_offer oc ((Some r, bs) # wi_line (pre_wis tt) rs) ?tt"
        using Cons.prems(4) by (simp_all add: gave_def after_offer_def ssl_line_def set_queue_def)
      with run Some wr 1 line show ?thesis by (intro implementsI [where taken = "[]" and tt' = ?tt]) auto
    qed
  next
    case 2
    let ?t2 = "push_head (is_writing tt) r (?t1\<lparr>is_handshake_completed := True\<rparr>)"
    have g: "gave tt [(Some r, bs)] ?t2"
      by (simp add: gave_def push_head_def push_wi_def set_queue_def)
    have t2: "tls ?t2 = Some s1" "wi_queues ?t2 write_wait_queue = rs" "retry_wb ?t2 = None" "should_retry ?t2 = None"
      "pre_wis ?t2 = pre_wis tt" "is_writing ?t2 = is_writing tt"
      using Cons.prems by (simp_all add: push_head_def push_wi_def set_queue_def)
    have "implements L U E (wi_line (pre_wis tt) rs) s1 ?t2 (c\<lparr>tran := Some ?t2\<rparr>) True
        (bio_loop L U E (is_writing tt) True (c\<lparr>tran := Some ?t2\<rparr>))"
      using Cons.IH [of "c\<lparr>tran := Some ?t2\<rparr>" ?t2 s1 True] t2 Cons.prems(6) by simp
    moreover have "bio_loop L U E (is_writing tt) flag c = bio_loop L U E (is_writing tt) True (c\<lparr>tran := Some ?t2\<rparr>)"
      using pop call get 2 len by (subst bio_loop.simps) (simp add: with_tt_def)
    ultimately show ?thesis using implements_Cons [OF wr 2 g] line by simp
  next
    case 3
    then have "bio_loop L U E (is_writing tt) flag c = None"
      using pop call get len by (subst bio_loop.simps) simp
    then show ?thesis using 3 wr line by (simp add: implements_def)
  qed
qed

lemma timer_start_tls [simp]:
  "tls (uv_timer_start E t n tt) = tls tt" "should_retry (uv_timer_start E t n tt) = should_retry tt"
  "retry_wb (uv_timer_start E t n tt) = retry_wb tt" "pre_wis (uv_timer_start E t n tt) = pre_wis tt"
  "wi_queues (uv_timer_start E t n tt) = wi_queues tt"
  by (simp_all add: uv_timer_start_def Let_def)

text \<open>The refused buffer, and then the loop.\<close>

definition line_run :: "'s ssl_lib \<Rightarrow> 's tls_user \<Rightarrow> uv_env \<Rightarrow> bool \<Rightarrow> 's tls_client \<Rightarrow> (bool \<times> bool \<times> 's tls_client) option" where
  "line_run L U E busy c =
     do { (go, flag, c1) \<leftarrow> retry_write L U E busy c;
          if \<not> go then Some (go, flag, c1)
          else do { tt \<leftarrow> tran c1; if retry_wb tt = None then bio_loop L U E busy flag c1 else Some (True, flag, c1) } }"

lemma line_run_offer:
  assumes tt: "tran c = Some tt" "tls tt = Some s" "should_retry tt \<noteq> None \<longrightarrow> retry_wb tt \<noteq> None"
    and buf: "\<forall>r \<in> set (wi_queues tt write_wait_queue). has_buf (pre_wis tt) r"
  shows "implements L U E (ssl_line tt) s tt c False (line_run L U E (is_writing tt) c)"
proof (cases "retry_wb tt")
  case None
  then have "line_run L U E (is_writing tt) c = bio_loop L U E (is_writing tt) False c"
    using tt by (simp add: line_run_def retry_write_def)
  with None bio_loop_offer [OF tt(1,2) refl None _ buf] tt(3) show ?thesis by (simp add: ssl_line_def)
next
  case (Some wb)
  let ?rest = "wi_line (pre_wis tt) (wi_queues tt write_wait_queue)"
  have line: "ssl_line tt = (should_retry tt, wb) # ?rest" using Some by (simp add: ssl_line_def)
  obtain ret s1 where wr: "SSL_write L (ssl_buf wb) s = (ret, s1)" by (cases "SSL_write L (ssl_buf wb) s")
  let ?t1 = "tt\<lparr>tls := Some s1\<rparr>"
  have call: "call_ssl (SSL_write L \<lparr>buf_base = Some wb, buf_len = of_nat (length wb)\<rparr>) c = Some (ret, c\<lparr>tran := Some ?t1\<rparr>)"
    using wr tt by (simp add: call_ssl_def with_tt_def ssl_buf_def)
  consider "ret = - 1" | "ret \<noteq> - 1" "ret = to_int (of_nat (length wb))" | "ret \<noteq> - 1" "ret \<noteq> to_int (of_nat (length wb))" by blast
  then show ?thesis
  proof cases
    case 1
    have err: "tls__get_error L (- 1) (c\<lparr>tran := Some ?t1\<rparr>) = map_option (\<lambda>oc. oc = Failed) (refusal L s1)"
      by (rule get_error_refusal [of _ ?t1]) simp_all
    have run: "line_run L U E (is_writing tt) c =
        Option.bind (refusal L s1) (\<lambda>oc. finish L U E oc False (c\<lparr>tran := Some (if oc = Failed then ?t1\<lparr>retry_wb := None\<rparr> else ?t1)\<rparr>))"
      using tt call Some 1 err unfolding line_run_def retry_write_def by (cases "refusal L s1") (simp_all add: finish_def with_tt_def)
    show ?thesis
    proof (cases "refusal L s1")
      case None
      then show ?thesis using run wr 1 line by (simp add: implements_def)
    next
      case (Some oc)
      let ?tt = "if oc = Failed then ?t1\<lparr>retry_wb := None\<rparr> else ?t1"
      have "gave tt [] ?tt" "tls ?tt = Some s1" "after_offer oc ((should_retry tt, wb) # ?rest) ?tt"
        using \<open>retry_wb tt = Some wb\<close> by (simp_all add: gave_def after_offer_def ssl_line_def)
      with run Some wr 1 line show ?thesis by (intro implementsI [where taken = "[]" and tt' = ?tt]) auto
    qed
  next
    case 2
    let ?t2 = "(settle_retry (push_head (is_writing tt)) (?t1\<lparr>is_handshake_completed := True\<rparr>))\<lparr>retry_wb := None\<rparr>"
    have "retry_write L U E (is_writing tt) c = Some (True, True, c\<lparr>tran := Some ?t2\<rparr>)"
      using tt call Some 2 unfolding retry_write_def settle_retry_def [symmetric] by (simp add: with_tt_def)
    then have run: "line_run L U E (is_writing tt) c = bio_loop L U E (is_writing tt) True (c\<lparr>tran := Some ?t2\<rparr>)"
      by (simp add: line_run_def)
    have t2: "tls ?t2 = Some s1" "wi_queues ?t2 write_wait_queue = wi_queues tt write_wait_queue" "should_retry ?t2 = None"
      "pre_wis ?t2 = pre_wis tt" "is_writing ?t2 = is_writing tt"
      by (simp_all add: settle_retry_def push_head_def push_wi_def set_queue_def split: option.split)
    have "gave tt [(should_retry tt, wb)] ?t2"
      by (simp add: gave_def settle_retry_def push_head_def push_wi_def set_queue_def split: option.split)
    moreover have "implements L U E ?rest s1 ?t2 (c\<lparr>tran := Some ?t2\<rparr>) True (bio_loop L U E (is_writing tt) True (c\<lparr>tran := Some ?t2\<rparr>))"
      using bio_loop_offer [of "c\<lparr>tran := Some ?t2\<rparr>" ?t2 s1 "wi_queues tt write_wait_queue" L U E True] t2 buf by simp
    ultimately show ?thesis using implements_Cons [OF wr 2] line run by simp
  next
    case 3
    then have "line_run L U E (is_writing tt) c = None"
      using tt call Some by (simp add: line_run_def retry_write_def)
    then show ?thesis using 3 wr line by (simp add: implements_def)
  qed
qed

definition write_ready :: "'s tr_uv_tls \<Rightarrow> 's tr_uv_tls" where
  "write_ready tt = (if tt_state tt = TR_UV_TCP_DONE then move_queue conn_pending_queue write_wait_queue tt else tt)"

lemma write_ready_fields [simp]:
  "tls (write_ready tt) = tls tt" "should_retry (write_ready tt) = should_retry tt" "retry_wb (write_ready tt) = retry_wb tt"
  "pre_wis (write_ready tt) = pre_wis tt" "is_writing (write_ready tt) = is_writing tt" "wq_mutex (write_ready tt) = wq_mutex tt"
  by (simp_all add: write_ready_def move_queue_def set_queue_def)

lemma write_to_bio_code:
  assumes tt: "tran c = Some tt" "tt_state tt \<noteq> TR_UV_TCP_NOT_CONN"
  shows "tls__write_to_bio L U E c = do {
      (go, flag, c1) \<leftarrow> line_run L U E (is_writing tt) (c\<lparr>tran := Some (write_ready tt)\<rparr>);
      if \<not> go then Some c1
      else do { c2 \<leftarrow> start_check E c1; if flag then tls__write_to_tcp L E c2 else Some c2 } }"
proof -
  have "(write_ready tt)\<lparr>wq_mutex := wq_mutex tt\<rparr> = write_ready tt" by (simp add: move_queue_mutex)
  then have pre: "do { c1 \<leftarrow> tt_lock c; c2 \<leftarrow> (if tt_state tt = TR_UV_TCP_DONE
      then with_tt (move_queue conn_pending_queue write_wait_queue) c1 else Some c1); tt_unlock c2 } = Some (c\<lparr>tran := Some (write_ready tt)\<rparr>)"
    using tt(1) by (auto simp: tt_lock_def tt_unlock_def with_tt_def move_queue_mutex write_ready_def)
  have "tls__write_to_bio L U E c = do {
      c3 \<leftarrow> do { c1 \<leftarrow> tt_lock c; c2 \<leftarrow> (if tt_state tt = TR_UV_TCP_DONE
        then with_tt (move_queue conn_pending_queue write_wait_queue) c1 else Some c1); tt_unlock c2 };
      (go, flag, c1) \<leftarrow> line_run L U E (is_writing tt) c3;
      if \<not> go then Some c1 else do { c2 \<leftarrow> start_check E c1; if flag then tls__write_to_tcp L E c2 else Some c2 } }"
    using tt by (auto simp: tls__write_to_bio_def line_run_def Let_def split_def intro!: Option.bind_cong)
  then show ?thesis unfolding pre by simp
qed

section \<open>The property\<close>


text \<open>
  C6. Writing to OpenSSL implements the line of buffers, whatever OpenSSL answers. A connected TLS
  transport whose items have data offers to OpenSSL the buffer that was refused before, unchanged, and
  then the write queue, with what waited for the handshake behind it when that is through, in order,
  until OpenSSL does not take one. The items of what was taken, in order, go to the writing queue, or
  wait for the socket while it is writing. If everything was taken, or a buffer has to be offered
  again, the abstract line of the state afterwards is exactly that buffer and what is behind it, so
  that nothing is offered twice after it was taken and nothing is skipped; the timeout check is
  scheduled, and only if something was taken the output of OpenSSL is written to the socket. If the
  connection has failed (\<open>SSL_ERROR_ZERO_RETURN\<close>, \<open>SSL_ERROR_SSL\<close>, \<open>SSL_ERROR_SYSCALL\<close>), the buffer is
  forgotten, its item stays the one to be retried, what is behind it stays queued, and the function ends
  with the report of the error. A result of \<open>SSL_write\<close> that is neither \<open>-1\<close> nor the length, which
  OpenSSL allows for a closed connection, aborts, and so does a reason that is none of these.
\<close>

theorem tls_writes_refine_line:
  assumes "tran c = Some tt" and "tls tt = Some s" and "tt_state tt \<noteq> TR_UV_TCP_NOT_CONN"
    and "should_retry tt \<noteq> None \<longrightarrow> retry_wb tt \<noteq> None"
  defines "t0 \<equiv> if tt_state tt = TR_UV_TCP_DONE then move_queue conn_pending_queue write_wait_queue tt else tt"
  assumes "\<forall>r \<in> set (wi_queues t0 write_wait_queue). has_buf (pre_wis tt) r"
  shows "case offer L (ssl_line t0) s of None \<Rightarrow> tls__write_to_bio L U E c = None
    | Some (taken, rest, oc, s') \<Rightarrow> \<exists>t1 tt'. gave t0 taken t1 \<and> tt' = (if oc = Failed then t1 else checked E t1) \<and>
        tls tt' = Some s' \<and> after_offer oc rest tt' \<and>
        tls__write_to_bio L U E c = (if oc = Failed then tls__emit_error_event L U E (c\<lparr>tran := Some tt'\<rparr>)
          else if taken = [] then Some (c\<lparr>tran := Some tt'\<rparr>) else tls__write_to_tcp L E (c\<lparr>tran := Some tt'\<rparr>))"
proof -
  let ?c0 = "c\<lparr>tran := Some t0\<rparr>"
  have t0: "t0 = write_ready tt" by (simp add: t0_def write_ready_def)
  have run: "implements L U E (ssl_line t0) s t0 ?c0 False (line_run L U E (is_writing t0) ?c0)"
    using assms(2,4,6) by (intro line_run_offer) (simp_all add: t0)
  have code: "tls__write_to_bio L U E c = do {
      (go, flag, c1) \<leftarrow> line_run L U E (is_writing t0) ?c0;
      if \<not> go then Some c1
      else do { c2 \<leftarrow> start_check E c1; if flag then tls__write_to_tcp L E c2 else Some c2 } }"
    using write_to_bio_code [OF assms(1,3), of L U E] by (simp add: t0)
  show ?thesis
  proof (cases "offer L (ssl_line t0) s")
    case None
    with run code show ?thesis by (simp add: implements_def)
  next
    case (Some res)
    obtain taken rest oc s' where res: "res = (taken, rest, oc, s')" by (cases res)
    then obtain t1 where fin: "line_run L U E (is_writing t0) ?c0 = finish L U E oc (taken \<noteq> []) (c\<lparr>tran := Some t1\<rparr>)"
      and g: "gave t0 taken t1" and t1: "tls t1 = Some s'" "after_offer oc rest t1"
      using run Some by (auto simp: implements_def)
    have "start_check E (c\<lparr>tran := Some t1\<rparr>) = Some (c\<lparr>tran := Some (checked E t1)\<rparr>)"
      using start_check_code [of "c\<lparr>tran := Some t1\<rparr>" t1 E] by simp
    then have "tls__write_to_bio L U E c = (if oc = Failed then tls__emit_error_event L U E (c\<lparr>tran := Some t1\<rparr>)
        else if taken = [] then Some (c\<lparr>tran := Some (checked E t1)\<rparr>) else tls__write_to_tcp L E (c\<lparr>tran := Some (checked E t1)\<rparr>))"
      unfolding code fin by (simp add: finish_def)
    moreover have "tls (checked E t1) = tls t1" "after_offer oc rest (checked E t1) = after_offer oc rest t1"
      by (simp_all add: checked_def after_offer_def ssl_line_def split: option.split)
    ultimately show ?thesis using Some res g t1
      by (auto intro!: exI [of _ t1])
  qed
qed

text \<open>An OpenSSL that takes \<open>n\<close> more buffers, and then gives a reason.\<close>

definition counting_ssl :: "int \<Rightarrow> nat ssl_lib" where
  "counting_ssl why = \<lparr>SSL_set_verify = (\<lambda>_ n. n), SSL_set_connect_state = (\<lambda>n. n),
     SSL_write = (\<lambda>b n. if n = 0 then (- 1, 0) else (to_int (buf_len b), n - 1)),
     SSL_read = (\<lambda>_ n. (- 1, [], n)), SSL_get_error = (\<lambda>_ _. why), SSL_shutdown = (\<lambda>n. n), SSL_clear = (\<lambda>n. n),
     BIO_write_in = (\<lambda>_ n. n), BIO_out = (\<lambda>_. []), BIO_reset_in = (\<lambda>n. (1, n)), BIO_reset_out = (\<lambda>n. (1, n))\<rparr>"

definition retrying_tt :: "nat tr_uv_tls" where
  "retrying_tt = (tr_uv_tcp.extend (zero_tt\<lparr>tt_state := TR_UV_TCP_DONE, pre_wis := new_pool 2 (zero_wi\<lparr>wi_buf := ssl_buf [7]\<rparr>),
     wi_queues := (\<lambda>q. if q = write_wait_queue then [Pre 1] else [])\<rparr>)
     (tr_uv_tls.fields (Some 1) True (Some [5, 6]) (Some (Pre 0)) []))"

theorem tls_writes_refine_line_witness:
  "(\<exists>tt'. tls__write_to_bio (counting_ssl SSL_ERROR_WANT_READ) (script_user (tls_ops (counting_ssl SSL_ERROR_WANT_READ) example_env []) (\<lambda>_. []) 1) example_env
      (zeroed_client\<lparr>tran := Some retrying_tt\<rparr>) =
    tls__write_to_tcp (counting_ssl SSL_ERROR_WANT_READ) example_env (zeroed_client\<lparr>tran := Some tt'\<rparr>) \<and>
    ssl_line tt' = [(Some (Pre 1), [7])] \<and> wi_queues tt' writing_queue = [Pre 0]) \<and>
   (\<exists>tt'. tls__write_to_bio (counting_ssl SSL_ERROR_SYSCALL) (script_user (tls_ops (counting_ssl SSL_ERROR_SYSCALL) example_env []) (\<lambda>_. []) 1) example_env
      (zeroed_client\<lparr>tran := Some retrying_tt\<rparr>) =
    tls__emit_error_event (counting_ssl SSL_ERROR_SYSCALL) (script_user (tls_ops (counting_ssl SSL_ERROR_SYSCALL) example_env []) (\<lambda>_. []) 1) example_env
      (zeroed_client\<lparr>tran := Some tt'\<rparr>) \<and>
    should_retry tt' = Some (Pre 1) \<and> retry_wb tt' = None \<and> wi_queues tt' writing_queue = [Pre 0])"
proof -
  let ?c = "zeroed_client\<lparr>tran := Some retrying_tt\<rparr>"
  let ?t0 = "move_queue conn_pending_queue write_wait_queue retrying_tt"
  let ?U = "\<lambda>why. script_user (tls_ops (counting_ssl why) example_env []) (\<lambda>_. []) 1"
  have tt: "tran ?c = Some retrying_tt" "tls retrying_tt = Some 1" "tt_state retrying_tt = TR_UV_TCP_DONE"
    "retry_wb retrying_tt = Some [5, 6]" "should_retry retrying_tt = Some (Pre 0)" "\<not> is_writing retrying_tt"
    "wi_queues retrying_tt write_wait_queue = [Pre 1]" "wi_queues retrying_tt conn_pending_queue = []"
    "wi_queues retrying_tt writing_queue = []"
    by (simp_all add: retrying_tt_def zero_tt_def tr_uv_tcp.extend_def tr_uv_tls.fields_def)
  have get: "pool_get (pre_wis retrying_tt) (Pre 1) = Some (zero_wi\<lparr>wi_buf := ssl_buf [7]\<rparr>)" by code_simp
  have buf: "\<forall>r \<in> set (wi_queues ?t0 write_wait_queue). has_buf (pre_wis retrying_tt) r"
    using get tt by (auto simp: has_buf_def move_queue_def set_queue_def)
  have line: "ssl_line ?t0 = [(Some (Pre 0), [5, 6]), (Some (Pre 1), [7])]"
    using get tt by (simp add: ssl_line_def move_queue_def set_queue_def ssl_buf_def)
  have offers: "offer (counting_ssl SSL_ERROR_WANT_READ) (ssl_line ?t0) 1 = Some ([(Some (Pre 0), [5, 6])], [(Some (Pre 1), [7])], Refused, 0)"
    "offer (counting_ssl SSL_ERROR_SYSCALL) (ssl_line ?t0) 1 = Some ([(Some (Pre 0), [5, 6])], [(Some (Pre 1), [7])], Failed, 0)"
    by (simp_all add: line counting_ssl_def ssl_buf_def to_int_def refusal_def)
  note use = tls_writes_refine_line [OF tt(1,2), of "counting_ssl why" "?U why" example_env for why]
  have moved: "wi_queues ?t0 writing_queue = []" "\<not> is_writing ?t0" using tt by (simp_all add: move_queue_def set_queue_def)
  have checked: "wi_queues (checked example_env t) = wi_queues t" for t :: "nat tr_uv_tls"
    by (simp add: checked_def)
  show ?thesis
    using use [of SSL_ERROR_WANT_READ] use [of SSL_ERROR_SYSCALL] tt(3-5) buf moved
    unfolding tt(3) simp_thms if_True offers option.case prod.case
    by (auto simp: gave_def after_offer_def checked)
qed

end
