(* ===== verification/Spec2Isabelle.thy ===== *)
theory Spec2Isabelle
  imports Pkg Queue Flags Lib ClientProps JsonRoundtrip PbWire MsgProps TcpTiming TcpQueues TcpReads TlsWrites
begin

text \<open>
  libpomelo2, the client library of the Pomelo game server framework: the model and the
  properties of its C sources.

  \<^bold>\<open>The program.\<close> A user creates a client (\<open>src/pc_pomelo.c\<close>), connects it, sends requests and
  notifies and registers event handlers. The client keeps what it has sent in two queues until
  its transport reports the outcome through \<open>src/pc_trans.c\<close>; in polling mode the reports are
  queued as events that the user's thread delivers later. A transport is a plugin
  (\<open>src/pc_trans_repo.c\<close>): the dummy answers everything at once (\<open>src/tr/dummy\<close>), the TCP transport
  (\<open>src/tr/uv/tr_uv_tcp_i.c\<close>, \<open>tr_uv_tcp_aux.c\<close>) runs a libuv loop in a thread of its own: it connects
  and reconnects with back-off, negotiates a handshake, keeps a heartbeat, queues write items and
  times them out. The TLS transport (\<open>tr_uv_tls_i.c\<close>, \<open>tr_uv_tls_aux.c\<close>) is the TCP transport with
  some callbacks replaced: it puts OpenSSL between the queues and the socket. What they write are
  packages (\<open>pr_pkg.c\<close>) around messages (\<open>pr_msg.c\<close>) whose bodies are JSON (\<open>src/pc_JSON.c\<close>)
  or protobuf (\<open>pb_encode.c\<close>, \<open>pb_decode.c\<close>).

  \<^bold>\<open>Conventions.\<close> An operation of type \<open>'a option\<close> is \<open>None\<close> where the C program does not go on: a
  failed \<open>assert\<close>, an access outside a buffer, a null or dangling pointer used, an overflow of \<open>int\<close>. Error codes
  and NULL results are ordinary values. Machine integers are words where they wrap or are used as
  bits, \<open>int\<close> otherwise; strings are character lists without the terminator, buffers are byte lists
  with bounds-checked access. User callbacks are arguments, transformers of the client that may
  call every entry point again.

  \<^bold>\<open>Theories.\<close>
    \<^item> \<open>Prelude\<close>: machine types, buffers, strings, automation.
    \<^item> \<open>Lib\<close>: constants and name tables of \<open>pomelo.h\<close>, \<open>pc_lib.c\<close>, the plugin table.
    \<^item> \<open>Queue\<close>: the intrusive doubly linked lists of \<open>queue.h\<close>, related to lists; \<open>Flags\<close>: the type
      words with their fields; \<open>Pool\<close>: slots with a heap to fall back on (locale \<open>slot_pool\<close>,
      interpreted for requests, notifies, events and write items).
    \<^item> \<open>Pkg\<close>: the package parser as a refinement of splitting a byte stream, and the encoder.
    \<^item> \<open>Client\<close>, \<open>Trans\<close>, \<open>Api\<close>: the client object, the reports, the entry points. \<open>client_inv\<close> says
      that every accepted request and notify is queued or settled and that no slot leaks;
      \<open>ApiInv\<close> proves it for every entry point and every transport and user that keep it (locales
      \<open>client_user\<close>, \<open>client_world\<close>), \<open>Script\<close> interprets them for the dummy transport and users whose
      callbacks are scripts of calls, \<open>ClientProps\<close> states the properties: the accounting of requests
      and notifies, the state table of the events, polling as deferred delivery, cleanup.
      Where a property restricts the callbacks it says how (\<open>looking_user\<close>: they change nothing).
    \<^item> \<open>Double\<close>: the binary64 arithmetic that \<open>pc_JSON.c\<close> uses; \<open>Json\<close>: tree, parser, printer;
      \<open>JsonProps\<close>, \<open>JsonRoundtrip\<close>: termination, memory safety, typing, parse after print (\<open>printable\<close>
      trees, whose numbers are integers).
    \<^item> \<open>Pb\<close>: protobuf encoder and decoder; \<open>PbProps\<close>, \<open>PbWire\<close>: scalars round trip, the encoder
      implements a pure wire format; \<open>Msg\<close>, \<open>MsgProps\<close>: the message layer and its round trip,
      up to the white space of the text.
    \<^item> \<open>Tcp\<close>: the TCP transport over the client, with the event loop as a list of events;
      \<open>ClientRel\<close>: relations that every entry point keeps when callbacks and transport do;
      \<open>TcpInv\<close>: write items are in exactly one queue, and every open request has one; \<open>TcpSteps\<close> proves
      it for every callback of the loop (locale \<open>tcp_callbacks\<close>), for transports that extend the TCP
      transport and hold items of their own, too, and that the package handler is one as the parser wants
      it (locale \<open>tcp_reader\<close>); \<open>TcpProps\<close> has it for every reachable state,
      with the reset that settles everything; \<open>TcpReads\<close>: a chunk that is read is its packages handled in
      order, and a response reaches its request; \<open>TcpTiming\<close>: reconnection delays and the heartbeat;
      \<open>TcpQueues\<close>: what a write batch and a timeout check do, and three ways to go wrong.
    \<^item> \<open>Tls\<close>: the TLS transport, a record extension of the TCP transport that uses its functions, over
      OpenSSL as an argument (\<open>ssl_lib\<close>, \<open>ssl_ctx_lib\<close>: transformers of a state of which nothing is
      known); \<open>TlsInv\<close>: its write items under every callback (locale \<open>tls_callbacks\<close>); \<open>TlsProps\<close>:
      reachable states, the reset, a failing initialisation; \<open>TlsWrites\<close>: what is given to OpenSSL, as
      a line of buffers of which a prefix is taken, whatever OpenSSL answers.

  \<^bold>\<open>Fuel and loops.\<close> Loops over data are structural. The feed loop of the packages and the loops over
  queues that callbacks may extend are \<open>partial_function (option)\<close>, with theorems that they return;
  so are the loops around \<open>SSL_write\<close>, which goes once through the line, and \<open>SSL_read\<close>, which goes on as
  long as OpenSSL has plain text, so that only safety is claimed of it. The JSON parser recurses with fuel
  one above the length of the text and with an argument that says what running out of it returns;
  \<open>json_parse_terminates\<close> shows that this argument never matters; the printer's fuel is the height of the tree; protobuf recursion is bounded
  by the fuel of \<open>pc_pb_encode\<close> and \<open>pc_pb_decode\<close>, the height of the message and the length of the input.

  \<^bold>\<open>Threads.\<close> The loop thread and the user's threads are interleaved callback by callback and call by
  call; data races inside them are not modelled.

  \<^bold>\<open>Not modelled.\<close> libuv and OpenSSL themselves, which are third-party code and arguments of the model
  (of libuv the timers and async handles are modelled); the language bindings, which only convert
  arguments; logging, with the info callback of OpenSSL; the build files, tests and tools.
\<close>

end
